(* ===== verification/Prelude.thy ===== *)
theory Prelude
  imports Main "HOL-Library.Word" "HOL-Library.AList" "HOL-Library.Sublist"
begin

text \<open>
  The vocabulary the whole development shares: machine integers at the widths the Rust
  code uses with its saturating and checked operations, association lists as SQLite
  tables, first-match search, and the three interface locales (an enum spelled as text,
  a table written by \<open>INSERT .. ON CONFLICT DO UPDATE\<close>, an allocator of the lowest free
  number) that the component theories interpret on their own definitions.
\<close>

named_theorems word_nat \<open>facts that read a word operation as one on natural numbers\<close>
named_theorems text_simps \<open>rewriting of the Rust string operations\<close>
named_theorems row_simps \<open>lookups in a table after a write\<close>

section \<open>Machine integers\<close>

type_synonym u8 = "8 word"
type_synonym u16 = "16 word"
type_synonym u32 = "32 word"
type_synonym u64 = "64 word"

text \<open>\<open>uN::MAX\<close>, and Rust's \<open>saturating_add\<close>, \<open>saturating_sub\<close>, \<open>saturating_mul\<close>.\<close>

definition word_top :: "'a::len word" where
  "word_top = - 1"

definition sat_add :: "'a::len word \<Rightarrow> 'a word \<Rightarrow> 'a word" where
  "sat_add a b = (if unat a + unat b < 2 ^ LENGTH('a) then a + b else word_top)"

definition sat_sub :: "'a::len word \<Rightarrow> 'a word \<Rightarrow> 'a word" where
  "sat_sub a b = (if a < b then 0 else a - b)"

definition sat_mul :: "'a::len word \<Rightarrow> 'a word \<Rightarrow> 'a word" where
  "sat_mul a b = (if unat a * unat b < 2 ^ LENGTH('a) then a * b else word_top)"

lemma unat_word_top [word_nat]: "unat (word_top :: 'a::len word) = 2 ^ LENGTH('a) - 1"
  by (simp add: word_top_def unsigned_minus_1_eq_mask mask_eq_exp_minus_1)

lemma unat_sat_add [word_nat]:
  "unat (sat_add a b) = min (unat a + unat b) (2 ^ LENGTH('a) - 1)"
  for a b :: "'a::len word"
  by (auto simp: sat_add_def unat_word_top unat_add_lem [THEN iffD1] min_def)

lemma unat_sat_sub [word_nat]: "unat (sat_sub a b) = unat a - unat b"
  by (auto simp: sat_sub_def unat_sub_if_size word_less_nat_alt word_size)

lemma unat_below_exp: "unat (a :: 'a::len word) < 2 ^ LENGTH('a)"
  by (rule unsigned_less)

lemma unat_below_top: "unat (a :: 'a::len word) \<le> 2 ^ LENGTH('a) - 1"
  using unat_below_exp [of a] by linarith

lemma unat_sat_mul [word_nat]:
  "unat (sat_mul a b) = min (unat a * unat b) (2 ^ LENGTH('a) - 1)"
  for a b :: "'a::len word"
proof (cases "unat a * unat b < 2 ^ LENGTH('a)")
  case True
  then have "unat (a * b) = unat a * unat b"
    by (simp add: unat_mult_lem [THEN iffD1])
  then show ?thesis
    using True unat_below_top [of "a * b"] by (simp add: sat_mul_def)
next
  case False
  then have "2 ^ LENGTH('a) - 1 \<le> unat a * unat b" by linarith
  with False show ?thesis by (simp add: sat_mul_def unat_word_top min_absorb2)
qed

lemma sat_add_mono: "a \<le> a' \<Longrightarrow> b \<le> b' \<Longrightarrow> sat_add a b \<le> sat_add a' b'"
  for a b :: "'a::len word"
  by (simp add: word_le_nat_alt unat_sat_add min_def)

lemma sat_sub_le [simp]: "sat_sub a b \<le> a"
  by (simp add: word_le_nat_alt unat_sat_sub)

lemma sat_add_0 [simp]: "sat_add 0 b = b" "sat_add a 0 = a"
  by (simp_all add: sat_add_def unat_below_exp)

lemma unat_of_nat_small: "n < 2 ^ LENGTH('a) \<Longrightarrow> unat (of_nat n :: 'a::len word) = n"
  by (simp add: unat_of_nat)

section \<open>Pairs of a result and the state after it\<close>

lemma pair_of_fst: "fst p = a \<Longrightarrow> p = (a, snd p)"
  by (cases p) simp

section \<open>First match\<close>

text \<open>Rust's \<open>find_map\<close> over a list (\<open>find\<close> is \<^const>\<open>List.find\<close>).\<close>

fun find_map :: "('a \<Rightarrow> 'b option) \<Rightarrow> 'a list \<Rightarrow> 'b option" where
  "find_map f [] = None"
| "find_map f (x # xs) = (case f x of Some y \<Rightarrow> Some y | None \<Rightarrow> find_map f xs)"

lemma find_map_SomeD: "find_map f xs = Some y \<Longrightarrow> \<exists>x\<in>set xs. f x = Some y"
  by (induction xs) (auto split: option.splits)

lemma find_map_None_iff: "find_map f xs = None \<longleftrightarrow> (\<forall>x\<in>set xs. f x = None)"
  by (induction xs) (auto split: option.splits)

lemma list_ex_edited:
  assumes "\<And>r. P (f r) = P r"
  shows "list_ex P (map (\<lambda>r. if c r then f r else r) rows) = list_ex P rows"
  using assms by (induction rows) auto

lemma find_SomeD: "List.find P xs = Some x \<Longrightarrow> x \<in> set xs \<and> P x"
  by (induction xs) (auto split: if_splits)

lemma set_map_filter: "y \<in> set (List.map_filter f xs) \<longleftrightarrow> (\<exists>x\<in>set xs. f x = Some y)"
  by (induction xs) (auto simp: map_filter_simps split: option.splits)

lemma map_filter_append: "List.map_filter f (xs @ ys) = List.map_filter f xs @ List.map_filter f ys"
  by (simp add: List.map_filter_def)

section \<open>Enums spelled as text\<close>

text \<open>
  Almost every enum of the program is stored as a word and read back with a fallback for
  what this version does not know. The contract is the same each time: what is written is
  what is read, and anything that is no spelling reads as the fallback.
\<close>

locale spelled =
  fixes as_str :: "'e \<Rightarrow> string"
    and parse :: "string \<Rightarrow> 'e"
    and fallback :: 'e
  assumes parse_as_str: "parse (as_str e) = e"
    and parse_unknown: "t \<notin> range as_str \<Longrightarrow> parse t = fallback"
begin

lemma as_str_inject: "as_str a = as_str b \<longleftrightarrow> a = b"
  by (metis parse_as_str)

lemma parse_cases: "parse t = fallback \<or> as_str (parse t) = t"
  using parse_as_str parse_unknown by (metis rangeE)

lemma parse_not_fallback: "parse t \<noteq> fallback \<Longrightarrow> t = as_str (parse t)"
  using parse_cases by metis

end

text \<open>Where the values are ordered by how much they allow, the fallback is the least.\<close>

locale least_spelled = spelled as_str parse fallback
  for as_str :: "'e::linorder \<Rightarrow> string" and parse and fallback +
  assumes fallback_least: "fallback \<le> e"
begin

lemma parse_grants_no_more: "t \<noteq> as_str e \<Longrightarrow> parse t = e \<Longrightarrow> e = fallback"
  using parse_cases by metis

lemma parse_at_least: "r \<le> parse t \<Longrightarrow> r = fallback \<or> (\<exists>e\<ge>r. t = as_str e)"
  using parse_cases fallback_least by (metis order_antisym)

end

section \<open>Tables\<close>

text \<open>
  A table with a primary key is an association list from the key to the rest of the row,
  in insertion order; \<^const>\<open>AList.update\<close> is \<open>INSERT .. ON CONFLICT (key) DO UPDATE\<close>,
  which leaves a row that was there in its place. \<open>delete_where\<close> is \<open>DELETE .. WHERE\<close>.
\<close>

type_synonym ('k, 'r) table = "('k \<times> 'r) list"

abbreviation well_keyed :: "('k, 'r) table \<Rightarrow> bool" where
  "well_keyed t \<equiv> distinct (map fst t)"

definition delete_where :: "('k \<Rightarrow> 'r \<Rightarrow> bool) \<Rightarrow> ('k, 'r) table \<Rightarrow> ('k, 'r) table" where
  "delete_where P t = filter (\<lambda>(k, r). \<not> P k r) t"

lemma map_of_delete_where [row_simps]:
  assumes "well_keyed t"
  shows "map_of (delete_where P t) k =
    (case map_of t k of None \<Rightarrow> None | Some r \<Rightarrow> if P k r then None else Some r)"
  using assms
proof (induction t)
  case Nil
  then show ?case by (simp add: delete_where_def)
next
  case (Cons a t)
  have fresh: "map_of t (fst a) = None"
    using Cons.prems by (simp add: map_of_eq_None_iff image_comp)
  show ?case
    using Cons fresh
    by (cases a) (auto simp: delete_where_def split: option.splits)
qed

lemma well_keyed_delete_where [simp]: "well_keyed t \<Longrightarrow> well_keyed (delete_where P t)"
  by (simp add: delete_where_def distinct_map_filter)

lemma set_delete_where: "set (delete_where P t) = {(k, r) \<in> set t. \<not> P k r}"
  by (auto simp: delete_where_def)

lemma well_keyed_update [simp]: "well_keyed t \<Longrightarrow> well_keyed (AList.update k r t)"
  by (simp add: distinct_update)

lemma map_of_update [row_simps]:
  "map_of (AList.update k r t) k' = (if k' = k then Some r else map_of t k')"
  by (simp add: update_conv')

text \<open>
  The contract of such a table as its clients see it: a write under a key is what the next
  read of that key returns, and no other key moves. The key of a row is what the writer
  makes of the name it was handed (a hostname is normalised, a step is spelled).
\<close>

locale upsert_table =
  fixes key :: "'h \<Rightarrow> 'k"
    and put :: "'h \<Rightarrow> 'r \<Rightarrow> 's \<Rightarrow> 's"
    and get :: "'s \<Rightarrow> 'k \<Rightarrow> 'r option"
  assumes get_put: "get (put h r s) k = (if k = key h then Some r else get s k)"
begin

lemma get_put_same: "get (put h r s) (key h) = Some r"
  by (simp add: get_put)

lemma get_put_other: "k \<noteq> key h \<Longrightarrow> get (put h r s) k = get s k"
  by (simp add: get_put)

lemma put_overrides: "key h = key h' \<Longrightarrow> get (put h' r' (put h r s)) = get (put h' r' s)"
  by (rule ext) (simp add: get_put)

lemma put_commutes:
  "key h \<noteq> key h' \<Longrightarrow> get (put h r (put h' r' s)) = get (put h' r' (put h r s))"
  by (rule ext) (simp add: get_put)

lemma get_fold_put:
  "get (fold (\<lambda>(h, r). put h r) rows s) k =
    (case find (\<lambda>(h, r). key h = k) (rev rows) of
       Some (h, r) \<Rightarrow> Some r | None \<Rightarrow> get s k)"
proof (induction rows arbitrary: s rule: rev_induct)
  case Nil
  then show ?case by simp
next
  case (snoc x xs)
  then show ?case by (cases x) (auto simp: get_put)
qed

end

section \<open>The lowest free number of a range\<close>

text \<open>
  Host ports and overlay addresses are both handed out as the lowest number of a fixed
  range that nothing holds. What the callers rely on is only this contract.
\<close>

definition lowest_free :: "nat \<Rightarrow> nat \<Rightarrow> nat set \<Rightarrow> nat option" where
  "lowest_free lo hi taken = List.find (\<lambda>n. n \<notin> taken) [lo..<hi]"

locale allocator =
  fixes lo hi :: nat
    and pick :: "nat set \<Rightarrow> nat option"
  assumes pick_free: "pick taken = Some n \<Longrightarrow> lo \<le> n \<and> n < hi \<and> n \<notin> taken"
    and pick_lowest: "pick taken = Some n \<Longrightarrow> lo \<le> m \<Longrightarrow> m < n \<Longrightarrow> m \<in> taken"
    and pick_full: "pick taken = None \<Longrightarrow> {lo..<hi} \<subseteq> taken"
begin

lemma pick_None_iff: "pick taken = None \<longleftrightarrow> {lo..<hi} \<subseteq> taken"
  using pick_free [of taken] pick_full [of taken] by (cases "pick taken") auto

lemma pick_room: "finite taken \<Longrightarrow> card taken < hi - lo \<Longrightarrow> pick taken \<noteq> None"
proof (rule notI)
  assume fin: "finite taken" and room: "card taken < hi - lo" and "pick taken = None"
  then have "card {lo..<hi} \<le> card taken"
    by (metis card_mono pick_None_iff)
  with room show False by simp
qed

text \<open>What was just taken is never handed out twice.\<close>

lemma pick_fresh: "pick taken = Some n \<Longrightarrow> pick (insert n taken) = Some m \<Longrightarrow> n < m"
  using pick_free [of taken n] pick_free [of "insert n taken" m] pick_lowest [of taken n m]
  by (metis insertCI linorder_neqE_nat)

end

lemma lowest_free_Some:
  "lowest_free lo hi taken = Some n \<longleftrightarrow>
    lo \<le> n \<and> n < hi \<and> n \<notin> taken \<and> (\<forall>m. lo \<le> m \<longrightarrow> m < n \<longrightarrow> m \<in> taken)"
proof
  assume "lowest_free lo hi taken = Some n"
  then obtain i where i: "i < hi - lo" "n = lo + i" "lo + i \<notin> taken"
      "\<forall>j<i. lo + j \<in> taken"
    by (auto simp: lowest_free_def find_Some_iff)
  moreover have "m \<in> taken" if "lo \<le> m" "m < n" for m
    using i(2,4) that by (metis le_add_diff_inverse add_less_cancel_left)
  ultimately show "lo \<le> n \<and> n < hi \<and> n \<notin> taken \<and> (\<forall>m. lo \<le> m \<longrightarrow> m < n \<longrightarrow> m \<in> taken)"
    by auto
next
  assume r: "lo \<le> n \<and> n < hi \<and> n \<notin> taken \<and> (\<forall>m. lo \<le> m \<longrightarrow> m < n \<longrightarrow> m \<in> taken)"
  then show "lowest_free lo hi taken = Some n"
    by (auto simp: lowest_free_def find_Some_iff intro!: exI [of _ "n - lo"])
qed

lemma lowest_free_None: "lowest_free lo hi taken = None \<longleftrightarrow> {lo..<hi} \<subseteq> taken"
  by (auto simp: lowest_free_def find_None_iff)

lemma lowest_free_allocator: "allocator lo hi (lowest_free lo hi)"
  by unfold_locales (auto simp: lowest_free_Some lowest_free_None)

section \<open>The newest row\<close>

text \<open>
  \<open>ORDER BY \<dots> DESC, rowid DESC LIMIT 1\<close>: a table is the list of its rows in the order they
  were inserted, the sort is stable, so the newest is the last of the ascending sort.
\<close>

definition newest_by :: "('r \<Rightarrow> 'k::linorder) \<Rightarrow> 'r list \<Rightarrow> 'r option" where
  "newest_by f rows = (if rows = [] then None else Some (last (sort_key f rows)))"

lemma insort_key_snoc: "f y \<le> f x \<Longrightarrow> insort_key f y (xs @ [x]) = insort_key f y xs @ [x]"
  by (induction xs) auto

lemma sort_key_snoc: "\<forall>y\<in>set xs. f y \<le> f x \<Longrightarrow> sort_key f (xs @ [x]) = sort_key f xs @ [x]"
  by (induction xs) (auto simp: insort_key_snoc)

lemma newest_by_None [simp]: "newest_by f rows = None \<longleftrightarrow> rows = []"
  by (simp add: newest_by_def)

lemma newest_by_snoc: "\<forall>y\<in>set rows. f y \<le> f r \<Longrightarrow> newest_by f (rows @ [r]) = Some r"
  by (simp add: newest_by_def sort_key_snoc)

lemma newest_by_SomeD:
  assumes "newest_by f rows = Some r"
  shows "\<exists>earlier. sort_key f rows = earlier @ [r]"
proof -
  from assms have r: "r = last (sort_key f rows)" and ne: "rows \<noteq> []"
    by (auto simp: newest_by_def split: if_splits)
  from ne have "sort_key f rows \<noteq> []" by (metis length_0_conv length_sort)
  then show ?thesis using r by (intro exI [of _ "butlast (sort_key f rows)"]) simp
qed

lemma newest_by_mem: "newest_by f rows = Some r \<Longrightarrow> r \<in> set rows"
proof -
  assume "newest_by f rows = Some r"
  then obtain earlier where "sort_key f rows = earlier @ [r]" by (auto dest: newest_by_SomeD)
  then have "r \<in> set (sort_key f rows)" by simp
  then show "r \<in> set rows" by (simp only: set_sort)
qed

lemma newest_by_max: "newest_by f rows = Some r \<Longrightarrow> x \<in> set rows \<Longrightarrow> f x \<le> f r"
proof -
  assume "newest_by f rows = Some r" and x: "x \<in> set rows"
  then obtain earlier where e: "sort_key f rows = earlier @ [r]" by (auto dest: newest_by_SomeD)
  from x have "x \<in> set (sort_key f rows)" by (simp only: set_sort)
  moreover have "sorted (map f (earlier @ [r]))" unfolding e [symmetric] by (rule sorted_sort_key)
  ultimately show "f x \<le> f r" unfolding e by (auto simp: sorted_append)
qed

section \<open>A machine that keeps what it promises\<close>

text \<open>Any state with its operations; what every operation keeps, every run keeps.\<close>

locale kept_machine =
  fixes step :: "'op \<Rightarrow> 's \<Rightarrow> 's"
    and kept :: "'s \<Rightarrow> bool"
  assumes step_keeps: "kept s \<Longrightarrow> kept (step op s)"
begin

lemma run_keeps: "kept s \<Longrightarrow> kept (fold step ops s)"
  by (induction ops arbitrary: s) (simp_all add: step_keeps)

end

text \<open>The same where only some operations are asked for: those the guard lets through.\<close>

locale guarded_machine =
  fixes step :: "'op \<Rightarrow> 's \<Rightarrow> 's"
    and asked :: "'op \<Rightarrow> bool"
    and kept :: "'s \<Rightarrow> bool"
  assumes asked_keeps: "asked op \<Longrightarrow> kept s \<Longrightarrow> kept (step op s)"
begin

lemma run_asked_keeps: "list_all asked ops \<Longrightarrow> kept s \<Longrightarrow> kept (fold step ops s)"
  by (induction ops arbitrary: s) (simp_all add: asked_keeps)

end

sublocale kept_machine \<subseteq> guarded: guarded_machine step "\<lambda>_. True" kept
  by unfold_locales (rule step_keeps)

end
