(* ===== verification/Text.thy ===== *)
theory Text
  imports Prelude "HOL-Library.Char_ord" "HOL-Library.List_Lexorder"
begin

text \<open>
  The Rust string operations the program uses. A Rust \<open>str\<close> is modelled as a HOL \<open>string\<close>
  with one \<open>char\<close> per Rust \<open>char\<close>, so the texts covered are those over the code points
  up to U+00FF; \<open>len_utf8\<close> and \<open>byte_len\<close> give the bytes such a text takes, which is what
  Rust's \<open>len()\<close> counts. Whitespace is Unicode's \<open>White_Space\<close> within that range. The
  ASCII predicates, \<open>trim\<close>, \<open>split\<close>, \<open>split_once\<close>, \<open>strip_prefix\<close>, \<open>join\<close>, \<open>parse\<close> for
  unsigned integers and \<open>from_str_radix\<close> follow the standard library's documentation.
\<close>

section \<open>Characters\<close>

abbreviation code_of :: "char \<Rightarrow> nat" where
  "code_of c \<equiv> of_char c"

definition is_whitespace :: "char \<Rightarrow> bool" where
  "is_whitespace c \<longleftrightarrow>
    (9 \<le> code_of c \<and> code_of c \<le> 13) \<or> code_of c = 32 \<or> code_of c = 133 \<or> code_of c = 160"

definition is_digit :: "char \<Rightarrow> bool" where
  "is_digit c \<longleftrightarrow> 48 \<le> code_of c \<and> code_of c \<le> 57"

definition is_upper :: "char \<Rightarrow> bool" where
  "is_upper c \<longleftrightarrow> 65 \<le> code_of c \<and> code_of c \<le> 90"

definition is_lower :: "char \<Rightarrow> bool" where
  "is_lower c \<longleftrightarrow> 97 \<le> code_of c \<and> code_of c \<le> 122"

definition is_alphanumeric :: "char \<Rightarrow> bool" where
  "is_alphanumeric c \<longleftrightarrow> is_digit c \<or> is_upper c \<or> is_lower c"

definition is_hexdigit :: "char \<Rightarrow> bool" where
  "is_hexdigit c \<longleftrightarrow> is_digit c \<or> (65 \<le> code_of c \<and> code_of c \<le> 70) \<or>
    (97 \<le> code_of c \<and> code_of c \<le> 102)"

definition to_lower :: "char \<Rightarrow> char" where
  "to_lower c = (if is_upper c then char_of (code_of c + 32) else c)"

definition len_utf8 :: "char \<Rightarrow> nat" where
  "len_utf8 c = (if code_of c < 128 then 1 else 2)"

definition byte_len :: "string \<Rightarrow> nat" where
  "byte_len s = sum_list (map len_utf8 s)"

lemmas char_class_defs =
  is_whitespace_def is_digit_def is_upper_def is_lower_def is_alphanumeric_def

lemma code_of_to_lower:
  "code_of (to_lower c) = (if is_upper c then code_of c + 32 else code_of c)"
proof (cases "is_upper c")
  case True
  then have "code_of c + 32 < 256" by (simp add: is_upper_def)
  with True show ?thesis by (simp add: to_lower_def of_char_of)
next
  case False
  then show ?thesis by (simp add: to_lower_def)
qed

lemma to_lower_not_upper [simp]: "\<not> is_upper (to_lower c)"
  by (simp add: is_upper_def code_of_to_lower)

lemma to_lower_idem [simp]: "to_lower (to_lower c) = to_lower c"
  by (simp add: to_lower_def [of "to_lower c"])

lemma to_lower_id [simp]: "\<not> is_upper c \<Longrightarrow> to_lower c = c"
  by (simp add: to_lower_def)

lemma is_whitespace_to_lower [simp]: "is_whitespace (to_lower c) = is_whitespace c"
  by (auto simp: is_whitespace_def code_of_to_lower is_upper_def)

lemma is_digit_to_lower [simp]: "is_digit (to_lower c) = is_digit c"
  by (auto simp: is_digit_def code_of_to_lower is_upper_def)

lemma len_utf8_to_lower [simp]: "len_utf8 (to_lower c) = len_utf8 c"
  by (auto simp: len_utf8_def code_of_to_lower is_upper_def)

lemma to_lower_eq_iff:
  "\<not> is_upper d \<Longrightarrow> \<not> is_lower d \<Longrightarrow> to_lower c = d \<longleftrightarrow> c = d"
  using code_of_to_lower [of c] by (auto simp: is_upper_def is_lower_def split: if_splits)

section \<open>Whole texts\<close>

definition lowercase :: "string \<Rightarrow> string" where
  "lowercase s = map to_lower s"

definition starts_with :: "string \<Rightarrow> string \<Rightarrow> bool" where
  "starts_with p s \<longleftrightarrow> take (length p) s = p"

definition ends_with :: "string \<Rightarrow> string \<Rightarrow> bool" where
  "ends_with p s \<longleftrightarrow> starts_with (rev p) (rev s)"

definition strip_prefix :: "string \<Rightarrow> string \<Rightarrow> string option" where
  "strip_prefix p s = (if starts_with p s then Some (drop (length p) s) else None)"

definition strip_suffix :: "string \<Rightarrow> string \<Rightarrow> string option" where
  "strip_suffix p s = (if ends_with p s then Some (take (length s - length p) s) else None)"

definition trim_end_matches :: "(char \<Rightarrow> bool) \<Rightarrow> string \<Rightarrow> string" where
  "trim_end_matches P s = rev (dropWhile P (rev s))"

definition trim_matches :: "(char \<Rightarrow> bool) \<Rightarrow> string \<Rightarrow> string" where
  "trim_matches P s = trim_end_matches P (dropWhile P s)"

definition trim :: "string \<Rightarrow> string" where
  "trim = trim_matches is_whitespace"

fun split_on :: "char \<Rightarrow> string \<Rightarrow> string list" where
  "split_on c [] = [[]]"
| "split_on c (x # xs) =
    (if x = c then [] # split_on c xs
     else (case split_on c xs of [] \<Rightarrow> [[x]] | p # ps \<Rightarrow> (x # p) # ps))"

fun join_with :: "string \<Rightarrow> string list \<Rightarrow> string" where
  "join_with sep [] = []"
| "join_with sep [x] = x"
| "join_with sep (x # y # xs) = x @ sep @ join_with sep (y # xs)"

fun split_once :: "char \<Rightarrow> string \<Rightarrow> (string \<times> string) option" where
  "split_once c [] = None"
| "split_once c (x # xs) =
    (if x = c then Some ([], xs)
     else (case split_once c xs of None \<Rightarrow> None | Some (a, b) \<Rightarrow> Some (x # a, b)))"

definition rsplit_once :: "char \<Rightarrow> string \<Rightarrow> (string \<times> string) option" where
  "rsplit_once c s =
    (case split_once c (rev s) of None \<Rightarrow> None | Some (b, a) \<Rightarrow> Some (rev a, rev b))"

text \<open>\<open>split_whitespace\<close>: the maximal runs of characters that are not whitespace.\<close>

fun words_from :: "string \<Rightarrow> string \<Rightarrow> string list" where
  "words_from cur [] = (if cur = [] then [] else [rev cur])"
| "words_from cur (x # xs) =
    (if is_whitespace x then (if cur = [] then words_from [] xs else rev cur # words_from [] xs)
     else words_from (x # cur) xs)"

definition split_whitespace :: "string \<Rightarrow> string list" where
  "split_whitespace s = words_from [] s"

definition contains_text :: "string \<Rightarrow> string \<Rightarrow> bool" where
  "contains_text p s \<longleftrightarrow> list_ex (starts_with p) (suffixes s)"

section \<open>Numbers as text\<close>

definition digit_char :: "nat \<Rightarrow> char" where
  "digit_char d = char_of (48 + d)"

fun show_nat :: "nat \<Rightarrow> string" where
  "show_nat n = (if n < 10 then [digit_char n] else show_nat (n div 10) @ [digit_char (n mod 10)])"

declare show_nat.simps [simp del]

definition digits_val :: "string \<Rightarrow> nat" where
  "digits_val s = foldl (\<lambda>n c. 10 * n + (code_of c - 48)) 0 s"

text \<open>\<open>uN::from_str\<close>: an optional \<open>+\<close>, at least one digit, no overflow of the type.\<close>

definition parse_uint :: "nat \<Rightarrow> string \<Rightarrow> nat option" where
  "parse_uint bound s =
    (let ds = (case strip_prefix ''+'' s of Some r \<Rightarrow> r | None \<Rightarrow> s) in
     if ds \<noteq> [] \<and> list_all is_digit ds \<and> digits_val ds < bound then Some (digits_val ds) else None)"

definition hex_digit_val :: "char \<Rightarrow> nat" where
  "hex_digit_val c =
    (if is_digit c then code_of c - 48
     else if 65 \<le> code_of c \<and> code_of c \<le> 70 then code_of c - 55 else code_of c - 87)"

definition hex_val :: "string \<Rightarrow> nat" where
  "hex_val s = foldl (\<lambda>n c. 16 * n + hex_digit_val c) 0 s"

text \<open>\<open>uN::from_str_radix(_, 16)\<close>, which also takes an optional \<open>+\<close>.\<close>

definition parse_hex :: "nat \<Rightarrow> string \<Rightarrow> nat option" where
  "parse_hex bound s =
    (let ds = (case strip_prefix ''+'' s of Some r \<Rightarrow> r | None \<Rightarrow> s) in
     if ds \<noteq> [] \<and> list_all is_hexdigit ds \<and> hex_val ds < bound then Some (hex_val ds) else None)"

definition hex_upper_char :: "nat \<Rightarrow> char" where
  "hex_upper_char d = (if d < 10 then char_of (48 + d) else char_of (55 + d))"

text \<open>\<open>format!("{:0wX}")\<close>: at least \<open>w\<close> upper-case digits, more when the number needs them.\<close>

function show_hex_min :: "nat \<Rightarrow> nat \<Rightarrow> string" where
  "show_hex_min w n =
    (if w \<le> 1 \<and> n < 16 then [hex_upper_char n]
     else show_hex_min (w - 1) (n div 16) @ [hex_upper_char (n mod 16)])"
  by pat_completeness auto
termination
  by (relation "measure (\<lambda>(w, n). w + n)") auto

declare show_hex_min.simps [simp del]

section \<open>Lemmas\<close>

subsection \<open>Case and trimming\<close>

lemma lowercase_simps [text_simps, simp]:
  "lowercase [] = []"
  "lowercase (x # xs) = to_lower x # lowercase xs"
  "lowercase (a @ b) = lowercase a @ lowercase b"
  by (simp_all add: lowercase_def)

lemma lowercase_idem [text_simps, simp]: "lowercase (lowercase s) = lowercase s"
  by (simp add: lowercase_def)

lemma lowercase_id: "list_all (\<lambda>c. \<not> is_upper c) s \<Longrightarrow> lowercase s = s"
  by (induction s) auto

lemma length_lowercase [simp]: "length (lowercase s) = length s"
  by (simp add: lowercase_def)

lemma byte_len_lowercase [simp]: "byte_len (lowercase s) = byte_len s"
  by (simp add: byte_len_def lowercase_def comp_def)

lemma lowercase_eq_Nil [simp]: "lowercase s = [] \<longleftrightarrow> s = []"
  by (simp add: lowercase_def)

lemma trim_end_idem [simp]: "trim_end_matches P (trim_end_matches P s) = trim_end_matches P s"
  by (simp add: trim_end_matches_def)

lemma trim_end_id: "s = [] \<or> \<not> P (last s) \<Longrightarrow> trim_end_matches P s = s"
  by (cases s rule: rev_cases) (auto simp: trim_end_matches_def)

lemma last_trim_end: "trim_end_matches P s \<noteq> [] \<Longrightarrow> \<not> P (last (trim_end_matches P s))"
  by (metis hd_dropWhile hd_rev rev_is_Nil_conv rev_rev_ident trim_end_matches_def)

lemma set_trim_end: "set (trim_end_matches P s) \<subseteq> set s"
  by (metis set_dropWhileD set_rev subsetI trim_end_matches_def)

lemma trim_end_prefix: "\<exists>t. s = trim_end_matches P s @ t \<and> list_all P t"
proof -
  have "rev s = takeWhile P (rev s) @ dropWhile P (rev s)" by simp
  then have "s = rev (dropWhile P (rev s)) @ rev (takeWhile P (rev s))"
    by (metis rev_append rev_rev_ident)
  then show ?thesis
    by (metis list_all_iff set_rev set_takeWhileD trim_end_matches_def)
qed

lemma trim_matches_id:
  "s = [] \<or> \<not> P (hd s) \<and> \<not> P (last s) \<Longrightarrow> trim_matches P s = s"
  by (cases s) (auto simp: trim_matches_def trim_end_id)

lemma trim_id: "s = [] \<or> \<not> is_whitespace (hd s) \<and> \<not> is_whitespace (last s) \<Longrightarrow> trim s = s"
  by (simp add: trim_def trim_matches_id)

lemma trim_plain: "list_all (\<lambda>c. \<not> is_whitespace c) s \<Longrightarrow> trim s = s"
  by (rule trim_id) (cases s; simp add: list_all_iff)

lemma hd_trim_end: "trim_end_matches P s \<noteq> [] \<Longrightarrow> hd (trim_end_matches P s) = hd s"
  using trim_end_prefix [of s P] by (metis hd_append2)

lemma trim_matches_ends:
  assumes "trim_matches P s \<noteq> []"
  shows "\<not> P (hd (trim_matches P s)) \<and> \<not> P (last (trim_matches P s))"
proof
  have "dropWhile P s = [] \<Longrightarrow> trim_matches P s = []"
    by (simp only: trim_matches_def trim_end_matches_def rev.simps(1) dropWhile.simps(1))
  with assms have ne: "dropWhile P s \<noteq> []" by blast
  then have "\<not> P (hd (dropWhile P s))" by (rule hd_dropWhile)
  moreover have "hd (trim_matches P s) = hd (dropWhile P s)"
    unfolding trim_matches_def by (rule hd_trim_end) (use assms in \<open>simp add: trim_matches_def\<close>)
  ultimately show "\<not> P (hd (trim_matches P s))" by simp
  show "\<not> P (last (trim_matches P s))"
    using assms by (simp add: trim_matches_def last_trim_end)
qed

lemma trim_matches_idem [simp]: "trim_matches P (trim_matches P s) = trim_matches P s"
  using trim_matches_ends [of P s] trim_matches_id by metis

lemma trim_idem [simp]: "trim (trim s) = trim s"
  by (simp add: trim_def)

lemma set_trim: "set (trim s) \<subseteq> set s"
  unfolding trim_def trim_matches_def
  by (meson set_dropWhileD set_trim_end subset_code(1))

lemma trim_Nil [simp]: "trim [] = []"
  by (simp add: trim_id)

subsection \<open>Prefixes and suffixes\<close>

lemma starts_with_iff: "starts_with p s \<longleftrightarrow> (\<exists>r. s = p @ r)"
  by (auto simp: starts_with_def) (metis append_take_drop_id)

lemma ends_with_iff: "ends_with p s \<longleftrightarrow> (\<exists>r. s = r @ p)"
  unfolding ends_with_def starts_with_iff by (metis rev_append rev_rev_ident)

lemma strip_prefix_append [simp]: "strip_prefix p (p @ r) = Some r"
  by (simp add: strip_prefix_def starts_with_def)

lemma strip_prefix_Some: "strip_prefix p s = Some r \<longleftrightarrow> s = p @ r"
  by (auto simp: strip_prefix_def starts_with_iff)

lemma strip_prefix_None: "strip_prefix p s = None \<longleftrightarrow> \<not> starts_with p s"
  by (simp add: strip_prefix_def)

lemma strip_suffix_append [simp]: "strip_suffix p (r @ p) = Some r"
  by (simp add: strip_suffix_def ends_with_iff)

lemma strip_suffix_Some: "strip_suffix p s = Some r \<longleftrightarrow> s = r @ p"
  by (auto simp: strip_suffix_def ends_with_iff)

subsection \<open>Splitting and joining\<close>

lemma split_on_not_Nil [simp]: "split_on c s \<noteq> []"
  by (cases s) (auto split: list.splits)

lemma split_on_Cons_ne:
  "x \<noteq> c \<Longrightarrow> split_on c (x # xs) = (x # hd (split_on c xs)) # tl (split_on c xs)"
  by (cases "split_on c xs") auto

lemma join_split [simp]: "join_with [c] (split_on c s) = s"
proof (induction s)
  case Nil
  then show ?case by simp
next
  case (Cons x xs)
  then show ?case
    by (cases "split_on c xs"; cases "tl (split_on c xs)") (auto split: list.splits)
qed

lemma split_parts_free: "p \<in> set (split_on c s) \<Longrightarrow> c \<notin> set p"
  by (induction s arbitrary: p) (auto split: list.splits if_splits)

lemma split_parts_chars: "p \<in> set (split_on c s) \<Longrightarrow> set p \<subseteq> set s"
  by (induction s arbitrary: p) (auto split: list.splits if_splits, blast+)

lemma split_on_free: "c \<notin> set s \<Longrightarrow> split_on c s = [s]"
  by (induction s) auto

lemma split_on_append: "c \<notin> set a \<Longrightarrow> split_on c (a @ c # b) = a # split_on c b"
  by (induction a) auto

lemma split_on_middle: "split_on c (a @ c # b) = split_on c a @ split_on c b"
  by (induction a) (auto split: list.splits)

lemma join_append:
  "xs \<noteq> [] \<Longrightarrow> ys \<noteq> [] \<Longrightarrow> join_with sep (xs @ ys) = join_with sep xs @ sep @ join_with sep ys"
proof (induction sep xs rule: join_with.induct)
  case (2 sep x)
  then show ?case by (cases ys) auto
qed auto

lemma byte_len_append [simp]: "byte_len (a @ b) = byte_len a + byte_len b"
  by (simp add: byte_len_def)

lemma byte_len_Cons [simp]: "byte_len (c # b) = len_utf8 c + byte_len b"
  by (simp add: byte_len_def)

lemma byte_len_Nil [simp]: "byte_len [] = 0"
  by (simp add: byte_len_def)

lemma split_join:
  "xs \<noteq> [] \<Longrightarrow> (\<And>x. x \<in> set xs \<Longrightarrow> c \<notin> set x) \<Longrightarrow> split_on c (join_with [c] xs) = xs"
  by (induction "[c]" xs rule: join_with.induct) (auto simp: split_on_free split_on_append)

lemma set_join: "set (join_with sep xs) \<subseteq> \<Union> (set (map set xs)) \<union> set sep"
  by (induction sep xs rule: join_with.induct) auto

lemma split_once_None_iff: "split_once c s = None \<longleftrightarrow> c \<notin> set s"
  by (induction s) (auto split: option.splits)

lemma split_once_SomeD: "split_once c s = Some (a, b) \<Longrightarrow> s = a @ c # b \<and> c \<notin> set a"
proof (induction s arbitrary: a)
  case (Cons x xs)
  show ?case
  proof (cases "x = c")
    case False
    then obtain a' where "split_once c xs = Some (a', b)" "a = x # a'"
      using Cons.prems by (cases "split_once c xs") auto
    then show ?thesis using Cons.IH False by simp
  qed (use Cons.prems in simp)
qed simp

lemma split_once_append [simp]: "c \<notin> set a \<Longrightarrow> split_once c (a @ c # b) = Some (a, b)"
  by (induction a) auto

lemma rsplit_once_None_iff: "rsplit_once c s = None \<longleftrightarrow> c \<notin> set s"
proof (cases "split_once c (rev s)")
  case None
  moreover from None have "c \<notin> set (rev s)" by (simp only: split_once_None_iff not_False_eq_True)
  ultimately show ?thesis by (simp add: rsplit_once_def)
next
  case (Some p)
  then have "c \<in> set (rev s)" by (metis option.distinct(1) split_once_None_iff)
  with Some show ?thesis by (cases p) (simp add: rsplit_once_def)
qed

lemma rsplit_once_SomeD: "rsplit_once c s = Some (a, b) \<Longrightarrow> s = a @ c # b \<and> c \<notin> set b"
  by (auto simp: rsplit_once_def split: option.splits dest!: split_once_SomeD)
    (metis append.assoc append_Cons append_Nil rev.simps(2) rev_append rev_swap)

lemma rsplit_once_append [simp]: "c \<notin> set b \<Longrightarrow> rsplit_once c (a @ c # b) = Some (a, b)"
  by (simp add: rsplit_once_def)

subsection \<open>Decimal numbers\<close>

lemma code_of_digit_char: "d < 10 \<Longrightarrow> code_of (digit_char d) = 48 + d"
  by (simp add: digit_char_def of_char_of)

lemma is_digit_digit_char: "d < 10 \<Longrightarrow> is_digit (digit_char d)"
  by (simp add: is_digit_def code_of_digit_char)

lemma digits_val_append: "digits_val (a @ [c]) = 10 * digits_val a + (code_of c - 48)"
  by (simp add: digits_val_def)

lemma show_nat_digits: "list_all is_digit (show_nat n)"
proof (induction n rule: show_nat.induct)
  case (1 n)
  then show ?case
    by (subst show_nat.simps) (auto simp: is_digit_digit_char)
qed

lemma show_nat_not_Nil [simp]: "show_nat n \<noteq> []"
  by (subst show_nat.simps) simp

lemma digits_val_show_nat [simp]: "digits_val (show_nat n) = n"
proof (induction n rule: show_nat.induct)
  case (1 n)
  show ?case
  proof (cases "n < 10")
    case True
    then show ?thesis
      by (subst show_nat.simps) (simp add: digits_val_def code_of_digit_char)
  next
    case False
    with 1 have "digits_val (show_nat (n div 10)) = n div 10" by simp
    with False show ?thesis
      by (subst show_nat.simps) (simp add: digits_val_append code_of_digit_char)
  qed
qed

lemma not_digit_plus: "\<not> is_digit (CHR ''+'')"
  by (simp add: is_digit_def)

lemma parse_show_nat [simp]: "n < bound \<Longrightarrow> parse_uint bound (show_nat n) = Some n"
proof -
  assume "n < bound"
  have "strip_prefix ''+'' (show_nat n) = None"
    using show_nat_digits [of n] not_digit_plus
    by (auto simp: strip_prefix_None starts_with_iff)
  with \<open>n < bound\<close> show ?thesis
    by (simp add: parse_uint_def show_nat_digits)
qed

lemma parse_uint_bound: "parse_uint bound s = Some n \<Longrightarrow> n < bound"
  by (auto simp: parse_uint_def Let_def split: if_splits)

lemma show_nat_inject [simp]: "show_nat m = show_nat n \<longleftrightarrow> m = n"
  by (metis digits_val_show_nat)

lemma show_nat_chars: "c \<in> set (show_nat n) \<Longrightarrow> is_digit c"
  using show_nat_digits by (auto simp: list_all_iff)

section \<open>Parsers whose results read back as themselves\<close>

text \<open>
  A value is parsed once where somebody types it, stored as text, and parsed again when
  the row is read. The contract every such parser keeps is that what it accepted it
  accepts again, unchanged.
\<close>

locale stable_parser =
  fixes parse :: "string \<Rightarrow> 'err + string"
  assumes parse_stable: "parse t = Inr s \<Longrightarrow> parse s = Inr s"
begin

lemma accepted_iff_fixed: "s \<in> {s. \<exists>t. parse t = Inr s} \<longleftrightarrow> parse s = Inr s"
  using parse_stable by blast

lemma parse_twice: "(case parse t of Inl e \<Rightarrow> Inl e | Inr s \<Rightarrow> parse s) = parse t"
  using parse_stable by (cases "parse t") auto

text \<open>A list of stored values is read back whole.\<close>

lemma reread_all:
  "list_all (\<lambda>s. \<exists>t. parse t = Inr s) ss \<Longrightarrow>
    List.map_filter (\<lambda>s. case parse s of Inl _ \<Rightarrow> None | Inr x \<Rightarrow> Some x) ss = ss"
  using parse_stable by (induction ss) (fastforce simp: map_filter_simps)+

end

end
