(* ===== verification/Names.thy ===== *)
theory Names
  imports Text
begin

text \<open>
  The names somebody types and the node stores (src/src/domain/values): slugs, hostnames,
  zone names, record names, name servers and mount points. Each parser is the code's, with
  its refusals as constructors named after the code's constants. The lemmas show the shape
  of what is accepted, that what is stored reads back as itself, and what a zone holds.
\<close>

section \<open>Slugs (slug.rs)\<close>

definition slug_char :: "char \<Rightarrow> bool" where
  "slug_char c \<longleftrightarrow> is_digit c \<or> is_lower c"

text \<open>The loop of \<open>Slug::of\<close>: the slug built so far and the pending hyphen.\<close>

fun slug_loop :: "string \<Rightarrow> bool \<Rightarrow> string \<Rightarrow> string" where
  "slug_loop slug pending [] = slug"
| "slug_loop slug pending (c # cs) =
    (if is_alphanumeric c then
       slug_loop ((if pending \<and> slug \<noteq> [] then slug @ ''-'' else slug) @ [to_lower c]) False cs
     else slug_loop slug True cs)"

definition slug_of :: "string \<Rightarrow> string" where
  "slug_of name = trim_end_matches (\<lambda>c. c = CHR ''-'') (take 63 (slug_loop [] False name))"

text \<open>Every hyphen is followed by a letter or a digit, so none ends the text or is doubled.\<close>

fun hyphenated :: "string \<Rightarrow> bool" where
  "hyphenated [] = True"
| "hyphenated [c] = slug_char c"
| "hyphenated (c # d # cs) =
    (if c = CHR ''-'' then slug_char d \<and> hyphenated cs else slug_char c \<and> hyphenated (d # cs))"

definition slug_shape :: "string \<Rightarrow> bool" where
  "slug_shape s \<longleftrightarrow> hyphenated s \<and> (s = [] \<or> hd s \<noteq> CHR ''-'')"

lemma slug_char_not_hyphen [simp]: "\<not> slug_char CHR ''-''"
  by (simp add: slug_char_def is_digit_def is_lower_def)

lemma slug_char_to_lower: "is_alphanumeric c \<Longrightarrow> slug_char (to_lower c)"
  by (auto simp: slug_char_def char_class_defs code_of_to_lower)

lemma slug_char_alphanumeric: "slug_char c \<Longrightarrow> is_alphanumeric c \<and> to_lower c = c"
  by (auto simp: slug_char_def char_class_defs to_lower_def)

lemma hyphenated_append: "hyphenated a \<Longrightarrow> hyphenated b \<Longrightarrow> hyphenated (a @ b)"
proof (induction a rule: hyphenated.induct)
  case (2 c)
  then show ?case by (cases b) auto
qed (auto split: if_splits)

lemma hyphenated_last: "hyphenated s \<Longrightarrow> s \<noteq> [] \<Longrightarrow> slug_char (last s)"
  by (induction s rule: hyphenated.induct) (auto split: if_splits)

lemma slug_loop_shape: "slug_shape slug \<Longrightarrow> slug_shape (slug_loop slug pending cs)"
proof (induction cs arbitrary: slug pending)
  case (Cons c cs)
  show ?case
  proof (cases "is_alphanumeric c")
    case True
    let ?b = "(if pending \<and> slug \<noteq> [] then ''-'' else '''') @ [to_lower c]"
    have lc: "slug_char (to_lower c)" using True by (rule slug_char_to_lower)
    then have "hyphenated ?b" by simp
    with Cons.prems have "hyphenated (slug @ ?b)"
      by (simp only: slug_shape_def hyphenated_append)
    moreover have "hd (slug @ ?b) \<noteq> CHR ''-''"
      using Cons.prems lc by (cases slug) (auto simp: slug_shape_def)
    ultimately have "slug_shape (slug @ ?b)" by (simp add: slug_shape_def)
    from Cons.IH [OF this, of False] True show ?thesis
      by (cases "pending \<and> slug \<noteq> []") auto
  next
    case False
    then show ?thesis using Cons by simp
  qed
qed simp

lemma take_hyphenated:
  "hyphenated s \<Longrightarrow> hyphenated (take n s) \<or> (\<exists>u. take n s = u @ ''-'' \<and> hyphenated u)"
proof (induction s arbitrary: n rule: hyphenated.induct)
  case (3 c d cs)
  show ?case
  proof (cases "c = CHR ''-''")
    case True
    then have s: "slug_char d" "hyphenated cs" using "3.prems" by auto
    consider "n = 0" | "n = 1" | k where "n = Suc (Suc k)"
      by (metis One_nat_def old.nat.exhaust)
    then show ?thesis
    proof cases
      case 3
      from "3.IH"(1) [OF True s(2), of k] True s(1) 3 show ?thesis
        by (elim disjE exE conjE) (auto intro: exI [of _ "CHR ''-'' # d # _"])
    qed (use True in auto)
  next
    case False
    then have s: "slug_char c" "hyphenated (d # cs)" using "3.prems" by auto
    show ?thesis
    proof (cases n)
      case (Suc k)
      have c1: "hyphenated [c]" using s(1) by simp
      from "3.IH"(2) [OF False s(2), of k] show ?thesis
      proof (elim disjE exE conjE)
        assume "hyphenated (take k (d # cs))"
        with c1 have "hyphenated ([c] @ take k (d # cs))" by (rule hyphenated_append)
        with Suc show ?thesis by simp
      next
        fix u assume u: "take k (d # cs) = u @ ''-''" "hyphenated u"
        with c1 have "hyphenated ([c] @ u)" by (blast intro: hyphenated_append)
        with u Suc show ?thesis by (intro disjI2 exI [of _ "c # u"]) simp
      qed
    qed simp
  qed
qed (auto split: nat.splits simp: take_Cons)

lemma trim_take_hyphenated:
  assumes "hyphenated s"
  shows "hyphenated (trim_end_matches (\<lambda>c. c = CHR ''-'') (take n s))"
proof -
  have keep: "trim_end_matches (\<lambda>c. c = CHR ''-'') u = u" if "hyphenated u" for u
    using hyphenated_last [OF that] by (metis slug_char_not_hyphen trim_end_id)
  from take_hyphenated [OF assms, of n] show ?thesis
    by (auto simp: keep) (simp add: keep [unfolded trim_end_matches_def] trim_end_matches_def)
qed

lemma slug_of_shape: "slug_shape (slug_of name)"
proof -
  have loop: "slug_shape (slug_loop [] False name)"
    by (rule slug_loop_shape) (simp add: slug_shape_def)
  let ?s = "slug_of name"
  have "hyphenated ?s"
    using loop unfolding slug_of_def slug_shape_def by (blast intro: trim_take_hyphenated)
  moreover have "hd ?s \<noteq> CHR ''-''" if "?s \<noteq> []"
  proof -
    have "hd ?s = hd (take 63 (slug_loop [] False name))"
      using that unfolding slug_of_def by (rule hd_trim_end)
    then show ?thesis
      using loop that
      by (metis (no_types, lifting) hd_take slug_of_def slug_shape_def take_eq_Nil
          trim_end_id zero_less_numeral)
  qed
  ultimately show ?thesis by (auto simp: slug_shape_def)
qed

lemma length_slug_of: "length (slug_of name) \<le> 63"
proof -
  obtain t where "take 63 (slug_loop [] False name) = slug_of name @ t"
    using trim_end_prefix unfolding slug_of_def by blast
  then have "length (slug_of name @ t) \<le> 63" by (metis length_take min.cobounded2)
  then show ?thesis by simp
qed

lemma hyphen_not_alphanumeric: "\<not> is_alphanumeric CHR ''-''"
  by (simp add: char_class_defs)

lemma slug_loop_fixed:
  "hyphenated s \<Longrightarrow> acc \<noteq> [] \<or> s = [] \<or> hd s \<noteq> CHR ''-'' \<Longrightarrow> slug_loop acc False s = acc @ s"
proof (induction s arbitrary: acc rule: hyphenated.induct)
  case (3 c d cs)
  show ?case
  proof (cases "c = CHR ''-''")
    case True
    then have "slug_char d" "hyphenated cs" "acc \<noteq> []" using "3.prems" by auto
    then show ?thesis
      using True "3.IH"(1) [OF True, of "acc @ [c, d]"]
      by (simp add: slug_char_alphanumeric hyphen_not_alphanumeric)
  next
    case False
    then have "slug_char c" "hyphenated (d # cs)" using "3.prems" by auto
    then show ?thesis
      using "3.IH"(2) [OF False, of "acc @ [c]"] by (simp add: slug_char_alphanumeric)
  qed
qed (auto simp: slug_char_alphanumeric)

lemma slug_of_fixed: "slug_shape s \<Longrightarrow> length s \<le> 63 \<Longrightarrow> slug_of s = s"
  using slug_loop_fixed [of s "[]"] hyphenated_last [of s]
  by (auto simp: slug_of_def slug_shape_def intro!: trim_end_id)

lemma hyphenated_chars: "hyphenated s \<Longrightarrow> list_all (\<lambda>c. slug_char c \<or> c = CHR ''-'') s"
  by (induction s rule: hyphenated.induct) (auto split: if_splits)

lemma byte_len_slug:
  "list_all (\<lambda>c. slug_char c \<or> c = CHR ''-'') s \<Longrightarrow> byte_len s = length s"
  by (induction s) (auto simp: slug_char_def is_digit_def is_lower_def len_utf8_def)

section \<open>Hostnames (hostname.rs)\<close>

definition hostname_parse :: "string \<Rightarrow> string" where
  "hostname_parse typed =
    (let hostname = lowercase (trim typed);
         hostname = (case strip_prefix ''https://'' hostname of
             Some rest \<Rightarrow> rest
           | None \<Rightarrow> (case strip_prefix ''http://'' hostname of Some rest \<Rightarrow> rest | None \<Rightarrow> hostname))
     in trim_end_matches (\<lambda>c. c = CHR ''.'') (hd (split_on CHR ''/'' hostname)))"

definition is_wildcard :: "string \<Rightarrow> bool" where
  "is_wildcard hostname \<longleftrightarrow> CHR ''*'' \<in> set hostname"

section \<open>Zone names (zone_name.rs)\<close>

text \<open>The refusals of the name parsers, by the names of their sentences in the code.\<close>

datatype name_refusal =
    NOT_A_DOMAIN | BAD_LABEL | WILDCARD_ZONE | TOO_LONG | BAD_RECORD_NAME | WILDCARD_NAME_SERVER

definition is_host_label :: "string \<Rightarrow> bool" where
  "is_host_label label \<longleftrightarrow>
    label \<noteq> [] \<and> byte_len label \<le> 63 \<and>
    list_all (\<lambda>c. is_lower c \<or> is_digit c \<or> c = CHR ''-'') label \<and>
    \<not> starts_with ''-'' label \<and> \<not> ends_with ''-'' label"

definition zone_parse :: "string \<Rightarrow> name_refusal + string" where
  "zone_parse typed =
    (let name = hostname_parse typed in
     if is_wildcard name then Inl WILDCARD_ZONE
     else if byte_len name > 253 then Inl TOO_LONG
     else let labels = split_on CHR ''.'' name in
       if length labels < 2 \<or> list_ex (\<lambda>label. label = []) labels then Inl NOT_A_DOMAIN
       else if \<not> list_all is_host_label labels then Inl BAD_LABEL
       else Inr name)"

definition zone_holds :: "string \<Rightarrow> string \<Rightarrow> bool" where
  "zone_holds zone name =
    (let name = lowercase (trim_end_matches (\<lambda>c. c = CHR ''.'') name) in
     name = zone \<or> ends_with (''.'' @ zone) name)"

section \<open>Record names (record_name.rs)\<close>

definition APEX :: string where
  "APEX = ''@''"

definition is_record_label :: "string \<Rightarrow> bool" where
  "is_record_label label \<longleftrightarrow>
    label \<noteq> [] \<and> byte_len label \<le> 63 \<and>
    list_all (\<lambda>c. is_lower c \<or> is_digit c \<or> c = CHR ''-'' \<or> c = CHR ''_'') label \<and>
    \<not> starts_with ''-'' label \<and> \<not> ends_with ''-'' label"

text \<open>The loop over the labels: a lone \<open>*\<close> is let through at index 0 only.\<close>

fun record_labels_ok :: "nat \<Rightarrow> string list \<Rightarrow> bool" where
  "record_labels_ok index [] = True"
| "record_labels_ok index (label # labels) =
    ((label = ''*'' \<and> index = 0 \<or> is_record_label label) \<and> record_labels_ok (Suc index) labels)"

definition record_parse :: "string \<Rightarrow> string \<Rightarrow> name_refusal + string" where
  "record_parse zone typed =
    (let typed = lowercase (trim_end_matches (\<lambda>c. c = CHR ''.'') (trim typed)) in
     if typed = [] \<or> typed = APEX \<or> typed = zone then Inr APEX
     else let relative = (case strip_suffix (''.'' @ zone) typed of
                            Some r \<Rightarrow> r | None \<Rightarrow> typed) in
       if byte_len relative + 1 + byte_len zone > 253 then Inl TOO_LONG
       else if \<not> record_labels_ok 0 (split_on CHR ''.'' relative) then Inl BAD_RECORD_NAME
       else Inr relative)"

definition is_apex :: "string \<Rightarrow> bool" where
  "is_apex name \<longleftrightarrow> name = APEX"

definition fqdn :: "string \<Rightarrow> string \<Rightarrow> string" where
  "fqdn zone name = (if is_apex name then zone else name @ ''.'' @ zone)"

section \<open>Name servers (name_server.rs)\<close>

definition name_server_parse :: "string \<Rightarrow> name_refusal + string" where
  "name_server_parse typed =
    (if is_wildcard (hostname_parse typed) then Inl WILDCARD_NAME_SERVER else zone_parse typed)"

fun name_servers_loop :: "string list \<Rightarrow> string list \<Rightarrow> name_refusal + string list" where
  "name_servers_loop names [] = Inr names"
| "name_servers_loop names (typed # rest) =
    (case name_server_parse typed of
       Inl e \<Rightarrow> Inl e
     | Inr name \<Rightarrow>
         name_servers_loop (if name \<in> set names then names else names @ [name]) rest)"

definition name_servers_all :: "string list \<Rightarrow> name_refusal + string list" where
  "name_servers_all typed = name_servers_loop [] (filter (\<lambda>t. trim t \<noteq> []) typed)"

fun name_servers_keep :: "string list \<Rightarrow> string list \<Rightarrow> string list" where
  "name_servers_keep names [] = names"
| "name_servers_keep names (said # rest) =
    (case name_server_parse said of
       Inl e \<Rightarrow> name_servers_keep names rest
     | Inr name \<Rightarrow>
         name_servers_keep (if name \<in> set names then names else names @ [name]) rest)"

definition name_servers_kept :: "string list \<Rightarrow> string list" where
  "name_servers_kept said = name_servers_keep [] said"

section \<open>Mount points (mount_point.rs)\<close>

datatype mount_refusal = NotAbsolute string | Traversal | NeededToRun string

definition RESERVED :: "string list" where
  "RESERVED = [''/'', ''/proc'', ''/dev'', ''/dev/pts'', ''/dev/shm'', ''/dev/mqueue'', ''/sys'',
     ''/etc/resolv.conf'', ''/etc/hosts'']"

definition mount_parse :: "string \<Rightarrow> mount_refusal + string" where
  "mount_parse typed =
    (let path = trim_end_matches (\<lambda>c. c = CHR ''/'') (trim typed);
         path = (if path = [] then ''/'' else path) in
     if \<not> starts_with ''/'' path then Inl (NotAbsolute path)
     else if list_ex (\<lambda>part. part = ''..'') (split_on CHR ''/'' path) then Inl Traversal
     else if path \<in> set RESERVED then Inl (NeededToRun path)
     else Inr path)"

section \<open>What the parsers accept\<close>

subsection \<open>Labels and zones\<close>

abbreviation neutral :: "char \<Rightarrow> bool" where
  "neutral c \<equiv> \<not> is_whitespace c \<and> \<not> is_upper c"

lemma neutral_char:
  "is_lower c \<Longrightarrow> neutral c" "is_digit c \<Longrightarrow> neutral c"
  "neutral CHR ''-''" "neutral CHR ''_''" "neutral CHR ''.''" "neutral CHR ''*''" "neutral CHR ''@''"
  by (auto simp: char_class_defs)

definition zone_char :: "char \<Rightarrow> bool" where
  "zone_char c \<longleftrightarrow> is_lower c \<or> is_digit c \<or> c = CHR ''-'' \<or> c = CHR ''.''"

lemma host_label_chars: "is_host_label l \<Longrightarrow> c \<in> set l \<Longrightarrow> zone_char c"
  by (auto simp: is_host_label_def zone_char_def list_all_iff)

lemma zone_char_plain:
  "zone_char c \<Longrightarrow> \<not> is_whitespace c \<and> \<not> is_upper c \<and> c \<noteq> CHR ''/'' \<and> c \<noteq> CHR ''*'' \<and> c \<noteq> CHR '':''"
  by (auto simp: zone_char_def char_class_defs)

text \<open>A name over these characters that does not end in a dot is its own normal form.\<close>

lemma lowercase_plain: "list_all (\<lambda>c. \<not> is_upper c) s \<Longrightarrow> lowercase s = s"
  by (rule lowercase_id)

lemma hostname_parse_fixed:
  assumes chars: "list_all zone_char s" and dot: "s = [] \<or> last s \<noteq> CHR ''.''"
  shows "hostname_parse s = s"
proof -
  have plain: "\<forall>c\<in>set s. \<not> is_whitespace c \<and> \<not> is_upper c"
      and "CHR ''/'' \<notin> set s" and "CHR '':'' \<notin> set s"
    using chars zone_char_plain by (auto simp: list_all_iff)
  have "trim s = s" using plain by (intro trim_id) (cases s; auto)
  moreover have "lowercase s = s" using plain by (intro lowercase_plain) (simp add: list_all_iff)
  moreover have "strip_prefix ''https://'' s = None" "strip_prefix ''http://'' s = None"
    using \<open>CHR '':'' \<notin> set s\<close> by (auto simp: strip_prefix_None starts_with_iff)
  moreover have "split_on CHR ''/'' s = [s]" using \<open>CHR ''/'' \<notin> set s\<close> by (rule split_on_free)
  ultimately show ?thesis
    using dot by (simp add: hostname_parse_def Let_def trim_end_id)
qed

lemma zone_parse_Inr:
  "zone_parse t = Inr z \<longleftrightarrow>
    z = hostname_parse t \<and> byte_len z \<le> 253 \<and> 2 \<le> length (split_on CHR ''.'' z) \<and>
    list_all is_host_label (split_on CHR ''.'' z)"
  (is "?l \<longleftrightarrow> ?r")
proof
  show "?l \<Longrightarrow> ?r"
    by (auto simp: zone_parse_def Let_def split: if_splits)
next
  assume ?r
  then have h: "hostname_parse t = z" and r: "byte_len z \<le> 253"
      "2 \<le> length (split_on CHR ''.'' z)" "list_all is_host_label (split_on CHR ''.'' z)"
    by auto
  have "c \<noteq> CHR ''*''" if "c \<in> set z" for c
  proof -
    have "set z \<subseteq> \<Union> (set (map set (split_on CHR ''.'' z))) \<union> {CHR ''.''}"
      using set_join [of "''.''" "split_on CHR ''.'' z"] by simp
    with that r show ?thesis
      using host_label_chars zone_char_plain by (fastforce simp: list_all_iff)
  qed
  then have "\<not> is_wildcard z" by (auto simp: is_wildcard_def)
  moreover have "\<not> list_ex (\<lambda>label. label = []) (split_on CHR ''.'' z)"
    using r by (auto simp: list_ex_iff list_all_iff is_host_label_def)
  ultimately show ?l using r unfolding zone_parse_def Let_def h by auto
qed

lemma zone_parse_chars: "zone_parse t = Inr z \<Longrightarrow> list_all zone_char z"
proof -
  assume "zone_parse t = Inr z"
  then have r: "list_all is_host_label (split_on CHR ''.'' z)" by (auto simp: zone_parse_Inr)
  have "set z \<subseteq> \<Union> (set (map set (split_on CHR ''.'' z))) \<union> {CHR ''.''}"
    using set_join [of "''.''" "split_on CHR ''.'' z"] by simp
  with r show ?thesis
    using host_label_chars by (fastforce simp: list_all_iff zone_char_def)
qed

lemma hostname_no_final_dot:
  "hostname_parse t \<noteq> [] \<Longrightarrow> last (hostname_parse t) \<noteq> CHR ''.''"
  using last_trim_end unfolding hostname_parse_def Let_def by blast

lemma zone_parse_not_Nil: "zone_parse t = Inr z \<Longrightarrow> z \<noteq> []"
  by (auto simp: zone_parse_Inr)

lemma zone_parse_stable: "zone_parse t = Inr z \<Longrightarrow> zone_parse z = Inr z"
proof -
  assume z: "zone_parse t = Inr z"
  then have "hostname_parse z = z"
    using zone_parse_chars [OF z] hostname_no_final_dot [of t]
      zone_parse_not_Nil [OF z]
    by (intro hostname_parse_fixed) (simp_all add: zone_parse_Inr)
  with z show ?thesis unfolding zone_parse_Inr by metis
qed

interpretation zone: stable_parser zone_parse
  by unfold_locales (rule zone_parse_stable)

subsection \<open>What a zone holds\<close>

text \<open>The same question asked of the labels: the zone's are the last ones of the name.\<close>

lemma suffix_labels:
  "name = zone \<or> ends_with (''.'' @ zone) name \<longleftrightarrow>
    suffix (split_on CHR ''.'' zone) (split_on CHR ''.'' name)"
proof
  assume "name = zone \<or> ends_with (''.'' @ zone) name"
  then show "suffix (split_on CHR ''.'' zone) (split_on CHR ''.'' name)"
    by (auto simp: ends_with_iff split_on_middle suffix_def)
next
  assume "suffix (split_on CHR ''.'' zone) (split_on CHR ''.'' name)"
  then obtain xs where xs: "split_on CHR ''.'' name = xs @ split_on CHR ''.'' zone"
    by (auto simp: suffix_def)
  have name: "name = join_with ''.'' (split_on CHR ''.'' name)" by simp
  show "name = zone \<or> ends_with (''.'' @ zone) name"
  proof (cases "xs = []")
    case True
    with xs show ?thesis by (metis append_Nil join_split)
  next
    case False
    then have "name = join_with ''.'' xs @ ''.'' @ zone"
      using name xs join_append [of xs "split_on CHR ''.'' zone" "''.''"] by simp
    then show ?thesis by (auto simp: ends_with_iff)
  qed
qed

subsection \<open>Record names\<close>

definition settled :: "string \<Rightarrow> bool" where
  "settled s \<longleftrightarrow> list_all (\<lambda>c. \<not> is_whitespace c \<and> \<not> is_upper c) s \<and> (s = [] \<or> last s \<noteq> CHR ''.'')"

lemma settled_normal:
  assumes "settled s"
  shows "lowercase (trim_end_matches (\<lambda>c. c = CHR ''.'') (trim s)) = s"
proof -
  have "trim s = s"
    using assms by (intro trim_id) (cases s; auto simp: settled_def list_all_iff)
  moreover have "lowercase s = s"
    using assms by (intro lowercase_plain) (auto simp: settled_def list_all_iff)
  ultimately show ?thesis
    using assms by (simp add: settled_def trim_end_id)
qed

lemma settled_append: "settled b \<Longrightarrow> b \<noteq> [] \<Longrightarrow> list_all (\<lambda>c. \<not> is_whitespace c \<and> \<not> is_upper c) a
    \<Longrightarrow> settled (a @ b)"
  by (auto simp: settled_def)

lemma settled_zone: "zone_parse t = Inr z \<Longrightarrow> settled z"
proof -
  assume z: "zone_parse t = Inr z"
  then have "z = hostname_parse t" by (auto simp: zone_parse_Inr)
  then have "z = [] \<or> last z \<noteq> CHR ''.''" using hostname_no_final_dot by blast
  moreover have "\<forall>c\<in>set z. \<not> is_whitespace c \<and> \<not> is_upper c"
    using zone_parse_chars [OF z] zone_char_plain by (auto simp: list_all_iff)
  ultimately show ?thesis by (simp add: settled_def list_all_iff)
qed

lemma record_labels_ok_index:
  "record_labels_ok i ls \<Longrightarrow> l \<in> set ls \<Longrightarrow> l = ''*'' \<or> is_record_label l"
  by (induction i ls rule: record_labels_ok.induct) auto

lemma record_label_neutral: "is_record_label l \<Longrightarrow> c \<in> set l \<Longrightarrow> neutral c"
  unfolding is_record_label_def list_all_iff using neutral_char by metis

lemma settled_relative:
  assumes "record_labels_ok 0 (split_on CHR ''.'' n)"
  shows "settled n \<and> n \<noteq> []"
proof -
  have lab: "l = ''*'' \<or> is_record_label l" if "l \<in> set (split_on CHR ''.'' n)" for l
    using record_labels_ok_index [OF assms that] .
  have "set n \<subseteq> \<Union> (set (map set (split_on CHR ''.'' n))) \<union> {CHR ''.''}"
    using set_join [of "''.''" "split_on CHR ''.'' n"] by simp
  moreover have "neutral c" if "l \<in> set (split_on CHR ''.'' n)" "c \<in> set l" for l c
    using lab [OF that(1)] that(2) neutral_char(3,4,6) record_label_neutral by auto
  ultimately have "list_all neutral n"
    using neutral_char(5) unfolding list_all_iff by fastforce
  moreover have ne: "[] \<notin> set (split_on CHR ''.'' n)"
    using lab by (auto simp: is_record_label_def)
  moreover have "last n \<noteq> CHR ''.''" if "n \<noteq> []"
  proof
    assume "last n = CHR ''.''"
    with that obtain u where "n = u @ CHR ''.'' # []" by (metis append_butlast_last_id)
    then show False using ne by (simp add: split_on_middle)
  qed
  ultimately show ?thesis by (auto simp: settled_def)
qed

lemma record_parse_relative:
  "record_parse z t = Inr n \<Longrightarrow> n \<noteq> APEX \<Longrightarrow>
    byte_len n + 1 + byte_len z \<le> 253 \<and> record_labels_ok 0 (split_on CHR ''.'' n)"
  by (auto simp: record_parse_def Let_def split: if_splits option.splits)

lemma record_parse_settled:
  assumes "settled s"
  shows "record_parse z s =
    (if s = [] \<or> s = APEX \<or> s = z then Inr APEX
     else let relative = (case strip_suffix (''.'' @ z) s of Some r \<Rightarrow> r | None \<Rightarrow> s) in
       if byte_len relative + 1 + byte_len z > 253 then Inl TOO_LONG
       else if \<not> record_labels_ok 0 (split_on CHR ''.'' relative) then Inl BAD_RECORD_NAME
       else Inr relative)"
  by (simp add: record_parse_def settled_normal [OF assms] Let_def)

lemma record_parse_fqdn:
  assumes z: "zone_parse zt = Inr z" and n: "record_parse z t = Inr n"
  shows "record_parse z (fqdn z n) = Inr n"
proof (cases "n = APEX")
  case True
  then show ?thesis
    using record_parse_settled [OF settled_zone [OF z]] by (simp add: fqdn_def is_apex_def)
next
  case False
  have r: "byte_len n + 1 + byte_len z \<le> 253" "record_labels_ok 0 (split_on CHR ''.'' n)"
    using record_parse_relative [OF n False] by auto
  have "list_all neutral (n @ ''.'')"
    using settled_relative [OF r(2)] neutral_char(5) by (auto simp: settled_def)
  then have "settled ((n @ ''.'') @ z)"
    using settled_zone [OF z] zone_parse_not_Nil [OF z] by (rule settled_append [rotated 2])
  then have s: "settled (fqdn z n)"
    using False by (simp add: fqdn_def is_apex_def)
  have "fqdn z n \<noteq> APEX \<and> fqdn z n \<noteq> z \<and> fqdn z n \<noteq> []"
    using False settled_relative [OF r(2)] zone_parse_not_Nil [OF z]
    by (auto simp: fqdn_def is_apex_def APEX_def append_eq_Cons_conv)
  moreover have "strip_suffix (''.'' @ z) (fqdn z n) = Some n"
    using False by (simp add: fqdn_def is_apex_def strip_suffix_Some)
  ultimately show ?thesis
    using r by (simp add: record_parse_settled [OF s] Let_def)
qed

lemma record_parse_again:
  assumes "record_parse z t = Inr n"
  shows "record_parse z n = Inr n \<longleftrightarrow> n = APEX \<or> (n \<noteq> z \<and> \<not> ends_with (''.'' @ z) n)"
proof (cases "n = APEX")
  case True
  have "settled APEX" by (simp add: settled_def APEX_def char_class_defs)
  with True show ?thesis by (simp add: record_parse_settled)
next
  case False
  have r: "byte_len n + 1 + byte_len z \<le> 253" "record_labels_ok 0 (split_on CHR ''.'' n)"
    using record_parse_relative [OF assms False] by auto
  have s: "settled n" "n \<noteq> []" using settled_relative [OF r(2)] by auto
  show ?thesis
  proof (cases "strip_suffix (''.'' @ z) n")
    case None
    then show ?thesis
      using False s r by (auto simp: record_parse_settled Let_def strip_suffix_def split: if_splits)
  next
    case (Some m)
    then have "n = m @ ''.'' @ z" by (simp add: strip_suffix_Some)
    then show ?thesis
      using False s Some by (auto simp: record_parse_settled Let_def ends_with_iff)
  qed
qed

subsection \<open>Name servers\<close>

lemma name_server_parse_Inr: "name_server_parse t = Inr n \<longleftrightarrow> zone_parse t = Inr n"
  by (auto simp: name_server_parse_def zone_parse_def Let_def)

interpretation name_server: stable_parser name_server_parse
  by unfold_locales (metis name_server_parse_Inr zone_parse_stable)

definition add_once :: "'a \<Rightarrow> 'a list \<Rightarrow> 'a list" where
  "add_once x xs = (if x \<in> set xs then xs else xs @ [x])"

lemma set_fold_add_once: "set (fold add_once ys xs) = set xs \<union> set ys"
  by (induction ys arbitrary: xs) (auto simp: add_once_def)

lemma distinct_fold_add_once: "distinct xs \<Longrightarrow> distinct (fold add_once ys xs)"
  by (induction ys arbitrary: xs) (auto simp: add_once_def)

lemma fold_add_once_fresh: "distinct (xs @ ys) \<Longrightarrow> fold add_once ys xs = xs @ ys"
  by (induction ys arbitrary: xs) (auto simp: add_once_def)

abbreviation readable :: "string \<Rightarrow> string option" where
  "readable said \<equiv> (case name_server_parse said of Inl _ \<Rightarrow> None | Inr n \<Rightarrow> Some n)"

lemma name_servers_keep_fold:
  "name_servers_keep names said = fold add_once (List.map_filter readable said) names"
  by (induction names said rule: name_servers_keep.induct)
    (auto simp: add_once_def map_filter_simps split: sum.splits)

lemma name_servers_loop_Inr:
  "list_all (\<lambda>t. name_server_parse t = Inr t) ts \<Longrightarrow>
    name_servers_loop names ts = Inr (fold add_once ts names)"
  by (induction names ts rule: name_servers_loop.induct) (auto simp: add_once_def)

lemma map_filter_readable_stable:
  "list_all (\<lambda>s. \<exists>t. name_server_parse t = Inr s) ss \<Longrightarrow> List.map_filter readable ss = ss"
  by (rule name_server.reread_all)

lemma name_servers_kept_readable:
  "list_all (\<lambda>s. name_server_parse s = Inr s) (name_servers_kept said)"
proof -
  have "\<exists>t. name_server_parse t = Inr s" if "s \<in> set (name_servers_kept said)" for s
    using that
    by (auto simp: name_servers_kept_def name_servers_keep_fold set_fold_add_once
        map_filter_def split: sum.splits)
  then show ?thesis
    using name_server.parse_stable by (auto simp: list_all_iff)
qed

lemma distinct_name_servers_kept: "distinct (name_servers_kept said)"
  by (simp add: name_servers_kept_def name_servers_keep_fold distinct_fold_add_once)

lemma name_servers_kept_idem: "name_servers_kept (name_servers_kept said) = name_servers_kept said"
proof -
  have "List.map_filter readable (name_servers_kept said) = name_servers_kept said"
    using name_servers_kept_readable [of said]
    by (intro map_filter_readable_stable) (auto simp: list_all_iff)
  then show ?thesis
    using distinct_name_servers_kept [of said]
    by (simp add: name_servers_kept_def name_servers_keep_fold fold_add_once_fresh)
qed

lemma name_servers_all_kept: "name_servers_all (name_servers_kept said) = Inr (name_servers_kept said)"
proof -
  have ok: "list_all (\<lambda>s. name_server_parse s = Inr s) (name_servers_kept said)"
    by (rule name_servers_kept_readable)
  have "trim s \<noteq> []" if "s \<in> set (name_servers_kept said)" for s
  proof
    assume "trim s = []"
    then have "hostname_parse s = []"
      by (simp add: hostname_parse_def Let_def strip_prefix_def starts_with_def
          trim_end_matches_def)
    then show False
      using that ok by (auto simp: list_all_iff name_server_parse_Inr zone_parse_Inr)
  qed
  then have "filter (\<lambda>t. trim t \<noteq> []) (name_servers_kept said) = name_servers_kept said"
    by (intro filter_True) blast
  then show ?thesis
    using ok distinct_name_servers_kept [of said]
    by (simp add: name_servers_all_def name_servers_loop_Inr fold_add_once_fresh)
qed

subsection \<open>Mount points\<close>

lemma mount_parse_Inr:
  assumes "mount_parse t = Inr p"
  shows "p = trim_end_matches (\<lambda>c. c = CHR ''/'') (trim t)" and "p \<noteq> []"
    and "starts_with ''/'' p" and "''..'' \<notin> set (split_on CHR ''/'' p)"
    and "p \<notin> set RESERVED"
  using assms
  by (auto simp: mount_parse_def Let_def list_ex_iff RESERVED_def split: if_splits)

lemma mount_parse_stable:
  assumes p: "mount_parse t = Inr p" and ns: "\<not> is_whitespace (last p)"
  shows "mount_parse p = Inr p"
proof -
  note facts = mount_parse_Inr [OF p]
  have "hd p = CHR ''/''" using facts(2,3) by (cases p) (auto simp: starts_with_def)
  moreover have "\<not> is_whitespace CHR ''/''" by (simp add: is_whitespace_def)
  ultimately have "trim p = p" using ns by (intro trim_id) auto
  moreover have "last p \<noteq> CHR ''/''"
    using last_trim_end [of "\<lambda>c. c = CHR ''/''" "trim t"] facts(1,2) by simp
  ultimately have "trim_end_matches (\<lambda>c. c = CHR ''/'') (trim p) = p"
    by (simp add: trim_end_id)
  then show ?thesis
    using facts by (simp add: mount_parse_def Let_def list_ex_iff)
qed

lemma slug_label: "slug_of name = [] \<or> is_host_label (slug_of name)"
proof -
  let ?s = "slug_of name"
  have sh: "hyphenated ?s" "?s = [] \<or> hd ?s \<noteq> CHR ''-''"
    using slug_of_shape [of name] by (auto simp: slug_shape_def)
  have chars: "list_all (\<lambda>c. slug_char c \<or> c = CHR ''-'') ?s"
    by (rule hyphenated_chars [OF sh(1)])
  have "byte_len ?s \<le> 63"
    using length_slug_of [of name] byte_len_slug [OF chars] by simp
  then show ?thesis
    using chars sh hyphenated_last [OF sh(1)]
    by (auto simp: is_host_label_def slug_char_def list_all_iff starts_with_iff ends_with_iff
        is_digit_def is_lower_def)
qed

section \<open>Properties\<close>

text \<open>A slug is a single DNS label or nothing, and turning a slug into a slug
  again changes nothing: a container or a host named after a project has one name.\<close>

theorem slug_is_label:
  "(slug_of name = [] \<or> is_host_label (slug_of name)) \<and> slug_of (slug_of name) = slug_of name"
  using slug_label slug_of_fixed [OF slug_of_shape length_slug_of] by blast

text \<open>Whether a zone holds a name, which the code decides on the text, is
  decided by the labels: the zone's are the last labels of the name. So a zone holds itself
  and what is under it, and never a name that merely ends in the same letters.\<close>

theorem zone_holds_labels:
  "zone_holds zone name \<longleftrightarrow>
    suffix (split_on CHR ''.'' zone)
      (split_on CHR ''.'' (lowercase (trim_end_matches (\<lambda>c. c = CHR ''.'') name)))"
  by (simp only: zone_holds_def Let_def suffix_labels)

text \<open>A record's name written out in full and typed again under the same zone
  is the same record.\<close>

theorem record_name_roundtrip:
  "zone_parse zt = Inr z \<Longrightarrow> record_parse z t = Inr n \<Longrightarrow> record_parse z (fqdn z n) = Inr n"
  by (rule record_parse_fqdn)

theorem record_name_roundtrip_witness:
  "record_parse ''zone.io'' (fqdn ''zone.io'' ''*.a'') = Inr ''*.a''"
proof (rule record_name_roundtrip)
  show "zone_parse ''Zone.IO.'' = Inr ''zone.io''" by code_simp
  show "record_parse ''zone.io'' ''*.A.zone.io.'' = Inr ''*.a''" by code_simp
qed

text \<open>The stored, relative name reads back as itself exactly when it does not
  itself end in the zone. The rows are read with the same parser that reads what is typed,
  so a record whose relative name repeats the zone comes back under another name.\<close>

theorem record_name_reread:
  "record_parse z t = Inr n \<Longrightarrow>
    record_parse z n = Inr n \<longleftrightarrow> n = APEX \<or> (n \<noteq> z \<and> \<not> ends_with (''.'' @ z) n)"
  by (rule record_parse_again)

theorem record_name_reread_witness:
  "record_parse ''z.io'' ''a.z.io.z.io'' = Inr ''a.z.io'' \<and>
   record_parse ''z.io'' ''a.z.io'' = Inr ''a'' \<and>
   record_parse ''z.io'' ''a.z.io'' \<noteq> Inr ''a.z.io''"
proof -
  have n: "record_parse ''z.io'' ''a.z.io.z.io'' = Inr ''a.z.io''" by code_simp
  have "ends_with (''.'' @ ''z.io'') ''a.z.io'' \<and> ''a.z.io'' \<noteq> APEX" by code_simp
  with record_name_reread [OF n] have "record_parse ''z.io'' ''a.z.io'' \<noteq> Inr ''a.z.io''" by blast
  moreover have "record_parse ''z.io'' ''a.z.io'' = Inr ''a''" by code_simp
  ultimately show ?thesis using n by blast
qed

text \<open>What survives of a list of name servers read from the node's state or
  from a peer is a list without repetitions that the strict parser accepts as it is, and
  reading it again changes nothing.\<close>

theorem name_servers_settle:
  "distinct (name_servers_kept said) \<and>
   name_servers_all (name_servers_kept said) = Inr (name_servers_kept said) \<and>
   name_servers_kept (name_servers_kept said) = name_servers_kept said"
  by (simp add: distinct_name_servers_kept name_servers_all_kept name_servers_kept_idem)

text \<open>A mount point that is accepted is absolute, climbs nowhere, is none of
  the paths the runtime needs, and (unless it ends in a blank) reads back as itself.\<close>

theorem mount_point_safe:
  "mount_parse t = Inr p \<Longrightarrow>
    starts_with ''/'' p \<and> ''..'' \<notin> set (split_on CHR ''/'' p) \<and> p \<notin> set RESERVED \<and>
    (is_whitespace (last p) \<or> mount_parse p = Inr p)"
  using mount_parse_Inr [of t p] mount_parse_stable [of t p] by blast

text \<open>The witness also shows what the comparison with the reserved paths does not see: the
  same directory spelled with a doubled slash or a trailing dot is accepted.\<close>

theorem mount_point_safe_witness:
  "starts_with ''/'' ''//proc'' \<and> mount_parse ''//proc'' = Inr ''//proc'' \<and>
   mount_parse ''/proc/.'' = Inr ''/proc/.'' \<and> mount_parse ''/proc'' = Inl (NeededToRun ''/proc'')"
proof -
  have "mount_parse ''//proc/'' = Inr ''//proc''" by code_simp
  from mount_point_safe [OF this] have "starts_with ''/'' ''//proc''" by blast
  moreover have "mount_parse ''//proc'' = Inr ''//proc''" by code_simp
  moreover have "mount_parse ''/proc/.'' = Inr ''/proc/.''" by code_simp
  moreover have "mount_parse ''/proc'' = Inl (NeededToRun ''/proc'')" by code_simp
  ultimately show ?thesis by blast
qed

end
