(* ===== verification/Roles.thy ===== *)
theory Roles
  imports Text
begin

text \<open>
  Who may do what (src/src/domain/values/roles.rs, capability.rs, theme.rs, language.rs,
  entities/account.rs and authz/), and what a node is willing to do for another
  (infra/network/capability.rs over the \<open>setting\<close>, \<open>node_grant\<close> and
  \<open>node_grant_withdrawn\<close> tables, with the boot pass \<open>honour_offers\<close> of network/mod.rs).
\<close>

section \<open>Roles\<close>

datatype node_role = Admin | Member

fun node_role_as_str :: "node_role \<Rightarrow> string" where
  "node_role_as_str Admin = ''admin''"
| "node_role_as_str Member = ''member''"

definition node_role_parse :: "string \<Rightarrow> node_role" where
  "node_role_parse text = (if text = ''admin'' then Admin else Member)"

fun node_role_label :: "node_role \<Rightarrow> string" where
  "node_role_label Admin = ''Administrator''"
| "node_role_label Member = ''Member''"

datatype project_role = Viewer | Deployer | Owner

fun project_role_as_str :: "project_role \<Rightarrow> string" where
  "project_role_as_str Owner = ''owner''"
| "project_role_as_str Deployer = ''deployer''"
| "project_role_as_str Viewer = ''viewer''"

definition project_role_parse :: "string \<Rightarrow> project_role" where
  "project_role_parse text =
    (if text = ''owner'' then Owner else if text = ''deployer'' then Deployer else Viewer)"

fun project_role_label :: "project_role \<Rightarrow> string" where
  "project_role_label Owner = ''Owner''"
| "project_role_label Deployer = ''Deployer''"
| "project_role_label Viewer = ''Viewer''"

text \<open>The derived \<open>Ord\<close>: the order of the declaration.\<close>

fun role_rank :: "project_role \<Rightarrow> nat" where
  "role_rank Viewer = 0" | "role_rank Deployer = 1" | "role_rank Owner = 2"

lemma role_rank_inject [simp]: "role_rank a = role_rank b \<longleftrightarrow> a = b"
  by (cases a; cases b) auto

instantiation project_role :: linorder
begin

definition less_eq_project_role :: "project_role \<Rightarrow> project_role \<Rightarrow> bool" where
  "a \<le> b \<longleftrightarrow> role_rank a \<le> role_rank b"

definition less_project_role :: "project_role \<Rightarrow> project_role \<Rightarrow> bool" where
  "a < b \<longleftrightarrow> role_rank a < role_rank b"

instance
  by standard (auto simp: less_eq_project_role_def less_project_role_def)

end

lemmas project_role_order = less_eq_project_role_def less_project_role_def

record access =
  admin :: bool
  role :: "project_role option"

definition ADMIN :: access where
  "ADMIN = \<lparr>admin = True, role = None\<rparr>"

definition NONE :: access where
  "NONE = \<lparr>admin = False, role = None\<rparr>"

definition member :: "project_role \<Rightarrow> access" where
  "member r = \<lparr>admin = False, role = Some r\<rparr>"

definition may_read :: "access \<Rightarrow> bool" where
  "may_read a \<longleftrightarrow> admin a \<or> role a \<noteq> None"

definition at_least :: "access \<Rightarrow> project_role \<Rightarrow> bool" where
  "at_least a r \<longleftrightarrow> admin a \<or> (case role a of Some held \<Rightarrow> r \<le> held | None \<Rightarrow> False)"

definition may_deploy :: "access \<Rightarrow> bool" where
  "may_deploy a \<longleftrightarrow> at_least a Deployer"

definition may_administer :: "access \<Rightarrow> bool" where
  "may_administer a \<longleftrightarrow> at_least a Owner"

definition access_label :: "access \<Rightarrow> string" where
  "access_label a =
    (if admin a then ''Administrator''
     else case role a of Some r \<Rightarrow> project_role_label r | None \<Rightarrow> ''No access'')"

section \<open>Accounts\<close>

datatype theme = System | Light | Dark

definition theme_parse :: "string \<Rightarrow> theme" where
  "theme_parse value =
    (if value = ''light'' then Light else if value = ''dark'' then Dark else System)"

fun theme_as_str :: "theme \<Rightarrow> string" where
  "theme_as_str System = ''system''"
| "theme_as_str Light = ''light''"
| "theme_as_str Dark = ''dark''"

datatype language = En | Es

definition language_parse :: "string \<Rightarrow> language" where
  "language_parse value = (if value = ''es'' then Es else En)"

fun language_as_str :: "language \<Rightarrow> string" where
  "language_as_str En = ''en''"
| "language_as_str Es = ''es''"

record account =
  account_id :: string
  username :: string
  account_role :: node_role
  account_theme :: theme
  account_language :: language
  account_tenant :: "string option"

definition is_admin :: "account \<Rightarrow> bool" where
  "is_admin a \<longleftrightarrow> account_role a = Admin \<and> account_tenant a = None"

definition administers_scope :: "account \<Rightarrow> bool" where
  "administers_scope a \<longleftrightarrow> account_role a = Admin"

definition belongs_to :: "account \<Rightarrow> string option \<Rightarrow> bool" where
  "belongs_to a scope \<longleftrightarrow> account_tenant a = scope"

definition node_user_belongs_here :: "account \<Rightarrow> bool" where
  "node_user_belongs_here a \<longleftrightarrow> account_tenant a = None"

definition manages_the_machine :: "account \<Rightarrow> bool" where
  "manages_the_machine a \<longleftrightarrow> is_admin a"

definition shares_the_machine_out :: "account \<Rightarrow> bool" where
  "shares_the_machine_out a \<longleftrightarrow> manages_the_machine a"

definition tenant_user_belongs_here :: "account \<Rightarrow> bool" where
  "tenant_user_belongs_here a \<longleftrightarrow> account_tenant a \<noteq> None"

definition tenant_user_administers :: "account \<Rightarrow> bool" where
  "tenant_user_administers a \<longleftrightarrow> tenant_user_belongs_here a \<and> administers_scope a"

section \<open>Capabilities\<close>

datatype capability = Host | Edge | Store | Manage | Dns

fun capability_name :: "capability \<Rightarrow> string" where
  "capability_name Host = ''host''"
| "capability_name Edge = ''edge''"
| "capability_name Store = ''store''"
| "capability_name Manage = ''manage''"
| "capability_name Dns = ''dns''"

definition needs_endpoint :: "capability \<Rightarrow> bool" where
  "needs_endpoint c \<longleftrightarrow> c = Edge \<or> c = Dns"

definition provided_unless_refused :: "capability \<Rightarrow> bool" where
  "provided_unless_refused c \<longleftrightarrow> c \<noteq> Dns"

definition capability_all :: "capability list" where
  "capability_all = [Host, Edge, Store, Manage, Dns]"

definition parse_one :: "string \<Rightarrow> capability option" where
  "parse_one name = List.find (\<lambda>c. capability_name c = name) capability_all"

definition capability_parse_list :: "string \<Rightarrow> capability list" where
  "capability_parse_list text = List.map_filter parse_one (map trim (split_on CHR '','' text))"

definition capability_to_list :: "capability list \<Rightarrow> string" where
  "capability_to_list cs = join_with '','' (map capability_name cs)"

section \<open>What this node provides and grants (network/capability.rs)\<close>

text \<open>
  The rows these operations touch: \<open>setting\<close> by key, \<open>node_grant\<close> and
  \<open>node_grant_withdrawn\<close> as (node, capability) with the time they were written, in the
  order of their insertion.
\<close>

record grant_db =
  settings :: "(string, string) table"
  node_grant :: "((string \<times> string) \<times> nat) list"
  node_grant_withdrawn :: "((string \<times> string) \<times> nat) list"

definition setting_read :: "grant_db \<Rightarrow> string \<Rightarrow> string option" where
  "setting_read db k = map_of (settings db) k"

definition setting_write :: "string \<Rightarrow> string \<Rightarrow> grant_db \<Rightarrow> grant_db" where
  "setting_write k v db = db\<lparr>settings := AList.update k v (settings db)\<rparr>"

fun capability_key :: "capability \<Rightarrow> string" where
  "capability_key Host = ''node.provides.host''"
| "capability_key Edge = ''node.provides.edge''"
| "capability_key Store = ''node.provides.store''"
| "capability_key Manage = ''node.provides.manage''"
| "capability_key Dns = ''node.provides.dns''"

definition provides :: "grant_db \<Rightarrow> capability \<Rightarrow> bool" where
  "provides db c =
    (case setting_read db (capability_key c) of
       Some stored \<Rightarrow> stored = ''on'' \<or> (stored \<noteq> ''off'' \<and> provided_unless_refused c)
     | None \<Rightarrow> provided_unless_refused c)"

definition set_provides :: "capability \<Rightarrow> bool \<Rightarrow> grant_db \<Rightarrow> grant_db" where
  "set_provides c on db = setting_write (capability_key c) (if on then ''on'' else ''off'') db"

definition OWNS :: string where
  "OWNS = ''node.provides.own''"

definition owns :: "grant_db \<Rightarrow> bool" where
  "owns db = (case setting_read db OWNS of Some stored \<Rightarrow> stored \<noteq> ''off'' | None \<Rightarrow> True)"

definition set_owns :: "bool \<Rightarrow> grant_db \<Rightarrow> grant_db" where
  "set_owns on db = setting_write OWNS (if on then ''on'' else ''off'') db"

text \<open>
  The tables have (node, capability) for their primary key, so writing one pair twice in
  the loop is the constraint failure \<open>None\<close>, and the whole write is rolled back.
\<close>

fun insert_pairs :: "string \<Rightarrow> nat \<Rightarrow> string list \<Rightarrow> ((string \<times> string) \<times> nat) list
    \<Rightarrow> ((string \<times> string) \<times> nat) list option" where
  "insert_pairs node at [] rows = Some rows"
| "insert_pairs node at (name # names) rows =
    (if (node, name) \<in> fst ` set rows then None
     else insert_pairs node at names (rows @ [((node, name), at)]))"

definition pairs_of_node :: "string \<Rightarrow> ((string \<times> string) \<times> nat) list \<Rightarrow> string list" where
  "pairs_of_node node rows = map (snd \<circ> fst) (filter (\<lambda>r. fst (fst r) = node) rows)"

definition replace_pairs :: "string \<Rightarrow> nat \<Rightarrow> string list \<Rightarrow> ((string \<times> string) \<times> nat) list
    \<Rightarrow> ((string \<times> string) \<times> nat) list option" where
  "replace_pairs node at names rows =
    insert_pairs node at names (filter (\<lambda>r. fst (fst r) \<noteq> node) rows)"

definition capability_grant :: "nat \<Rightarrow> string \<Rightarrow> capability list \<Rightarrow> grant_db \<Rightarrow> bool \<times> grant_db" where
  "capability_grant now node cs db =
    (let allowed = map capability_name (filter (provides db) cs) in
     case replace_pairs node now allowed (node_grant db) of
       None \<Rightarrow> (False, db)
     | Some rows \<Rightarrow> (True, db\<lparr>node_grant := rows\<rparr>))"

text \<open>Two writes: the refusals are committed before the grant is tried.\<close>

definition set_granted :: "nat \<Rightarrow> string \<Rightarrow> capability list \<Rightarrow> grant_db \<Rightarrow> bool \<times> grant_db" where
  "set_granted now node cs db =
    (let refused = map capability_name (filter (\<lambda>c. c \<notin> set cs) capability_all) in
     case replace_pairs node now refused (node_grant_withdrawn db) of
       None \<Rightarrow> (False, db)
     | Some rows \<Rightarrow> capability_grant now node cs (db\<lparr>node_grant_withdrawn := rows\<rparr>))"

definition withdrawn_from :: "grant_db \<Rightarrow> string \<Rightarrow> capability list" where
  "withdrawn_from db node = List.map_filter parse_one (pairs_of_node node (node_grant_withdrawn db))"

definition granted_to :: "grant_db \<Rightarrow> string \<Rightarrow> capability list" where
  "granted_to db node =
    filter (\<lambda>c. capability_name c \<in> set (pairs_of_node node (node_grant db)) \<and>
                c \<notin> set (withdrawn_from db node) \<and> provides db c)
      capability_all"

text \<open>
  The boot pass over the enrolments, each with the node that spent it and what it was
  offered. One enrolment is skipped (\<open>Some False\<close>), written down (\<open>Some True\<close>), or its write
  fails (\<open>None\<close>) and ends the pass; what was written before stays written.
\<close>

definition honour_one :: "nat \<Rightarrow> string option \<times> capability list \<Rightarrow> grant_db \<Rightarrow> bool option \<times> grant_db" where
  "honour_one now enrolment db =
    (case fst enrolment of
       None \<Rightarrow> (Some False, db)
     | Some node \<Rightarrow>
         if snd enrolment = [] then (Some False, db)
         else let granted = granted_to db node;
                  withdrawn = withdrawn_from db node;
                  missing = filter (\<lambda>c. c \<notin> set granted \<and> c \<notin> set withdrawn) (snd enrolment)
              in if missing = [] then (Some False, db)
                 else let r = capability_grant now node (granted @ missing) db
                      in (if fst r then Some True else None, snd r))"

fun honour_offers_loop :: "nat \<Rightarrow> (string option \<times> capability list) list \<Rightarrow> nat \<Rightarrow> grant_db
    \<Rightarrow> nat option \<times> grant_db" where
  "honour_offers_loop now [] written db = (Some written, db)"
| "honour_offers_loop now (enrolment # rest) written db =
    (case honour_one now enrolment db of
       (None, db') \<Rightarrow> (None, db')
     | (Some wrote, db') \<Rightarrow> honour_offers_loop now rest (if wrote then Suc written else written) db')"

definition honour_offers :: "nat \<Rightarrow> (string option \<times> capability list) list \<Rightarrow> grant_db
    \<Rightarrow> nat option \<times> grant_db" where
  "honour_offers now enrolments db = honour_offers_loop now enrolments 0 db"

section \<open>The enums as they are stored\<close>

interpretation node_role: spelled node_role_as_str node_role_parse Member
proof
  show "node_role_parse (node_role_as_str e) = e" for e
    by (cases e) (auto simp: node_role_parse_def)
  show "node_role_parse t = Member" if "t \<notin> range node_role_as_str" for t
    using that by (auto simp: node_role_parse_def image_iff) (metis node_role_as_str.simps(1))
qed

interpretation project_role: least_spelled project_role_as_str project_role_parse Viewer
proof
  show "project_role_parse (project_role_as_str e) = e" for e
    by (cases e) (auto simp: project_role_parse_def)
  show "project_role_parse t = Viewer" if "t \<notin> range project_role_as_str" for t
    using that
    by (auto simp: project_role_parse_def image_iff) (metis project_role_as_str.simps(1,2))+
  show "Viewer \<le> e" for e by (simp add: less_eq_project_role_def)
qed

interpretation theme: spelled theme_as_str theme_parse System
proof
  show "theme_parse (theme_as_str e) = e" for e by (cases e) (auto simp: theme_parse_def)
  show "theme_parse t = System" if "t \<notin> range theme_as_str" for t
    using that by (auto simp: theme_parse_def image_iff) (metis theme_as_str.simps(2,3))+
qed

interpretation language: spelled language_as_str language_parse En
proof
  show "language_parse (language_as_str e) = e" for e by (cases e) (auto simp: language_parse_def)
  show "language_parse t = En" if "t \<notin> range language_as_str" for t
    using that by (auto simp: language_parse_def image_iff) (metis language_as_str.simps(2))
qed

section \<open>Lists of capabilities\<close>

lemma capability_all_complete [simp]: "c \<in> set capability_all"
  by (cases c) (auto simp: capability_all_def)

lemma parse_one_name [simp]: "parse_one (capability_name c) = Some c"
  by (cases c) (auto simp: parse_one_def capability_all_def)

lemma parse_one_Some: "parse_one t = Some c \<longleftrightarrow> t = capability_name c"
proof
  assume "parse_one t = Some c"
  then show "t = capability_name c" by (auto simp: parse_one_def find_Some_iff)
qed simp

lemma capability_name_inject [simp]: "capability_name a = capability_name b \<longleftrightarrow> a = b"
  by (metis option.inject parse_one_name)

lemma capability_name_plain:
  "CHR '','' \<notin> set (capability_name c) \<and> trim (capability_name c) = capability_name c"
  by (cases c) (auto intro!: trim_id simp: is_whitespace_def)

lemma parse_list_to_list: "cs \<noteq> [] \<Longrightarrow> capability_parse_list (capability_to_list cs) = cs"
proof -
  assume "cs \<noteq> []"
  then have "split_on CHR '','' (capability_to_list cs) = map capability_name cs"
    unfolding capability_to_list_def
    by (intro split_join) (use capability_name_plain in auto)
  moreover have "map (trim \<circ> capability_name) cs = map capability_name cs"
    using capability_name_plain by simp
  ultimately show ?thesis
    by (simp add: capability_parse_list_def map_filter_def comp_def capability_name_plain)
qed

section \<open>Grants\<close>

lemma capability_key_inject [simp]: "capability_key a = capability_key b \<longleftrightarrow> a = b"
  by (cases a; cases b) auto

lemma capability_key_not_owns [simp]: "capability_key c \<noteq> OWNS" "OWNS \<noteq> capability_key c"
  by (cases c; simp add: OWNS_def)+

interpretation setting: upsert_table "\<lambda>k. k" "\<lambda>k v db. setting_write k v db" setting_read
  by unfold_locales (simp add: setting_read_def setting_write_def row_simps)

lemma provides_set_provides [row_simps]:
  "provides (set_provides c on db) d = (if d = c then on else provides db d)"
  by (auto simp: provides_def set_provides_def setting.get_put)

lemma owns_set_owns [row_simps]: "owns (set_owns on db) = on"
  by (simp add: owns_def set_owns_def setting.get_put)

lemma owns_set_provides [row_simps]: "owns (set_provides c on db) = owns db"
  by (simp add: owns_def set_provides_def setting.get_put)

lemma provides_set_owns [row_simps]: "provides (set_owns on db) c = provides db c"
  by (simp add: provides_def set_owns_def setting.get_put)

lemma insert_pairs_of_node:
  "insert_pairs node at names rows = Some rows' \<Longrightarrow>
    pairs_of_node other rows' = pairs_of_node other rows @ (if other = node then names else [])"
  by (induction node at names rows rule: insert_pairs.induct)
    (auto simp: pairs_of_node_def split: if_splits)

lemma insert_pairs_ok:
  "insert_pairs node at names rows \<noteq> None \<longleftrightarrow>
    distinct names \<and> set names \<inter> set (pairs_of_node node rows) = {}"
proof (induction node at names rows rule: insert_pairs.induct)
  case (2 node at name names rows)
  have "(node, name) \<in> fst ` set rows \<longleftrightarrow> name \<in> set (pairs_of_node node rows)"
    by (force simp: pairs_of_node_def image_iff)
  moreover have "set (pairs_of_node node (rows @ [((node, name), at)])) =
      insert name (set (pairs_of_node node rows))"
    by (simp add: pairs_of_node_def)
  ultimately show ?case using "2.IH" by auto
qed simp

lemma replace_pairs_Some:
  assumes "replace_pairs node at names rows = Some rows'"
  shows "pairs_of_node other rows' = (if other = node then names else pairs_of_node other rows)"
proof -
  have "pairs_of_node node (filter (\<lambda>r. fst (fst r) \<noteq> node) rows) = []"
    by (simp add: pairs_of_node_def filter_empty_conv)
  moreover have "pairs_of_node other (filter (\<lambda>r. fst (fst r) \<noteq> node) rows) = pairs_of_node other rows"
    if "other \<noteq> node"
    using that by (simp add: pairs_of_node_def) (metis (mono_tags, lifting) filter_cong)
  ultimately show ?thesis
    using insert_pairs_of_node [OF assms [unfolded replace_pairs_def], of other] by auto
qed

lemma replace_pairs_ok: "replace_pairs node at names rows \<noteq> None \<longleftrightarrow> distinct names"
proof -
  have "pairs_of_node node (filter (\<lambda>r. fst (fst r) \<noteq> node) rows) = []"
    by (simp add: pairs_of_node_def filter_empty_conv)
  then show ?thesis by (simp only: replace_pairs_def insert_pairs_ok) simp
qed

lemma capability_grant_frame:
  "capability_grant now node cs db = (ok, db') \<Longrightarrow>
    settings db' = settings db \<and> node_grant_withdrawn db' = node_grant_withdrawn db"
  by (auto simp: capability_grant_def Let_def split: option.splits)

lemma grant_keeps_answers:
  assumes "capability_grant now node cs db = (ok, db')"
  shows "provides db' = provides db" and "withdrawn_from db' = withdrawn_from db"
  using capability_grant_frame [OF assms]
  by (auto simp: fun_eq_iff provides_def setting_read_def withdrawn_from_def)

lemma capability_grant_fails: "capability_grant now node cs db = (False, db') \<Longrightarrow> db' = db"
  by (auto simp: capability_grant_def Let_def split: option.splits)

lemma capability_grant_ok: "fst (capability_grant now node cs db) \<longleftrightarrow> distinct (filter (provides db) cs)"
proof -
  have "distinct (map capability_name xs) = distinct xs" for xs
    by (simp add: distinct_map inj_on_def)
  then show ?thesis
    using replace_pairs_ok [of node now "map capability_name (filter (provides db) cs)" "node_grant db"]
    by (auto simp: capability_grant_def Let_def split: option.splits)
qed

lemma granted_to_after_grant [row_simps]:
  assumes "capability_grant now node cs db = (True, db')"
  shows "granted_to db' n =
    (if n = node then filter (\<lambda>c. c \<in> set cs \<and> c \<notin> set (withdrawn_from db node) \<and> provides db c)
       capability_all
     else granted_to db n)"
proof -
  from assms obtain rows where rows: "db' = db\<lparr>node_grant := rows\<rparr>"
    "replace_pairs node now (map capability_name (filter (provides db) cs)) (node_grant db) = Some rows"
    by (auto simp: capability_grant_def Let_def split: option.splits)
  have pairs: "pairs_of_node n (node_grant db') =
      (if n = node then map capability_name (filter (provides db) cs) else pairs_of_node n (node_grant db))"
    using replace_pairs_Some [OF rows(2)] by (simp add: rows(1))
  show ?thesis
    by (auto simp: granted_to_def pairs grant_keeps_answers [OF assms] image_iff
        intro!: filter_cong)
qed

lemma honour_one_cases:
  assumes "honour_one now e db = (r, db')"
  obtains (skipped) "r = Some False" "db' = db"
      "\<And>node c. fst e = Some node \<Longrightarrow> c \<in> set (snd e) \<Longrightarrow>
        c \<in> set (granted_to db node) \<or> c \<in> set (withdrawn_from db node)"
    | (failed) "r = None" "db' = db"
    | (wrote) node missing where "r = Some True" "fst e = Some node"
      "missing = filter (\<lambda>c. c \<notin> set (granted_to db node) \<and> c \<notin> set (withdrawn_from db node)) (snd e)"
      "capability_grant now node (granted_to db node @ missing) db = (True, db')"
proof (cases "fst e")
  case None
  with assms show ?thesis by (intro skipped) (auto simp: honour_one_def)
next
  case (Some node)
  let ?missing = "filter (\<lambda>c. c \<notin> set (granted_to db node) \<and> c \<notin> set (withdrawn_from db node)) (snd e)"
  show ?thesis
  proof (cases "?missing = []")
    case True
    with Some assms show ?thesis
      by (intro skipped) (auto simp: honour_one_def Let_def filter_empty_conv split: if_splits)
  next
    case False
    obtain ok db'' where g: "capability_grant now node (granted_to db node @ ?missing) db = (ok, db'')"
      by fastforce
    have "snd e \<noteq> []" using False by auto
    then have r: "(r, db') = (if ok then Some True else None, db'')"
      using assms Some False g by (simp add: honour_one_def Let_def)
    show ?thesis
    proof (cases ok)
      case True
      with r g Some show ?thesis by (intro wrote) auto
    next
      case no: False
      with r g capability_grant_fails show ?thesis by (intro failed) auto
    qed
  qed
qed

text \<open>What holds of every enrolment's turn and composes, holds of the pass.\<close>

lemma honour_offers_loop_induct:
  assumes "honour_offers_loop now es written db = (n, db')"
    and "\<And>db. R db db" and "\<And>a b c. R a b \<Longrightarrow> R b c \<Longrightarrow> R a c"
    and "\<And>e db r db'. honour_one now e db = (r, db') \<Longrightarrow> R db db'"
  shows "R db db'"
  using assms(1)
proof (induction es arbitrary: written db)
  case Nil
  then show ?case using assms(2) by simp
next
  case (Cons e es)
  obtain r db'' where one: "honour_one now e db = (r, db'')" by fastforce
  show ?case
  proof (cases r)
    case None
    then show ?thesis using Cons.prems one assms(4) by auto
  next
    case (Some wrote)
    then have "R db'' db'" using Cons.prems one Cons.IH by simp
    then show ?thesis using assms(3,4) one by blast
  qed
qed

lemma honour_one_frame:
  "honour_one now e db = (r, db') \<Longrightarrow> provides db' = provides db \<and> withdrawn_from db' = withdrawn_from db"
  by (erule honour_one_cases) (auto dest: grant_keeps_answers)

lemma honour_offers_loop_frame:
  "honour_offers_loop now es written db = (n, db') \<Longrightarrow>
    provides db' = provides db \<and> withdrawn_from db' = withdrawn_from db"
  by (erule honour_offers_loop_induct) (use honour_one_frame in auto)

lemma honour_offers_frame:
  "honour_offers now es db = (n, db') \<Longrightarrow>
    provides db' = provides db \<and> withdrawn_from db' = withdrawn_from db"
  by (auto simp: honour_offers_def dest: honour_offers_loop_frame)

lemma honour_one_keeps:
  assumes "honour_one now e db = (r, db')"
  shows "set (granted_to db node) \<subseteq> set (granted_to db' node)"
  using assms
proof (cases rule: honour_one_cases)
  case (wrote who missing)
  show ?thesis
    unfolding granted_to_after_grant [OF wrote(4)] by (auto simp: granted_to_def)
qed auto

lemma honour_offers_loop_keeps:
  "honour_offers_loop now es written db = (n, db') \<Longrightarrow> set (granted_to db node) \<subseteq> set (granted_to db' node)"
  by (erule honour_offers_loop_induct [where R = "\<lambda>a b. set (granted_to a node) \<subseteq> set (granted_to b node)"])
    (use honour_one_keeps in blast)+

lemma honour_one_grants:
  assumes "honour_one now e db = (Some w, db')" and "fst e = Some node" and "c \<in> set (snd e)"
    and "provides db c" and "c \<notin> set (withdrawn_from db node)"
  shows "c \<in> set (granted_to db' node)"
  using assms(1)
proof (cases rule: honour_one_cases)
  case skipped
  then show ?thesis using assms by blast
next
  case (wrote who missing)
  have "who = node" using wrote(2) assms(2) by simp
  then have "c \<in> set (granted_to db node @ missing)" using wrote(3) assms by auto
  then show ?thesis
    using \<open>who = node\<close> assms(4,5) unfolding granted_to_after_grant [OF wrote(4)] by auto
qed simp

lemma honour_offers_loop_grants:
  assumes "honour_offers_loop now es written db = (Some n, db')" and "(Some node, offers) \<in> set es"
    and "c \<in> set offers" and "provides db c" and "c \<notin> set (withdrawn_from db node)"
  shows "c \<in> set (granted_to db' node)"
  using assms
proof (induction es arbitrary: written db)
  case (Cons e es)
  obtain r db'' where one: "honour_one now e db = (r, db'')" by fastforce
  with Cons.prems(1) obtain w where w: "r = Some w"
    and rest: "honour_offers_loop now es (if w then Suc written else written) db'' = (Some n, db')"
    by (cases r) auto
  note frame = honour_one_frame [OF one]
  show ?case
  proof (cases "e = (Some node, offers)")
    case True
    then have "c \<in> set (granted_to db'' node)"
      using honour_one_grants [OF one [unfolded w]] Cons.prems by auto
    then show ?thesis using honour_offers_loop_keeps [OF rest] by blast
  next
    case False
    then show ?thesis using Cons.IH [OF rest] Cons.prems frame by auto
  qed
qed simp

section \<open>The node's settings (node/settings.rs)\<close>

definition DOMAIN :: string where "DOMAIN = ''node.domain''"
definition ACME :: string where "ACME = ''acme.enabled''"
definition ACME_ERROR :: string where "ACME_ERROR = ''acme.last_error''"
definition ARCHIVING :: string where "ARCHIVING = ''wal.archiving''"
definition MEMORY_RESERVE :: string where "MEMORY_RESERVE = ''node.memory_reserve''"
definition CPU_RESERVE :: string where "CPU_RESERVE = ''node.cpu_reserve''"

lemmas setting_keys = DOMAIN_def ACME_def ACME_ERROR_def ARCHIVING_def MEMORY_RESERVE_def CPU_RESERVE_def

definition node_domain :: "grant_db \<Rightarrow> string option" where
  "node_domain db =
    (case setting_read db DOMAIN of
       Some stored \<Rightarrow> if trim stored \<noteq> [] then Some stored else None
     | None \<Rightarrow> None)"

definition set_node_domain :: "string option \<Rightarrow> grant_db \<Rightarrow> grant_db" where
  "set_node_domain domain db =
    setting_write DOMAIN (case domain of Some d \<Rightarrow> trim d | None \<Rightarrow> []) db"

definition acme_enabled :: "grant_db \<Rightarrow> bool" where
  "acme_enabled db \<longleftrightarrow> setting_read db ACME \<noteq> Some ''off''"

definition set_acme_enabled :: "bool \<Rightarrow> grant_db \<Rightarrow> grant_db" where
  "set_acme_enabled on db = setting_write ACME (if on then ''on'' else ''off'') db"

text \<open>The two values of the configuration file that are copied: its domain and \<open>acme.disabled\<close>.\<close>

definition seed :: "string option \<Rightarrow> bool \<Rightarrow> grant_db \<Rightarrow> grant_db" where
  "seed file_domain acme_disabled db =
    (let db = (if setting_read db DOMAIN = None then set_node_domain file_domain db else db) in
     if setting_read db ACME = None then set_acme_enabled (\<not> acme_disabled) db else db)"

definition archiving :: "grant_db \<Rightarrow> bool" where
  "archiving db \<longleftrightarrow> setting_read db ARCHIVING \<noteq> Some ''off''"

definition set_archiving :: "bool \<Rightarrow> grant_db \<Rightarrow> grant_db" where
  "set_archiving on db = setting_write ARCHIVING (if on then ''on'' else ''off'') db"

definition parse_setting :: "nat \<Rightarrow> grant_db \<Rightarrow> string \<Rightarrow> nat option" where
  "parse_setting bound db k =
    (case setting_read db k of Some v \<Rightarrow> parse_uint bound (trim v) | None \<Rightarrow> None)"

definition memory_reserve :: "grant_db \<Rightarrow> u64 option" where
  "memory_reserve db = map_option of_nat (parse_setting (2 ^ 64) db MEMORY_RESERVE)"

definition set_memory_reserve :: "u64 option \<Rightarrow> grant_db \<Rightarrow> grant_db" where
  "set_memory_reserve bytes db =
    setting_write MEMORY_RESERVE (case bytes of Some b \<Rightarrow> show_nat (unat b) | None \<Rightarrow> []) db"

definition cpu_reserve :: "grant_db \<Rightarrow> u32 option" where
  "cpu_reserve db = map_option of_nat (parse_setting (2 ^ 32) db CPU_RESERVE)"

definition set_cpu_reserve :: "u32 option \<Rightarrow> grant_db \<Rightarrow> grant_db" where
  "set_cpu_reserve millicores db =
    setting_write CPU_RESERVE (case millicores of Some m \<Rightarrow> show_nat (unat m) | None \<Rightarrow> []) db"

definition acme_error :: "grant_db \<Rightarrow> string option" where
  "acme_error db =
    (case setting_read db ACME_ERROR of
       Some message \<Rightarrow> if trim message \<noteq> [] then Some message else None | None \<Rightarrow> None)"

definition set_acme_error :: "string option \<Rightarrow> grant_db \<Rightarrow> grant_db" where
  "set_acme_error message db =
    setting_write ACME_ERROR (case message of Some m \<Rightarrow> m | None \<Rightarrow> []) db"

lemma trim_show_nat [simp]: "trim (show_nat n) = show_nat n"
proof -
  have "\<not> is_whitespace c" if "c \<in> set (show_nat n)" for c
    using show_nat_chars [OF that] by (auto simp: is_digit_def is_whitespace_def)
  then show ?thesis by (intro trim_id) auto
qed

lemma parse_uint_Nil [simp]: "parse_uint b [] = None"
  by (simp add: parse_uint_def strip_prefix_def starts_with_def)

lemma reserve_roundtrip:
  "memory_reserve (set_memory_reserve b db) = b" "cpu_reserve (set_cpu_reserve m db) = m"
proof -
  have "unat x < 18446744073709551616" for x :: u64
    using unat_below_exp [of x] by simp
  moreover have "unat x < 4294967296" for x :: u32
    using unat_below_exp [of x] by simp
  ultimately show "memory_reserve (set_memory_reserve b db) = b" "cpu_reserve (set_cpu_reserve m db) = m"
    by (simp_all add: memory_reserve_def set_memory_reserve_def cpu_reserve_def set_cpu_reserve_def
        parse_setting_def setting.get_put split: option.splits)
qed

section \<open>Properties\<close>

text \<open>A role read from a row allows no more than a row says in full: only the
  text of the owner's role administers, only the two texts above a viewer deploy, and a
  text this version has never heard of reads as a viewer's and as an ordinary member's.
  What allows more allows everything that allows less.\<close>

theorem role_text_least_privilege:
  "(may_administer (member (project_role_parse t)) \<longleftrightarrow> t = ''owner'') \<and>
   (may_deploy (member (project_role_parse t)) \<longleftrightarrow> t = ''owner'' \<or> t = ''deployer'') \<and>
   (node_role_parse t = Admin \<longleftrightarrow> t = ''admin'') \<and>
   may_administer a \<le> may_deploy a \<and> may_deploy a \<le> may_read a"
  by (auto simp: may_administer_def may_deploy_def may_read_def at_least_def member_def
      project_role_parse_def node_role_parse_def project_role_order split: option.splits)

text \<open>What may happen to a node's tables while its operator does not decide about \<open>node\<close>
  again: joins, decisions about other nodes, switches of this node, restarts.\<close>

inductive node_step :: "string \<Rightarrow> grant_db \<Rightarrow> grant_db \<Rightarrow> bool" for node where
  Joined: "capability_grant now other cs db = (ok, db') \<Longrightarrow> node_step node db db'"
| Decided: "other \<noteq> node \<Longrightarrow> set_granted now other cs db = (ok, db') \<Longrightarrow> node_step node db db'"
| Provided: "node_step node db (set_provides c on db)"
| Owned: "node_step node db (set_owns on db)"
| Seeded: "node_step node db (seed file_domain acme_disabled db)"
| Booted: "honour_offers now es db = (n, db') \<Longrightarrow> node_step node db db'"

lemma withdrawn_from_setting_write [simp]: "withdrawn_from (setting_write k v db) = withdrawn_from db"
  by (auto simp: fun_eq_iff withdrawn_from_def setting_write_def)

lemma set_granted_withdrawn:
  assumes "set_granted now other cs db = (ok, db')"
  shows "set (withdrawn_from db' node) =
    (if node = other then - set cs else set (withdrawn_from db node))"
proof -
  let ?refused = "map capability_name (filter (\<lambda>c. c \<notin> set cs) capability_all)"
  have "distinct ?refused"
    by (auto simp: distinct_map inj_on_def capability_all_def)
  then obtain rows where rows: "replace_pairs other now ?refused (node_grant_withdrawn db) = Some rows"
    using replace_pairs_ok [of other now ?refused "node_grant_withdrawn db"] by auto
  then have g: "capability_grant now other cs (db\<lparr>node_grant_withdrawn := rows\<rparr>) = (ok, db')"
    using assms by (simp add: set_granted_def Let_def)
  have "List.map_filter parse_one ?refused = filter (\<lambda>c. c \<notin> set cs) capability_all"
    by (simp add: map_filter_def comp_def)
  then show ?thesis
    using replace_pairs_Some [OF rows, of node]
    by (auto simp: grant_keeps_answers(2) [OF g]) (auto simp: withdrawn_from_def)
qed

lemma node_step_withdrawn:
  "node_step node a b \<Longrightarrow> set (withdrawn_from a node) = set (withdrawn_from b node)"
  by (induction rule: node_step.induct)
    (auto simp: set_provides_def set_owns_def seed_def Let_def set_node_domain_def
      set_acme_enabled_def set_granted_withdrawn dest: grant_keeps_answers honour_offers_frame)

lemma node_steps_withdrawn:
  "(node_step node)\<^sup>*\<^sup>* a b \<Longrightarrow> set (withdrawn_from a node) = set (withdrawn_from b node)"
  by (induction rule: rtranclp_induct) (auto dest: node_step_withdrawn)

text \<open>Property C4. A capability an operator has refused a node stays refused: no join, no
  switch, no decision about another node and no restart grants it again, in any order,
  until the operator decides about that node once more.\<close>

theorem withdrawal_sticks:
  assumes "set_granted now node cs db = (ok, db1)" and "(node_step node)\<^sup>*\<^sup>* db1 db2"
    and "c \<notin> set cs"
  shows "c \<notin> set (granted_to db2 node)"
  using assms set_granted_withdrawn [OF assms(1), of node] node_steps_withdrawn [OF assms(2)]
  by (auto simp: granted_to_def)

theorem withdrawal_sticks_witness:
  "let db1 = snd (set_granted 5 ''n'' [Host] \<lparr>settings = [], node_grant = [], node_grant_withdrawn = []\<rparr>);
       db2 = snd (capability_grant 7 ''n'' [Host, Edge] db1)
   in Edge \<notin> set (granted_to db2 ''n'') \<and> granted_to db2 ''n'' = [Host]"
proof -
  let ?db0 = "\<lparr>settings = [], node_grant = [], node_grant_withdrawn = []\<rparr>"
  let ?db1 = "snd (set_granted 5 ''n'' [Host] ?db0)"
  let ?db2 = "snd (capability_grant 7 ''n'' [Host, Edge] ?db1)"
  have "node_step ''n'' ?db1 ?db2" by (rule Joined [where ok = "fst (capability_grant 7 ''n'' [Host, Edge] ?db1)"]) simp
  then have steps: "(node_step ''n'')\<^sup>*\<^sup>* ?db1 ?db2" by blast
  have "set_granted 5 ''n'' [Host] ?db0 = (fst (set_granted 5 ''n'' [Host] ?db0), ?db1)" by simp
  from withdrawal_sticks [OF this steps, of Edge] have "Edge \<notin> set (granted_to ?db2 ''n'')" by simp
  moreover have "granted_to ?db2 ''n'' = [Host]" by code_simp
  ultimately show ?thesis by (simp only: Let_def simp_thms)
qed

text \<open>Property C39. The boot pass takes nothing from what a node is granted, and when it
  succeeds every offer a node spent is granted unless this node does not provide it or the
  operator has refused it.\<close>

theorem honour_offers_complete:
  assumes "honour_offers now es db = (n, db')"
  shows "set (granted_to db node) \<subseteq> set (granted_to db' node) \<and>
    (n \<noteq> None \<and> (Some node, offers) \<in> set es \<and> c \<in> set offers \<and> provides db c \<and>
       c \<notin> set (withdrawn_from db node) \<longrightarrow> c \<in> set (granted_to db' node))"
  using assms honour_offers_loop_keeps [of now es 0 db n db' node]
    honour_offers_loop_grants [of now es 0 db _ db' node offers c]
  by (auto simp: honour_offers_def)

text \<open>The witness also shows a row the pass does remove: a grant of what this node has
  switched off for now, when another offer of the same node is missing.\<close>

theorem honour_offers_complete_witness:
  "let db = set_provides Host False
        (snd (capability_grant 3 ''n'' [Host] \<lparr>settings = [], node_grant = [], node_grant_withdrawn = []\<rparr>));
       db' = snd (honour_offers 9 [(Some ''n'', [Edge])] db)
   in Edge \<in> set (granted_to db' ''n'') \<and>
      Host \<in> set (granted_to (set_provides Host True db) ''n'') \<and>
      Host \<notin> set (granted_to (set_provides Host True db') ''n'')"
proof -
  let ?db = "set_provides Host False
        (snd (capability_grant 3 ''n'' [Host] \<lparr>settings = [], node_grant = [], node_grant_withdrawn = []\<rparr>))"
  let ?r = "honour_offers 9 [(Some ''n'', [Edge])] ?db"
  have n: "fst ?r \<noteq> None \<and> provides ?db Edge \<and> Edge \<notin> set (withdrawn_from ?db ''n'')" by code_simp
  have r: "?r = (fst ?r, snd ?r)" by simp
  have "Edge \<in> set (granted_to (snd ?r) ''n'')"
    using honour_offers_complete [OF r, of "''n''" "[Edge]" Edge] n by (simp only: list.set insertI1) blast
  moreover have "Host \<in> set (granted_to (set_provides Host True ?db) ''n'')" by code_simp
  moreover have "Host \<notin> set (granted_to (set_provides Host True (snd ?r)) ''n'')" by code_simp
  ultimately show ?thesis by (simp only: Let_def) blast
qed

text \<open>The file is a seed: seeding twice is seeding once whatever the file says
  the second time, and a domain or a switch that was set is what is read.\<close>

theorem seed_once:
  "seed f' d' (seed f d db) = seed f d db \<and>
   node_domain (seed f d (set_node_domain x db)) = node_domain (set_node_domain x db) \<and>
   acme_enabled (seed f d (set_acme_enabled on db)) = on \<and>
   node_domain (set_node_domain None db) = None \<and>
   memory_reserve (set_memory_reserve b db) = b \<and> cpu_reserve (set_cpu_reserve m db) = m \<and>
   provides (set_provides c p db) k = (if k = c then p else provides db k) \<and>
   owns (set_provides c p db) = owns db"
  by (simp add: seed_def Let_def node_domain_def set_node_domain_def acme_enabled_def
      set_acme_enabled_def setting.get_put setting_keys reserve_roundtrip row_simps)

end
