(* ===== verification/Projects.thy ===== *)
theory Projects
  imports Names Roles "HOL-Library.Product_Lexorder"
begin

text \<open>
  Projects, who is in them and who may see them: the rows of \<open>project\<close>
  (src/src/infra/repositories/projects.rs), of \<open>membership\<close> and \<open>account\<close>
  (infra/repositories/access.rs), and the use cases of features/projects that compose them.
  Tables are lists in insertion order; the queries sort as their \<open>ORDER BY\<close> says. What
  another writer does between two transactions of one operation is an argument.
\<close>

section \<open>The tables\<close>

record project =
  project_id :: string
  project_name :: string
  project_slug :: string
  created_at :: int
  origin_node_id :: "string option"
  project_tenant :: "string option"

text \<open>The columns the entity does not carry.\<close>

record project_row = project +
  network_index :: "nat option"
  registry_domain :: "string option"

definition project_is_ours :: "project \<Rightarrow> bool" where
  "project_is_ours p \<longleftrightarrow> origin_node_id p = None"

definition is_the_nodes_own :: "project \<Rightarrow> bool" where
  "is_the_nodes_own p \<longleftrightarrow> project_tenant p = None"

record org_db =
  projects :: "project_row list"
  memberships :: "(string \<times> string, string \<times> int) table"
  accounts :: "account list"

datatype project_refusal =
    BadProjectName | NoSlug | ProjectNameTaken string | NoSubnets | NoSubnet | OnlyOwner
  | NotThisConsole | OwnersOnly | OwnsNothing | NobodyCalled string

section \<open>Projects\<close>

definition decode_project :: "project_row \<Rightarrow> project" where
  "decode_project row = project.truncate row"

definition projects_insert :: "project_row \<Rightarrow> org_db \<Rightarrow> org_db option" where
  "projects_insert row db =
    (if list_ex (\<lambda>p. project_id p = project_id row \<or> project_slug p = project_slug row) (projects db)
     then None else Some (db\<lparr>projects := projects db @ [row]\<rparr>))"

definition create_for :: "string \<Rightarrow> int \<Rightarrow> string \<Rightarrow> string option \<Rightarrow> org_db
    \<Rightarrow> (project_refusal + project) \<times> org_db" where
  "create_for generated now name tenant db =
    (let name = trim name in
     if name = [] \<or> length name > 60 then (Inl BadProjectName, db)
     else let slug = slug_of name in
       if slug = [] then (Inl NoSlug, db)
       else let row = \<lparr>project_id = ''prj-'' @ generated, project_name = name, project_slug = slug,
                       created_at = now, origin_node_id = None, project_tenant = tenant,
                       network_index = None, registry_domain = None\<rparr>
            in case projects_insert row db of
                 None \<Rightarrow> (Inl (ProjectNameTaken name), db)
               | Some db' \<Rightarrow> (Inr (decode_project row), db'))"

definition update_project :: "string \<Rightarrow> (project_row \<Rightarrow> project_row) \<Rightarrow> org_db \<Rightarrow> org_db" where
  "update_project pid f db =
    db\<lparr>projects := map (\<lambda>p. if project_id p = pid then f p else p) (projects db)\<rparr>"

definition project_set_origin :: "string \<Rightarrow> string \<Rightarrow> org_db \<Rightarrow> org_db" where
  "project_set_origin pid node db = update_project pid (\<lambda>p. p\<lparr>origin_node_id := Some node\<rparr>) db"

definition projects_all :: "org_db \<Rightarrow> project list" where
  "projects_all db = sort_key created_at (map decode_project (projects db))"

text \<open>
  \<open>WHERE id = ?1 OR slug = ?1\<close>. Which row is read when the text is one project's id and
  another's slug is left open by SQL; \<open>handles_apart\<close> says that no text is both.
\<close>

definition projects_find :: "org_db \<Rightarrow> string \<Rightarrow> project option" where
  "projects_find db k =
    map_option decode_project (List.find (\<lambda>p. project_id p = k \<or> project_slug p = k) (projects db))"

definition handles_apart :: "org_db \<Rightarrow> bool" where
  "handles_apart db \<longleftrightarrow>
    distinct (map project_id (projects db)) \<and> distinct (map project_slug (projects db)) \<and>
    set (map project_id (projects db)) \<inter> set (map project_slug (projects db)) = {}"

definition project_network_index :: "org_db \<Rightarrow> string \<Rightarrow> nat option" where
  "project_network_index db pid =
    (case List.find (\<lambda>p. project_id p = pid) (projects db) of
       Some p \<Rightarrow> network_index p | None \<Rightarrow> None)"

text \<open>
  The claim of a slot: \<open>None\<close> is the unique index refusing it, \<open>Some\<close> the rows it changed.
\<close>

definition claim_index :: "string \<Rightarrow> nat \<Rightarrow> org_db \<Rightarrow> nat option \<times> org_db" where
  "claim_index pid next_index db =
    (let hit = filter (\<lambda>p. project_id p = pid \<and> network_index p = None) (projects db) in
     if hit = [] then (Some 0, db)
     else if list_ex (\<lambda>p. network_index p = Some next_index) (projects db) then (None, db)
     else (Some (length hit),
           db\<lparr>projects := map (\<lambda>p. if project_id p = pid \<and> network_index p = None
                                then p\<lparr>network_index := Some next_index\<rparr> else p) (projects db)\<rparr>))"

definition ensure_network_index :: "(org_db \<Rightarrow> org_db) \<Rightarrow> string \<Rightarrow> org_db
    \<Rightarrow> (project_refusal + u8) \<times> org_db" where
  "ensure_network_index between pid db =
    (case project_network_index db pid of
       Some index \<Rightarrow> (Inr (of_nat index), db)
     | None \<Rightarrow>
         (let taken = set (List.map_filter network_index (projects db)) in
          case lowest_free 1 255 taken of
            None \<Rightarrow> (Inl NoSubnets, db)
          | Some next_index \<Rightarrow>
              (let claimed = claim_index pid next_index (between db) in
               if fst claimed = Some 1 then (Inr (of_nat next_index), snd claimed)
               else (case project_network_index (snd claimed) pid of
                       Some index \<Rightarrow> (Inr (of_nat index), snd claimed)
                     | None \<Rightarrow> (Inl NoSubnet, snd claimed)))))"

definition project_registry_domain :: "org_db \<Rightarrow> string \<Rightarrow> string option" where
  "project_registry_domain db pid =
    (case List.find (\<lambda>p. project_id p = pid) (projects db) of
       Some p \<Rightarrow> registry_domain p | None \<Rightarrow> None)"

definition registry_domains :: "org_db \<Rightarrow> (string \<times> string) list" where
  "registry_domains db =
    sort_key snd (List.map_filter
      (\<lambda>p. case registry_domain p of Some d \<Rightarrow> Some (project_id p, d) | None \<Rightarrow> None) (projects db))"

definition is_a_registry :: "org_db \<Rightarrow> string \<Rightarrow> bool" where
  "is_a_registry db host \<longleftrightarrow> list_ex (\<lambda>(_, d). lowercase d = lowercase host) (registry_domains db)"

datatype registry_claim = ClaimSet | HeldBy string

definition set_registry_domain :: "string \<Rightarrow> string option \<Rightarrow> org_db \<Rightarrow> registry_claim \<times> org_db" where
  "set_registry_domain pid domain db =
    (let holder = (case domain of
           None \<Rightarrow> None
         | Some d \<Rightarrow> List.find (\<lambda>p. registry_domain p = Some d \<and> project_id p \<noteq> pid) (projects db))
     in case holder of
          Some p \<Rightarrow> (HeldBy (project_name p), db)
        | None \<Rightarrow> (ClaimSet, update_project pid (\<lambda>p. p\<lparr>registry_domain := domain\<rparr>) db))"

text \<open>\<open>ON DELETE CASCADE\<close> takes the memberships (and the services, which are not kept here).\<close>

definition project_delete :: "string \<Rightarrow> org_db \<Rightarrow> org_db" where
  "project_delete pid db =
    db\<lparr>projects := filter (\<lambda>p. project_id p \<noteq> pid) (projects db),
       memberships := delete_where (\<lambda>k _. snd k = pid) (memberships db)\<rparr>"

section \<open>Who may do what about a project (access.rs)\<close>

definition access_of :: "org_db \<Rightarrow> account \<Rightarrow> string \<Rightarrow> access" where
  "access_of db account pid =
    (if account_role account = Admin then
       (let scope = (case projects_find db pid of Some p \<Rightarrow> project_tenant p | None \<Rightarrow> None) in
        if scope = account_tenant account then ADMIN
        else if scope \<noteq> None \<and> account_tenant account = None then member Viewer
        else NONE)
     else case map_of (memberships db) (account_id account, pid) of
            Some (r, _) \<Rightarrow> member (project_role_parse r)
          | None \<Rightarrow> NONE)"

definition of_tenant :: "org_db \<Rightarrow> string \<Rightarrow> project list" where
  "of_tenant db tenant =
    sort_key created_at (map decode_project (filter (\<lambda>p. project_tenant p = Some tenant) (projects db)))"

definition projects_for :: "org_db \<Rightarrow> account \<Rightarrow> project list" where
  "projects_for db account =
    (if account_role account = Admin then
       (case account_tenant account of None \<Rightarrow> projects_all db | Some tenant \<Rightarrow> of_tenant db tenant)
     else sort_key created_at (map decode_project
            (filter (\<lambda>p. map_of (memberships db) (account_id account, project_id p) \<noteq> None)
               (projects db))))"

definition find_project :: "org_db \<Rightarrow> account \<Rightarrow> string \<Rightarrow> (project \<times> access) option" where
  "find_project db account slug =
    (case projects_find db slug of
       None \<Rightarrow> None
     | Some project \<Rightarrow>
         (let a = access_of db account (project_id project) in
          if may_read a then Some (project, a) else None))"

definition access_grant :: "int \<Rightarrow> string \<Rightarrow> string \<Rightarrow> project_role \<Rightarrow> org_db \<Rightarrow> org_db" where
  "access_grant now aid pid r db =
    db\<lparr>memberships :=
         AList.update (aid, pid)
           (project_role_as_str r,
            case map_of (memberships db) (aid, pid) of Some (_, at) \<Rightarrow> at | None \<Rightarrow> now)
           (memberships db)\<rparr>"

record project_member =
  member_account :: string
  member_username :: string
  member_role :: project_role

text \<open>The join with \<open>account\<close>, sorted by username, then stably by role with owners first.\<close>

definition members :: "org_db \<Rightarrow> string \<Rightarrow> project_member list" where
  "members db pid =
    (let rows = List.map_filter
           (\<lambda>a. case map_of (memberships db) (account_id a, pid) of
                  Some (r, _) \<Rightarrow> Some (account_id a, username a, r) | None \<Rightarrow> None) (accounts db);
         read = map (\<lambda>(i, u, r). \<lparr>member_account = i, member_username = u,
                                   member_role = project_role_parse r\<rparr>)
                    (sort_key (\<lambda>(i, u, r). u) rows)
     in sort_key (\<lambda>m. (2 - role_rank (member_role m), member_username m)) read)"

definition access_revoke :: "string \<Rightarrow> string \<Rightarrow> org_db \<Rightarrow> (project_refusal + unit) \<times> org_db" where
  "access_revoke aid pid db =
    (let owners = filter (\<lambda>m. member_role m = Owner) (members db pid) in
     if length owners = 1 \<and> member_account (owners ! 0) = aid then (Inl OnlyOwner, db)
     else (Inr (), db\<lparr>memberships := AList.delete (aid, pid) (memberships db)\<rparr>))"

section \<open>The use cases (features/projects)\<close>

definition create_project :: "string \<Rightarrow> int \<Rightarrow> bool \<Rightarrow> string \<Rightarrow> account \<Rightarrow> org_db
    \<Rightarrow> (project_refusal + project) \<times> org_db" where
  "create_project generated now node_owns name creator db =
    (if \<not> node_owns then (Inl OwnsNothing, db)
     else case create_for generated now name (account_tenant creator) db of
            (Inl e, db') \<Rightarrow> (Inl e, db')
          | (Inr p, db') \<Rightarrow> (Inr p, access_grant now (account_id creator) (project_id p) Owner db'))"

definition node_user_create_project :: "string \<Rightarrow> int \<Rightarrow> bool \<Rightarrow> account \<Rightarrow> string \<Rightarrow> org_db
    \<Rightarrow> (project_refusal + project) \<times> org_db" where
  "node_user_create_project generated now node_owns account name db =
    (if \<not> node_user_belongs_here account then (Inl NotThisConsole, db)
     else create_project generated now node_owns name account db)"

definition tenant_user_create_project :: "string \<Rightarrow> int \<Rightarrow> bool \<Rightarrow> account \<Rightarrow> string \<Rightarrow> org_db
    \<Rightarrow> (project_refusal + project) \<times> org_db" where
  "tenant_user_create_project generated now node_owns account name db =
    (if \<not> tenant_user_belongs_here account then (Inl NotThisConsole, db)
     else create_project generated now node_owns name account db)"

definition accounts_all :: "org_db \<Rightarrow> account list" where
  "accounts_all db = sort_key username (accounts db)"

definition add_project_member :: "int \<Rightarrow> string \<Rightarrow> string \<Rightarrow> project_role \<Rightarrow> org_db
    \<Rightarrow> (project_refusal + unit) \<times> org_db" where
  "add_project_member now pid typed r db =
    (case List.find (\<lambda>candidate. lowercase (username candidate) = lowercase typed) (accounts_all db) of
       None \<Rightarrow> (Inl (NobodyCalled typed), db)
     | Some found \<Rightarrow> (Inr (), access_grant now (account_id found) pid r db))"

definition node_user_add_project_member :: "int \<Rightarrow> account \<Rightarrow> project \<Rightarrow> access \<Rightarrow> string \<Rightarrow> project_role
    \<Rightarrow> org_db \<Rightarrow> (project_refusal + unit) \<times> org_db" where
  "node_user_add_project_member now account project allowed typed r db =
    (if \<not> node_user_belongs_here account then (Inl NotThisConsole, db)
     else if \<not> may_administer allowed then (Inl OwnersOnly, db)
     else add_project_member now (project_id project) typed r db)"

definition tenant_user_add_project_member :: "int \<Rightarrow> account \<Rightarrow> project \<Rightarrow> access \<Rightarrow> string \<Rightarrow> project_role
    \<Rightarrow> org_db \<Rightarrow> (project_refusal + unit) \<times> org_db" where
  "tenant_user_add_project_member now account project allowed typed r db =
    (if \<not> tenant_user_belongs_here account then (Inl NotThisConsole, db)
     else if \<not> may_administer allowed then (Inl OwnersOnly, db)
     else add_project_member now (project_id project) typed r db)"

definition node_user_remove_project_member :: "account \<Rightarrow> project \<Rightarrow> access \<Rightarrow> string
    \<Rightarrow> org_db \<Rightarrow> (project_refusal + unit) \<times> org_db" where
  "node_user_remove_project_member account project allowed person db =
    (if \<not> node_user_belongs_here account then (Inl NotThisConsole, db)
     else if \<not> may_administer allowed then (Inl OwnersOnly, db)
     else access_revoke person (project_id project) db)"

definition tenant_user_remove_project_member :: "account \<Rightarrow> project \<Rightarrow> access \<Rightarrow> string
    \<Rightarrow> org_db \<Rightarrow> (project_refusal + unit) \<times> org_db" where
  "tenant_user_remove_project_member account project allowed person db =
    (if \<not> tenant_user_belongs_here account then (Inl NotThisConsole, db)
     else if \<not> may_administer allowed then (Inl OwnersOnly, db)
     else access_revoke person (project_id project) db)"

section \<open>Lemmas\<close>

subsection \<open>Reading a project\<close>

lemma project_id_decode [simp]: "project_id (decode_project p) = project_id p"
  by (simp add: decode_project_def project.truncate_def)

lemma project_slug_decode [simp]: "project_slug (decode_project p) = project_slug p"
  by (simp add: decode_project_def project.truncate_def)

lemma project_tenant_decode [simp]: "project_tenant (decode_project p) = project_tenant p"
  by (simp add: decode_project_def project.truncate_def)

lemma row_of_id:
  "distinct (map project_id ps) \<Longrightarrow> p \<in> set ps \<Longrightarrow> q \<in> set ps \<Longrightarrow> project_id p = project_id q \<Longrightarrow> p = q"
  by (auto simp: distinct_map inj_on_def)

lemma find_the_only:
  "x \<in> set xs \<Longrightarrow> P x \<Longrightarrow> (\<And>y. y \<in> set xs \<Longrightarrow> P y \<Longrightarrow> y = x) \<Longrightarrow> List.find P xs = Some x"
proof (induction xs)
  case (Cons a xs)
  show ?case
  proof (cases "P a")
    case True
    moreover have "a = x" using Cons.prems(3) [OF _ True] by (meson list.set_intros(1))
    ultimately show ?thesis by simp
  next
    case False
    then have "x \<in> set xs" using Cons.prems(1,2) by auto
    moreover have "\<And>y. y \<in> set xs \<Longrightarrow> P y \<Longrightarrow> y = x"
      using Cons.prems(3) by (meson list.set_intros(2))
    ultimately have "List.find P xs = Some x"
      using Cons.IH Cons.prems(2) by blast
    then show ?thesis using False by simp
  qed
qed simp

lemma find_by_id:
  "distinct (map project_id ps) \<Longrightarrow> p \<in> set ps \<Longrightarrow> List.find (\<lambda>q. project_id q = project_id p) ps = Some p"
  by (rule find_the_only) (auto intro: row_of_id)

lemma projects_find_id:
  assumes "handles_apart db" and "p \<in> set (projects db)"
  shows "projects_find db (project_id p) = Some (decode_project p)"
proof -
  have "List.find (\<lambda>q. project_id q = project_id p \<or> project_slug q = project_id p) (projects db) = Some p"
    using assms by (intro find_the_only) (auto simp: handles_apart_def intro: row_of_id)
  then show ?thesis by (simp add: projects_find_def)
qed

lemma decode_mem_iff:
  assumes "distinct (map project_id (projects db))" and "p \<in> set (projects db)"
  shows "decode_project p \<in> decode_project ` {q \<in> set (projects db). P q} \<longleftrightarrow> P p"
  using assms by (auto simp: image_iff) (metis project_id_decode row_of_id)

subsection \<open>Members\<close>

lemma set_members:
  "m \<in> set (members db pid) \<longleftrightarrow>
    (\<exists>a\<in>set (accounts db). \<exists>r t. map_of (memberships db) (account_id a, pid) = Some (r, t) \<and>
       m = \<lparr>member_account = account_id a, member_username = username a, member_role = project_role_parse r\<rparr>)"
proof -
  let ?f = "\<lambda>a. case map_of (memberships db) (account_id a, pid) of
      Some (r, _) \<Rightarrow> Some (account_id a, username a, r) | None \<Rightarrow> None"
  have f: "?f a = Some y \<longleftrightarrow>
      (\<exists>r t. map_of (memberships db) (account_id a, pid) = Some (r, t) \<and> y = (account_id a, username a, r))"
    for a y by (auto split: option.splits)
  have "m \<in> set (members db pid) \<longleftrightarrow>
      (\<exists>y\<in>set (List.map_filter ?f (accounts db)). m = (\<lambda>(i, u, r). \<lparr>member_account = i,
         member_username = u, member_role = project_role_parse r\<rparr>) y)"
    by (simp only: members_def Let_def set_sort set_map image_iff)
  also have "\<dots> \<longleftrightarrow> (\<exists>a\<in>set (accounts db). \<exists>r t. map_of (memberships db) (account_id a, pid) = Some (r, t) \<and>
       m = \<lparr>member_account = account_id a, member_username = username a, member_role = project_role_parse r\<rparr>)"
    by (simp only: Bex_def set_map_filter f) (fastforce)
  finally show ?thesis .
qed

lemma another_one:
  assumes "x \<in> set ys" and "distinct (map f ys)" and "length ys \<noteq> 1"
  shows "\<exists>y\<in>set ys. f y \<noteq> f x"
proof (rule ccontr)
  assume "\<not> (\<exists>y\<in>set ys. f y \<noteq> f x)"
  then have all: "f y = f x" if "y \<in> set ys" for y using that by blast
  have "f ` set ys = (\<lambda>_. f x) ` set ys" by (rule image_cong) (use all in auto)
  then have "set (map f ys) = {f x}" using assms(1) by (cases ys) (auto simp: image_constant_conv)
  moreover have "card (set (map f ys)) = length ys"
    using distinct_card [OF assms(2)] by simp
  ultimately show False using assms(3) by simp
qed

lemma member_accounts_of_rows:
  "map fst (List.map_filter
     (\<lambda>a. case M (account_id a) of Some (r, _) \<Rightarrow> Some (account_id a, username a, r) | None \<Rightarrow> None) as) =
   filter (\<lambda>i. M i \<noteq> None) (map account_id as)"
  by (induction as) (auto simp: map_filter_simps split: option.splits)

lemma distinct_map_sort: "distinct (map f (sort_key k xs)) = distinct (map f xs)"
  by (simp add: distinct_map)

lemma distinct_members:
  assumes "distinct (map account_id (accounts db))"
  shows "distinct (map member_account (members db pid))"
proof -
  let ?rows = "List.map_filter
      (\<lambda>a. case map_of (memberships db) (account_id a, pid) of
             Some (r, _) \<Rightarrow> Some (account_id a, username a, r) | None \<Rightarrow> None) (accounts db)"
  have "distinct (map fst ?rows)"
    using assms member_accounts_of_rows [of "\<lambda>i. map_of (memberships db) (i, pid)" "accounts db"] by simp
  then have "distinct (map fst (sort_key (\<lambda>(i, u, r). u) ?rows))"
    by (simp only: distinct_map_sort)
  moreover have "member_account \<circ> (\<lambda>(i, u, r). \<lparr>member_account = i, member_username = u,
      member_role = project_role_parse r\<rparr>) = fst"
    by auto
  ultimately show ?thesis
    by (simp only: members_def Let_def distinct_map_sort map_map)
qed

lemma access_revoke_members:
  assumes "access_revoke aid pid db = (Inr (), db')"
  shows "m \<in> set (members db' pid') \<longleftrightarrow>
    m \<in> set (members db pid') \<and> (pid' \<noteq> pid \<or> member_account m \<noteq> aid)"
proof -
  have db': "db' = db\<lparr>memberships := AList.delete (aid, pid) (memberships db)\<rparr>"
    using assms by (auto simp: access_revoke_def Let_def split: if_splits)
  have "map_of (memberships db') k = (if k = (aid, pid) then None else map_of (memberships db) k)" for k
    by (simp add: db' delete_conv')
  then show ?thesis
    by (auto simp: set_members db')
qed

subsection \<open>Subnets\<close>

interpretation subnet: allocator 1 255 "lowest_free 1 255"
  by (rule lowest_free_allocator)

definition subnets_ok :: "org_db \<Rightarrow> bool" where
  "subnets_ok db \<longleftrightarrow> distinct (map project_id (projects db)) \<and>
    (\<forall>p\<in>set (projects db). \<forall>i. network_index p = Some i \<longrightarrow> 1 \<le> i \<and> i < 255 \<and>
       (\<forall>q\<in>set (projects db). network_index q = Some i \<longrightarrow> q = p))"

lemma project_network_index_Some:
  assumes "distinct (map project_id (projects db))"
  shows "project_network_index db pid = Some i \<longleftrightarrow>
    (\<exists>p\<in>set (projects db). project_id p = pid \<and> network_index p = Some i)"
proof
  assume "project_network_index db pid = Some i"
  then obtain p where "List.find (\<lambda>p. project_id p = pid) (projects db) = Some p" "network_index p = Some i"
    by (auto simp: project_network_index_def split: option.splits)
  then show "\<exists>p\<in>set (projects db). project_id p = pid \<and> network_index p = Some i"
    by (auto simp: find_Some_iff)
next
  assume "\<exists>p\<in>set (projects db). project_id p = pid \<and> network_index p = Some i"
  then show "project_network_index db pid = Some i"
    using find_by_id [OF assms] by (auto simp: project_network_index_def)
qed

lemma subnets_okD:
  "subnets_ok db \<Longrightarrow> p \<in> set (projects db) \<Longrightarrow> network_index p = Some i \<Longrightarrow> 1 \<le> i \<and> i < 255"
  by (auto simp: subnets_ok_def)

lemma claim_index_ok:
  assumes ok: "subnets_ok db" and n: "1 \<le> n" "n < 255" and claim: "claim_index pid n db = (r, db')"
  shows "subnets_ok db'" and "r = Some 1 \<longrightarrow> project_network_index db' pid = Some n"
proof -
  let ?hit = "\<lambda>p. project_id p = pid \<and> network_index p = None"
  let ?f = "\<lambda>p. if ?hit p then p\<lparr>network_index := Some n\<rparr> else p"
  have "subnets_ok db' \<and> (r = Some 1 \<longrightarrow> project_network_index db' pid = Some n)"
  proof (cases "filter ?hit (projects db) = [] \<or> list_ex (\<lambda>p. network_index p = Some n) (projects db)")
    case True
    then show ?thesis
      using claim ok by (auto simp: claim_index_def Let_def split: if_splits)
  next
    case False
    then have db': "projects db' = map ?f (projects db)"
      using claim by (auto simp: claim_index_def Let_def)
    have free: "network_index p \<noteq> Some n" if "p \<in> set (projects db)" for p
      using False that by (auto simp: list_ex_iff)
    have ids: "map project_id (projects db') = map project_id (projects db)"
      by (simp add: db' comp_def)
    have d: "distinct (map project_id (projects db))" using ok by (simp add: subnets_ok_def)
    obtain p where p: "p \<in> set (projects db)" "?hit p" using False by (auto simp: filter_empty_conv)
    have only: "q = p" if "q \<in> set (projects db)" "?hit q" for q
      using row_of_id [OF d that(1) p(1)] that(2) p(2) by simp
    have "subnets_ok db'"
      unfolding subnets_ok_def
    proof (intro conjI ballI allI impI)
      show "distinct (map project_id (projects db'))" using d ids by simp
    next
      fix x i assume x: "x \<in> set (projects db')" "network_index x = Some i"
      then obtain a where a: "a \<in> set (projects db)" "x = ?f a" by (auto simp: db')
      show "1 \<le> i" "i < 255" using a x(2) n subnets_okD [OF ok a(1)] by (auto split: if_splits)
      fix y assume y: "y \<in> set (projects db')" "network_index y = Some i"
      then obtain b where b: "b \<in> set (projects db)" "y = ?f b" by (auto simp: db')
      show "y = x"
      proof (cases "?hit a \<or> ?hit b")
        case True
        then have "?hit a \<and> ?hit b" using a b x(2) y(2) free by (auto split: if_splits)
        then show ?thesis using only a b by metis
      next
        case False
        then have "a = b" using a b x(2) y(2) ok by (auto simp: subnets_ok_def)
        then show ?thesis using a b by simp
      qed
    qed
    moreover have "project_network_index db' pid = Some n"
    proof (subst project_network_index_Some)
      show "distinct (map project_id (projects db'))" using d ids by simp
      have "?f p \<in> set (projects db')" unfolding db' set_map using p(1) by (rule imageI)
      moreover have "project_id (?f p) = pid \<and> network_index (?f p) = Some n" using p(2) by simp
      ultimately show "\<exists>p\<in>set (projects db'). project_id p = pid \<and> network_index p = Some n" by blast
    qed
    ultimately show ?thesis by blast
  qed
  then show "subnets_ok db'" "r = Some 1 \<longrightarrow> project_network_index db' pid = Some n" by auto
qed

lemma small_index: "i < 255 \<Longrightarrow> unat (of_nat i :: u8) = i"
  by (simp add: unat_of_nat)

lemma claim_index_free:
  assumes ok: "subnets_ok db" and here: "pid \<in> project_id ` set (projects db)"
    and none: "project_network_index db pid = None"
    and free: "n \<notin> set (List.map_filter network_index (projects db))"
  shows "fst (claim_index pid n db) = Some 1"
proof -
  let ?l = "filter (\<lambda>q. project_id q = pid \<and> network_index q = None) (projects db)"
  have d: "distinct (map project_id (projects db))" using ok by (simp add: subnets_ok_def)
  obtain p where p: "p \<in> set (projects db)" "project_id p = pid" using here by auto
  then have "network_index p = None"
    using none project_network_index_Some [OF d, of pid] by (cases "network_index p") auto
  then have hit: "p \<in> set ?l" using p by simp
  have "length ?l = 1"
  proof (rule ccontr)
    assume "length ?l \<noteq> 1"
    moreover have "distinct (map project_id ?l)" using d by (simp add: distinct_map_filter)
    ultimately have "\<exists>y\<in>set ?l. project_id y \<noteq> project_id p" using hit by (intro another_one)
    then show False using p by auto
  qed
  moreover have "\<not> list_ex (\<lambda>p. network_index p = Some n) (projects db)"
    using free by (auto simp: list_ex_iff set_map_filter)
  moreover have "?l \<noteq> []" using hit by (metis list.set_cases list.distinct(1))
  ultimately show ?thesis by (simp add: claim_index_def Let_def)
qed

section \<open>Properties\<close>

text \<open>Property C24. Whatever other deploys do between the read of the taken subnets and the
  claim, as long as they keep the slots apart themselves, the subnet a project is told is
  the one its row holds, within 10.42.1 to 10.42.254 and no other project's; and without a
  race a project that has none is refused only when all 254 are held.\<close>

theorem network_index_exclusive:
  assumes "subnets_ok db" and "subnets_ok (between db)"
    and "ensure_network_index between pid db = (result, db')"
  shows "subnets_ok db' \<and>
    (case result of
       Inr i \<Rightarrow> project_network_index db' pid = Some (unat i) \<and> 1 \<le> unat i \<and> unat i < 255
     | Inl e \<Rightarrow> between db \<noteq> db \<or> e = NoSubnets \<and> {1..<255} \<subseteq> set (List.map_filter network_index (projects db))
         \<or> pid \<notin> project_id ` set (projects db))"
proof (cases "project_network_index db pid")
  case (Some i)
  then have "i < 255" "1 \<le> i"
    using assms(1) project_network_index_Some [of db pid i] subnets_okD [OF assms(1)]
    by (auto simp: subnets_ok_def)
  with Some assms show ?thesis by (auto simp: ensure_network_index_def small_index)
next
  case None
  let ?taken = "set (List.map_filter network_index (projects db))"
  show ?thesis
  proof (cases "lowest_free 1 255 ?taken")
    case None': None
    with None assms subnet.pick_None_iff [of ?taken] show ?thesis
      by (auto simp: ensure_network_index_def Let_def)
  next
    case (Some n)
    have n: "1 \<le> n" "n < 255" "n \<notin> ?taken" using subnet.pick_free [OF Some] by auto
    obtain r db'' where claim: "claim_index pid n (between db) = (r, db'')" by fastforce
    note ok = claim_index_ok [OF assms(2) n(1,2) claim]
    have res: "(result, db') = (if r = Some 1 then (Inr (of_nat n), db'')
        else (case project_network_index db'' pid of Some i \<Rightarrow> (Inr (of_nat i), db'') | None \<Rightarrow> (Inl NoSubnet, db'')))"
      using None Some claim assms(3)
      by (cases "r = Some 1") (auto simp: ensure_network_index_def Let_def split: option.splits)
    have quiet: "pid \<notin> project_id ` set (projects db)" if "between db = db" "r \<noteq> Some 1"
      using claim_index_free [OF assms(1) _ None n(3)] claim that by auto
    show ?thesis
    proof (cases "r = Some 1")
      case True
      then show ?thesis using res ok n by (simp add: small_index)
    next
      case False
      show ?thesis
      proof (cases "project_network_index db'' pid")
        case None
        then show ?thesis using res False ok(1) quiet by auto
      next
        case (Some i)
        then have "1 \<le> i \<and> i < 255"
          using ok(1) project_network_index_Some [of db'' pid i] subnets_okD [OF ok(1)]
          by (auto simp: subnets_ok_def)
        then show ?thesis using res False ok(1) Some by (simp add: small_index)
      qed
    qed
  qed
qed

definition two_projects :: org_db where
  "two_projects =
    \<lparr>projects =
       [\<lparr>project_id = ''prj-a'', project_name = ''A'', project_slug = ''a'', created_at = 1,
         origin_node_id = None, project_tenant = None, network_index = Some 1, registry_domain = None\<rparr>,
        \<lparr>project_id = ''prj-b'', project_name = ''B'', project_slug = ''b'', created_at = 2,
         origin_node_id = None, project_tenant = Some ''tnt-1'', network_index = None,
         registry_domain = None\<rparr>],
     memberships = [((''acc-1'', ''prj-a''), (''owner'', 1)), ((''acc-2'', ''prj-b''), (''owner'', 2))],
     accounts =
       [\<lparr>account_id = ''acc-1'', username = ''ana'', account_role = Member, account_theme = System,
         account_language = En, account_tenant = None\<rparr>,
        \<lparr>account_id = ''acc-2'', username = ''eva'', account_role = Member, account_theme = System,
         account_language = En, account_tenant = Some ''tnt-1''\<rparr>]\<rparr>"

theorem network_index_exclusive_witness:
  "let r = ensure_network_index (\<lambda>db. db) ''prj-b'' two_projects
   in fst r = Inr 2 \<and> project_network_index (snd r) ''prj-b'' = Some 2"
proof -
  let ?r = "ensure_network_index (\<lambda>db. db) ''prj-b'' two_projects"
  have ok: "subnets_ok two_projects" by (simp add: subnets_ok_def two_projects_def)
  have r: "fst ?r = Inr 2" by code_simp
  have "?r = (Inr 2, snd ?r)" using r by (metis prod.collapse)
  from network_index_exclusive [OF ok ok this] have "project_network_index (snd ?r) ''prj-b'' = Some 2"
    by simp
  with r show ?thesis by (simp only: Let_def simp_thms)
qed

text \<open>Property C14. One door: a project is in the list somebody is shown exactly when the page
  of that project lets them read it, for every account and every project there is.\<close>

theorem listed_iff_readable:
  assumes "handles_apart db" and "p \<in> set (projects db)"
  shows "decode_project p \<in> set (projects_for db a) \<longleftrightarrow> may_read (access_of db a (project_id p))"
proof -
  have d: "distinct (map project_id (projects db))" using assms(1) by (simp add: handles_apart_def)
  note mem = decode_mem_iff [OF d assms(2)]
  have tenant: "access_of db a (project_id p) =
      (if account_role a = Admin then
         (if project_tenant p = account_tenant a then ADMIN
          else if project_tenant p \<noteq> None \<and> account_tenant a = None then member Viewer else NONE)
       else case map_of (memberships db) (account_id a, project_id p) of
              Some (r, _) \<Rightarrow> member (project_role_parse r) | None \<Rightarrow> NONE)"
    by (simp add: access_of_def projects_find_id [OF assms] Let_def)
  show ?thesis
  proof (cases "account_role a = Admin")
    case True
    then show ?thesis
      using assms(2) mem [of "\<lambda>q. project_tenant q = Some (the (account_tenant a))"]
      by (cases "account_tenant a")
        (auto simp: tenant projects_for_def projects_all_def of_tenant_def may_read_def
          ADMIN_def NONE_def member_def)
  next
    case False
    then show ?thesis
      using mem [of "\<lambda>q. map_of (memberships db) (account_id a, project_id q) \<noteq> None"]
      by (simp add: tenant projects_for_def may_read_def member_def NONE_def split: option.splits)
  qed
qed

theorem listed_iff_readable_witness:
  "map project_id (projects_for two_projects (accounts two_projects ! 1)) = [''prj-b''] \<and>
   may_read (access_of two_projects (accounts two_projects ! 1) ''prj-b'')"
proof -
  let ?a = "accounts two_projects ! 1"
  let ?p = "projects two_projects ! 1"
  have h: "handles_apart two_projects" by (simp add: handles_apart_def two_projects_def)
  have p: "?p \<in> set (projects two_projects)" by (simp add: two_projects_def)
  have "decode_project ?p \<in> set (projects_for two_projects ?a)" by code_simp
  then have "may_read (access_of two_projects ?a (project_id ?p))"
    using listed_iff_readable [OF h p] by blast
  then have "may_read (access_of two_projects ?a ''prj-b'')" by (simp add: two_projects_def)
  moreover have "map project_id (projects_for two_projects ?a) = [''prj-b'']" by code_simp
  ultimately show ?thesis by blast
qed

text \<open>Property C30. Taking somebody out of a project never takes its last owner: a project
  with an owner still has one, the refusal is given exactly when the person is every owner
  there is, and otherwise exactly that person is gone.\<close>

theorem revoke_keeps_an_owner:
  assumes ids: "distinct (map account_id (accounts db))"
    and m: "m \<in> set (members db pid)" "member_role m = Owner"
    and r: "access_revoke aid pid db = (r, db')"
  shows "(\<exists>m'\<in>set (members db' pid). member_role m' = Owner) \<and>
    (r = Inl OnlyOwner \<longleftrightarrow> {o' \<in> set (members db pid). member_role o' = Owner \<and> member_account o' \<noteq> aid} = {}) \<and>
    (r = Inl OnlyOwner \<and> db' = db \<or>
     r = Inr () \<and> set (members db' pid) = {m \<in> set (members db pid). member_account m \<noteq> aid})"
proof -
  let ?owners = "filter (\<lambda>m. member_role m = Owner) (members db pid)"
  have d: "distinct (map member_account ?owners)"
    using distinct_members [OF ids, of pid] by (simp add: distinct_map_filter)
  have mo: "m \<in> set ?owners" using m by simp
  show ?thesis
  proof (cases "length ?owners = 1 \<and> member_account (?owners ! 0) = aid")
    case True
    then obtain x where x: "?owners = [x]" by (metis One_nat_def length_0_conv length_Suc_conv)
    then have "{o' \<in> set (members db pid). member_role o' = Owner \<and> member_account o' \<noteq> aid} = {}"
      using True by (metis (mono_tags, lifting) Collect_empty_eq empty_iff insert_iff list.set
          mem_Collect_eq nth_Cons_0 set_filter)
    moreover have "r = Inl OnlyOwner \<and> db' = db" using r True by (simp add: access_revoke_def Let_def)
    ultimately show ?thesis using m by blast
  next
    case False
    then have ok: "r = Inr ()" using r by (auto simp: access_revoke_def Let_def split: if_splits)
    have "\<exists>o'\<in>set ?owners. member_account o' \<noteq> aid"
    proof (cases "length ?owners = 1")
      case True
      then obtain x where "?owners = [x]" by (metis One_nat_def length_0_conv length_Suc_conv)
      then show ?thesis using False by simp
    next
      case no: False
      then obtain y where "y \<in> set ?owners" "member_account y \<noteq> member_account m"
        using another_one [OF mo d] by blast
      then show ?thesis using mo by metis
    qed
    then obtain o' where o: "o' \<in> set (members db pid)" "member_role o' = Owner" "member_account o' \<noteq> aid"
      by auto
    have "set (members db' pid) = {m \<in> set (members db pid). member_account m \<noteq> aid}"
      using access_revoke_members [OF r [unfolded ok]] by auto
    then show ?thesis using o ok by auto
  qed
qed

text \<open>The witness also shows the other way out: the last owner is demoted without a word.\<close>

theorem revoke_keeps_an_owner_witness:
  "map member_role (members (snd (access_revoke ''acc-1'' ''prj-a'' two_projects)) ''prj-a'') = [Owner] \<and>
   access_revoke ''acc-1'' ''prj-a'' two_projects = (Inl OnlyOwner, two_projects) \<and>
   map member_role (members (access_grant 9 ''acc-1'' ''prj-a'' Viewer two_projects) ''prj-a'') = [Viewer]"
proof -
  let ?m = "\<lparr>member_account = ''acc-1'', member_username = ''ana'', member_role = Owner\<rparr>"
  have ids: "distinct (map account_id (accounts two_projects))" by (simp add: two_projects_def)
  have ms: "members two_projects ''prj-a'' = [?m]" by code_simp
  then have m: "?m \<in> set (members two_projects ''prj-a'')" by simp
  have "{o' \<in> set (members two_projects ''prj-a''). member_role o' = Owner \<and> member_account o' \<noteq> ''acc-1''} = {}"
    by (simp add: ms)
  then have "fst (access_revoke ''acc-1'' ''prj-a'' two_projects) = Inl OnlyOwner \<and>
      snd (access_revoke ''acc-1'' ''prj-a'' two_projects) = two_projects"
    using revoke_keeps_an_owner [OF ids m _ prod.collapse [symmetric], of "''acc-1''"] by auto
  moreover have "map member_role (members (access_grant 9 ''acc-1'' ''prj-a'' Viewer two_projects) ''prj-a'') = [Viewer]"
    by code_simp
  ultimately show ?thesis by (simp add: ms prod_eq_iff)
qed

text \<open>A project somebody creates has a slug no other project has, belongs to
  their frontier, and is readable by them, by the administrators of that frontier and by
  the machine's operator, and by nobody else.\<close>

theorem created_project_frontier:
  assumes c: "create_project generated now node_owns name creator db = (Inr p, db')"
    and apart: "handles_apart db'"
    and fresh: "\<not> list_ex (\<lambda>m. snd (fst m) = project_id p) (memberships db)"
  shows "is_host_label (project_slug p) \<and> project_slug p \<notin> set (map project_slug (projects db)) \<and>
    project_tenant p = account_tenant creator \<and> node_owns \<and>
    (may_read (access_of db' b (project_id p)) \<longleftrightarrow>
       (if account_role b = Admin then account_tenant b \<in> {account_tenant creator, None}
        else account_id b = account_id creator)) \<and>
    (account_role b = Admin \<or> account_id b \<noteq> account_id creator \<or> may_administer (access_of db' b (project_id p)))"
proof -
  from c have own: "node_owns" by (auto simp: create_project_def split: if_splits)
  obtain db1 where c1: "create_for generated now name (account_tenant creator) db = (Inr p, db1)"
    and db': "db' = access_grant now (account_id creator) (project_id p) Owner db1"
    using c own by (auto simp: create_project_def split: prod.splits sum.splits)
  define row where "row = \<lparr>project_id = ''prj-'' @ generated, project_name = trim name,
      project_slug = slug_of (trim name), created_at = now, origin_node_id = None,
      project_tenant = account_tenant creator, network_index = None, registry_domain = None\<rparr>"
  have p: "p = decode_project row" and slug: "slug_of (trim name) \<noteq> []"
    and ins: "projects_insert row db = Some db1"
    using c1 by (auto simp: create_for_def Let_def row_def split: if_splits option.splits)
  have db1: "db1 = db\<lparr>projects := projects db @ [row]\<rparr>"
    and free: "project_slug row \<notin> set (map project_slug (projects db))"
    using ins by (auto simp: projects_insert_def list_ex_iff split: if_splits)
  have "row \<in> set (projects db')" by (simp add: db' db1 access_grant_def)
  then have found: "projects_find db' (project_id p) = Some (decode_project row)"
    using projects_find_id [OF apart] p by simp
  have ms: "map_of (memberships db') (i, project_id p) =
      (if i = account_id creator then Some (''owner'', now) else None)" for i
  proof -
    have "map_of (memberships db) (i, project_id p) = None" for i
      using fresh by (force simp: map_of_eq_None_iff list_ex_iff)
    then show ?thesis by (simp add: db' db1 access_grant_def row_simps)
  qed
  have t: "project_tenant p = account_tenant creator" by (simp add: p row_def)
  have "is_host_label (project_slug p)"
    using slug_label [of "trim name"] slug by (simp add: p row_def)
  moreover have "access_of db' b (project_id p) =
      (if account_role b = Admin then
         (if account_tenant creator = account_tenant b then ADMIN
          else if account_tenant creator \<noteq> None \<and> account_tenant b = None then member Viewer else NONE)
       else if account_id b = account_id creator then member Owner else NONE)"
  proof -
    have "project_tenant (decode_project row) = account_tenant creator" by (simp add: row_def)
    moreover have "project_role_parse ''owner'' = Owner" by (simp add: project_role_parse_def)
    ultimately show ?thesis by (simp add: access_of_def found ms Let_def)
  qed
  moreover have "project_slug p \<notin> set (map project_slug (projects db))" using free p by simp
  ultimately show ?thesis
    using own t
    by (auto simp: may_read_def may_administer_def at_least_def ADMIN_def NONE_def member_def)
qed

theorem created_project_frontier_witness:
  "let r = create_project ''c'' 7 True '' New one '' (accounts two_projects ! 1) two_projects
   in map_option project_slug (projects_find (snd r) ''prj-c'') = Some ''new-one'' \<and>
      may_administer (access_of (snd r) (accounts two_projects ! 1) ''prj-c'') \<and>
      \<not> may_read (access_of (snd r) (accounts two_projects ! 0) ''prj-c'')"
proof -
  let ?eva = "accounts two_projects ! 1" and ?ana = "accounts two_projects ! 0"
  let ?r = "create_project ''c'' 7 True '' New one '' ?eva two_projects"
  let ?p = "\<lparr>project_id = ''prj-c'', project_name = ''New one'', project_slug = ''new-one'', created_at = 7,
      origin_node_id = None, project_tenant = Some ''tnt-1''\<rparr>"
  have "fst ?r = Inr ?p" by code_simp
  then have r: "?r = (Inr ?p, snd ?r)" by (metis prod.collapse)
  have "map project_id (projects (snd ?r)) = [''prj-a'', ''prj-b'', ''prj-c''] \<and>
      map project_slug (projects (snd ?r)) = [''a'', ''b'', ''new-one'']" by code_simp
  then have h: "handles_apart (snd ?r)" by (simp only: handles_apart_def) simp
  have f: "\<not> list_ex (\<lambda>m. snd (fst m) = project_id ?p) (memberships two_projects)" by code_simp
  have roles: "account_role ?eva \<noteq> Admin" "account_role ?ana \<noteq> Admin" "account_id ?eva \<noteq> account_id ?ana"
    by (simp_all add: two_projects_def)
  have "may_administer (access_of (snd ?r) ?eva (project_id ?p))"
    using created_project_frontier [OF r h f, of ?eva] roles by blast
  moreover have "\<not> may_read (access_of (snd ?r) ?ana (project_id ?p))"
    using created_project_frontier [OF r h f, of ?ana] roles by metis
  moreover have "map_option project_slug (projects_find (snd ?r) ''prj-c'') = Some ''new-one''" by code_simp
  ultimately show ?thesis by (simp only: Let_def project.select_convs simp_thms)
qed

text \<open>Adding somebody to a project makes exactly one change: the membership in
  that project of one account whose username is the one that was typed, whatever the case.
  Only an owner or an administrator of the console's own side gets that far.\<close>

theorem add_member_one_row:
  assumes "tenant_user_add_project_member now by' project allowed typed r db = (Inr (), db')"
  shows "may_administer allowed \<and> account_tenant by' \<noteq> None \<and>
    (\<exists>a\<in>set (accounts db). lowercase (username a) = lowercase typed \<and>
       projects db' = projects db \<and> accounts db' = accounts db \<and>
       (\<forall>k. map_option fst (map_of (memberships db') k) =
          (if k = (account_id a, project_id project) then Some (project_role_as_str r)
           else map_option fst (map_of (memberships db) k))))"
proof -
  have auth: "account_tenant by' \<noteq> None" "may_administer allowed"
    and "add_project_member now (project_id project) typed r db = (Inr (), db')"
    using assms
    by (auto simp: tenant_user_add_project_member_def tenant_user_belongs_here_def split: if_splits)
  then obtain a where a: "List.find (\<lambda>c. lowercase (username c) = lowercase typed) (accounts_all db) = Some a"
      "db' = access_grant now (account_id a) (project_id project) r db"
    by (auto simp: add_project_member_def split: option.splits)
  then have "a \<in> set (accounts db)" "lowercase (username a) = lowercase typed"
    by (auto simp: accounts_all_def find_Some_iff) (metis nth_mem length_sort set_sort)
  then show ?thesis
    using auth a(2) by (intro conjI bexI [of _ a]) (auto simp: access_grant_def row_simps)
qed

definition two_anas :: org_db where
  "two_anas = two_projects\<lparr>accounts := accounts two_projects @
     [\<lparr>account_id = ''acc-3'', username = ''Leo'', account_role = Member, account_theme = System,
       account_language = En, account_tenant = Some ''tnt-2''\<rparr>,
      \<lparr>account_id = ''acc-4'', username = ''leo'', account_role = Member, account_theme = System,
       account_language = En, account_tenant = Some ''tnt-1''\<rparr>]\<rparr>"

text \<open>The witness shows which account that may be: usernames are unique per organisation
  only, and the search is over everybody on the node, so the owner of one organisation's
  project who adds their own \<open>leo\<close> hands the project to another organisation's \<open>Leo\<close>.\<close>

theorem add_member_one_row_witness:
  "let r = tenant_user_add_project_member 9 (accounts two_anas ! 1)
         (decode_project (projects two_anas ! 1)) (access_of two_anas (accounts two_anas ! 1) ''prj-b'')
         ''leo'' Deployer two_anas
   in fst r = Inr () \<and> may_administer (access_of two_anas (accounts two_anas ! 1) ''prj-b'') \<and>
      may_deploy (access_of (snd r) (accounts two_anas ! 2) ''prj-b'') \<and>
      account_tenant (accounts two_anas ! 2) = Some ''tnt-2'' \<and>
      \<not> may_read (access_of (snd r) (accounts two_anas ! 3) ''prj-b'')"
proof -
  let ?allowed = "access_of two_anas (accounts two_anas ! 1) ''prj-b''"
  let ?r = "tenant_user_add_project_member 9 (accounts two_anas ! 1)
         (decode_project (projects two_anas ! 1)) ?allowed ''leo'' Deployer two_anas"
  have ok: "fst ?r = Inr ()" by code_simp
  then have r: "?r = (Inr (), snd ?r)" by (metis prod.collapse)
  have "may_administer ?allowed" using add_member_one_row [OF r] by (rule conjunct1)
  moreover have "may_deploy (access_of (snd ?r) (accounts two_anas ! 2) ''prj-b'')" by code_simp
  moreover have "account_tenant (accounts two_anas ! 2) = Some ''tnt-2''" by code_simp
  moreover have "\<not> may_read (access_of (snd ?r) (accounts two_anas ! 3) ''prj-b'')" by code_simp
  ultimately show ?thesis using ok by (simp only: Let_def simp_thms)
qed

end
