(* ===== verification/Restarts.thy ===== *)
theory Restarts
  imports Text
begin

text \<open>
  Starting again a copy that stopped on its own: the policy (src/src/domain/policies/restarts.rs)
  and the in-memory episodes it is applied to (infra/deploy/restarts.rs), as a state machine
  over what is seen of the copies. Times are milliseconds of the monotonic clock; the number
  of attempts is kept unbounded, since one episode takes five minutes an attempt.
\<close>

section \<open>The policy\<close>

definition from_secs :: "nat \<Rightarrow> nat" where
  "from_secs s = s * 1000"

definition STABLE :: nat where
  "STABLE = from_secs 600"

definition wait_before :: "nat \<Rightarrow> nat" where
  "wait_before attempt = from_secs
    (if attempt \<le> 1 then 0 else if attempt = 2 then 10 else if attempt = 3 then 30
     else if attempt = 4 then 60 else if attempt = 5 then 120 else if attempt = 6 then 240 else 300)"

definition NOTE_OPENS :: string where
  "NOTE_OPENS = ''started again at ''"

definition restart_note :: "string \<Rightarrow> nat \<Rightarrow> string \<Rightarrow> string option \<Rightarrow> string" where
  "restart_note at attempt how last_line =
    (case last_line of
       Some line \<Rightarrow> NOTE_OPENS @ at @ '' (attempt '' @ show_nat attempt @ '') because '' @ how @
         ''; its last line: '' @ line
     | None \<Rightarrow> NOTE_OPENS @ at @ '' (attempt '' @ show_nat attempt @ '') because '' @ how)"

definition is_note :: "string \<Rightarrow> bool" where
  "is_note reason \<longleftrightarrow> starts_with NOTE_OPENS reason"

section \<open>The episodes\<close>

record episode =
  attempts :: nat
  next_at :: nat

record restarts =
  episodes :: "string \<Rightarrow> episode option"
  up_since :: "string \<Rightarrow> nat option"

definition restarts_default :: restarts where
  "restarts_default = \<lparr>episodes = (\<lambda>_. None), up_since = (\<lambda>_. None)\<rparr>"

datatype verdict = Leave | Restart nat | Settled

definition decide :: "string \<Rightarrow> bool option \<Rightarrow> bool \<Rightarrow> nat \<Rightarrow> restarts \<Rightarrow> verdict \<times> restarts" where
  "decide replica running deployed now s =
    (case running of
       None \<Rightarrow> (Leave, s)
     | Some True \<Rightarrow>
         (let since = (case up_since s replica of Some t \<Rightarrow> t | None \<Rightarrow> now);
              s = s\<lparr>up_since := (up_since s)(replica \<mapsto> since)\<rparr> in
          if now - since < STABLE then (Leave, s)
          else (Settled, s\<lparr>episodes := (episodes s)(replica := None)\<rparr>))
     | Some False \<Rightarrow>
         (let s = s\<lparr>up_since := (up_since s)(replica := None)\<rparr> in
          if \<not> deployed \<and> episodes s replica = None then (Leave, s)
          else let e = (case episodes s replica of
                          Some e \<Rightarrow> e | None \<Rightarrow> \<lparr>attempts = 0, next_at = now\<rparr>);
                   s = s\<lparr>episodes := (episodes s)(replica \<mapsto> e)\<rparr> in
               if now < next_at e then (Leave, s)
               else let e = \<lparr>attempts = attempts e + 1,
                              next_at = now + wait_before (attempts e + 1 + 1)\<rparr>
                    in (Restart (attempts e), s\<lparr>episodes := (episodes s)(replica \<mapsto> e)\<rparr>)))"

definition restarts_forget :: "string \<Rightarrow> restarts \<Rightarrow> restarts" where
  "restarts_forget replica s =
    s\<lparr>episodes := (episodes s)(replica := None), up_since := (up_since s)(replica := None)\<rparr>"

section \<open>Runs\<close>

datatype observation = Seen string "bool option" bool nat | Forgotten string

fun observe :: "observation \<Rightarrow> restarts \<Rightarrow> verdict option \<times> restarts" where
  "observe (Seen r running deployed now) s =
    (let d = decide r running deployed now s in (Some (fst d), snd d))"
| "observe (Forgotten r) s = (None, restarts_forget r s)"

text \<open>Runs in which nothing is decided about one copy: it is left alone each time it is seen.\<close>

inductive quiet :: "string \<Rightarrow> restarts \<Rightarrow> observation list \<Rightarrow> restarts \<Rightarrow> bool" for r where
  quiet_Nil: "quiet r s [] s"
| quiet_Seen: "decide q running deployed now s = (v, s') \<Longrightarrow> q \<noteq> r \<or> v = Leave \<Longrightarrow>
    quiet r s' os s'' \<Longrightarrow> quiet r s (Seen q running deployed now # os) s''"
| quiet_Forgotten: "q \<noteq> r \<Longrightarrow> quiet r (restarts_forget q s) os s'' \<Longrightarrow>
    quiet r s (Forgotten q # os) s''"

inductive_cases quiet_NilE: "quiet r s [] s'"
inductive_simps quiet_Cons: "quiet r s (o' # os) s'"

section \<open>Lemmas\<close>

lemma wait_before_bounded: "wait_before n \<le> from_secs 300"
  by (simp add: wait_before_def from_secs_def)

lemma wait_before_mono: "m \<le> n \<Longrightarrow> wait_before m \<le> wait_before n"
  by (auto simp: wait_before_def from_secs_def)

lemma is_note_note: "is_note (restart_note at n how l)"
  by (auto simp: is_note_def restart_note_def starts_with_iff split: option.splits)

lemma decide_other:
  "decide q running deployed now s = (v, s') \<Longrightarrow> q \<noteq> r \<Longrightarrow>
    episodes s' r = episodes s r \<and> up_since s' r = up_since s r"
  by (auto simp: decide_def Let_def split: option.splits bool.splits if_splits)

lemma decide_Leave_episode:
  "decide r running deployed now s = (Leave, s') \<Longrightarrow> episodes s r = Some e \<Longrightarrow> episodes s' r = Some e"
  by (auto simp: decide_def Let_def split: option.splits bool.splits if_splits)

lemma decide_Restart_iff:
  "fst (decide r running deployed now s) = Restart n \<longleftrightarrow>
    running = Some False \<and>
    (case episodes s r of
       None \<Rightarrow> deployed \<and> n = 1
     | Some e \<Rightarrow> next_at e \<le> now \<and> n = attempts e + 1)"
  by (auto simp: decide_def Let_def split: option.splits bool.splits if_splits)

lemma decide_Restart_state:
  "decide r running deployed now s = (Restart n, s') \<Longrightarrow>
    episodes s' r = Some \<lparr>attempts = n, next_at = now + wait_before (n + 1)\<rparr> \<and> up_since s' r = None"
  by (auto simp: decide_def Let_def split: option.splits bool.splits if_splits)

lemma decide_Settled_iff:
  "fst (decide r running deployed now s) = Settled \<longleftrightarrow>
    running = Some True \<and> (\<exists>since. up_since s r = Some since \<and> STABLE \<le> now - since)"
  by (auto simp: decide_def Let_def STABLE_def from_secs_def split: option.splits bool.splits if_splits)

lemma forget_other [simp]:
  "q \<noteq> r \<Longrightarrow> episodes (restarts_forget q s) r = episodes s r"
  "q \<noteq> r \<Longrightarrow> up_since (restarts_forget q s) r = up_since s r"
  by (simp_all add: restarts_forget_def)

lemma quiet_keeps_episode: "quiet r s os s' \<Longrightarrow> episodes s r = Some e \<Longrightarrow> episodes s' r = Some e"
proof (induction rule: quiet.induct)
  case (quiet_Seen q running deployed now s v s' os s'')
  have "episodes s' r = Some e"
    using quiet_Seen.hyps(1,2) quiet_Seen.prems
    by (cases "q = r") (auto dest: decide_other decide_Leave_episode)
  then show ?case by (rule quiet_Seen.IH)
qed simp_all

text \<open>The last time one copy was seen running without interruption.\<close>

fun seen_stopped :: "string \<Rightarrow> observation \<Rightarrow> bool" where
  "seen_stopped r (Seen q running deployed now) \<longleftrightarrow> q = r \<and> running = Some False"
| "seen_stopped r (Forgotten q) \<longleftrightarrow> q = r"

definition runs :: "observation list \<Rightarrow> restarts \<Rightarrow> restarts" where
  "runs os s = fold (\<lambda>o' s. snd (observe o' s)) os s"

lemma runs_simps [simp]:
  "runs [] s = s" "runs (o' # os) s = runs os (snd (observe o' s))"
  "runs (as @ bs) s = runs bs (runs as s)"
  by (simp_all add: runs_def)

lemma up_since_step:
  "up_since (snd (observe o' s)) r = Some t \<Longrightarrow>
    \<not> seen_stopped r o' \<and> (up_since s r = Some t \<or>
      (\<exists>deployed. o' = Seen r (Some True) deployed t \<and> up_since s r = None))"
proof (cases o')
  case (Seen q running deployed now)
  assume "up_since (snd (observe o' s)) r = Some t"
  then show ?thesis
    by (cases "q = r")
      (auto simp: Seen decide_def Let_def split: option.splits bool.splits if_splits)
next
  case (Forgotten q)
  assume "up_since (snd (observe o' s)) r = Some t"
  then show ?thesis by (auto simp: Forgotten restarts_forget_def split: if_splits)
qed

lemma up_since_history:
  "up_since (runs os s) r = Some t \<Longrightarrow> up_since s r = None \<Longrightarrow>
    \<exists>before deployed after. os = before @ Seen r (Some True) deployed t # after \<and>
      \<not> list_ex (seen_stopped r) after"
proof (induction os rule: rev_induct)
  case (snoc o' os)
  from up_since_step [of o' "runs os s" r t] snoc.prems
  have step: "\<not> seen_stopped r o'" "up_since (runs os s) r = Some t \<or>
      (\<exists>deployed. o' = Seen r (Some True) deployed t)" by auto
  from step(2) show ?case
  proof
    assume "up_since (runs os s) r = Some t"
    with snoc.IH snoc.prems(2) obtain before deployed after where
      "os = before @ Seen r (Some True) deployed t # after" "\<not> list_ex (seen_stopped r) after" by auto
    with step(1) have "os @ [o'] = before @ Seen r (Some True) deployed t # (after @ [o'])"
      "\<not> list_ex (seen_stopped r) (after @ [o'])" by auto
    then show ?thesis by blast
  next
    assume "\<exists>deployed. o' = Seen r (Some True) deployed t"
    then show ?thesis by fastforce
  qed
qed simp

section \<open>Properties\<close>



text \<open>A copy is called settled only when it was seen running ten minutes or more
  before and has not been seen stopped since, over any run of observations of any copies
  from a fresh start.\<close>

theorem settled_means_stable:
  assumes "fst (decide r running deployed now (runs os restarts_default)) = Settled"
  shows "running = Some True \<and>
    (\<exists>before t deployed' after. os = before @ Seen r (Some True) deployed' t # after \<and>
       \<not> list_ex (seen_stopped r) after \<and> t + STABLE \<le> now)"
proof -
  from assms obtain since where "running = Some True" "up_since (runs os restarts_default) r = Some since"
    "STABLE \<le> now - since" by (auto simp: decide_Settled_iff)
  moreover have "up_since restarts_default r = None" by (simp add: restarts_default_def)
  moreover have "since + STABLE \<le> now"
    using calculation(3) by (simp add: STABLE_def from_secs_def)
  ultimately show ?thesis using up_since_history by blast
qed

theorem settled_means_stable_witness:
  "fst (decide ''a'' (Some True) True 600007 (runs [Seen ''a'' (Some True) True 7] restarts_default)) = Settled \<and>
   (7::nat) + STABLE \<le> 600007"
proof -
  let ?os = "[Seen ''a'' (Some True) True 7]"
  have s: "fst (decide ''a'' (Some True) True 600007 (runs ?os restarts_default)) = Settled" by (simp add: decide_def restarts_default_def wait_before_def from_secs_def STABLE_def)
  from settled_means_stable [OF s] obtain before t d after where
    os: "?os = before @ Seen ''a'' (Some True) d t # after" and t: "t + STABLE \<le> 600007" by blast
  from os have "t = 7" by (cases before) simp_all
  from s t [unfolded this] show ?thesis by (rule conjI)
qed

end
