(* ===== verification/Services.thy ===== *)
theory Services
  imports Names Roles Restarts
begin

text \<open>
  What is run: image references (src/src/domain/values/image_reference.rs), releases
  (entities/release.rs), services (entities/service.rs), their copies (entities/replica.rs)
  and the managed databases with their engines (entities/database.rs, policies/postgres.rs,
  policies/mysql.rs). The lemmas show that references take apart and read back, that
  container ids name one copy, and that what is derived from a name or a ceiling is what
  the engines accept.
\<close>

section \<open>Image references\<close>

datatype image_refusal = NotAUrl string | HasSpaces | NoRegistry string string | BadServiceName | NoHostname

definition image_parse :: "string \<Rightarrow> image_refusal + string" where
  "image_parse typed =
    (let image = trim typed in
     if image = [] then Inr []
     else if contains_text ''://'' image then Inl (NotAUrl image)
     else if length (split_whitespace image) \<noteq> 1 then Inl HasSpaces
     else Inr image)"

definition image_host :: "string \<Rightarrow> string option" where
  "image_host reference =
    (case split_once CHR ''/'' reference of
       None \<Rightarrow> None
     | Some (first, _) \<Rightarrow>
         if CHR ''.'' \<in> set first \<or> CHR '':'' \<in> set first \<or> first = ''localhost'' then Some first
         else None)"

definition image_typed :: "string \<Rightarrow> image_refusal + string" where
  "image_typed typed =
    (case image_parse typed of
       Inl e \<Rightarrow> Inl e
     | Inr reference \<Rightarrow>
         if reference = [] \<or> image_host reference \<noteq> None then Inr reference
         else Inl (NoRegistry reference
                (if CHR ''/'' \<in> set reference then ''docker.io/'' @ reference
                 else ''docker.io/library/'' @ reference)))"

record parts =
  repository :: string
  tag :: string

definition image_parts :: "string \<Rightarrow> parts option" where
  "image_parts self =
    (let reference = trim self in
     if reference = [] \<or> CHR ''@'' \<in> set reference then None
     else let (head, last_part) = (case rsplit_once CHR ''/'' reference of
                Some (a, b) \<Rightarrow> (a @ ''/'', b) | None \<Rightarrow> ([], reference))
          in Some (case rsplit_once CHR '':'' last_part of
                Some (name, t) \<Rightarrow> \<lparr>repository = head @ name, tag = t\<rparr>
              | None \<Rightarrow> \<lparr>repository = reference, tag = ''latest''\<rparr>))"

definition parts_name :: "parts \<Rightarrow> string" where
  "parts_name p =
    (case split_once CHR ''/'' (repository p) of
       Some (head, rest) \<Rightarrow>
         if CHR ''.'' \<in> set head \<or> CHR '':'' \<in> set head then rest else repository p
     | None \<Rightarrow> repository p)"

section \<open>Releases\<close>

datatype source = Push | Manual

fun source_as_str :: "source \<Rightarrow> string" where
  "source_as_str Push = ''push''" | "source_as_str Manual = ''manual''"

definition source_parse :: "string \<Rightarrow> source" where
  "source_parse text = (if text = ''push'' then Push else Manual)"

fun source_label :: "source \<Rightarrow> string" where
  "source_label Push = ''Pushed''" | "source_label Manual = ''Set by hand''"

record release =
  release_id :: string
  release_service :: string
  reference :: string
  digest :: string
  release_source :: source
  release_created_at :: int
  deployed_at :: "int option"

definition release_tag :: "release \<Rightarrow> string" where
  "release_tag r =
    (case rsplit_once CHR '':'' (reference r) of
       Some (before, t) \<Rightarrow>
         if \<not> ends_with ''/'' before \<and> CHR ''/'' \<notin> set t then t else reference r
     | None \<Rightarrow> reference r)"

text \<open>
  \<open>&hex[..n]\<close> cuts at a byte offset and panics (\<open>None\<close>) inside a character.
\<close>

fun byte_prefix :: "nat \<Rightarrow> string \<Rightarrow> string option" where
  "byte_prefix n [] = (if n = 0 then Some [] else None)"
| "byte_prefix n (c # cs) =
    (if n = 0 then Some []
     else if n < len_utf8 c then None
     else map_option ((#) c) (byte_prefix (n - len_utf8 c) cs))"

definition short_digest :: "release \<Rightarrow> string option" where
  "short_digest r =
    (case split_once CHR '':'' (digest r) of
       Some (algorithm, hex) \<Rightarrow>
         map_option (\<lambda>h. algorithm @ '':'' @ h) (byte_prefix (min (byte_len hex) 12) hex)
     | None \<Rightarrow> Some (digest r))"

definition release_pinned :: "release \<Rightarrow> string" where
  "release_pinned r =
    (let repo = (case image_parse (reference r) of
           Inl _ \<Rightarrow> reference r
         | Inr i \<Rightarrow> (case image_parts i of Some p \<Rightarrow> repository p | None \<Rightarrow> reference r))
     in repo @ ''@'' @ digest r)"

section \<open>Services\<close>

definition EVERY_TAG :: string where "EVERY_TAG = ''*''"

datatype desired_state = Running | Stopped

fun desired_as_str :: "desired_state \<Rightarrow> string" where
  "desired_as_str Running = ''running''" | "desired_as_str Stopped = ''stopped''"

definition desired_parse :: "string \<Rightarrow> desired_state" where
  "desired_parse text = (if text = ''stopped'' then Stopped else Running)"

datatype engine = Postgres | Mysql | UnknownEngine

datatype kind = Container | PostgresKind | MysqlKind | UnknownKind

fun kind_as_str :: "kind \<Rightarrow> string" where
  "kind_as_str Container = ''container''" | "kind_as_str PostgresKind = ''postgres''"
| "kind_as_str MysqlKind = ''mysql''" | "kind_as_str UnknownKind = ''unknown''"

definition kind_parse :: "string \<Rightarrow> kind" where
  "kind_parse text =
    (if text = ''container'' then Container else if text = ''postgres'' then PostgresKind
     else if text = ''mysql'' then MysqlKind else UnknownKind)"

fun kind_engine :: "kind \<Rightarrow> engine option" where
  "kind_engine PostgresKind = Some Postgres" | "kind_engine MysqlKind = Some Mysql"
| "kind_engine Container = None" | "kind_engine UnknownKind = None"

definition is_managed :: "kind \<Rightarrow> bool" where
  "is_managed k \<longleftrightarrow> k \<noteq> Container"

definition placement_capability :: "kind \<Rightarrow> capability" where
  "placement_capability k = (if is_managed k then Store else Host)"

record service =
  service_id :: string
  service_project :: string
  service_name :: string
  service_slug :: string
  service_image :: string
  service_env :: "string \<Rightarrow> string option"
  desired :: desired_state
  service_error :: "string option"
  service_address :: "string option"
  track_tag :: "string option"
  auto_deploy :: bool
  service_origin :: "string option"
  memory_limit :: "u64 option"
  cpu_millicores :: "u32 option"
  disk_limit :: "u64 option"
  log_timestamps :: bool
  log_budget :: "u64 option"
  service_kind :: kind

definition service_new :: "string \<Rightarrow> string \<Rightarrow> string \<Rightarrow> string \<Rightarrow> (string \<times> string) list
    \<Rightarrow> image_refusal + service" where
  "service_new generated project_id name typed_image typed_env =
    (let name = trim name in
     if name = [] \<or> length name > 60 then Inl BadServiceName
     else if slug_of name = [] then Inl NoHostname
     else case image_typed typed_image of
            Inl e \<Rightarrow> Inl e
          | Inr i \<Rightarrow> Inr \<lparr>service_id = ''svc-'' @ generated, service_project = project_id,
              service_name = name, service_slug = slug_of name, service_image = i,
              service_env = map_of (rev typed_env), desired = Running, service_error = None,
              service_address = None, track_tag = None, auto_deploy = True, service_origin = None,
              memory_limit = None, cpu_millicores = None, disk_limit = None,
              log_timestamps = False, log_budget = None, service_kind = Container\<rparr>)"

definition tracked_tag :: "service \<Rightarrow> string option" where
  "tracked_tag s =
    (case track_tag s of
       Some t \<Rightarrow> if trim t \<noteq> [] then Some (trim t) else Some ''latest''
     | None \<Rightarrow> Some ''latest'')"

definition watches :: "service \<Rightarrow> string \<Rightarrow> bool" where
  "watches s t =
    (case tracked_tag s of
       Some watched \<Rightarrow> if watched = EVERY_TAG then True else watched = t
     | None \<Rightarrow> False)"

definition service_is_ours :: "service \<Rightarrow> bool" where
  "service_is_ours s \<longleftrightarrow> service_origin s = None"

definition service_container_id :: "service \<Rightarrow> string \<Rightarrow> string" where
  "service_container_id s project = project @ ''.'' @ service_slug s"

definition awaiting_push :: "service \<Rightarrow> bool" where
  "awaiting_push s \<longleftrightarrow> trim (service_image s) = []"

section \<open>Copies\<close>

datatype placed = Person | PlannerPlaced

fun placed_as_str :: "placed \<Rightarrow> string" where
  "placed_as_str Person = ''person''" | "placed_as_str PlannerPlaced = ''planner''"

definition placed_parse :: "string \<Rightarrow> placed" where
  "placed_parse text = (if text = ''planner'' then PlannerPlaced else Person)"

record replica =
  replica_id :: string
  replica_service :: string
  node_id :: "string option"
  slot :: u32
  address :: "string option"
  overlay_port :: "u16 option"
  last_error :: "string option"
  evicted_at :: "int option"
  reserved_host :: "u8 option"
  memory_bytes :: "u64 option"
  disk_bytes :: "u64 option"
  replica_cpu :: "u32 option"
  following :: "bool option"
  wal_held :: "u64 option"
  placed_by :: "placed option"
  placed_note :: "string option"

definition is_here :: "replica \<Rightarrow> bool" where
  "is_here r \<longleftrightarrow> node_id r = None"

definition evicted :: "replica \<Rightarrow> bool" where
  "evicted r \<longleftrightarrow> evicted_at r \<noteq> None"

definition started_again :: "replica \<Rightarrow> bool" where
  "started_again r \<longleftrightarrow> address r \<noteq> None \<and>
    (case last_error r of Some e \<Rightarrow> is_note e | None \<Rightarrow> False)"

definition failure :: "replica \<Rightarrow> string option" where
  "failure r = (if started_again r then None else last_error r)"

definition container_id_for :: "string \<Rightarrow> string \<Rightarrow> u32 \<Rightarrow> string" where
  "container_id_for project svc n =
    (if n = 1 then project @ ''.'' @ svc
     else project @ ''.'' @ svc @ ''.'' @ show_nat (unat n))"

definition replica_container_id :: "replica \<Rightarrow> string \<Rightarrow> string \<Rightarrow> string" where
  "replica_container_id r project svc = container_id_for project svc (slot r)"

section \<open>Databases\<close>

fun engine_as_str :: "engine \<Rightarrow> string" where
  "engine_as_str Postgres = ''postgres''" | "engine_as_str Mysql = ''mysql''"
| "engine_as_str UnknownEngine = ''unknown''"

fun engine_label :: "engine \<Rightarrow> string" where
  "engine_label Postgres = ''PostgreSQL''" | "engine_label Mysql = ''MySQL''"
| "engine_label UnknownEngine = ''unknown''"

definition engine_parse :: "string \<Rightarrow> engine" where
  "engine_parse text =
    (if text = ''postgres'' then Postgres else if text = ''mysql'' then Mysql else UnknownEngine)"

fun engine_kind :: "engine \<Rightarrow> kind" where
  "engine_kind Postgres = PostgresKind" | "engine_kind Mysql = MysqlKind"
| "engine_kind UnknownEngine = UnknownKind"

definition MB :: u64 where "MB = 1024 * 1024"

fun engine_image_for :: "engine \<Rightarrow> string \<Rightarrow> string" where
  "engine_image_for Mysql version = ''docker.io/library/mysql:'' @ version"
| "engine_image_for Postgres version = ''docker.io/library/postgres:'' @ version @ ''-alpine''"
| "engine_image_for UnknownEngine version = ''docker.io/library/postgres:'' @ version @ ''-alpine''"

fun engine_versions :: "engine \<Rightarrow> string list" where
  "engine_versions Mysql = [''8.4'']"
| "engine_versions Postgres = [''18'', ''17'', ''16'', ''15'']"
| "engine_versions UnknownEngine = [''18'', ''17'', ''16'', ''15'']"

fun engine_default_version :: "engine \<Rightarrow> string" where
  "engine_default_version Mysql = ''8.4''"
| "engine_default_version Postgres = ''17''"
| "engine_default_version UnknownEngine = ''17''"

fun major_variable :: "engine \<Rightarrow> string" where
  "major_variable Mysql = ''MYSQL_MAJOR''"
| "major_variable Postgres = ''PG_MAJOR''"
| "major_variable UnknownEngine = ''PG_MAJOR''"

definition other_version_in :: "engine \<Rightarrow> string list \<Rightarrow> string \<Rightarrow> string option" where
  "other_version_in e image_env version =
    (case find_map (strip_prefix (major_variable e @ ''='')) image_env of
       Some declared \<Rightarrow> if declared \<noteq> version then Some declared else None
     | None \<Rightarrow> None)"

fun engine_floor :: "engine \<Rightarrow> u64" where
  "engine_floor Mysql = 256 * MB"
| "engine_floor Postgres = 128 * MB"
| "engine_floor UnknownEngine = 128 * MB"

fun engine_port :: "engine \<Rightarrow> u16" where
  "engine_port Mysql = 3306" | "engine_port Postgres = 5432" | "engine_port UnknownEngine = 5432"

definition postgres_identifier :: "string \<Rightarrow> string" where
  "postgres_identifier slug =
    (let i = map (\<lambda>c. if is_alphanumeric c then to_lower c else CHR ''_'') slug;
         i = (if i = [] \<or> is_digit (hd i) then ''db_'' @ i else i)
     in take 63 i)"

definition mysql_identifier :: "string \<Rightarrow> string \<Rightarrow> string" where
  "mysql_identifier of_slug node_user =
    (let i = take 32 of_slug in
     if i \<in> set [''root'', ''mysql'', ''sys'', ''information_schema'', ''performance_schema'', node_user]
     then ''db_'' @ i else i)"

fun engine_identifier :: "engine \<Rightarrow> string \<Rightarrow> string \<Rightarrow> string" where
  "engine_identifier Mysql slug node_user = mysql_identifier (postgres_identifier slug) node_user"
| "engine_identifier Postgres slug node_user = postgres_identifier slug"
| "engine_identifier UnknownEngine slug node_user = postgres_identifier slug"

record database =
  db_service :: string
  db_engine :: engine
  db_version :: string
  admin_user :: string
  admin_password :: string
  database_name :: string
  replication_user :: string
  replication_password :: string
  primary_slot :: u32
  primary_endpoint :: "string option"
  owner_domain :: "string option"
  restored_from :: "string option"
  recovery_target :: "string option"

datatype pg_role = Primary | Standby | Restoring

definition role_of :: "database \<Rightarrow> u32 \<Rightarrow> pg_role" where
  "role_of d n =
    (if restored_from d \<noteq> None \<and> n = primary_slot d then Restoring
     else if n = primary_slot d then Primary else Standby)"

subsection \<open>What the engines are told\<close>

record pg_tuning =
  shared_buffers_mb :: u64
  effective_cache_size_mb :: u64
  work_mem_mb :: u64
  maintenance_work_mem_mb :: u64
  max_connections :: u32
  max_wal_size_mb :: u64
  parallel_workers :: u32

definition pg_tuning_for :: "u64 \<Rightarrow> pg_tuning" where
  "pg_tuning_for limit =
    (let mb = limit div MB in
     \<lparr>shared_buffers_mb = max (mb div 4) 8,
      effective_cache_size_mb = max (mb div 2) 16,
      work_mem_mb = (if mb \<le> 64 then 1 else if mb \<le> 256 then 2 else if mb \<le> 1024 then 4
                     else if mb \<le> 2048 then 8 else 16),
      maintenance_work_mem_mb = min (max (mb div 8) 8) 512,
      max_connections = (if mb \<le> 64 then 10 else if mb \<le> 128 then 20 else if mb \<le> 256 then 40
                         else if mb \<le> 512 then 60 else if mb \<le> 1024 then 100
                         else if mb \<le> 2048 then 150 else 200),
      max_wal_size_mb = (if mb \<le> 128 then 256 else if mb \<le> 512 then 512
                         else if mb \<le> 1024 then 1024 else 2048),
      parallel_workers = (if mb \<le> 1023 then 0 else 2)\<rparr>)"

record mysql_tuning =
  buffer_pool_mb :: u64
  log_buffer_mb :: u64
  temptable_mb :: u64
  tmp_table_mb :: u64
  mysql_connections :: u32

definition mysql_tuning_for :: "u64 \<Rightarrow> mysql_tuning" where
  "mysql_tuning_for limit =
    (let mb = max limit (256 * MB) div MB;
         t = (\<lambda>a b c d e. \<lparr>buffer_pool_mb = a, log_buffer_mb = b, temptable_mb = c,
                            tmp_table_mb = d, mysql_connections = e\<rparr>) in
     if mb \<le> 511 then t 48 8 16 8 20
     else if mb \<le> 1023 then t 192 16 32 16 40
     else if mb \<le> 2047 then t 512 16 64 16 80
     else if mb \<le> 4095 then t 1024 32 128 16 150
     else t 2304 64 256 16 200)"

subsection \<open>What the primary says of its standbys\<close>

text \<open>\<open>str::lines\<close>: terminated by a newline, with an optional carriage return before it.\<close>

fun text_lines_of :: "string list \<Rightarrow> string list" where
  "text_lines_of [] = []"
| "text_lines_of [l] = (if l = [] then [] else [l])"
| "text_lines_of (l # m # ls) =
    (case strip_suffix [CHR 0x0D] l of Some r \<Rightarrow> r | None \<Rightarrow> l) # text_lines_of (m # ls)"

definition text_lines :: "string \<Rightarrow> string list" where
  "text_lines text = text_lines_of (split_on (CHR 0x0A) text)"

definition parse_i64 :: "string \<Rightarrow> int option" where
  "parse_i64 s =
    (case strip_prefix ''-'' s of
       Some r \<Rightarrow>
         if r \<noteq> [] \<and> list_all is_digit r \<and> digits_val r \<le> 2 ^ 63 then Some (- int (digits_val r)) else None
     | None \<Rightarrow> map_option int (parse_uint (2 ^ 63) s))"

record slot_state =
  state_slot :: u32
  active :: bool
  held_bytes :: int

definition parse_slot_line :: "string \<Rightarrow> slot_state option" where
  "parse_slot_line line =
    (case split_on CHR ''|'' (trim line) of
       name # rest \<Rightarrow>
         (case strip_prefix ''wabot_slot_'' name of
            None \<Rightarrow> None
          | Some n \<Rightarrow>
              (case parse_uint (2 ^ 32) n of
                 None \<Rightarrow> None
               | Some n \<Rightarrow>
                   (case rest of
                      [] \<Rightarrow> None
                    | a # rest \<Rightarrow> Some \<lparr>state_slot = of_nat n, active = (a = ''t'' \<or> a = ''true''),
                        held_bytes = (case rest of
                            [] \<Rightarrow> 0
                          | h # _ \<Rightarrow> (case parse_i64 h of Some i \<Rightarrow> i | None \<Rightarrow> 0))\<rparr>)))
     | [] \<Rightarrow> None)"

definition parse_replication :: "string \<Rightarrow> slot_state list" where
  "parse_replication text = List.map_filter parse_slot_line (text_lines text)"

definition slot_name :: "u32 \<Rightarrow> string" where
  "slot_name n = ''wabot_slot_'' @ show_nat (unat n)"

section \<open>The enums as they are stored\<close>

interpretation source: spelled source_as_str source_parse Manual
proof
  show "source_parse (source_as_str e) = e" for e by (cases e) (auto simp: source_parse_def)
  show "source_parse t = Manual" if "t \<notin> range source_as_str" for t
    using that by (auto simp: source_parse_def image_iff) (metis source_as_str.simps(1))
qed

interpretation desired: spelled desired_as_str desired_parse Running
proof
  show "desired_parse (desired_as_str e) = e" for e by (cases e) (auto simp: desired_parse_def)
  show "desired_parse t = Running" if "t \<notin> range desired_as_str" for t
    using that by (auto simp: desired_parse_def image_iff) (metis desired_as_str.simps(2))
qed

interpretation kind: spelled kind_as_str kind_parse UnknownKind
proof
  show "kind_parse (kind_as_str e) = e" for e by (cases e) (auto simp: kind_parse_def)
  show "kind_parse t = UnknownKind" if "t \<notin> range kind_as_str" for t
  proof -
    have "t \<noteq> kind_as_str e" for e using that by blast
    from this [of Container] this [of PostgresKind] this [of MysqlKind] show ?thesis by (simp add: kind_parse_def)
  qed
qed

interpretation placed: spelled placed_as_str placed_parse Person
proof
  show "placed_parse (placed_as_str e) = e" for e by (cases e) (auto simp: placed_parse_def)
  show "placed_parse t = Person" if "t \<notin> range placed_as_str" for t
    using that by (auto simp: placed_parse_def image_iff) (metis placed_as_str.simps(2))
qed

interpretation engine: spelled engine_as_str engine_parse UnknownEngine
proof
  show "engine_parse (engine_as_str e) = e" for e by (cases e) (auto simp: engine_parse_def)
  show "engine_parse t = UnknownEngine" if "t \<notin> range engine_as_str" for t
  proof -
    have "t \<noteq> engine_as_str e" for e using that by blast
    from this [of Postgres] this [of Mysql] show ?thesis by (simp add: engine_parse_def)
  qed
qed

lemma engine_kind_spelling: "kind_as_str (engine_kind e) = engine_as_str e"
  by (cases e) auto

lemma kind_engine_kind: "kind_engine k = Some e \<Longrightarrow> engine_kind e = k \<and> is_managed k"
  by (cases k) (auto simp: is_managed_def)

section \<open>Lemmas\<close>

subsection \<open>Image references\<close>

lemma image_parse_Inr:
  "image_parse t = Inr i \<longleftrightarrow> i = trim t \<and>
    (trim t = [] \<or> \<not> contains_text ''://'' (trim t) \<and> length (split_whitespace (trim t)) = 1)"
  by (auto simp: image_parse_def Let_def)

interpretation image_reference: stable_parser image_parse
  by unfold_locales (auto simp: image_parse_Inr)

lemma words_from_nonempty: "cur \<noteq> [] \<or> \<not> list_all is_whitespace s \<Longrightarrow> words_from cur s \<noteq> []"
  by (induction cur s rule: words_from.induct) auto

lemma words_from_two:
  "cur \<noteq> [] \<Longrightarrow> list_ex is_whitespace s \<Longrightarrow> \<not> is_whitespace (last s) \<Longrightarrow> 2 \<le> length (words_from cur s)"
proof (induction cur s rule: words_from.induct)
  case (2 cur x xs)
  show ?case
  proof (cases "is_whitespace x")
    case True
    then have "xs \<noteq> []" using "2.prems"(3) by auto
    then have "\<not> list_all is_whitespace xs"
      using "2.prems"(3) by (metis last.simps last_in_set list_all_iff)
    then have "words_from [] xs \<noteq> []" by (intro words_from_nonempty) simp
    then show ?thesis using True "2.prems"(1) by (cases "words_from [] xs") auto
  next
    case False
    then have "list_ex is_whitespace xs" "xs \<noteq> []" using "2.prems"(2) by auto
    then show ?thesis using False "2.IH"(3) "2.prems"(3) by auto
  qed
qed simp

lemma one_word:
  assumes "length (split_whitespace (trim t)) = 1"
  shows "list_all (\<lambda>c. \<not> is_whitespace c) (trim t)"
proof (cases "trim t")
  case (Cons x xs)
  have ends: "\<not> is_whitespace x" "\<not> is_whitespace (last (x # xs))"
    using trim_matches_ends [of is_whitespace t] Cons by (auto simp: trim_def)
  have w: "length (words_from [x] xs) = 1"
    using assms ends(1) by (simp add: split_whitespace_def Cons)
  have "\<not> list_ex is_whitespace xs"
  proof
    assume ws: "list_ex is_whitespace xs"
    then have "xs \<noteq> []" by auto
    then have "2 \<le> length (words_from [x] xs)"
      using words_from_two [OF _ ws, of "[x]"] ends(2) by simp
    with w show False by simp
  qed
  then show ?thesis using ends(1) Cons by (simp add: list_ex_iff list_all_iff)
qed simp

lemma image_typed_Inr:
  "image_typed t = Inr i \<longleftrightarrow> image_parse t = Inr i \<and> (i = [] \<or> image_host i \<noteq> None)"
  by (auto simp: image_typed_def split: sum.splits if_splits)

text \<open>A reference that takes apart does so at the last colon of its last segment.\<close>

lemma image_parts_eq:
  assumes "trim i = i" and "i \<noteq> []" and "CHR ''@'' \<notin> set i"
  obtains pre lst where "i = pre @ lst" "CHR ''/'' \<notin> set lst" "pre = [] \<or> last pre = CHR ''/''"
    "image_parts i = Some (case rsplit_once CHR '':'' lst of
       Some (n, t) \<Rightarrow> \<lparr>repository = pre @ n, tag = t\<rparr> | None \<Rightarrow> \<lparr>repository = i, tag = ''latest''\<rparr>)"
proof (cases "rsplit_once CHR ''/'' i")
  case None
  then have "CHR ''/'' \<notin> set i" by (simp add: rsplit_once_None_iff)
  moreover have "image_parts i = Some (case rsplit_once CHR '':'' i of
       Some (n, t) \<Rightarrow> \<lparr>repository = [] @ n, tag = t\<rparr> | None \<Rightarrow> \<lparr>repository = i, tag = ''latest''\<rparr>)"
    using assms None by (simp only: image_parts_def Let_def option.case simp_thms if_False prod.case)
  ultimately show ?thesis by (intro that [of "[]" i]) simp_all
next
  case (Some ab)
  obtain a b where ab: "ab = (a, b)" by (cases ab)
  have "i = (a @ ''/'') @ b" "CHR ''/'' \<notin> set b"
    using rsplit_once_SomeD [of "CHR ''/''" i a b] Some ab by auto
  moreover have "image_parts i = Some (case rsplit_once CHR '':'' b of
       Some (n, t) \<Rightarrow> \<lparr>repository = (a @ ''/'') @ n, tag = t\<rparr> | None \<Rightarrow> \<lparr>repository = i, tag = ''latest''\<rparr>)"
    using assms Some ab by (simp only: image_parts_def Let_def option.case simp_thms if_False prod.case)
  ultimately show ?thesis by (intro that [of "a @ ''/''" b]) simp_all
qed

lemma image_parts_cases:
  assumes "image_parts i = Some p" and "trim i = i"
  obtains (tagged) pre n t where "i = pre @ n @ CHR '':'' # t" "p = \<lparr>repository = pre @ n, tag = t\<rparr>"
      "CHR ''/'' \<notin> set n" "CHR ''/'' \<notin> set t" "CHR '':'' \<notin> set t" "pre = [] \<or> last pre = CHR ''/''"
    | (untagged) pre lst where "i = pre @ lst" "p = \<lparr>repository = i, tag = ''latest''\<rparr>"
      "CHR ''/'' \<notin> set lst" "CHR '':'' \<notin> set lst" "pre = [] \<or> last pre = CHR ''/''"
proof -
  have ne: "i \<noteq> []" "CHR ''@'' \<notin> set i"
    using assms by (auto simp: image_parts_def Let_def split: if_splits)
  obtain pre lst where i: "i = pre @ lst" "CHR ''/'' \<notin> set lst" "pre = [] \<or> last pre = CHR ''/''"
    and parts: "image_parts i = Some (case rsplit_once CHR '':'' lst of
       Some (n, t) \<Rightarrow> \<lparr>repository = pre @ n, tag = t\<rparr> | None \<Rightarrow> \<lparr>repository = i, tag = ''latest''\<rparr>)"
    by (rule image_parts_eq [OF assms(2) ne])
  show ?thesis
  proof (cases "rsplit_once CHR '':'' lst")
    case None
    then have "p = \<lparr>repository = i, tag = ''latest''\<rparr>" using parts assms(1) by simp
    then show ?thesis using untagged i None by (simp add: rsplit_once_None_iff)
  next
    case (Some nt)
    obtain n t where nt: "nt = (n, t)" by (cases nt)
    have "lst = n @ CHR '':'' # t" "CHR '':'' \<notin> set t"
      using rsplit_once_SomeD [of "CHR '':''" lst n t] Some nt by auto
    moreover have "p = \<lparr>repository = pre @ n, tag = t\<rparr>" using parts assms(1) Some nt by simp
    ultimately show ?thesis using tagged i by simp
  qed
qed

lemma image_host_Some:
  "image_host i = Some h \<Longrightarrow> \<exists>r. i = h @ CHR ''/'' # r \<and> CHR ''/'' \<notin> set h \<and>
    (CHR ''.'' \<in> set h \<or> CHR '':'' \<in> set h \<or> h = ''localhost'')"
  by (auto simp: image_host_def split: option.splits if_splits dest!: split_once_SomeD)

lemma first_segment:
  "a @ b = h @ CHR ''/'' # r \<Longrightarrow> CHR ''/'' \<notin> set b \<Longrightarrow> \<exists>r'. a = h @ CHR ''/'' # r'"
  by (auto simp: append_eq_append_conv2 append_eq_Cons_conv Cons_eq_append_conv)

lemma parts_name_of_host:
  assumes p: "image_parts i = Some p" "trim i = i" and h: "image_host i = Some h" "h \<noteq> ''localhost''"
  shows "repository p = h @ ''/'' @ parts_name p"
proof -
  obtain r where r: "i = h @ CHR ''/'' # r" "CHR ''/'' \<notin> set h" "CHR ''.'' \<in> set h \<or> CHR '':'' \<in> set h"
    using image_host_Some [OF h(1)] h(2) by auto
  have "\<exists>r'. repository p = h @ CHR ''/'' # r'"
  proof (rule image_parts_cases [OF p])
    fix pre n t
    assume i: "i = pre @ n @ CHR '':'' # t" "p = \<lparr>repository = pre @ n, tag = t\<rparr>" "CHR ''/'' \<notin> set t"
    then have "(pre @ n) @ CHR '':'' # t = h @ CHR ''/'' # r" using r(1) by simp
    from first_segment [OF this] i show ?thesis by simp
  next
    fix pre lst assume "p = \<lparr>repository = i, tag = ''latest''\<rparr>"
    then show ?thesis using r(1) by simp
  qed
  then show ?thesis using r(2,3) by (auto simp: parts_name_def)
qed

lemma release_tag_parts:
  assumes p: "image_parts (reference r) = Some p" and t: "trim (reference r) = reference r"
    and ne: "\<not> ends_with ''/'' (repository p)"
  shows "release_tag r = (if repository p = reference r then reference r else tag p)"
proof (rule image_parts_cases [OF p t])
  fix pre n t
  assume i: "reference r = pre @ n @ CHR '':'' # t" "p = \<lparr>repository = pre @ n, tag = t\<rparr>"
    "CHR ''/'' \<notin> set t" "CHR '':'' \<notin> set t"
  have "rsplit_once CHR '':'' (reference r) = Some (pre @ n, t)"
    using rsplit_once_append [of "CHR '':''" t "pre @ n"] i by simp
  then show ?thesis using i ne by (simp add: release_tag_def)
next
  fix pre lst
  assume i: "reference r = pre @ lst" "p = \<lparr>repository = reference r, tag = ''latest''\<rparr>"
    "CHR ''/'' \<notin> set lst" "CHR '':'' \<notin> set lst" "pre = [] \<or> last pre = CHR ''/''"
  have "CHR ''/'' \<in> set u" if "rsplit_once CHR '':'' (reference r) = Some (b, u)" for b u
  proof -
    have "pre @ lst = b @ CHR '':'' # u" using rsplit_once_SomeD [OF that] i(1) by simp
    then obtain x where x: "pre = b @ CHR '':'' # x" "u = x @ lst"
      using i(4) by (auto simp: append_eq_append_conv2 append_eq_Cons_conv Cons_eq_append_conv)
    then have "last (CHR '':'' # x) = CHR ''/''" using i(5) by auto
    then show ?thesis using x(2) by (cases x rule: rev_cases) auto
  qed
  then show ?thesis using i(2) by (auto simp: release_tag_def split: option.splits)
qed

subsection \<open>Container ids\<close>

lemma slug_no_dot: "CHR ''.'' \<notin> set (slug_of a)"
  using hyphenated_chars [of "slug_of a"] slug_of_shape [of a]
  by (auto simp: slug_shape_def list_all_iff slug_char_def is_digit_def is_lower_def)

lemma container_id_split:
  assumes "CHR ''.'' \<notin> set p" "CHR ''.'' \<notin> set s"
  shows "split_on CHR ''.'' (container_id_for p s n) = (if n = 1 then [p, s] else [p, s, show_nat (unat n)])"
proof -
  have "CHR ''.'' \<notin> set (show_nat k)" for k
    using show_nat_chars [of "CHR ''.''" k] by (auto simp: is_digit_def)
  then show ?thesis using assms by (simp add: container_id_for_def split_on_append split_on_free)
qed

subsection \<open>Identifiers\<close>

lemma identifier_char:
  "is_lower c \<or> is_digit c \<or> c = CHR ''_'' \<longleftrightarrow>
    (\<exists>d. c = (if is_alphanumeric d then to_lower d else CHR ''_''))"
proof
  assume c: "is_lower c \<or> is_digit c \<or> c = CHR ''_''"
  show "\<exists>d. c = (if is_alphanumeric d then to_lower d else CHR ''_'')"
  proof (cases "c = CHR ''_''")
    case True
    then show ?thesis by (intro exI [of _ "CHR ''_''"]) (simp add: char_class_defs)
  next
    case False
    then show ?thesis using c by (intro exI [of _ c]) (auto simp: char_class_defs to_lower_def)
  qed
next
  assume "\<exists>d. c = (if is_alphanumeric d then to_lower d else CHR ''_'')"
  then show "is_lower c \<or> is_digit c \<or> c = CHR ''_''"
    by (auto simp: char_class_defs code_of_to_lower split: if_splits)
qed

definition identifier_shape :: "string \<Rightarrow> bool" where
  "identifier_shape i \<longleftrightarrow> i \<noteq> [] \<and> \<not> is_digit (hd i) \<and>
    list_all (\<lambda>c. is_lower c \<or> is_digit c \<or> c = CHR ''_'') i"

lemma identifier_shape_take: "identifier_shape i \<Longrightarrow> 0 < n \<Longrightarrow> identifier_shape (take n i)"
  by (auto simp: identifier_shape_def list_all_iff hd_take dest: in_set_takeD)

lemma postgres_identifier_shape:
  "identifier_shape (postgres_identifier slug) \<and> length (postgres_identifier slug) \<le> 63"
proof -
  let ?m = "map (\<lambda>c. if is_alphanumeric c then to_lower c else CHR ''_'') slug"
  let ?i = "if ?m = [] \<or> is_digit (hd ?m) then ''db_'' @ ?m else ?m"
  have "list_all (\<lambda>c. is_lower c \<or> is_digit c \<or> c = CHR ''_'') ?m"
    unfolding list_all_iff using identifier_char by auto
  moreover have "list_all (\<lambda>c. is_lower c \<or> is_digit c \<or> c = CHR ''_'') ''db_''"
    by (simp add: is_lower_def)
  ultimately have all: "list_all (\<lambda>c. is_lower c \<or> is_digit c \<or> c = CHR ''_'') ?i" by auto
  have "?i \<noteq> []" "\<not> is_digit (hd ?i)" by (auto simp: is_digit_def)
  with all have "identifier_shape ?i" unfolding identifier_shape_def by blast
  from identifier_shape_take [OF this, of 63] have "identifier_shape (take 63 ?i)" by simp
  then show ?thesis unfolding postgres_identifier_def Let_def by simp
qed

lemma mysql_identifier_shape: "identifier_shape i \<Longrightarrow> identifier_shape (mysql_identifier i u)"
proof -
  assume i: "identifier_shape i"
  then have t: "identifier_shape (take 32 i)" by (rule identifier_shape_take) simp
  then have "identifier_shape (''db_'' @ take 32 i)"
    by (simp add: identifier_shape_def is_lower_def is_digit_def)
  with t show ?thesis by (simp add: mysql_identifier_def Let_def)
qed

subsection \<open>Replication slots\<close>

lemma text_lines_join:
  "(\<And>l. l \<in> set ls \<Longrightarrow> CHR 0x0A \<notin> set l \<and> l \<noteq> [] \<and> last l \<noteq> CHR 0x0D) \<Longrightarrow>
    text_lines (join_with [CHR 0x0A] ls) = ls"
proof (cases "ls = []")
  case False
  assume l: "\<And>l. l \<in> set ls \<Longrightarrow> CHR 0x0A \<notin> set l \<and> l \<noteq> [] \<and> last l \<noteq> CHR 0x0D"
  have "text_lines_of ls = ls"
    using l
  proof (induction ls rule: text_lines_of.induct)
    case (3 a m ls)
    have "strip_suffix [CHR 0x0D] a = None"
      using "3.prems" [of a] by (auto simp: strip_suffix_def ends_with_iff)
    then show ?case using "3.IH" "3.prems" by simp
  qed auto
  then show ?thesis
    using split_join [OF False, of "CHR 0x0A"] l by (simp add: text_lines_def)
qed (simp add: text_lines_def)

definition slot_line :: "slot_state \<Rightarrow> string" where
  "slot_line s = slot_name (state_slot s) @ ''|'' @ (if active s then ''t'' else ''f'') @ ''|'' @
    (if held_bytes s < 0 then ''-'' @ show_nat (nat (- held_bytes s)) else show_nat (nat (held_bytes s)))"

lemma parse_i64_show:
  "- (2 ^ 63) \<le> i \<Longrightarrow> i < 2 ^ 63 \<Longrightarrow>
    parse_i64 (if i < 0 then ''-'' @ show_nat (nat (- i)) else show_nat (nat i)) = Some i"
proof -
  assume b: "- (2 ^ 63) \<le> i" "i < (2 ^ 63 :: int)"
  show ?thesis
  proof (cases "i < 0")
    case True
    then have "strip_prefix ''-'' (''-'' @ show_nat (nat (- i))) = Some (show_nat (nat (- i)))"
      by (simp only: strip_prefix_append)
    moreover have "nat (- i) \<le> 2 ^ 63" using b by simp
    ultimately show ?thesis using True by (simp add: parse_i64_def show_nat_digits)
  next
    case False
    have "strip_prefix ''-'' (show_nat (nat i)) = None"
      using show_nat_chars [of "CHR ''-''" "nat i"]
      by (auto simp: strip_prefix_None starts_with_iff is_digit_def)
    moreover have "nat i < 2 ^ 63" using b by simp
    ultimately show ?thesis using False by (simp add: parse_i64_def)
  qed
qed

lemma slot_line_chars:
  "c \<in> set (slot_line s) \<Longrightarrow> is_digit c \<or> c \<in> set ''wabot_slot_tf|-''"
  using show_nat_chars by (auto simp: slot_line_def slot_name_def split: if_splits)

lemma slot_line_plain: "c \<in> set (slot_line s) \<Longrightarrow> \<not> is_whitespace c \<and> c \<noteq> CHR 0x0A \<and> c \<noteq> CHR 0x0D"
  using slot_line_chars [of c s] by (auto simp: is_digit_def is_whitespace_def)

lemma slot_line_not_Nil: "slot_line s \<noteq> []"
  by (simp add: slot_line_def slot_name_def)

lemma slot_line_ends: "CHR 0x0A \<notin> set (slot_line s)" "slot_line s \<noteq> []" "last (slot_line s) \<noteq> CHR 0x0D"
  using slot_line_plain [of _ s] slot_line_not_Nil [of s] last_in_set [of "slot_line s"] by blast+

lemma no_pipe: "CHR ''|'' \<notin> set (show_nat n)"
  using show_nat_chars [of "CHR ''|''" n] by (auto simp: is_digit_def)

lemma parse_slot_line_show:
  assumes "- (2 ^ 63) \<le> held_bytes s" and "held_bytes s < 2 ^ 63"
  shows "parse_slot_line (slot_line s) = Some s"
proof -
  let ?h = "if held_bytes s < 0 then ''-'' @ show_nat (nat (- held_bytes s)) else show_nat (nat (held_bytes s))"
  have "trim (slot_line s) = slot_line s"
    using slot_line_plain [of "hd (slot_line s)" s] slot_line_plain [of "last (slot_line s)" s] slot_line_not_Nil
    by (intro trim_id) auto
  moreover have "slot_line s = slot_name (state_slot s) @ CHR ''|'' # (if active s then ''t'' else ''f'') @
      CHR ''|'' # ?h"
    by (simp add: slot_line_def)
  moreover have "CHR ''|'' \<notin> set (slot_name (state_slot s))" "CHR ''|'' \<notin> set ?h"
    using no_pipe by (auto simp: slot_name_def)
  ultimately have "split_on CHR ''|'' (trim (slot_line s)) =
      [slot_name (state_slot s), if active s then ''t'' else ''f'', ?h]"
    by (simp add: split_on_append split_on_free)
  moreover have "strip_prefix ''wabot_slot_'' (slot_name (state_slot s)) = Some (show_nat (unat (state_slot s)))"
    unfolding slot_name_def by (rule strip_prefix_append)
  moreover have "parse_uint (2 ^ 32) (show_nat (unat (state_slot s))) = Some (unat (state_slot s))"
    using unat_below_exp [of "state_slot s"] by (intro parse_show_nat) simp
  ultimately show ?thesis
    using parse_i64_show [OF assms] by (simp add: parse_slot_line_def)
qed

section \<open>Properties\<close>

text \<open>What is accepted as an image of a service reads back as itself from its
  row and from the form, has no blank in it, is empty or names its registry; and when it
  takes apart, it is put together by its repository and tag, the tag names no path, and the
  registry (other than a bare localhost) is exactly what stands before its name.\<close>

theorem image_reference_sound:
  assumes "image_typed t = Inr i"
  shows "image_parse i = Inr i \<and> image_typed i = Inr i \<and> list_all (\<lambda>c. \<not> is_whitespace c) i \<and>
    (i = [] \<or> image_host i \<noteq> None) \<and>
    (case image_parts i of
       None \<Rightarrow> i = [] \<or> CHR ''@'' \<in> set i
     | Some p \<Rightarrow> (i = repository p @ '':'' @ tag p \<or> i = repository p \<and> tag p = ''latest'') \<and>
         CHR ''/'' \<notin> set (tag p) \<and>
         (image_host i = Some ''localhost'' \<or> repository p = the (image_host i) @ ''/'' @ parts_name p))"
proof -
  have p: "image_parse t = Inr i" "i = [] \<or> image_host i \<noteq> None" using assms by (auto simp: image_typed_Inr)
  have i: "i = trim t" using p(1) by (auto simp: image_parse_Inr)
  then have ti: "trim i = i" by simp
  have pi: "image_parse i = Inr i" by (rule image_reference.parse_stable [OF p(1)])
  have ws: "list_all (\<lambda>c. \<not> is_whitespace c) i"
    using p(1) one_word [of t] by (auto simp: image_parse_Inr)
  have parts: "case image_parts i of
       None \<Rightarrow> i = [] \<or> CHR ''@'' \<in> set i
     | Some q \<Rightarrow> (i = repository q @ '':'' @ tag q \<or> i = repository q \<and> tag q = ''latest'') \<and>
         CHR ''/'' \<notin> set (tag q) \<and>
         (image_host i = Some ''localhost'' \<or> repository q = the (image_host i) @ ''/'' @ parts_name q)"
  proof (cases "image_parts i")
    case None
    then show ?thesis using ti by (auto simp: image_parts_def Let_def split: if_splits prod.splits)
  next
    case (Some q)
    have ne: "i \<noteq> []" using Some by (auto simp: image_parts_def Let_def)
    then obtain h where h: "image_host i = Some h" using p(2) by auto
    have "(i = repository q @ '':'' @ tag q \<or> i = repository q \<and> tag q = ''latest'') \<and> CHR ''/'' \<notin> set (tag q)"
      by (rule image_parts_cases [OF Some ti]) auto
    then show ?thesis using Some h parts_name_of_host [OF Some ti h] by auto
  qed
  show ?thesis using p(2) pi ws parts by (auto simp: image_typed_Inr)
qed

theorem image_reference_sound_witness:
  "image_typed '' node.io:5000/app:v2 '' = Inr ''node.io:5000/app:v2'' \<and>
   image_parts ''node.io:5000/app:v2'' = Some \<lparr>repository = ''node.io:5000/app'', tag = ''v2''\<rparr> \<and>
   list_all (\<lambda>c. \<not> is_whitespace c) ''node.io:5000/app:v2'' \<and>
   parts_name \<lparr>repository = ''localhost/app'', tag = ''v2''\<rparr> = ''localhost/app''"
proof -
  have t: "image_typed '' node.io:5000/app:v2 '' = Inr ''node.io:5000/app:v2''" by code_simp
  moreover have "image_parts ''node.io:5000/app:v2'' = Some \<lparr>repository = ''node.io:5000/app'', tag = ''v2''\<rparr>"
    by code_simp
  moreover have "list_all (\<lambda>c. \<not> is_whitespace c) ''node.io:5000/app:v2''"
    using image_reference_sound [OF t] by blast
  moreover have "parts_name \<lparr>repository = ''localhost/app'', tag = ''v2''\<rparr> = ''localhost/app''" by code_simp
  ultimately show ?thesis by blast
qed

text \<open>The tag a release is shown with is the tag of its reference wherever the
  reference takes apart into a named repository and a tag, and the whole reference when it
  carries none.\<close>

theorem release_tag_is_the_tag:
  assumes "image_parts (reference r) = Some p" and "trim (reference r) = reference r"
    and "\<not> ends_with ''/'' (repository p)"
  shows "release_tag r = (if repository p = reference r then reference r else tag p)"
  using assms by (rule release_tag_parts)

definition digest_pinned :: release where
  "digest_pinned = \<lparr>release_id = ''r'', release_service = ''s'', reference = ''h.io/app@sha256:ab12'',
     digest = ''sha256:ab12'', release_source = Manual, release_created_at = 0, deployed_at = None\<rparr>"

text \<open>The witness also shows a reference pinned to a digest, which carries no tag: what is
  shown is the digest's hexadecimal part rather than the whole reference.\<close>

theorem release_tag_is_the_tag_witness:
  "release_tag (digest_pinned\<lparr>reference := ''h.io:5000/app:v2''\<rparr>) = ''v2'' \<and>
   release_tag (digest_pinned\<lparr>reference := ''h.io:5000/app''\<rparr>) = ''h.io:5000/app'' \<and>
   image_parts (reference digest_pinned) = None \<and> release_tag digest_pinned = ''ab12''"
proof -
  let ?r = "digest_pinned\<lparr>reference := ''h.io:5000/app:v2''\<rparr>"
  have ref: "reference ?r = ''h.io:5000/app:v2''" by simp
  have p: "image_parts (reference ?r) = Some \<lparr>repository = ''h.io:5000/app'', tag = ''v2''\<rparr>" by code_simp
  have t: "trim (reference ?r) = reference ?r" by code_simp
  have e: "\<not> ends_with ''/'' (repository \<lparr>repository = ''h.io:5000/app'', tag = ''v2''\<rparr>)" by code_simp
  have "release_tag ?r = ''v2''" using release_tag_is_the_tag [OF p t e] by simp
  moreover have "release_tag (digest_pinned\<lparr>reference := ''h.io:5000/app''\<rparr>) = ''h.io:5000/app''" by code_simp
  moreover have "image_parts (reference digest_pinned) = None" by code_simp
  moreover have "release_tag digest_pinned = ''ab12''" by code_simp
  ultimately show ?thesis by blast
qed

text \<open>A container id names one copy: two copies have the same id only when they
  are the same slot of the same service of the same project.\<close>

theorem container_id_names_one_copy:
  "container_id_for (slug_of p) (slug_of s) n = container_id_for (slug_of p') (slug_of s') m \<longleftrightarrow>
    slug_of p = slug_of p' \<and> slug_of s = slug_of s' \<and> n = m"
proof
  assume "container_id_for (slug_of p) (slug_of s) n = container_id_for (slug_of p') (slug_of s') m"
  then have "split_on CHR ''.'' (container_id_for (slug_of p) (slug_of s) n) =
      split_on CHR ''.'' (container_id_for (slug_of p') (slug_of s') m)" by simp
  then show "slug_of p = slug_of p' \<and> slug_of s = slug_of s' \<and> n = m"
    by (auto simp: container_id_split slug_no_dot split: if_splits dest: word_unat_eq_iff [THEN iffD2])
qed auto

text \<open>Whatever a database is called, the identifier made of it for its engine
  needs no quoting: it is not empty, starts with no digit, is made of lower-case letters,
  digits and underscores, and is no longer than the engine takes.\<close>

theorem identifier_is_plain:
  "identifier_shape (engine_identifier e slug node_user) \<and>
   length (engine_identifier e slug node_user) \<le> (if e = Mysql then 35 else 63) \<and>
   engine_identifier e slug node_user \<notin>
     (if e = Mysql then set [''root'', ''mysql'', ''sys'', ''information_schema'', ''performance_schema''] else {})"
proof (cases e)
  case Mysql
  then show ?thesis
    using mysql_identifier_shape [of "postgres_identifier slug" node_user] postgres_identifier_shape [of slug]
    by (auto simp: mysql_identifier_def Let_def)
qed (use postgres_identifier_shape in auto)

text \<open>What a primary prints about its standbys is read back whole: the slots,
  whether they are followed, and the log held for each, over the whole range of the number.\<close>

theorem replication_roundtrip:
  assumes "list_all (\<lambda>s. - (2 ^ 63) \<le> held_bytes s \<and> held_bytes s < 2 ^ 63) states"
  shows "parse_replication (join_with [CHR 0x0A] (map slot_line states)) = states"
proof -
  have "text_lines (join_with [CHR 0x0A] (map slot_line states)) = map slot_line states"
    by (rule text_lines_join) (auto simp: slot_line_ends)
  moreover have "List.map_filter parse_slot_line (map slot_line states) = states"
    using assms by (induction states) (auto simp: map_filter_simps parse_slot_line_show)
  ultimately show ?thesis by (simp add: parse_replication_def)
qed

theorem replication_roundtrip_witness:
  "parse_replication (join_with [CHR 0x0A] (map slot_line
     [\<lparr>state_slot = 2, active = True, held_bytes = 0\<rparr>, \<lparr>state_slot = 3, active = False, held_bytes = -5\<rparr>])) =
   [\<lparr>state_slot = 2, active = True, held_bytes = 0\<rparr>, \<lparr>state_slot = 3, active = False, held_bytes = -5\<rparr>]"
  by (rule replication_roundtrip) simp

text \<open>What the engines are told fits in the ceiling they are told it for: from
  64 MB Postgres's shared buffers take at most a quarter of it, its planner counts on at
  most half and its maintenance on an eighth; MySQL's pool, log buffer and temporary tables
  together stay within two thirds of the ceiling, its floor being the least it is given.\<close>

theorem tuning_fits:
  "(64 \<le> unat (limit div MB) \<longrightarrow>
      4 * unat (shared_buffers_mb (pg_tuning_for limit)) \<le> unat (limit div MB) \<and>
      2 * unat (effective_cache_size_mb (pg_tuning_for limit)) \<le> unat (limit div MB) \<and>
      8 * unat (maintenance_work_mem_mb (pg_tuning_for limit)) \<le> unat (limit div MB)) \<and>
   3 * (unat (buffer_pool_mb (mysql_tuning_for limit)) + unat (log_buffer_mb (mysql_tuning_for limit)) +
        unat (temptable_mb (mysql_tuning_for limit)))
     \<le> 2 * unat (max limit (engine_floor Mysql) div MB)"
proof (rule conjI)
  let ?mb = "limit div MB"
  have d: "unat (?mb div n) = unat ?mb div unat n" for n by (simp add: unat_div)
  show "64 \<le> unat ?mb \<longrightarrow>
      4 * unat (shared_buffers_mb (pg_tuning_for limit)) \<le> unat ?mb \<and>
      2 * unat (effective_cache_size_mb (pg_tuning_for limit)) \<le> unat ?mb \<and>
      8 * unat (maintenance_work_mem_mb (pg_tuning_for limit)) \<le> unat ?mb"
    by (auto simp: pg_tuning_for_def Let_def max_def min_def word_le_nat_alt d)
next
  let ?mb = "max limit (256 * MB) div MB"
  have "256 \<le> unat ?mb"
  proof -
    have "unat (256 * MB) = 256 * 1048576" "unat MB = 1048576" by (simp_all add: MB_def)
    moreover have "unat (256 * MB) \<le> unat (max limit (256 * MB))"
      by (simp add: max_def word_le_nat_alt)
    ultimately show ?thesis by (simp add: unat_div less_eq_div_iff_mult_less_eq)
  qed
  then show "3 * (unat (buffer_pool_mb (mysql_tuning_for limit)) + unat (log_buffer_mb (mysql_tuning_for limit)) +
        unat (temptable_mb (mysql_tuning_for limit)))
     \<le> 2 * unat (max limit (engine_floor Mysql) div MB)"
    by (auto simp: mysql_tuning_for_def Let_def word_le_nat_alt)
qed

theorem tuning_fits_witness:
  "4 * unat (shared_buffers_mb (pg_tuning_for (512 * MB))) \<le> 512 \<and> 512 = unat (512 * MB div MB)"
proof -
  have m: "unat (512 * MB div MB) = 512" by (simp add: MB_def)
  then have "4 * unat (shared_buffers_mb (pg_tuning_for (512 * MB))) \<le> unat (512 * MB div MB)"
    using tuning_fits [of "512 * MB"] by simp
  with m show ?thesis by simp
qed

end
