(* ===== verification/Addresses.thy ===== *)
theory Addresses
  imports Text
begin

text \<open>
  \<open>std::net::SocketAddr\<close> as the program uses it: parsed from text (\<open>from_str\<close>), printed
  (\<open>Display\<close>) and ordered (the derived \<open>Ord\<close>). The readers follow the standard library's
  parser: a reader takes a text and returns what it read with the rest, or \<open>None\<close> without
  consuming anything. Printing and reading back is proved for IPv4 and IPv6 addresses, and for IPv4 sockets.
\<close>

datatype socket_addr =
    SockV4 u8 u8 u8 u8 u16
  | SockV6 "u16 list" u32 u16

section \<open>Reading\<close>

text \<open>\<open>read_number\<close>: the longest run of digits, bounded in number and in value.\<close>

definition read_number :: "nat \<Rightarrow> nat option \<Rightarrow> bool \<Rightarrow> nat \<Rightarrow> string \<Rightarrow> (nat \<times> string) option" where
  "read_number radix max_digits zero_prefix bound s =
    (let dig = (if radix = 16 then is_hexdigit else is_digit);
         ds = takeWhile dig s;
         n = (if radix = 16 then hex_val ds else digits_val ds) in
     if ds = [] \<or> (case max_digits of Some m \<Rightarrow> length ds > m | None \<Rightarrow> False) \<or>
        (\<not> zero_prefix \<and> hd ds = CHR ''0'' \<and> length ds > 1) \<or> \<not> n < bound
     then None else Some (n, dropWhile dig s))"

fun read_char :: "char \<Rightarrow> string \<Rightarrow> string option" where
  "read_char c (x # xs) = (if x = c then Some xs else None)"
| "read_char c [] = None"

definition read_octet :: "string \<Rightarrow> (nat \<times> string) option" where
  "read_octet = read_number 10 (Some 3) False 256"

definition read_ipv4 :: "string \<Rightarrow> ((u8 \<times> u8 \<times> u8 \<times> u8) \<times> string) option" where
  "read_ipv4 s =
    Option.bind (read_octet s) (\<lambda>(a, s).
    Option.bind (read_char CHR ''.'' s) (\<lambda>s. Option.bind (read_octet s) (\<lambda>(b, s).
    Option.bind (read_char CHR ''.'' s) (\<lambda>s. Option.bind (read_octet s) (\<lambda>(c, s).
    Option.bind (read_char CHR ''.'' s) (\<lambda>s. Option.bind (read_octet s) (\<lambda>(d, s).
      Some ((of_nat a, of_nat b, of_nat c, of_nat d), s))))))))"

definition read_port :: "string \<Rightarrow> (u16 \<times> string) option" where
  "read_port s =
    Option.bind (read_char CHR '':'' s) (\<lambda>s.
    Option.bind (read_number 10 None True 65536 s) (\<lambda>(p, s). Some (of_nat p, s)))"

text \<open>\<open>read_separator\<close>: the separator is read before every element but the first.\<close>

definition read_sep :: "nat \<Rightarrow> (string \<Rightarrow> ('a \<times> string) option) \<Rightarrow> string \<Rightarrow> ('a \<times> string) option" where
  "read_sep i r s = (if i > 0 then Option.bind (read_char CHR '':'' s) r else r s)"

text \<open>
  \<open>read_groups\<close>, with \<open>k\<close> groups still to read of \<open>limit\<close>: the groups read, whether they
  ended in an embedded IPv4 address, and the rest.
\<close>

fun read_groups :: "nat \<Rightarrow> nat \<Rightarrow> string \<Rightarrow> u16 list \<times> bool \<times> string" where
  "read_groups limit 0 s = ([], False, s)"
| "read_groups limit (Suc k) s =
    (let i = limit - Suc k in
     case (if i < limit - 1 then read_sep i read_ipv4 s else None) of
       Some ((a, b, c, d), s') \<Rightarrow> ([ucast a * 256 + ucast b, ucast c * 256 + ucast d], True, s')
     | None \<Rightarrow>
         (case read_sep i (read_number 16 (Some 4) True 65536) s of
            Some (g, s') \<Rightarrow> (let (gs, v4, s'') = read_groups limit k s' in (of_nat g # gs, v4, s''))
          | None \<Rightarrow> ([], False, s)))"

definition read_ipv6 :: "string \<Rightarrow> (u16 list \<times> string) option" where
  "read_ipv6 s =
    (let (head, v4, s) = read_groups 8 8 s in
     if length head = 8 then Some (head, s)
     else if v4 then None
     else Option.bind (read_char CHR '':'' s) (\<lambda>s. Option.bind (read_char CHR '':'' s) (\<lambda>s.
       let limit = 8 - (length head + 1);
           (tail, _, s) = read_groups limit limit s
       in Some (head @ replicate (8 - length head - length tail) 0 @ tail, s))))"

definition read_scope :: "string \<Rightarrow> u32 \<times> string" where
  "read_scope s =
    (case Option.bind (read_char CHR ''%'' s) (read_number 10 None True (2 ^ 32)) of
       Some (n, s') \<Rightarrow> (of_nat n, s') | None \<Rightarrow> (0, s))"

definition read_socket_v4 :: "string \<Rightarrow> (socket_addr \<times> string) option" where
  "read_socket_v4 s =
    Option.bind (read_ipv4 s) (\<lambda>((a, b, c, d), s).
    Option.bind (read_port s) (\<lambda>(p, s). Some (SockV4 a b c d p, s)))"

definition read_socket_v6 :: "string \<Rightarrow> (socket_addr \<times> string) option" where
  "read_socket_v6 s =
    Option.bind (read_char CHR ''['' s) (\<lambda>s. Option.bind (read_ipv6 s) (\<lambda>(ip, s).
      let (scope, s) = read_scope s in
      Option.bind (read_char CHR '']'' s) (\<lambda>s.
      Option.bind (read_port s) (\<lambda>(p, s). Some (SockV6 ip scope p, s)))))"

definition parse_socket :: "string \<Rightarrow> socket_addr option" where
  "parse_socket s =
    (case read_socket_v4 s of
       Some (a, rest) \<Rightarrow> if rest = [] then Some a else None
     | None \<Rightarrow> (case read_socket_v6 s of
          Some (a, rest) \<Rightarrow> if rest = [] then Some a else None
        | None \<Rightarrow> None))"

text \<open>\<open>Ipv4Addr::from_str\<close>.\<close>

definition parse_ipv4 :: "string \<Rightarrow> (u8 \<times> u8 \<times> u8 \<times> u8) option" where
  "parse_ipv4 s =
    (if byte_len s > 15 then None
     else case read_ipv4 s of Some (a, rest) \<Rightarrow> if rest = [] then Some a else None | None \<Rightarrow> None)"

text \<open>\<open>Ipv6Addr::from_str\<close>.\<close>

definition parse_ipv6 :: "string \<Rightarrow> u16 list option" where
  "parse_ipv6 s = (case read_ipv6 s of Some (a, rest) \<Rightarrow> if rest = [] then Some a else None | None \<Rightarrow> None)"

section \<open>Printing\<close>

definition show_byte :: "'a::len word \<Rightarrow> string" where
  "show_byte b = show_nat (unat b)"

definition show_ipv4 :: "u8 \<Rightarrow> u8 \<Rightarrow> u8 \<Rightarrow> u8 \<Rightarrow> string" where
  "show_ipv4 a b c d = show_byte a @ ''.'' @ show_byte b @ ''.'' @ show_byte c @ ''.'' @ show_byte d"

function show_hex :: "nat \<Rightarrow> string" where
  "show_hex n =
    (if n < 16 then [if n < 10 then char_of (48 + n) else char_of (87 + n)]
     else show_hex (n div 16) @ show_hex (n mod 16))"
  by pat_completeness auto
termination by (relation "measure id") auto

declare show_hex.simps [simp del]

text \<open>The first of the longest runs of zero groups: where it starts and how long it is.\<close>

fun zero_runs :: "nat \<Rightarrow> nat \<times> nat \<Rightarrow> nat \<times> nat \<Rightarrow> u16 list \<Rightarrow> nat \<times> nat" where
  "zero_runs i cur best [] = best"
| "zero_runs i cur best (g # gs) =
    (if g = 0 then
       let cur = (if snd cur = 0 then (i, 1) else (fst cur, snd cur + 1))
       in zero_runs (Suc i) cur (if snd cur > snd best then cur else best) gs
     else zero_runs (Suc i) (0, 0) best gs)"

definition show_groups :: "u16 list \<Rightarrow> string" where
  "show_groups gs = join_with '':'' (map (show_hex \<circ> unat) gs)"

definition show_ipv6 :: "u16 list \<Rightarrow> string" where
  "show_ipv6 gs =
    (if take 5 gs = [0, 0, 0, 0, 0] \<and> gs ! 5 = 0xFFFF then
       ''::ffff:'' @ show_ipv4 (ucast (drop_bit 8 (gs ! 6))) (ucast (gs ! 6))
         (ucast (drop_bit 8 (gs ! 7))) (ucast (gs ! 7))
     else let (at, n) = zero_runs 0 (0, 0) (0, 0) gs in
       if n > 1 then show_groups (take at gs) @ ''::'' @ show_groups (drop (at + n) gs)
       else show_groups gs)"

fun show_socket :: "socket_addr \<Rightarrow> string" where
  "show_socket (SockV4 a b c d p) = show_ipv4 a b c d @ '':'' @ show_byte p"
| "show_socket (SockV6 gs scope p) =
    ''['' @ show_ipv6 gs @ (if scope = 0 then [] else ''%'' @ show_byte scope) @ '']:'' @ show_byte p"

fun is_v4 :: "socket_addr \<Rightarrow> bool" where
  "is_v4 (SockV4 _ _ _ _ _) = True" | "is_v4 (SockV6 _ _ _) = False"

section \<open>The order of addresses\<close>

fun socket_key :: "socket_addr \<Rightarrow> nat list" where
  "socket_key (SockV4 a b c d p) = [0, unat a, unat b, unat c, unat d, unat p]"
| "socket_key (SockV6 gs scope p) = 1 # map unat gs @ [unat p, unat scope]"

lemma unat_inject [simp]: "unat a = unat b \<longleftrightarrow> a = b"
  by (simp add: word_unat_eq_iff)

lemma socket_key_inject [simp]: "socket_key a = socket_key b \<longleftrightarrow> a = b"
proof
  assume "socket_key a = socket_key b"
  then show "a = b"
    by (cases a; cases b) (auto dest!: map_injective simp: inj_def)
qed simp

instantiation socket_addr :: linorder
begin

definition less_eq_socket_addr :: "socket_addr \<Rightarrow> socket_addr \<Rightarrow> bool" where
  "a \<le> b \<longleftrightarrow> socket_key a \<le> socket_key b"

definition less_socket_addr :: "socket_addr \<Rightarrow> socket_addr \<Rightarrow> bool" where
  "a < b \<longleftrightarrow> socket_key a < socket_key b"

instance
  by standard (auto simp: less_eq_socket_addr_def less_socket_addr_def less_le)

end

section \<open>What is printed is read back\<close>

lemma takeWhile_digits:
  "rest = [] \<or> \<not> is_digit (hd rest) \<Longrightarrow>
    takeWhile is_digit (show_nat n @ rest) = show_nat n \<and> dropWhile is_digit (show_nat n @ rest) = rest"
  using show_nat_chars [of _ n]
  by (cases rest) (auto simp: takeWhile_append2 dropWhile_append2 takeWhile_eq_all_conv)

lemma show_nat_zero_prefix: "hd (show_nat n) = CHR ''0'' \<Longrightarrow> length (show_nat n) = 1"
proof (induction n rule: show_nat.induct)
  case (1 n)
  show ?case
  proof (cases "n < 10")
    case True
    then show ?thesis by (subst show_nat.simps) simp
  next
    case False
    have h: "hd (show_nat n) = hd (show_nat (n div 10))"
      using False by (subst show_nat.simps) simp
    then have "length (show_nat (n div 10)) = 1" "hd (show_nat (n div 10)) = CHR ''0''"
      using "1.IH" [OF False] "1.prems" by auto
    then have "digits_val (show_nat (n div 10)) = 0"
      by (cases "show_nat (n div 10)") (auto simp: digits_val_def)
    then show ?thesis using False by simp
  qed
qed

lemma length_show_nat: "n < 10 ^ k \<Longrightarrow> 0 < k \<Longrightarrow> length (show_nat n) \<le> k"
proof (induction k arbitrary: n)
  case (Suc k)
  show ?case
  proof (cases "n < 10")
    case True
    then show ?thesis by (subst show_nat.simps) simp
  next
    case False
    then have "0 < k" using Suc.prems by (cases k) auto
    moreover have "n div 10 < 10 ^ k" using Suc.prems by (simp add: less_mult_imp_div_less mult.commute)
    ultimately show ?thesis using False Suc.IH by (subst show_nat.simps) simp
  qed
qed simp

lemma read_number_show:
  assumes "rest = [] \<or> \<not> is_digit (hd rest)" and "n < bound"
    and "case m of Some k \<Rightarrow> length (show_nat n) \<le> k | None \<Rightarrow> True"
  shows "read_number 10 m z bound (show_nat n @ rest) = Some (n, rest)"
proof -
  have "hd (show_nat n) \<noteq> CHR ''0'' \<or> length (show_nat n) = 1" using show_nat_zero_prefix by blast
  then show ?thesis
    using assms takeWhile_digits [OF assms(1), of n]
    by (auto simp: read_number_def Let_def split: option.splits)
qed

lemma read_octet_show:
  "rest = [] \<or> \<not> is_digit (hd rest) \<Longrightarrow> read_octet (show_byte b @ rest) = Some (unat b, rest)"
  for b :: u8
proof -
  assume r: "rest = [] \<or> \<not> is_digit (hd rest)"
  have b: "unat b < 256" using unat_below_exp [of b] by simp
  then have "length (show_nat (unat b)) \<le> 3" by (intro length_show_nat) simp_all
  then show ?thesis
    unfolding read_octet_def show_byte_def by (intro read_number_show [OF r b]) simp
qed

lemma no_digit_dot [simp]: "\<not> is_digit CHR ''.''" "\<not> is_digit CHR '':''"
  by (simp_all add: is_digit_def)

lemma read_ipv4_show:
  "rest = [] \<or> \<not> is_digit (hd rest) \<Longrightarrow> read_ipv4 (show_ipv4 a b c d @ rest) = Some ((a, b, c, d), rest)"
  by (simp add: read_ipv4_def show_ipv4_def read_octet_show)

lemma read_port_show: "read_port ('':'' @ show_byte p) = Some (p, [])"
  for p :: u16
proof -
  have "read_number 10 None True 65536 (show_nat (unat p) @ []) = Some (unat p, [])"
    using unat_below_exp [of p] by (intro read_number_show) simp_all
  then show ?thesis by (simp add: read_port_def show_byte_def)
qed

lemma parse_show_socket: "is_v4 a \<Longrightarrow> parse_socket (show_socket a) = Some a"
proof (cases a)
  case (SockV4 a1 b c d p)
  have "read_ipv4 (show_ipv4 a1 b c d @ '':'' @ show_byte p) = Some ((a1, b, c, d), '':'' @ show_byte p)"
    by (rule read_ipv4_show) simp
  then show ?thesis
    using read_port_show [of p]
    by (simp add: SockV4 parse_socket_def read_socket_v4_def)
qed simp

lemma byte_len_digits: "list_all is_digit s \<Longrightarrow> byte_len s = length s"
  by (induction s) (auto simp: len_utf8_def is_digit_def)

lemma parse_show_ipv4: "parse_ipv4 (show_ipv4 a b c d) = Some (a, b, c, d)"
proof -
  have l: "byte_len (show_byte x) \<le> 3" for x :: u8
  proof -
    have "length (show_nat (unat x)) \<le> 3"
      using unat_below_exp [of x] by (intro length_show_nat) simp_all
    moreover have "byte_len (show_nat n) = length (show_nat n)" for n
      using byte_len_digits show_nat_digits by blast
    ultimately show ?thesis by (simp add: show_byte_def)
  qed
  have "byte_len (show_ipv4 a b c d) \<le> 15"
    using l [of a] l [of b] l [of c] l [of d] by (simp add: show_ipv4_def len_utf8_def)
  then show ?thesis using read_ipv4_show [of "[]" a b c d] by (simp add: parse_ipv4_def)
qed

section \<open>IPv6 is read back too\<close>

lemma hex_chars:
  "n < 16 \<Longrightarrow> is_hexdigit (if n < 10 then char_of (48 + n) else char_of (87 + n))"
  "n < 16 \<Longrightarrow> hex_digit_val (if n < 10 then char_of (48 + n) else char_of (87 + n)) = n"
  by (auto simp: is_hexdigit_def is_digit_def hex_digit_val_def)

lemma show_hex_step: "show_hex n = (if n < 16 then [if n < 10 then char_of (48 + n) else char_of (87 + n)]
    else show_hex (n div 16) @ show_hex (n mod 16))"
  by (subst show_hex.simps) simp

lemma show_hex_hexdigits: "list_all is_hexdigit (show_hex n)"
proof (induction n rule: show_hex.induct)
  case (1 n)
  show ?case
  proof (cases "n < 16")
    case True
    then show ?thesis using hex_chars(1) [OF True] by (subst show_hex_step) simp
  next
    case False
    then show ?thesis using 1 by (subst show_hex_step) simp
  qed
qed

lemma show_hex_not_Nil [simp]: "show_hex n \<noteq> []"
  by (induction n rule: show_hex.induct) (subst show_hex_step, auto)

lemma hex_val_snoc: "hex_val (a @ [c]) = 16 * hex_val a + hex_digit_val c"
  by (simp add: hex_val_def)

lemma hex_val_show_hex [simp]: "hex_val (show_hex n) = n"
proof (induction n rule: show_hex.induct)
  case (1 n)
  show ?case
  proof (cases "n < 16")
    case True
    then show ?thesis using hex_chars(2) [OF True] by (subst show_hex_step) (simp add: hex_val_def)
  next
    case False
    have "hex_val (show_hex (n div 16) @ show_hex (n mod 16)) = 16 * (n div 16) + n mod 16"
      using 1 False hex_chars(2) [of "n mod 16"]
      by (subst (2) show_hex_step) (simp add: hex_val_snoc)
    then show ?thesis using False by (subst show_hex_step) simp
  qed
qed

lemma length_show_hex: "n < 16 ^ k \<Longrightarrow> 0 < k \<Longrightarrow> length (show_hex n) \<le> k"
proof (induction k arbitrary: n)
  case (Suc k)
  show ?case
  proof (cases "n < 16")
    case True
    then show ?thesis by (subst show_hex_step) simp
  next
    case False
    then have "0 < k" using Suc.prems by (cases k) auto
    moreover have "n div 16 < 16 ^ k" using Suc.prems by (simp add: less_mult_imp_div_less mult.commute)
    moreover have "length (show_hex (n mod 16)) = 1" by (subst show_hex_step) simp
    ultimately show ?thesis using False Suc.IH by (subst show_hex_step) simp
  qed
qed simp

lemma takeWhile_hex:
  assumes "rest = [] \<or> \<not> is_hexdigit (hd rest)"
  shows "takeWhile is_hexdigit (show_hex n @ rest) = show_hex n"
    "dropWhile is_hexdigit (show_hex n @ rest) = rest"
  using assms show_hex_hexdigits [of n]
  by (cases rest; auto simp: list_all_iff takeWhile_append2 dropWhile_append2 takeWhile_eq_all_conv)+

lemma read_hex_show:
  assumes "rest = [] \<or> \<not> is_hexdigit (hd rest)" "n < 65536"
  shows "read_number 16 (Some 4) True 65536 (show_hex n @ rest) = Some (n, rest)"
  using takeWhile_hex [OF assms(1), of n] assms(2) length_show_hex [of n 4]
  by (simp add: read_number_def Let_def)

lemma colon_chars [simp]: "\<not> is_hexdigit CHR '':''" "\<not> is_digit CHR '':''" "\<not> is_hexdigit CHR ''.''"
  by (simp_all add: is_hexdigit_def is_digit_def)

lemma read_octet_rest: "read_octet s = Some (n, s') \<Longrightarrow> s' = dropWhile is_digit s"
  by (auto simp: read_octet_def read_number_def Let_def split: if_splits)

lemma read_char_None: "s = [] \<or> hd s \<noteq> c \<Longrightarrow> read_char c s = None"
  by (cases s) auto

lemma no_ipv4_in_hex:
  assumes "rest = [] \<or> hd rest = CHR '':''"
  shows "read_ipv4 (show_hex n @ rest) = None"
proof -
  have "dropWhile is_digit (show_hex n @ rest) = [] \<or> hd (dropWhile is_digit (show_hex n @ rest)) \<noteq> CHR ''.''"
  proof (cases "list_all is_digit (show_hex n)")
    case True
    then have "dropWhile is_digit (show_hex n @ rest) = rest"
      using assms by (cases rest) (auto simp: list_all_iff dropWhile_append2)
    then show ?thesis using assms by auto
  next
    case False
    then obtain c where "c \<in> set (show_hex n)" "\<not> is_digit c" by (auto simp: list_all_iff)
    then have d: "dropWhile is_digit (show_hex n @ rest) = dropWhile is_digit (show_hex n) @ rest"
      "dropWhile is_digit (show_hex n) \<noteq> []"
      by (auto simp: dropWhile_append1 dropWhile_eq_Nil_conv)
    then have "hd (dropWhile is_digit (show_hex n)) \<in> set (show_hex n)"
      by (meson hd_in_set set_dropWhileD)
    with show_hex_hexdigits [of n] d show ?thesis
      by (auto simp: list_all_iff)
  qed
  then have "read_char CHR ''.'' s' = None" if "read_octet (show_hex n @ rest) = Some (k, s')" for k s'
    using read_octet_rest [OF that] read_char_None by metis
  then show ?thesis
    by (cases "read_octet (show_hex n @ rest)") (auto simp: read_ipv4_def)
qed

lemma nothing_to_read:
  assumes "rest = [] \<or> (\<exists>t. rest = '':'' @ '':'' @ t)"
  shows "read_sep i read_ipv4 rest = None" "read_sep i (read_number 16 (Some 4) True 65536) rest = None"
  using assms
  by (auto simp: read_sep_def read_ipv4_def read_octet_def read_number_def Let_def)

lemma read_groups_none:
  "rest = [] \<or> (\<exists>t. rest = '':'' @ '':'' @ t) \<Longrightarrow> read_groups limit k rest = ([], False, rest)"
  using nothing_to_read [of rest "limit - k"] by (cases k) (simp_all add: Let_def)

definition sep_at :: "nat \<Rightarrow> string" where
  "sep_at i = (if i > 0 then '':'' else [])"

lemma read_sep_at: "read_sep i r (sep_at i @ s) = r s"
  by (simp add: read_sep_def sep_at_def)

lemma show_groups_simps [simp]:
  "show_groups [] = []" "show_groups [g] = show_hex (unat g)"
  "show_groups (g # h # gs) = show_hex (unat g) @ '':'' @ show_groups (h # gs)"
  by (simp_all add: show_groups_def)

lemma read_groups_show:
  assumes "xs \<noteq> []" "length xs \<le> k" "k \<le> limit"
    "length xs = k \<and> (rest = [] \<or> hd rest = CHR '':'') \<or> rest = [] \<or> (\<exists>t. rest = '':'' @ '':'' @ t)"
  shows "read_groups limit k (sep_at (limit - k) @ show_groups xs @ rest) = (xs, False, rest)"
  using assms
proof (induction xs arbitrary: k)
  case (Cons x xs)
  from Cons.prems obtain k' where k: "k = Suc k'" by (cases k) auto
  let ?i = "limit - Suc k'"
  define more where "more = (case xs of [] \<Rightarrow> rest | _ \<Rightarrow> '':'' @ show_groups xs @ rest)"
  have shown: "show_groups (x # xs) @ rest = show_hex (unat x) @ more"
    by (cases xs) (simp_all add: more_def)
  have colon: "more = [] \<or> hd more = CHR '':''"
    using Cons.prems(4) by (cases xs) (auto simp: more_def)
  have x: "unat x < 65536" using unat_below_exp [of x] by simp
  have nohex: "more = [] \<or> \<not> is_hexdigit (hd more)" using colon by auto
  have hex: "read_sep ?i (read_number 16 (Some 4) True 65536) (sep_at ?i @ show_hex (unat x) @ more) = Some (unat x, more)"
    unfolding read_sep_at by (rule read_hex_show [OF nohex x])
  have v4: "read_sep ?i read_ipv4 (sep_at ?i @ show_hex (unat x) @ more) = None"
    unfolding read_sep_at by (rule no_ipv4_in_hex [OF colon])
  have rest: "read_groups limit k' more = (xs, False, rest)"
  proof (cases xs)
    case Nil
    have "k' = 0 \<or> rest = [] \<or> (\<exists>t. rest = '':'' @ '':'' @ t)" using Cons.prems(4) Nil k by auto
    then show ?thesis using read_groups_none [of rest limit k'] Nil by (auto simp: more_def)
  next
    case (Cons y ys)
    then have "sep_at (limit - k') = '':''" using Cons.prems k by (simp add: sep_at_def)
    moreover have "read_groups limit k' (sep_at (limit - k') @ show_groups xs @ rest) = (xs, False, rest)"
      using Cons Cons.prems k by (intro Cons.IH) auto
    ultimately show ?thesis by (simp add: more_def Cons)
  qed
  show ?case
    using hex v4 rest by (simp add: k shown Let_def)
qed simp

text \<open>The run that is left out is a run of zeros inside the address.\<close>

definition zeros_at :: "u16 list \<Rightarrow> nat \<times> nat \<Rightarrow> bool" where
  "zeros_at gs run \<longleftrightarrow> fst run + snd run \<le> length gs \<and>
    take (snd run) (drop (fst run) gs) = replicate (snd run) 0"

lemma zeros_at_append: "zeros_at gs run \<Longrightarrow> zeros_at (gs @ more) run"
  by (auto simp: zeros_at_def)

lemma zeros_at_extend:
  assumes "zeros_at gs (a, m)" "a + m = length gs"
  shows "zeros_at (gs @ [0]) (a, Suc m)"
proof -
  have "drop a gs = replicate m 0" using assms by (simp add: zeros_at_def)
  then show ?thesis using assms(2) by (simp add: zeros_at_def replicate_append_same)
qed

lemma zero_runs_zeros:
  assumes "zeros_at done best" "snd cur = 0 \<or> zeros_at done cur \<and> fst cur + snd cur = length done"
  shows "zeros_at (done @ gs) (zero_runs (length done) cur best gs)"
  using assms
proof (induction gs arbitrary: "done" cur best)
  case (Cons g gs)
  show ?case
  proof (cases "g = 0")
    case True
    define cur' where "cur' = (if snd cur = 0 then (length done, 1) else (fst cur, snd cur + 1))"
    have cur': "zeros_at (done @ [0]) cur'" "fst cur' + snd cur' = length (done @ [0])"
      using Cons.prems(2) zeros_at_extend [of "done" "fst cur" "snd cur"]
      by (auto simp: cur'_def zeros_at_def)
    have "zeros_at ((done @ [0]) @ gs) (zero_runs (length (done @ [0])) cur'
        (if snd cur' > snd best then cur' else best) gs)"
      using cur' zeros_at_append [OF Cons.prems(1)] by (intro Cons.IH) auto
    then show ?thesis using True by (simp add: cur'_def Let_def split: if_splits)
  next
    case False
    have "zeros_at ((done @ [g]) @ gs) (zero_runs (length (done @ [g])) (0, 0) best gs)"
      by (intro Cons.IH zeros_at_append Cons.prems(1)) simp
    then show ?thesis using False by simp
  qed
qed simp

lemma octets_of_group: "ucast (ucast (drop_bit 8 g) :: u8) * 256 + ucast (ucast g :: u8) = (g :: u16)"
proof -
  have "unat g < 65536" using unat_below_exp [of g] by simp
  then have d: "unat g div 256 < 256" by (simp add: less_mult_imp_div_less)
  have "unat (ucast (ucast (drop_bit 8 g) :: u8) * 256 + ucast (ucast g :: u8) :: u16) = unat g"
    using d by (simp add: unat_word_ariths unsigned_ucast_eq unsigned_take_bit_eq take_bit_eq_mod unat_drop_bit_eq drop_bit_eq_div unat_div)
  then show ?thesis by simp
qed

lemma sep_at_0 [simp]: "sep_at 0 = []"
  by (simp add: sep_at_def)

lemma show_ipv4_head: "\<exists>c s. show_ipv4 a b c' d = c # s \<and> is_digit c"
proof -
  obtain c s where c: "show_nat (unat a) = c # s" by (cases "show_nat (unat a)") auto
  then have "is_digit c" using show_nat_chars [of c "unat a"] by simp
  with c show ?thesis by (auto simp: show_ipv4_def show_byte_def)
qed

lemma read_mapped:
  "read_groups 7 7 (''ffff:'' @ show_ipv4 a b c d) =
    ([0xFFFF, ucast a * 256 + ucast b, ucast c * 256 + ucast d], True, [])"
proof -
  have ff: "''ffff'' = show_hex (unat (0xFFFF :: u16))" by (simp add: show_hex.simps) code_simp
  have cat: "''ffff:'' @ s = show_hex (unat (0xFFFF :: u16)) @ '':'' @ s" for s
    unfolding ff [symmetric] by simp
  have one: "read_ipv4 (''ffff:'' @ show_ipv4 a b c d) = None"
    using no_ipv4_in_hex [of "'':'' @ show_ipv4 a b c d" "unat (0xFFFF :: u16)"] unfolding cat by simp
  have two: "read_number 16 (Some 4) True 65536 (''ffff:'' @ show_ipv4 a b c d) =
      Some (0xFFFF, '':'' @ show_ipv4 a b c d)"
    using read_hex_show [of "'':'' @ show_ipv4 a b c d" "unat (0xFFFF :: u16)"] unfolding cat by simp
  have three: "read_sep 1 read_ipv4 ('':'' @ show_ipv4 a b c d) = Some ((a, b, c, d), [])"
    using read_ipv4_show [of "[]" a b c d] by (simp add: read_sep_def)
  have "read_groups 7 (Suc 5) ('':'' @ show_ipv4 a b c d) =
      ([ucast a * 256 + ucast b, ucast c * 256 + ucast d], True, [])"
    unfolding read_groups.simps using three by simp
  then have "read_groups 7 (Suc 6) (''ffff:'' @ show_ipv4 a b c d) =
      ([0xFFFF, ucast a * 256 + ucast b, ucast c * 256 + ucast d], True, [])"
    unfolding read_groups.simps(2) [of 7 6] using one two by (simp add: read_sep_def)
  then show ?thesis by simp
qed

lemma read_ipv6_gap:
  assumes "length xs + length ys < 7"
  shows "read_ipv6 (show_groups xs @ ''::'' @ show_groups ys) =
    Some (xs @ replicate (8 - length xs - length ys) 0 @ ys, [])"
proof -
  let ?rest = "'':'' @ '':'' @ show_groups ys"
  have head: "read_groups 8 8 (show_groups xs @ ?rest) = (xs, False, ?rest)"
    using read_groups_show [of xs 8 8 ?rest] read_groups_none [of ?rest 8 8] assms by (cases "xs = []") auto
  have tail: "read_groups (7 - length xs) (7 - length xs) (show_groups ys) = (ys, False, [])"
    using read_groups_show [of ys "7 - length xs" "7 - length xs" "[]"]
      read_groups_none [of "[]" "7 - length xs" "7 - length xs"] assms
    by (cases "ys = []") auto
  from head tail show ?thesis using assms by (simp add: read_ipv6_def)
qed

lemma parse_show_ipv6:
  assumes "length gs = 8"
  shows "parse_ipv6 (show_ipv6 gs) = Some gs"
proof (cases "take 5 gs = [0, 0, 0, 0, 0] \<and> gs ! 5 = 0xFFFF")
  case True
  from assms obtain g0 g1 g2 g3 g4 g5 g6 g7 where gs: "gs = [g0, g1, g2, g3, g4, g5, g6, g7]"
    by (auto simp: numeral_eq_Suc length_Suc_conv)
  let ?v4 = "show_ipv4 (ucast (drop_bit 8 g6)) (ucast g6) (ucast (drop_bit 8 g7)) (ucast g7)"
  have "read_groups 8 8 (''::ffff:'' @ ?v4) = ([], False, ''::ffff:'' @ ?v4)"
    by (rule read_groups_none) simp
  moreover have "read_groups 7 7 (''ffff:'' @ ?v4) = ([0xFFFF, g6, g7], True, [])"
    by (simp only: read_mapped octets_of_group)
  ultimately show ?thesis
    using True by (simp add: gs show_ipv6_def parse_ipv6_def read_ipv6_def numeral_eq_Suc)
next
  case False
  obtain a n where run: "zero_runs 0 (0, 0) (0, 0) gs = (a, n)" by fastforce
  have z: "a + n \<le> 8" "take n (drop a gs) = replicate n 0"
    using zero_runs_zeros [of "[]" "(0, 0)" "(0, 0)" gs] run assms by (auto simp: zeros_at_def)
  show ?thesis
  proof (cases "n > 1")
    case True
    have "gs = take a gs @ replicate n 0 @ drop (a + n) gs"
      by (metis z(2) append_take_drop_id drop_drop add.commute)
    then show ?thesis
      using read_ipv6_gap [of "take a gs" "drop (a + n) gs"] z False True run assms
      by (auto simp: show_ipv6_def parse_ipv6_def)
  next
    case n: False
    have "read_groups 8 8 (show_groups gs) = (gs, False, [])"
      using read_groups_show [of gs 8 8 "[]"] assms by (cases "gs = []") auto
    moreover have "show_ipv6 gs = show_groups gs"
      using n run unfolding show_ipv6_def if_not_P [OF False] by simp
    ultimately show ?thesis using assms by (simp add: parse_ipv6_def read_ipv6_def)
  qed
qed

end
