(* ===== verification/Edge.thy ===== *)
theory Edge
  imports Names Addresses "HOL-Library.Multiset"
begin

text \<open>
  The edge: which hostname goes where (src/src/infra/edge/routes.rs) and which upstreams are
  answering (infra/edge/health.rs). The \<open>route\<close> rows are a table keyed by hostname; the
  in-memory table maps a normalised hostname to its upstream; health is one record per
  address. What a probe answers is an argument of the sweep. The lemmas show what a name
  resolves to after a write, that no pruning pass locks the operator out, that traffic is
  spread evenly over the replicas that answer, and what a verdict on a replica means.
\<close>

section \<open>Health\<close>

definition FAILURES_TO_EVICT :: u32 where
  "FAILURES_TO_EVICT = 2"

record health_record =
  failures :: u32
  failing_since :: "int option"

definition health_default :: health_record where
  "health_default = \<lparr>failures = 0, failing_since = None\<rparr>"

definition record_up :: "health_record \<Rightarrow> bool" where
  "record_up r \<longleftrightarrow> failures r < FAILURES_TO_EVICT"

type_synonym health = "(socket_addr, health_record) table"

definition is_up :: "health \<Rightarrow> socket_addr \<Rightarrow> bool" where
  "is_up seen a = (case map_of seen a of None \<Rightarrow> True | Some r \<Rightarrow> record_up r)"

definition observed :: "socket_addr \<Rightarrow> bool \<Rightarrow> int \<Rightarrow> health \<Rightarrow> health" where
  "observed a answered at seen =
    (let r = (case map_of seen a of Some r \<Rightarrow> r | None \<Rightarrow> health_default);
         r = (if answered then health_default
              else \<lparr>failures = sat_add (failures r) 1,
                    failing_since = (case failing_since r of Some t \<Rightarrow> Some t | None \<Rightarrow> Some at)\<rparr>)
     in AList.update a r seen)"

definition down :: "health \<Rightarrow> (socket_addr \<times> int option) list" where
  "down seen =
    sort_key fst (map (\<lambda>(a, r). (a, failing_since r)) (filter (\<lambda>(a, r). \<not> record_up r) seen))"

definition health_retain :: "socket_addr list \<Rightarrow> health \<Rightarrow> health" where
  "health_retain live seen = delete_where (\<lambda>a _. a \<notin> set live) seen"

section \<open>The route table\<close>

datatype upstream =
    ControlPlane
  | Proxy "socket_addr list"
  | Tenant string
  | Registry string
  | Redirect string

fun pick :: "upstream \<Rightarrow> u64 \<Rightarrow> socket_addr option" where
  "pick (Proxy addresses) turn =
    (if addresses = [] then None else Some (addresses ! (unat turn mod length addresses)))"
| "pick _ turn = None"

fun pick_live :: "upstream \<Rightarrow> u64 \<Rightarrow> health \<Rightarrow> socket_addr option" where
  "pick_live (Proxy addresses) turn seen =
    (let live = filter (is_up seen) addresses in
     if live = [] then pick (Proxy addresses) turn
     else Some (live ! (unat turn mod length live)))"
| "pick_live _ turn seen = None"

record route_table =
  by_host :: "(string, upstream) table"
  turn :: u64
  table_health :: health

definition route_table_new :: route_table where
  "route_table_new = \<lparr>by_host = [], turn = 0, table_health = []\<rparr>"

text \<open>Lowercase, no port, no trailing dot; a bracketed literal keeps its colons.\<close>

definition normalize :: "string \<Rightarrow> string" where
  "normalize host =
    (let host = trim host;
         without_port =
           (if starts_with ''['' host \<and> CHR '']'' \<in> set host then
              (let literal = takeWhile (\<lambda>c. c \<noteq> CHR '']'') host @ '']'';
                   rest = drop (length literal) host
               in if starts_with '':'' rest then literal else host)
            else (case rsplit_once CHR '':'' host of
                    Some (name, port) \<Rightarrow> if list_all is_digit port then name else host
                  | None \<Rightarrow> host))
     in lowercase (trim_end_matches (\<lambda>c. c = CHR ''.'') without_port))"

definition upstreams :: "route_table \<Rightarrow> socket_addr list" where
  "upstreams t =
    remdups_adj (sort (concat (List.map_filter
      (\<lambda>(_, u). case u of Proxy addresses \<Rightarrow> Some addresses | _ \<Rightarrow> None) (by_host t))))"

definition next_upstream :: "upstream \<Rightarrow> route_table \<Rightarrow> socket_addr option \<times> route_table" where
  "next_upstream u t = (pick_live u (turn t) (table_health t), t\<lparr>turn := turn t + 1\<rparr>)"

definition resolve :: "route_table \<Rightarrow> string \<Rightarrow> upstream option" where
  "resolve t host = map_of (by_host t) (normalize host)"

definition route_replace :: "(string \<times> upstream) list \<Rightarrow> route_table \<Rightarrow> route_table" where
  "route_replace routes t =
    t\<lparr>by_host := fold (\<lambda>(host, u). AList.update (normalize host) u) routes []\<rparr>"

definition route_hosts :: "route_table \<Rightarrow> string list" where
  "route_hosts t = sort (map fst (by_host t))"

text \<open>One sweep: forget what is no longer an upstream, ask every upstream, record the answers.\<close>

definition sweep :: "(socket_addr \<Rightarrow> bool) \<Rightarrow> int \<Rightarrow> route_table \<Rightarrow> nat \<times> route_table" where
  "sweep probe at t =
    (let addresses = upstreams t;
         seen = health_retain addresses (table_health t);
         seen = fold (\<lambda>a. observed a (probe a) at) addresses seen
     in (length (down seen), t\<lparr>table_health := seen\<rparr>))"

section \<open>The rows\<close>

record route_row =
  upstream_kind :: string
  upstream_addr :: "string option"
  route_service :: "string option"
  enabled :: bool
  updated_at :: int

type_synonym route_rows = "(string, route_row) table"

definition FALLBACK_NAME :: string where
  "FALLBACK_NAME = ''localhost''"

text \<open>The passes delete, one by one, the hosts of their selection that are not kept.\<close>

definition prune_hosts :: "(route_row \<Rightarrow> bool) \<Rightarrow> string list \<Rightarrow> route_rows \<Rightarrow> nat \<times> route_rows" where
  "prune_hosts selected keep rows =
    (let hosts = map fst (filter (\<lambda>(_, r). selected r) rows);
         gone = filter (\<lambda>host. host \<notin> set keep) hosts
     in (length gone, delete_where (\<lambda>host _. host \<in> set gone) rows))"

definition is_control_plane :: "route_row \<Rightarrow> bool" where
  "is_control_plane r \<longleftrightarrow> upstream_kind r = ''control_plane''"

definition retain_control_plane :: "string list \<Rightarrow> route_rows \<Rightarrow> nat \<times> route_rows" where
  "retain_control_plane keep rows =
    prune_hosts is_control_plane (map normalize keep @ [normalize FALLBACK_NAME]) rows"

definition retain_proxies :: "string list \<Rightarrow> route_rows \<Rightarrow> nat \<times> route_rows" where
  "retain_proxies keep rows =
    prune_hosts (\<lambda>r. upstream_kind r = ''proxy'' \<and> route_service r \<noteq> None) (map normalize keep) rows"

definition retain_redirects :: "string list \<Rightarrow> route_rows \<Rightarrow> nat \<times> route_rows" where
  "retain_redirects keep rows =
    prune_hosts (\<lambda>r. upstream_kind r = ''redirect'' \<and> route_service r \<noteq> None) (map normalize keep) rows"

definition retain_kind :: "string \<Rightarrow> string list \<Rightarrow> route_rows \<Rightarrow> nat \<times> route_rows" where
  "retain_kind k keep rows = prune_hosts (\<lambda>r. upstream_kind r = k) (map normalize keep) rows"

definition retain_tenants :: "string list \<Rightarrow> route_rows \<Rightarrow> nat \<times> route_rows" where
  "retain_tenants keep rows = retain_kind ''tenant'' keep rows"

definition retain_registries :: "string list \<Rightarrow> route_rows \<Rightarrow> nat \<times> route_rows" where
  "retain_registries keep rows = retain_kind ''registry'' keep rows"

definition forget_for_other :: "string \<Rightarrow> route_rows \<Rightarrow> route_rows" where
  "forget_for_other host rows =
    delete_where (\<lambda>h r. h = normalize host \<and> upstream_kind r \<in> {''proxy'', ''redirect''} \<and>
      route_service r = None) rows"

definition forget_control_plane :: "string \<Rightarrow> route_rows \<Rightarrow> route_rows" where
  "forget_control_plane host rows =
    (if normalize host = FALLBACK_NAME then rows
     else delete_where (\<lambda>h r. h = normalize host \<and> is_control_plane r) rows)"

definition decode_route :: "string \<Rightarrow> string \<Rightarrow> string option \<Rightarrow> (string \<times> upstream) option" where
  "decode_route host k addr =
    (if k = ''control_plane'' then Some (host, ControlPlane)
     else if k = ''tenant'' then map_option (\<lambda>i. (host, Tenant i)) addr
     else if k = ''registry'' then map_option (\<lambda>i. (host, Registry i)) addr
     else if k = ''redirect'' then map_option (\<lambda>target. (host, Redirect target)) addr
     else if k = ''proxy'' then
       (let addresses = List.map_filter parse_socket
              (filter (\<lambda>part. part \<noteq> []) (split_on CHR '','' (case addr of Some a \<Rightarrow> a | None \<Rightarrow> [])))
        in if addresses = [] then None else Some (host, Proxy addresses))
     else None)"

definition load_all :: "route_rows \<Rightarrow> (string \<times> upstream) list" where
  "load_all rows =
    List.map_filter (\<lambda>(host, r). decode_route host (upstream_kind r) (upstream_addr r))
      (sort_key fst (filter (\<lambda>(_, r). enabled r) rows))"

fun encode_upstream :: "upstream \<Rightarrow> string \<times> string option" where
  "encode_upstream ControlPlane = (''control_plane'', None)"
| "encode_upstream (Tenant i) = (''tenant'', Some i)"
| "encode_upstream (Registry i) = (''registry'', Some i)"
| "encode_upstream (Redirect target) = (''redirect'', Some target)"
| "encode_upstream (Proxy addresses) = (''proxy'', Some (join_with '','' (map show_socket addresses)))"

definition route_upsert :: "int \<Rightarrow> string \<Rightarrow> upstream \<Rightarrow> string option \<Rightarrow> route_rows \<Rightarrow> route_rows" where
  "route_upsert now host u service rows =
    AList.update (normalize host)
      \<lparr>upstream_kind = fst (encode_upstream u), upstream_addr = snd (encode_upstream u),
       route_service = service, enabled = True, updated_at = now\<rparr> rows"

section \<open>Writing and pruning rows\<close>

definition encode_row :: "upstream \<times> string option \<times> int \<Rightarrow> route_row" where
  "encode_row w = (case w of (u, service, now) \<Rightarrow>
    \<lparr>upstream_kind = fst (encode_upstream u), upstream_addr = snd (encode_upstream u),
     route_service = service, enabled = True, updated_at = now\<rparr>)"

interpretation route_row: upsert_table normalize "\<lambda>h r rows. AList.update (normalize h) r rows" map_of
  by unfold_locales (simp add: row_simps)

lemma route_upsert_put:
  "route_upsert now host u service rows = AList.update (normalize host) (encode_row (u, service, now)) rows"
  by (simp add: route_upsert_def encode_row_def)

text \<open>
  What the passes promise: they touch the rows of their selection only, and of these they
  take exactly the hosts that are not to be kept.
\<close>

locale row_pruner =
  fixes selected :: "route_row \<Rightarrow> bool"
    and kept :: "'k \<Rightarrow> string set"
    and prune :: "'k \<Rightarrow> route_rows \<Rightarrow> route_rows"
  assumes map_of_prune: "well_keyed rows \<Longrightarrow> map_of (prune keep rows) h =
      (case map_of rows h of
         None \<Rightarrow> None | Some r \<Rightarrow> if selected r \<and> h \<notin> kept keep then None else Some r)"
    and well_keyed_prune: "well_keyed rows \<Longrightarrow> well_keyed (prune keep rows)"
begin

lemma prune_keeps: "well_keyed rows \<Longrightarrow> map_of rows h = Some r \<Longrightarrow> \<not> selected r \<or> h \<in> kept keep
    \<Longrightarrow> map_of (prune keep rows) h = Some r"
  by (auto simp: map_of_prune)

lemma prune_invents_nothing: "well_keyed rows \<Longrightarrow> map_of (prune keep rows) h = Some r \<Longrightarrow> map_of rows h = Some r"
  by (auto simp: map_of_prune split: option.splits if_splits)

lemma prune_twice: "well_keyed rows \<Longrightarrow> map_of (prune keep (prune keep rows)) = map_of (prune keep rows)"
  by (rule ext) (auto simp: map_of_prune well_keyed_prune split: option.splits)

end

lemma prune_hosts_rows:
  assumes "well_keyed rows"
  shows "map_of (snd (prune_hosts P keep rows)) h =
    (case map_of rows h of None \<Rightarrow> None | Some r \<Rightarrow> if P r \<and> h \<notin> set keep then None else Some r)"
proof -
  have "h \<in> fst ` {x \<in> set rows. case x of (_, r) \<Rightarrow> P r} \<longleftrightarrow> P r" if "map_of rows h = Some r" for r
  proof -
    have "(h, r) \<in> set rows" using that by (rule map_of_SomeD)
    then show ?thesis using assms by (force simp: image_iff dest: eq_key_imp_eq_value)
  qed
  then show ?thesis
    using assms by (auto simp: prune_hosts_def Let_def row_simps split: option.splits)
qed

lemma well_keyed_prune_hosts: "well_keyed rows \<Longrightarrow> well_keyed (snd (prune_hosts P keep rows))"
  by (simp add: prune_hosts_def Let_def)

lemmas prune_hosts_facts = prune_hosts_rows well_keyed_prune_hosts

interpretation control_plane: row_pruner is_control_plane
  "\<lambda>keep. set (map normalize keep @ [normalize FALLBACK_NAME])" "\<lambda>keep rows. snd (retain_control_plane keep rows)"
  by unfold_locales (simp_all only: retain_control_plane_def prune_hosts_facts)

interpretation proxies: row_pruner "\<lambda>r. upstream_kind r = ''proxy'' \<and> route_service r \<noteq> None"
  "\<lambda>keep. set (map normalize keep)" "\<lambda>keep rows. snd (retain_proxies keep rows)"
  by unfold_locales (simp_all only: retain_proxies_def prune_hosts_facts)

interpretation redirects: row_pruner "\<lambda>r. upstream_kind r = ''redirect'' \<and> route_service r \<noteq> None"
  "\<lambda>keep. set (map normalize keep)" "\<lambda>keep rows. snd (retain_redirects keep rows)"
  by unfold_locales (simp_all only: retain_redirects_def prune_hosts_facts)

interpretation tenants: row_pruner "\<lambda>r. upstream_kind r = ''tenant''"
  "\<lambda>keep. set (map normalize keep)" "\<lambda>keep rows. snd (retain_tenants keep rows)"
  by unfold_locales (simp_all only: retain_tenants_def retain_kind_def prune_hosts_facts)

interpretation registries: row_pruner "\<lambda>r. upstream_kind r = ''registry''"
  "\<lambda>keep. set (map normalize keep)" "\<lambda>keep rows. snd (retain_registries keep rows)"
  by unfold_locales (simp_all only: retain_registries_def retain_kind_def prune_hosts_facts)

interpretation for_other: row_pruner
  "\<lambda>r. upstream_kind r \<in> {''proxy'', ''redirect''} \<and> route_service r = None"
  "\<lambda>host. - {normalize host}" forget_for_other
  by unfold_locales (auto simp: forget_for_other_def row_simps split: option.splits)

interpretation forgotten_console: row_pruner is_control_plane
  "\<lambda>host. if normalize host = FALLBACK_NAME then UNIV else - {normalize host}" forget_control_plane
  by unfold_locales (auto simp: forget_control_plane_def row_simps split: option.splits)

section \<open>Normal forms\<close>

lemma normalize_FALLBACK [simp]: "normalize FALLBACK_NAME = FALLBACK_NAME"
  by code_simp

text \<open>A host name as the console stores it: no blank, no colon, no bracket, no final dot.\<close>

definition plain_host :: "string \<Rightarrow> bool" where
  "plain_host h \<longleftrightarrow> h \<noteq> [] \<and> list_all zone_char h \<and> last h \<noteq> CHR ''.''"

lemma zone_parse_plain: "zone_parse t = Inr z \<Longrightarrow> plain_host z"
  using zone_parse_chars [of t z] settled_zone [of t z] zone_parse_not_Nil [of t z]
  by (simp add: plain_host_def settled_def)

lemma plain_host_no_colon: "plain_host h \<Longrightarrow> CHR '':'' \<notin> set h"
  by (auto simp: plain_host_def list_all_iff dest: zone_char_plain)

lemma zone_char_bracket: "\<not> zone_char CHR ''[''"
  by (simp add: zone_char_def is_lower_def is_digit_def)

lemma zone_char_cased:
  "zone_char (to_lower c) \<Longrightarrow> \<not> is_whitespace c \<and> c \<noteq> CHR '':'' \<and> c \<noteq> CHR ''[''"
  by (auto simp: zone_char_def to_lower_def char_class_defs split: if_splits)

lemma lowercase_last: "s \<noteq> [] \<Longrightarrow> last (lowercase s) = to_lower (last s)"
  by (simp add: lowercase_def last_map)

lemma to_lower_dot: "to_lower c = CHR ''.'' \<longleftrightarrow> c = CHR ''.''"
proof
  assume "to_lower c = CHR ''.''"
  moreover have "\<not> is_upper c"
  proof
    assume u: "is_upper c"
    then have "code_of (to_lower c) = (code_of c + 32 :: nat)" by (simp add: code_of_to_lower)
    moreover have "code_of CHR ''.'' = (46 :: nat)" by simp
    ultimately show False using \<open>to_lower c = CHR ''.''\<close> u by (simp add: is_upper_def)
  qed
  ultimately show "c = CHR ''.''" by simp
qed (simp add: to_lower_def is_upper_def)

text \<open>A client's spellings of a host: any case, a final dot, a port, blanks around it.\<close>

lemma normalize_spelling:
  assumes plain: "plain_host h" and case_of: "lowercase s = h"
    and dots: "list_all (\<lambda>c. c = CHR ''.'') dots" and ports: "list_all is_digit ports"
    and port: "port = [] \<or> port = '':'' @ ports"
  shows "normalize (s @ dots @ port) = h"
proof -
  have s: "s \<noteq> []" "list_all (\<lambda>c. \<not> is_whitespace c \<and> c \<noteq> CHR '':'' \<and> c \<noteq> CHR ''['') s"
  proof -
    show "s \<noteq> []" using plain case_of by (auto simp: plain_host_def)
    have "zone_char (to_lower c)" if "c \<in> set s" for c
      using plain case_of that by (auto simp: plain_host_def lowercase_def list_all_iff)
    then show "list_all (\<lambda>c. \<not> is_whitespace c \<and> c \<noteq> CHR '':'' \<and> c \<noteq> CHR ''['') s"
      unfolding list_all_iff using zone_char_cased by blast
  qed
  let ?b = "s @ dots"
  have b: "list_all (\<lambda>c. \<not> is_whitespace c \<and> c \<noteq> CHR '':'' \<and> c \<noteq> CHR ''['') ?b"
  proof -
    have "\<not> is_whitespace CHR ''.''" by (simp add: is_whitespace_def)
    then have "list_all (\<lambda>c. \<not> is_whitespace c \<and> c \<noteq> CHR '':'' \<and> c \<noteq> CHR ''['') dots"
      using dots by (induction dots) auto
    then show ?thesis using s(2) by simp
  qed
  have digits: "\<not> is_whitespace c" if "c \<in> set ports" for c
    using ports that by (auto simp: list_all_iff is_digit_def is_whitespace_def)
  have host: "trim (s @ dots @ port) = ?b @ port"
  proof -
    have bw: "\<not> is_whitespace c" if "c \<in> set ?b" for c using that b unfolding list_all_iff by blast
    have "\<not> is_whitespace CHR '':''" by (simp add: is_whitespace_def)
    then have pw: "\<not> is_whitespace c" if "c \<in> set port" for c using that port digits by auto
    have all: "\<not> is_whitespace c" if "c \<in> set (?b @ port)" for c
      using that bw pw unfolding set_append by blast
    then have "trim (?b @ port) = ?b @ port" by (intro trim_plain) (simp only: list_all_iff Ball_def, blast)
    then show ?thesis by simp
  qed
  have "\<not> starts_with ''['' (?b @ port)"
    using s by (cases s) (auto simp: starts_with_iff)
  moreover have "(case rsplit_once CHR '':'' (?b @ port) of
       Some (name, p) \<Rightarrow> if list_all is_digit p then name else ?b @ port | None \<Rightarrow> ?b @ port) = ?b"
    using port
  proof
    assume "port = []"
    moreover have "CHR '':'' \<notin> set ?b" using b by (auto simp: list_all_iff)
    then have "rsplit_once CHR '':'' ?b = None" by (simp only: rsplit_once_None_iff not_False_eq_True)
    ultimately show ?thesis by simp
  next
    assume p: "port = '':'' @ ports"
    have "CHR '':'' \<notin> set ports" using ports by (auto simp: list_all_iff is_digit_def)
    then have "rsplit_once CHR '':'' (?b @ port) = Some (?b, ports)"
      using rsplit_once_append [of "CHR '':''" ports ?b] p by simp
    then show ?thesis using ports by simp
  qed
  moreover have "trim_end_matches (\<lambda>c. c = CHR ''.'') ?b = s"
  proof -
    have "last s \<noteq> CHR ''.''"
      using plain case_of s(1) lowercase_last [OF s(1)] to_lower_dot by (auto simp: plain_host_def)
    moreover have "dropWhile (\<lambda>c. c = CHR ''.'') (rev dots @ rev s) = dropWhile (\<lambda>c. c = CHR ''.'') (rev s)"
      using dots by (intro dropWhile_append2) (auto simp: list_all_iff)
    ultimately show ?thesis
      using trim_end_id [of s "\<lambda>c. c = CHR ''.''"] by (simp add: trim_end_matches_def)
  qed
  ultimately show ?thesis
    using case_of by (simp only: normalize_def Let_def host simp_thms if_False)
qed

lemma normalize_plain: "plain_host h \<Longrightarrow> normalize h = h"
proof -
  assume p: "plain_host h"
  then have "lowercase h = h"
    by (intro lowercase_id) (auto simp: plain_host_def list_all_iff dest: zone_char_plain)
  with normalize_spelling [OF p this, of "[]" "[]" "[]"] show ?thesis by simp
qed

section \<open>From the row to the answer\<close>

fun readable_upstream :: "upstream \<Rightarrow> bool" where
  "readable_upstream (Proxy addresses) \<longleftrightarrow> addresses \<noteq> [] \<and> list_all is_v4 addresses"
| "readable_upstream _ \<longleftrightarrow> True"

lemma show_v4_chars: "is_v4 a \<Longrightarrow> CHR '','' \<notin> set (show_socket a) \<and> show_socket a \<noteq> []"
proof (cases a)
  case (SockV4 a1 b c d p)
  have "CHR '','' \<notin> set (show_nat n)" for n
    using show_nat_chars [of "CHR '',''" n] by (auto simp: is_digit_def)
  then show ?thesis by (simp add: SockV4 show_ipv4_def show_byte_def)
qed simp

lemma decode_encode:
  assumes "readable_upstream u"
  shows "decode_route host (fst (encode_upstream u)) (snd (encode_upstream u)) = Some (host, u)"
proof (cases u)
  case (Proxy addresses)
  then have v4: "addresses \<noteq> []" "list_all is_v4 addresses" using assms by auto
  then have "split_on CHR '','' (join_with '','' (map show_socket addresses)) = map show_socket addresses"
    by (intro split_join) (auto simp: list_all_iff dest: show_v4_chars)
  moreover have "filter (\<lambda>part. part \<noteq> []) (map show_socket addresses) = map show_socket addresses"
    using v4 by (intro filter_True) (auto simp: list_all_iff dest: show_v4_chars)
  moreover have "List.map_filter parse_socket (map show_socket addresses) = addresses"
    using v4(2) by (induction addresses) (simp_all add: map_filter_simps parse_show_socket)
  ultimately show ?thesis using v4(1) by (simp add: Proxy decode_route_def)
qed (simp_all add: decode_route_def)

lemma decode_route_host: "decode_route host k addr = Some (h, u) \<Longrightarrow> h = host"
  by (auto simp: decode_route_def Let_def split: if_splits)

lemma map_of_map_filter_decode:
  "well_keyed rows \<Longrightarrow>
    map_of (List.map_filter (\<lambda>(host, r). decode_route host (upstream_kind r) (upstream_addr r)) rows) h =
    (case map_of rows h of
       None \<Rightarrow> None | Some r \<Rightarrow> map_option snd (decode_route h (upstream_kind r) (upstream_addr r)))"
proof (induction rows)
  case (Cons x rows)
  obtain host r where x: "x = (host, r)" by (cases x)
  have fresh: "map_of rows host = None" using Cons.prems x by (simp add: map_of_eq_None_iff)
  show ?case
    using Cons fresh x
    by (cases "decode_route host (upstream_kind r) (upstream_addr r)")
      (auto simp: map_filter_simps dest: decode_route_host)
qed simp

lemma map_of_sort_key_fst: "well_keyed t \<Longrightarrow> map_of (sort_key fst t) = map_of t"
  by (intro map_of_inject_set [THEN iffD2]) (simp_all add: distinct_map)

lemma map_of_filter_enabled:
  "well_keyed rows \<Longrightarrow> map_of (filter (\<lambda>(_, r). enabled r) rows) h =
    (case map_of rows h of None \<Rightarrow> None | Some r \<Rightarrow> if enabled r then Some r else None)"
  using map_of_delete_where [of rows "\<lambda>_ r. \<not> enabled r" h]
  by (simp add: delete_where_def split: option.splits)

lemma load_all_rows:
  assumes "well_keyed rows"
  shows "map_of (load_all rows) h =
    (case map_of rows h of None \<Rightarrow> None
     | Some r \<Rightarrow> if enabled r then map_option snd (decode_route h (upstream_kind r) (upstream_addr r)) else None)"
proof -
  have k: "well_keyed (filter (\<lambda>(_, r). enabled r) rows)" using assms by (simp add: distinct_map_filter)
  then have "well_keyed (sort_key fst (filter (\<lambda>(_, r). enabled r) rows))" by (simp add: distinct_map)
  then show ?thesis
    by (simp add: load_all_def map_of_map_filter_decode map_of_sort_key_fst [OF k]
        map_of_filter_enabled [OF assms] split: option.splits)
qed

lemma well_keyed_load_all: "well_keyed rows \<Longrightarrow> well_keyed (load_all rows)"
proof -
  have keys: "map fst (List.map_filter (\<lambda>(host, r). decode_route host (upstream_kind r) (upstream_addr r)) xs) =
      map fst (filter (\<lambda>(host, r). decode_route host (upstream_kind r) (upstream_addr r) \<noteq> None) xs)" for xs
    by (induction xs) (auto simp: map_filter_simps split: option.splits dest: decode_route_host)
  assume "well_keyed rows"
  then have "well_keyed (sort_key fst (filter (\<lambda>(_, r). enabled r) rows))"
    by (simp add: distinct_map distinct_map_filter inj_on_def)
  then show ?thesis unfolding load_all_def keys by (simp add: distinct_map_filter)
qed

text \<open>Where the hosts are normal forms, replacing the table keeps what was loaded.\<close>

lemma replace_resolve:
  assumes "well_keyed routes" and "\<forall>(h, u)\<in>set routes. normalize h = h"
  shows "map_of (by_host (route_replace routes t)) = map_of routes"
proof -
  have "map_of (fold (\<lambda>(host, u). AList.update (normalize host) u) rs acc) h =
      (case map_of rs h of Some u \<Rightarrow> Some u | None \<Rightarrow> map_of acc h)"
    if "well_keyed rs" "\<forall>(h, u)\<in>set rs. normalize h = h" for rs acc h
    using that
  proof (induction rs arbitrary: acc)
    case (Cons x rs)
    obtain host u where x: "x = (host, u)" by (cases x)
    have "map_of rs host = None" using Cons.prems x by (simp add: map_of_eq_None_iff)
    then show ?case using Cons x by (auto simp: row_simps split: option.splits)
  qed simp
  from this [OF assms, of "[]"] show ?thesis
    by (auto simp: route_replace_def fun_eq_iff split: option.splits)
qed

section \<open>Properties\<close>

text \<open>Property C22. A name resolves to what was last written for it, whichever way a client
  spells it: any case, a final dot, a port. Every other name resolves as before.\<close>

theorem upsert_resolves:
  assumes rows: "well_keyed rows" "\<forall>(h, r)\<in>set rows. normalize h = h"
    and host: "plain_host h" and u: "readable_upstream u"
    and spelled: "lowercase s = h" "list_all (\<lambda>c. c = CHR ''.'') dots" "list_all is_digit ports"
      "port \<in> {[], '':'' @ ports}"
  shows "resolve (route_replace (load_all (route_upsert now h u service rows)) t) (s @ dots @ port) = Some u \<and>
    (normalize other = h \<or>
     resolve (route_replace (load_all (route_upsert now h u service rows)) t) other =
     resolve (route_replace (load_all rows) t) other)"
proof -
  let ?rows = "route_upsert now h u service rows"
  have nh: "normalize h = h" by (rule normalize_plain [OF host])
  have wk: "well_keyed ?rows" using rows(1) by (simp add: route_upsert_put)
  have row: "map_of ?rows k = (if k = h then Some (encode_row (u, service, now)) else map_of rows k)" for k
    using route_row.get_put [of h _ rows k] by (simp add: route_upsert_put nh)
  have normal: "\<forall>(h, u)\<in>set (load_all rs). normalize h = h" if "\<forall>(h, r)\<in>set rs. normalize h = h" for rs
    using that by (fastforce simp: load_all_def map_filter_def split: prod.splits dest: decode_route_host)
  have "normalize k = k" if "(k, r) \<in> set ?rows" for k r
  proof (cases "k = h")
    case False
    have "map_of ?rows k = Some r" using wk that by (rule map_of_is_SomeI)
    then have "(k, r) \<in> set rows" using False row by (auto dest: map_of_SomeD)
    then show ?thesis using rows(2) by auto
  qed (simp add: nh)
  then have nrows: "\<forall>(h, r)\<in>set ?rows. normalize h = h" by auto
  note res = replace_resolve [OF well_keyed_load_all [OF wk] normal [OF nrows], of t]
    replace_resolve [OF well_keyed_load_all [OF rows(1)] normal [OF rows(2)], of t]
  have "normalize (s @ dots @ port) = h"
    using spelled(4) by (intro normalize_spelling [OF host spelled(1-3)]) auto
  moreover have "map_of (load_all ?rows) h = Some u"
    using decode_encode [OF u, of h] by (simp add: load_all_rows [OF wk] row encode_row_def)
  moreover have "map_of (load_all ?rows) k = map_of (load_all rows) k" if "k \<noteq> h" for k
    using that by (simp add: load_all_rows [OF wk] load_all_rows [OF rows(1)] row)
  ultimately show ?thesis by (auto simp: resolve_def res)
qed

theorem upsert_resolves_witness:
  "resolve (route_replace (load_all (route_upsert 7 ''app.io'' (Proxy [SockV4 10 42 1 2 8080]) (Some ''svc'') []))
     route_table_new) ''App.IO.:443'' = Some (Proxy [SockV4 10 42 1 2 8080])"
proof -
  have "plain_host ''app.io''" "lowercase ''App.IO'' = ''app.io''" "list_all is_digit ''443''" by code_simp+
  then show ?thesis
    using upsert_resolves [of "[]" "''app.io''" "Proxy [SockV4 10 42 1 2 8080]" "''App.IO''" "''.''" "''443''"
        "'':443''" 7 "Some ''svc''" route_table_new] by simp
qed

text \<open>The passes that take rows away, in whatever order they run.\<close>

datatype prune_pass =
    RetainControlPlane "string list" | RetainProxies "string list" | RetainRedirects "string list"
  | RetainTenants "string list" | RetainRegistries "string list"
  | ForgetForOther string | ForgetControlPlane string

fun run_pass :: "prune_pass \<Rightarrow> route_rows \<Rightarrow> route_rows" where
  "run_pass (RetainControlPlane keep) rows = snd (retain_control_plane keep rows)"
| "run_pass (RetainProxies keep) rows = snd (retain_proxies keep rows)"
| "run_pass (RetainRedirects keep) rows = snd (retain_redirects keep rows)"
| "run_pass (RetainTenants keep) rows = snd (retain_tenants keep rows)"
| "run_pass (RetainRegistries keep) rows = snd (retain_registries keep rows)"
| "run_pass (ForgetForOther host) rows = forget_for_other host rows"
| "run_pass (ForgetControlPlane host) rows = forget_control_plane host rows"

definition errand_row :: "route_row \<Rightarrow> bool" where
  "errand_row r \<longleftrightarrow> upstream_kind r \<in> {''proxy'', ''redirect''} \<and> route_service r = None"

lemma well_keyed_run_pass: "well_keyed rows \<Longrightarrow> well_keyed (run_pass p rows)"
  by (cases p)
    (simp_all add: control_plane.well_keyed_prune proxies.well_keyed_prune redirects.well_keyed_prune
      tenants.well_keyed_prune registries.well_keyed_prune for_other.well_keyed_prune
      forgotten_console.well_keyed_prune)

lemma run_pass_invents_nothing:
  "well_keyed rows \<Longrightarrow> map_of (run_pass p rows) h = Some r \<Longrightarrow> map_of rows h = Some r"
  by (cases p)
    (simp_all only: run_pass.simps control_plane.prune_invents_nothing proxies.prune_invents_nothing
      redirects.prune_invents_nothing tenants.prune_invents_nothing registries.prune_invents_nothing
      for_other.prune_invents_nothing forgotten_console.prune_invents_nothing)

lemmas prune_keeps = control_plane.prune_keeps proxies.prune_keeps redirects.prune_keeps
  tenants.prune_keeps registries.prune_keeps for_other.prune_keeps forgotten_console.prune_keeps

lemma run_pass_keeps_console:
  assumes "well_keyed rows" and "map_of rows FALLBACK_NAME = Some r" and "is_control_plane r"
  shows "map_of (run_pass p rows) FALLBACK_NAME = Some r"
proof (cases p)
  case (RetainControlPlane keep)
  then show ?thesis
    using control_plane.prune_keeps [OF assms(1,2), of keep] by simp
next
  case (ForgetControlPlane host)
  then show ?thesis
    using forgotten_console.prune_keeps [OF assms(1,2), of host] by simp
qed (use assms in \<open>simp_all add: prune_keeps is_control_plane_def\<close>)

lemma run_pass_keeps_errand:
  assumes "well_keyed rows" and "map_of rows h = Some r" and "errand_row r"
    and "\<And>host. p = ForgetForOther host \<Longrightarrow> normalize host \<noteq> h"
  shows "map_of (run_pass p rows) h = Some r"
proof -
  have r: "\<not> is_control_plane r" "upstream_kind r \<noteq> ''tenant''" "upstream_kind r \<noteq> ''registry''"
    "route_service r = None"
    using assms(3) by (auto simp: errand_row_def is_control_plane_def)
  show ?thesis
  proof (cases p)
    case (ForgetForOther host)
    then show ?thesis
      using for_other.prune_keeps [OF assms(1,2), of host] assms(4) by auto
  qed (use assms(1,2) r in \<open>simp_all add: prune_keeps\<close>)
qed

text \<open>Property C23. No sequence of pruning passes, with whatever they are told to keep or
  forget, takes the console off \<open>localhost\<close>, invents or changes a row, or takes a name this
  node answers for another node unless that very name is forgotten.\<close>

theorem pruning_never_locks_out:
  assumes "well_keyed rows"
  shows "(\<forall>h r. map_of (fold run_pass ps rows) h = Some r \<longrightarrow> map_of rows h = Some r) \<and>
    (\<forall>r. map_of rows FALLBACK_NAME = Some r \<and> is_control_plane r \<longrightarrow>
       map_of (fold run_pass ps rows) FALLBACK_NAME = Some r) \<and>
    (\<forall>h r. map_of rows h = Some r \<and> errand_row r \<and> h \<notin> normalize ` {x. ForgetForOther x \<in> set ps} \<longrightarrow>
       map_of (fold run_pass ps rows) h = Some r)"
  using assms
proof (induction ps arbitrary: rows)
  case (Cons p ps)
  note IH = Cons.IH [OF well_keyed_run_pass [OF Cons.prems, of p]]
  note IH1 = IH [THEN conjunct1, rule_format]
    and IH2 = IH [THEN conjunct2, THEN conjunct1, rule_format]
    and IH3 = IH [THEN conjunct2, THEN conjunct2, rule_format]
  show ?case
  proof (intro conjI allI impI)
    fix h r assume "map_of (fold run_pass (p # ps) rows) h = Some r"
    then have "map_of (run_pass p rows) h = Some r" unfolding fold_simps by (rule IH1)
    then show "map_of rows h = Some r" by (rule run_pass_invents_nothing [OF Cons.prems])
  next
    fix r assume "map_of rows FALLBACK_NAME = Some r \<and> is_control_plane r"
    then have "map_of (run_pass p rows) FALLBACK_NAME = Some r \<and> is_control_plane r"
      using run_pass_keeps_console [OF Cons.prems] by blast
    then show "map_of (fold run_pass (p # ps) rows) FALLBACK_NAME = Some r"
      unfolding fold_simps by (rule IH2)
  next
    fix h r
    assume r: "map_of rows h = Some r \<and> errand_row r \<and> h \<notin> normalize ` {x. ForgetForOther x \<in> set (p # ps)}"
    then have "map_of (run_pass p rows) h = Some r"
      by (intro run_pass_keeps_errand [OF Cons.prems]) auto
    moreover have "h \<notin> normalize ` {x. ForgetForOther x \<in> set ps}" using r by auto
    ultimately have "map_of (run_pass p rows) h = Some r \<and> errand_row r \<and>
        h \<notin> normalize ` {x. ForgetForOther x \<in> set ps}" using r by blast
    then show "map_of (fold run_pass (p # ps) rows) h = Some r" unfolding fold_simps by (rule IH3)
  qed
qed simp

theorem pruning_never_locks_out_witness:
  "map_of (fold run_pass [RetainControlPlane [], ForgetControlPlane ''localhost'', RetainProxies []]
     (route_upsert 1 ''localhost'' ControlPlane None [])) FALLBACK_NAME \<noteq> None"
proof -
  let ?rows = "route_upsert 1 ''localhost'' ControlPlane None []"
  have wk: "well_keyed ?rows" by (simp add: route_upsert_def)
  have "map_of ?rows FALLBACK_NAME = Some (encode_row (ControlPlane, None, 1))" by code_simp
  moreover have "is_control_plane (encode_row (ControlPlane, None, 1))" by code_simp
  ultimately have "map_of (fold run_pass [RetainControlPlane [], ForgetControlPlane ''localhost'', RetainProxies []]
     ?rows) FALLBACK_NAME = Some (encode_row (ControlPlane, None, 1))"
    by (intro pruning_never_locks_out [OF wk, THEN conjunct2, THEN conjunct1, THEN spec, THEN mp] conjI)
  then show ?thesis by (simp only: option.distinct not_False_eq_True)
qed

section \<open>Health and the choice of a replica\<close>

text \<open>The probes of one address that failed in a row up to now.\<close>

fun failed_streak :: "bool list \<Rightarrow> nat" where
  "failed_streak [] = 0"
| "failed_streak (answered # earlier) = (if answered then 0 else Suc (failed_streak earlier))"

definition answers_of :: "socket_addr \<Rightarrow> (socket_addr \<times> bool \<times> int) list \<Rightarrow> bool list" where
  "answers_of a obs = map (fst \<circ> snd) (filter (\<lambda>x. fst x = a) obs)"

definition observe_all :: "(socket_addr \<times> bool \<times> int) list \<Rightarrow> health \<Rightarrow> health" where
  "observe_all obs seen = fold (\<lambda>(a, answered, at). observed a answered at) obs seen"

lemma observed_failures:
  "(case map_of (observed a answered at seen) b of None \<Rightarrow> 0 | Some r \<Rightarrow> unat (failures r)) =
    (if b = a then
       (if answered then 0
        else min (Suc (case map_of seen a of None \<Rightarrow> 0 | Some r \<Rightarrow> unat (failures r))) (2 ^ 32 - 1))
     else case map_of seen b of None \<Rightarrow> 0 | Some r \<Rightarrow> unat (failures r))"
  by (auto simp: observed_def Let_def row_simps health_default_def unat_sat_add split: option.splits)

lemma observe_all_failures:
  "(case map_of (observe_all obs []) a of None \<Rightarrow> 0 | Some r \<Rightarrow> unat (failures r)) =
    min (failed_streak (rev (answers_of a obs))) (2 ^ 32 - 1)"
proof (induction obs rule: rev_induct)
  case (snoc x obs)
  obtain b answered at where x: "x = (b, answered, at)" by (cases x)
  have "observe_all (obs @ [x]) [] = observed b answered at (observe_all obs [])"
    by (simp add: observe_all_def x)
  then show ?case
    using snoc.IH by (cases "b = a"; cases answered) (simp_all add: observed_failures answers_of_def x)
qed (simp add: observe_all_def answers_of_def)

lemma is_up_failures:
  "is_up seen a \<longleftrightarrow> (case map_of seen a of None \<Rightarrow> 0 | Some r \<Rightarrow> unat (failures r)) < 2"
  by (auto simp: is_up_def record_up_def FAILURES_TO_EVICT_def word_less_nat_alt split: option.splits)

text \<open>Slow to evict, fast to restore: over any run of probes of any addresses,
  an address takes traffic unless its last two probes failed; one that was never probed
  takes traffic, and one answer puts it back.\<close>

theorem up_unless_two_failures:
  "is_up (observe_all obs []) a \<longleftrightarrow> failed_streak (rev (answers_of a obs)) < 2"
  by (simp add: is_up_failures observe_all_failures min_def)

lemma mset_rotated_mod:
  assumes "0 < n"
  shows "mset (map (\<lambda>i. (k + i) mod n) [0..<n]) = mset [0..<n]"
proof -
  have inj: "inj_on (\<lambda>i. (k + i) mod n) {0..<n}"
  proof (rule inj_onI)
    fix i j assume ij: "i \<in> {0..<n}" "j \<in> {0..<n}" "(k + i) mod n = (k + j) mod n"
    have same: "a = b" if "a \<le> b" "b < n" "(k + a) mod n = (k + b) mod n" for a b
    proof -
      have "n dvd (k + b) - (k + a)"
        using that mod_eq_dvd_iff_nat [of "k + a" "k + b" n] by simp
      then show "a = b" using that by (auto dest: dvd_imp_le)
    qed
    have b: "i < n" "j < n" using ij by simp_all
    show "i = j"
    proof (cases "i \<le> j")
      case True
      then show ?thesis using b(2) ij(3) by (rule same)
    next
      case False
      then have "j \<le> i" by simp
      then have "j = i" using b(1) ij(3) [symmetric] by (rule same)
      then show ?thesis by simp
    qed
  qed
  moreover have "(\<lambda>i. (k + i) mod n) ` {0..<n} \<subseteq> {0..<n}" using assms by auto
  ultimately have "(\<lambda>i. (k + i) mod n) ` {0..<n} = {0..<n}"
    by (intro endo_inj_surj) auto
  then have "set (map (\<lambda>i. (k + i) mod n) [0..<n]) = set [0..<n]" by simp
  moreover have "distinct (map (\<lambda>i. (k + i) mod n) [0..<n])" using inj by (simp add: distinct_map)
  ultimately show ?thesis by (metis distinct_upt set_eq_iff_mset_eq_distinct)
qed

text \<open>The replica chosen is one of the name's, one that answers when any does,
  and over as many turns in a row as there are that answer each of them is chosen once, with
  one turn for every entry, so that a node with two copies takes twice the requests.\<close>

theorem pick_live_fair:
  assumes ne: "addresses \<noteq> []" and live: "live = (if filter (is_up seen) addresses = [] then addresses
      else filter (is_up seen) addresses)"
    and wrap: "unat t + length live < 2 ^ 64"
  shows "(\<exists>a\<in>set live. pick_live (Proxy addresses) t seen = Some a) \<and>
    mset (map (\<lambda>i. pick_live (Proxy addresses) (t + of_nat i) seen) [0..<length live]) =
    mset (map Some live)"
proof -
  let ?n = "length live"
  have n: "0 < ?n" using ne live by auto
  have p: "pick_live (Proxy addresses) u seen = Some (live ! (unat u mod ?n))" for u
    using ne live by (simp add: Let_def)
  have u: "unat (t + of_nat i) = unat t + i" if "i < ?n" for i
  proof -
    have i: "unat (of_nat i :: u64) = i" using that wrap by (simp add: unat_of_nat)
    then show ?thesis using that wrap by (subst unat_add_lem [THEN iffD1]) auto
  qed
  let ?f = "\<lambda>k. Some (live ! k)"
  have "map (\<lambda>i. pick_live (Proxy addresses) (t + of_nat i) seen) [0..<?n] =
      map ?f (map (\<lambda>i. (unat t + i) mod ?n) [0..<?n])"
    by (simp add: p u del: pick_live.simps)
  then have "mset (map (\<lambda>i. pick_live (Proxy addresses) (t + of_nat i) seen) [0..<?n]) =
      image_mset ?f (mset (map (\<lambda>i. (unat t + i) mod ?n) [0..<?n]))"
    by (simp only: mset_map [of ?f])
  also have "\<dots> = mset (map ?f [0..<?n])"
    unfolding mset_rotated_mod [OF n] by (rule mset_map [symmetric])
  also have "map ?f [0..<?n] = map Some live"
    by (rule nth_equalityI) simp_all
  finally have m: "mset (map (\<lambda>i. pick_live (Proxy addresses) (t + of_nat i) seen) [0..<?n]) = mset (map Some live)" .
  have "live ! (unat t mod ?n) \<in> set live" using n by simp
  with p [of t] have "\<exists>a\<in>set live. pick_live (Proxy addresses) t seen = Some a"
    by (intro bexI [of _ "live ! (unat t mod ?n)"])
  with m show ?thesis by (rule conjI [rotated])
qed

theorem pick_live_fair_witness:
  "mset (map (\<lambda>i. pick_live (Proxy [SockV4 10 0 0 1 80, SockV4 10 0 0 2 80]) (5 + of_nat i) []) [0..<2]) =
   mset (map Some [SockV4 10 0 0 1 80, SockV4 10 0 0 2 80])"
proof -
  let ?as = "[SockV4 10 0 0 1 80, SockV4 10 0 0 2 80]"
  have "?as = (if filter (is_up []) ?as = [] then ?as else filter (is_up []) ?as)" by (simp add: is_up_def)
  note f = pick_live_fair [OF _ this, of 5, THEN conjunct2]
  have l: "length ?as = 2" by simp
  have "unat (5 :: u64) + 2 < 2 ^ 64" by simp
  with f [unfolded l] show ?thesis by (simp only: list.distinct not_False_eq_True)
qed

end
