(* ===== verification/Replicas.thy ===== *)
theory Replicas
  imports Services "HOL-Library.Char_ord" "HOL-Library.List_Lexorder" "HOL-Library.Product_Lexorder"
begin

text \<open>
  The copies of a service as rows (src/src/infra/repositories/replicas.rs): placing one in
  a slot, bringing a service to a count, moving, evicting and removing copies, and the two
  allocators that hand out their overlay ports and their reserved addresses. The table is
  the list of its rows in insertion order; the generated part of an id, the clock and who
  decides are parameters. The lemmas show that slots are filled densely and never twice,
  that a port is never handed out twice, and what a move leaves behind.
\<close>

section \<open>Reading\<close>

definition rows_of_service :: "replica list \<Rightarrow> string \<Rightarrow> replica list" where
  "rows_of_service rows svc = sort_key slot (filter (\<lambda>r. replica_service r = svc) rows)"

definition rows_here :: "replica list \<Rightarrow> replica list" where
  "rows_here rows =
    sort_key (\<lambda>r. (replica_service r, slot r))
      (filter (\<lambda>r. node_id r = None \<and> evicted_at r = None) rows)"

definition rows_elsewhere :: "replica list \<Rightarrow> replica list" where
  "rows_elsewhere rows =
    sort_key (\<lambda>r. (replica_service r, slot r))
      (filter (\<lambda>r. node_id r \<noteq> None \<and> evicted_at r = None) rows)"

definition here_for :: "replica list \<Rightarrow> string \<Rightarrow> replica option" where
  "here_for rows svc = List.find (\<lambda>r. is_here r \<and> \<not> evicted r) (rows_of_service rows svc)"

definition in_slot :: "replica list \<Rightarrow> string \<Rightarrow> u32 \<Rightarrow> replica option" where
  "in_slot rows svc n = List.find (\<lambda>r. slot r = n) (rows_of_service rows svc)"

definition replicas_find :: "replica list \<Rightarrow> string \<Rightarrow> replica option" where
  "replicas_find rows rid = List.find (\<lambda>r. replica_id r = rid) rows"

section \<open>Placing\<close>

text \<open>
  What an operation answers instead: the constraint of the table (the primary key, or the
  unique index on service and slot), or a refusal of its own.
\<close>

datatype 'e row_error = Constraint | Refused 'e

definition place_by :: "string \<Rightarrow> replica list \<Rightarrow> string \<Rightarrow> string option \<Rightarrow> u32 \<Rightarrow> placed
    \<Rightarrow> string option \<Rightarrow> 'e row_error + replica \<times> replica list" where
  "place_by generated rows svc node n who note =
    (let row = \<lparr>replica_id = ''rp-'' @ generated, replica_service = svc, node_id = node, slot = n,
        address = None, overlay_port = None, last_error = None, evicted_at = None,
        reserved_host = None, memory_bytes = None, disk_bytes = None, replica_cpu = None,
        following = None, wal_held = None, placed_by = Some who, placed_note = note\<rparr>
     in if list_ex (\<lambda>r. replica_id r = replica_id row \<or>
              replica_service r = svc \<and> slot r = n) rows
        then Inl Constraint else Inr (row, rows @ [row]))"

definition place :: "string \<Rightarrow> replica list \<Rightarrow> string \<Rightarrow> string option \<Rightarrow> u32
    \<Rightarrow> 'e row_error + replica \<times> replica list" where
  "place generated rows svc node n = place_by generated rows svc node n Person None"

text \<open>
  The password generator is read once per new row: \<open>gen k\<close> is what it says when the table
  holds \<open>k\<close> rows. A loop over slots keeps what it finds and stops at the first
  error, with what it had placed by then still there.
\<close>

fun place_missing :: "(nat \<Rightarrow> string) \<Rightarrow> replica list \<Rightarrow> string \<Rightarrow> u32 list \<Rightarrow> replica list
    \<Rightarrow> ('e row_error + unit) \<times> replica list" where
  "place_missing gen existing svc [] rows = (Inr (), rows)"
| "place_missing gen existing svc (n # ns) rows =
    (if list_ex (\<lambda>r. slot r = n) existing then place_missing gen existing svc ns rows
     else case place (gen (length rows)) rows svc None n of
            Inl e \<Rightarrow> (Inl e, rows)
          | Inr (_, rows') \<Rightarrow> place_missing gen existing svc ns rows')"

definition ensure_slots :: "(nat \<Rightarrow> string) \<Rightarrow> replica list \<Rightarrow> string \<Rightarrow> u32 list
    \<Rightarrow> ('e row_error + replica list) \<times> replica list" where
  "ensure_slots gen rows svc slots =
    (case place_missing gen (rows_of_service rows svc) svc slots rows of
       (Inl e, rows') \<Rightarrow> (Inl e, rows')
     | (Inr _, rows') \<Rightarrow> (Inr (rows_of_service rows' svc), rows'))"

definition ensure_here :: "(nat \<Rightarrow> string) \<Rightarrow> replica list \<Rightarrow> string \<Rightarrow> u32
    \<Rightarrow> ('e row_error + replica list) \<times> replica list" where
  "ensure_here gen rows svc count =
    ensure_slots gen rows svc (map of_nat [1..<Suc (unat count)])"

text \<open>The lowest slot from \<open>n\<close> on that nothing holds.\<close>

function next_free :: "nat \<Rightarrow> nat list \<Rightarrow> nat" where
  "next_free n held = (if n \<in> set held then next_free (Suc n) held else n)"
  by pat_completeness auto

termination
proof (relation "measure (\<lambda>(n, held). card {m \<in> set held. n \<le> m})", goal_cases)
  case 1
  then show ?case by simp
next
  case (2 n held)
  have "n \<in> {m \<in> set held. n \<le> m}" "n \<notin> {m \<in> set held. Suc n \<le> m}"
    using 2 by simp_all
  moreover have "{m \<in> set held. Suc n \<le> m} \<subseteq> {m \<in> set held. n \<le> m}" by auto
  ultimately have "{m \<in> set held. Suc n \<le> m} \<subset> {m \<in> set held. n \<le> m}" by blast
  then show ?case by (simp add: psubset_card_mono)
qed

declare next_free.simps [simp del]

lemma next_free_spec:
  "n \<le> next_free n held \<and> next_free n held \<notin> set held \<and>
   (\<forall>m. n \<le> m \<longrightarrow> m < next_free n held \<longrightarrow> m \<in> set held)"
proof (induction n held rule: next_free.induct)
  case (1 n held)
  show ?case
  proof (cases "n \<in> set held")
    case True
    note IH = 1 [OF True]
    have eq: "next_free n held = next_free (Suc n) held"
      using True by (subst next_free.simps) simp
    have "m \<in> set held" if "n \<le> m" "m < next_free (Suc n) held" for m
      using that IH True by (cases "m = n") auto
    then show ?thesis using IH eq by (auto simp: eq)
  next
    case False
    then have "next_free n held = n" by (subst next_free.simps) simp
    with False show ?thesis by simp
  qed
qed

lemma next_free_bound: "next_free n held \<le> n + length held"
proof -
  have "{n..<next_free n held} \<subseteq> set held"
    using next_free_spec [of n held] by auto
  then have "card {n..<next_free n held} \<le> card (set held)"
    by (rule card_mono [rotated]) simp
  then show ?thesis using card_length [of held] by simp
qed

definition slots_of :: "replica list \<Rightarrow> string \<Rightarrow> nat list" where
  "slots_of rows svc = map (\<lambda>r. unat (slot r)) (rows_of_service rows svc)"

definition free_slot :: "replica list \<Rightarrow> string \<Rightarrow> nat" where
  "free_slot rows svc = next_free 1 (slots_of rows svc)"

lemma length_rows_of_service:
  "length (rows_of_service rows svc) = length (filter (\<lambda>r. replica_service r = svc) rows)"
  by (simp add: rows_of_service_def)

lemma set_rows_of_service [simp]:
  "set (rows_of_service rows svc) = {r \<in> set rows. replica_service r = svc}"
  by (auto simp: rows_of_service_def)

lemma place_by_Inr:
  assumes "place_by g rows svc node n who note = Inr (row, rows')"
  shows "rows' = rows @ [row]" "replica_service row = svc" "slot row = n" "node_id row = node"
    "evicted_at row = None" "placed_by row = Some who" "placed_note row = note"
    "overlay_port row = None" "replica_id row = ''rp-'' @ g" "reserved_host row = None"
    "address row = None"
    "\<And>r. r \<in> set rows \<Longrightarrow> replica_id r \<noteq> ''rp-'' @ g"
    "\<And>r. r \<in> set rows \<Longrightarrow> replica_service r = svc \<Longrightarrow> slot r \<noteq> n"
  using assms by (auto simp: place_by_def Let_def list_ex_iff split: if_splits)

lemma of_nat_Suc_below:
  "(of_nat k :: u32) < w \<Longrightarrow> unat (of_nat (Suc k) :: u32) = Suc (unat (of_nat k :: u32))"
proof -
  assume "(of_nat k :: u32) < w"
  then have "Suc (unat (of_nat k :: u32)) < 2 ^ 32"
    using unat_below_exp [of w] by (simp add: word_less_nat_alt)
  then have "unat ((of_nat k :: u32) + 1) = Suc (unat (of_nat k :: u32))"
    using unat_add_lem [of "of_nat k :: u32" 1] by simp
  then show ?thesis by (simp add: add.commute)
qed

text \<open>
  \<open>ensure_count_where\<close>: one copy at a time in the lowest free slot, asking where it goes
  with the copies as they stand; \<open>existing.len() as u32\<close> is a truncating cast.
\<close>

function ensure_count_where :: "(replica list \<Rightarrow> 'e + string option \<times> placed \<times> string option)
    \<Rightarrow> (nat \<Rightarrow> string) \<Rightarrow> string \<Rightarrow> u32 \<Rightarrow> replica list
    \<Rightarrow> ('e row_error + replica list) \<times> replica list" where
  "ensure_count_where ask gen svc wanted rows =
    (let existing = rows_of_service rows svc in
     if wanted \<le> of_nat (length existing) then (Inr existing, rows)
     else case ask existing of
            Inl e \<Rightarrow> (Inl (Refused e), rows)
          | Inr (node, who, note) \<Rightarrow>
              (case place_by (gen (length rows)) rows svc node (of_nat (free_slot rows svc)) who note of
                 Inl e \<Rightarrow> (Inl e, rows)
               | Inr (_, rows') \<Rightarrow> ensure_count_where ask gen svc wanted rows'))"
  by pat_completeness auto

termination
proof (relation "measure (\<lambda>(ask, gen, svc, wanted, rows).
    unat wanted - unat (of_nat (length (rows_of_service rows svc)) :: u32))", goal_cases)
  case 1
  then show ?case by simp
next
  case (2 ask gen svc wanted rows existing choice node b who why placed row rows')
  note placing = place_by_Inr [OF 2(6) [folded 2(7)]]
  have "length (rows_of_service rows' svc) = Suc (length (rows_of_service rows svc))"
    using placing(1,2) by (simp add: length_rows_of_service)
  moreover have below: "(of_nat (length (rows_of_service rows svc)) :: u32) < wanted"
    using 2(1,2) by simp
  ultimately have "unat (of_nat (length (rows_of_service rows' svc)) :: u32) =
      Suc (unat (of_nat (length (rows_of_service rows svc)) :: u32))"
    using of_nat_Suc_below [OF below] by presburger
  with below show ?case
    unfolding in_measure prod.case word_less_nat_alt by linarith
qed

declare ensure_count_where.simps [simp del]

definition ensure_count :: "(nat \<Rightarrow> string) \<Rightarrow> string \<Rightarrow> u32 \<Rightarrow> string option \<Rightarrow> replica list
    \<Rightarrow> (unit row_error + replica list) \<times> replica list" where
  "ensure_count gen svc wanted node rows =
    ensure_count_where (\<lambda>_. Inr (node, Person, None)) gen svc wanted rows"

section \<open>One row at a time\<close>

definition update_row :: "string \<Rightarrow> (replica \<Rightarrow> replica) \<Rightarrow> replica list \<Rightarrow> replica list" where
  "update_row rid f rows = map (\<lambda>r. if replica_id r = rid then f r else r) rows"

text \<open>A move clears the address, the last error and the eviction, and nothing else.\<close>

definition move_to_by :: "string \<Rightarrow> string option \<Rightarrow> placed \<Rightarrow> string option
    \<Rightarrow> replica list \<Rightarrow> replica list" where
  "move_to_by rid node who note = update_row rid (\<lambda>r. r\<lparr>node_id := node, address := None,
      last_error := None, evicted_at := None, placed_by := Some who, placed_note := note\<rparr>)"

definition move_to :: "string \<Rightarrow> string option \<Rightarrow> replica list \<Rightarrow> replica list" where
  "move_to rid node = move_to_by rid node Person None"

definition set_address :: "string \<Rightarrow> string option \<Rightarrow> replica list \<Rightarrow> replica list" where
  "set_address rid a = update_row rid (\<lambda>r. r\<lparr>address := a\<rparr>)"

definition set_overlay_port :: "string \<Rightarrow> u16 option \<Rightarrow> replica list \<Rightarrow> replica list" where
  "set_overlay_port rid p = update_row rid (\<lambda>r. r\<lparr>overlay_port := p\<rparr>)"

definition set_memory :: "string \<Rightarrow> u64 option \<Rightarrow> replica list \<Rightarrow> replica list" where
  "set_memory rid b = update_row rid (\<lambda>r. r\<lparr>memory_bytes := b\<rparr>)"

definition set_disk :: "string \<Rightarrow> u64 option \<Rightarrow> replica list \<Rightarrow> replica list" where
  "set_disk rid b = update_row rid (\<lambda>r. r\<lparr>disk_bytes := b\<rparr>)"

definition set_cpu :: "string \<Rightarrow> u32 option \<Rightarrow> replica list \<Rightarrow> replica list" where
  "set_cpu rid m = update_row rid (\<lambda>r. r\<lparr>replica_cpu := m\<rparr>)"

definition set_last_error :: "string \<Rightarrow> string option \<Rightarrow> replica list \<Rightarrow> replica list" where
  "set_last_error rid e = update_row rid (\<lambda>r. r\<lparr>last_error := e\<rparr>)"

definition set_following :: "string \<Rightarrow> bool \<Rightarrow> u64 \<Rightarrow> replica list \<Rightarrow> replica list" where
  "set_following rid f held =
    update_row rid (\<lambda>r. r\<lparr>following := Some f, wal_held := Some held\<rparr>)"

definition evict :: "string \<Rightarrow> int \<Rightarrow> replica list \<Rightarrow> replica list" where
  "evict rid now = update_row rid (\<lambda>r.
    if evicted_at r = None then r\<lparr>evicted_at := Some now, address := None\<rparr> else r)"

definition replicas_remove :: "string \<Rightarrow> replica list \<Rightarrow> replica list" where
  "replicas_remove rid rows = filter (\<lambda>r. replica_id r \<noteq> rid) rows"

section \<open>Overlay ports and reserved addresses\<close>

definition OVERLAY_PORT_FIRST :: nat where "OVERLAY_PORT_FIRST = 30000"
definition OVERLAY_PORT_END :: nat where "OVERLAY_PORT_END = 31000"

definition taken_ports :: "replica list \<Rightarrow> u16 list" where
  "taken_ports rows = List.map_filter overlay_port rows"

definition ensure_overlay_port :: "replica list \<Rightarrow> string
    \<Rightarrow> unit row_error + u16 \<times> replica list" where
  "ensure_overlay_port rows rid =
    (case Option.bind (replicas_find rows rid) overlay_port of
       Some p \<Rightarrow> Inr (p, rows)
     | None \<Rightarrow>
         (case lowest_free OVERLAY_PORT_FIRST OVERLAY_PORT_END (unat ` set (taken_ports rows)) of
            None \<Rightarrow> Inl (Refused ())
          | Some p \<Rightarrow> Inr (of_nat p, set_overlay_port rid (Some (of_nat p)) rows)))"

definition RESERVED_HOSTS :: "nat list" where
  "RESERVED_HOSTS = [200..<255]"

definition taken_hosts :: "service list \<Rightarrow> replica list \<Rightarrow> string \<Rightarrow> u8 list" where
  "taken_hosts services rows project =
    List.map_filter reserved_host (filter (\<lambda>r.
      list_ex (\<lambda>s. service_id s = replica_service r \<and> service_project s = project) services) rows)"

definition reserve_host :: "service list \<Rightarrow> replica list \<Rightarrow> string \<Rightarrow> string
    \<Rightarrow> unit row_error + u8 \<times> replica list" where
  "reserve_host services rows project rid =
    (case Option.bind (replicas_find rows rid) reserved_host of
       Some h \<Rightarrow> Inr (h, rows)
     | None \<Rightarrow>
         (case List.find (\<lambda>h. h \<notin> unat ` set (taken_hosts services rows project))
                 (rev RESERVED_HOSTS) of
            None \<Rightarrow> Inl (Refused ())
          | Some h \<Rightarrow>
              Inr (of_nat h, update_row rid (\<lambda>r. r\<lparr>reserved_host := Some (of_nat h)\<rparr>) rows)))"

section \<open>The table's invariant\<close>

definition replica_table :: "replica list \<Rightarrow> bool" where
  "replica_table rows \<longleftrightarrow> distinct (map replica_id rows) \<and>
    distinct (map (\<lambda>r. (replica_service r, slot r)) rows)"

text \<open>No two copies of this node listen on one port of its overlay address.\<close>

definition ports_exclusive :: "replica list \<Rightarrow> bool" where
  "ports_exclusive rows \<longleftrightarrow> distinct (List.map_filter overlay_port (filter is_here rows))"

definition fresh_ids :: "(nat \<Rightarrow> string) \<Rightarrow> replica list \<Rightarrow> bool" where
  "fresh_ids gen rows \<longleftrightarrow> inj_on gen {length rows..} \<and>
    (\<forall>k\<ge>length rows. ''rp-'' @ gen k \<notin> replica_id ` set rows)"

lemma fresh_ids_snoc:
  assumes "fresh_ids gen rows" "replica_id row = ''rp-'' @ gen (length rows)"
  shows "fresh_ids gen (rows @ [row])"
proof -
  have "gen k \<noteq> gen (length rows)" if "Suc (length rows) \<le> k" for k
    using assms(1) that unfolding fresh_ids_def inj_on_def by (metis Suc_leD atLeast_iff le_refl not_less_eq_eq)
  with assms show ?thesis by (auto simp: fresh_ids_def inj_on_def)
qed

lemma place_by_table:
  assumes "replica_table rows" "place_by g rows svc node n who why = Inr (row, rows')"
  shows "replica_table rows'"
  using assms(1) place_by_Inr(1,2,3,9,12,13) [OF assms(2)] by (force simp: replica_table_def)

lemma update_row_keeps_table:
  assumes "replica_table rows"
    and "\<And>r. replica_id (f r) = replica_id r \<and> replica_service (f r) = replica_service r \<and>
        slot (f r) = slot r"
  shows "replica_table (update_row rid f rows)"
proof -
  have "map replica_id (update_row rid f rows) = map replica_id rows"
    "map (\<lambda>r. (replica_service r, slot r)) (update_row rid f rows) =
     map (\<lambda>r. (replica_service r, slot r)) rows"
    using assms(2) by (auto simp: update_row_def)
  then show ?thesis using assms(1) by (simp add: replica_table_def)
qed

lemma replicas_find_update_row:
  assumes "\<And>r. replica_id (f r) = replica_id r"
  shows "replicas_find (update_row rid f rows) rid' =
    map_option (\<lambda>r. if rid' = rid then f r else r) (replicas_find rows rid')"
  using assms by (induction rows) (auto simp: replicas_find_def update_row_def)

lemma replicas_find_split:
  assumes "replicas_find rows rid = Some r" "replica_table rows"
  obtains a b where "rows = a @ r # b" "replica_id r = rid"
    "rid \<notin> replica_id ` set a" "rid \<notin> replica_id ` set b"
proof -
  have r: "r \<in> set rows" "replica_id r = rid"
    using assms(1) by (auto simp: replicas_find_def find_Some_iff in_set_conv_nth)
  then obtain a b where s: "rows = a @ r # b" by (meson split_list)
  then show thesis using that r(2) assms(2) by (auto simp: replica_table_def)
qed

lemma update_row_split:
  "rid \<notin> replica_id ` set a \<Longrightarrow> rid \<notin> replica_id ` set b \<Longrightarrow> replica_id r = rid \<Longrightarrow>
    update_row rid f (a @ r # b) = a @ f r # b"
  unfolding update_row_def by (auto simp: map_idI image_iff intro!: map_idI)

section \<open>Slots are filled densely, one copy each\<close>

lemma free_slot_spec:
  "1 \<le> free_slot rows svc" "free_slot rows svc \<notin> set (slots_of rows svc)"
  "1 \<le> m \<Longrightarrow> m < free_slot rows svc \<Longrightarrow> m \<in> set (slots_of rows svc)"
  using next_free_spec [of 1 "slots_of rows svc"] unfolding free_slot_def by blast+

lemma free_slot_bound: "free_slot rows svc \<le> Suc (length rows)"
proof -
  have "length (slots_of rows svc) \<le> length rows"
    by (simp add: slots_of_def length_rows_of_service)
  then show ?thesis using next_free_bound [of 1 "slots_of rows svc"] by (simp add: free_slot_def)
qed

lemma slots_of_snoc:
  "replica_service row = svc \<Longrightarrow>
    set (slots_of (rows @ [row]) svc) = insert (unat (slot row)) (set (slots_of rows svc))"
  by (auto simp: slots_of_def)

lemma place_by_free_slot:
  assumes fresh: "fresh_ids gen rows" and small: "length rows < 2 ^ 32 - 1"
  shows "\<exists>row. place_by (gen (length rows)) rows svc node (of_nat (free_slot rows svc)) who why
      = Inr (row, rows @ [row]) \<and> replica_id row = ''rp-'' @ gen (length rows) \<and>
      replica_service row = svc \<and> unat (slot row) = free_slot rows svc \<and>
      node_id row = node \<and> placed_by row = Some who \<and> placed_note row = why"
proof -
  have u: "unat (of_nat (free_slot rows svc) :: u32) = free_slot rows svc"
    using free_slot_bound [of rows svc] small by (simp add: unat_of_nat_small)
  have "slot r \<noteq> of_nat (free_slot rows svc)"
    if "r \<in> set rows" "replica_service r = svc" for r
    using free_slot_spec(2) [of rows svc] that u by (force simp: slots_of_def)
  moreover have "''rp-'' @ gen (length rows) \<notin> replica_id ` set rows"
    using fresh unfolding fresh_ids_def by blast
  ultimately have "\<not> list_ex (\<lambda>r. replica_id r = ''rp-'' @ gen (length rows) \<or>
      replica_service r = svc \<and> slot r = of_nat (free_slot rows svc)) rows"
    unfolding list_ex_iff by (metis imageI)
  then show ?thesis using u by (simp add: place_by_def Let_def)
qed

lemma ensure_count_where_shape:
  "\<exists>new. snd (ensure_count_where ask gen svc wanted rows) = rows @ new \<and>
    (\<forall>i<length new. replica_service (new ! i) = svc \<and>
      (\<exists>who. placed_by (new ! i) = Some who \<and>
        ask (rows_of_service (rows @ take i new) svc) =
          Inr (node_id (new ! i), who, placed_note (new ! i))))"
proof (induction ask gen svc wanted rows rule: ensure_count_where.induct)
  case (1 ask gen svc wanted rows)
  let ?existing = "rows_of_service rows svc"
  let ?run = "ensure_count_where ask gen svc wanted"
  show ?case
  proof (cases "snd (?run rows) = rows")
    case True
    then show ?thesis by (intro exI [of _ "[]"]) simp
  next
    case False
    have step: "?run rows = (if wanted \<le> of_nat (length ?existing) then (Inr ?existing, rows)
      else case ask ?existing of
        Inl e \<Rightarrow> (Inl (Refused e), rows)
      | Inr (node, who, why) \<Rightarrow>
          (case place_by (gen (length rows)) rows svc node (of_nat (free_slot rows svc)) who why of
             Inl e \<Rightarrow> (Inl e, rows) | Inr (_, rows') \<Rightarrow> ?run rows'))"
      by (subst ensure_count_where.simps) (simp only: Let_def)
    from False have more: "\<not> wanted \<le> of_nat (length ?existing)"
      unfolding step by (auto split: if_splits)
    obtain node who why where asked: "ask ?existing = Inr (node, who, why)"
      using False more unfolding step by (auto split: sum.splits)
    obtain row rows' where placed:
      "place_by (gen (length rows)) rows svc node (of_nat (free_slot rows svc)) who why =
        (Inr (row, rows') :: 'a row_error + replica \<times> replica list)"
      using False more asked unfolding step by (auto split: sum.splits)
    have rest: "?run rows = ?run rows'"
      using more asked placed unfolding step by simp
    note row = place_by_Inr [OF placed]
    obtain new where new: "snd (?run rows') = rows' @ new"
      "\<forall>i<length new. replica_service (new ! i) = svc \<and> (\<exists>who. placed_by (new ! i) = Some who \<and>
        ask (rows_of_service (rows' @ take i new) svc) =
          Inr (node_id (new ! i), who, placed_note (new ! i)))"
      using 1 [OF refl more asked refl refl placed refl] by blast
    then show ?thesis
      using row(1,2,4,6,7) asked rest
      by (intro exI [of _ "row # new"]) (auto simp: All_less_Suc2)
  qed
qed

text \<open>How the rows a count was reached with came to be, each asked about in its turn.\<close>

definition placed_in_turn ::
    "(replica list \<Rightarrow> 'e + string option \<times> placed \<times> string option) \<Rightarrow> string
      \<Rightarrow> replica list \<Rightarrow> replica list \<Rightarrow> bool" where
  "placed_in_turn ask svc rows new \<longleftrightarrow> (\<forall>i<length new.
    (let before = rows @ take i new in
     replica_service (new ! i) = svc \<and> unat (slot (new ! i)) = free_slot before svc \<and>
     (\<exists>who. placed_by (new ! i) = Some who \<and>
       ask (rows_of_service before svc) = Inr (node_id (new ! i), who, placed_note (new ! i)))))"

lemma placed_in_turn_Cons:
  "placed_in_turn ask svc rows (row # new) \<longleftrightarrow>
    replica_service row = svc \<and> unat (slot row) = free_slot rows svc \<and>
    (\<exists>who. placed_by row = Some who \<and>
      ask (rows_of_service rows svc) = Inr (node_id row, who, placed_note row)) \<and>
    placed_in_turn ask svc (rows @ [row]) new"
  by (auto simp: placed_in_turn_def Let_def less_Suc_eq_0_disj All_less_Suc2)

lemma ensure_count_where_steps:
  assumes "k = unat wanted - length (rows_of_service rows svc)"
    and "replica_table rows" "fresh_ids gen rows" "length rows + k < 2 ^ 32 - 1"
    and ask: "\<And>existing. \<exists>choice. ask existing = Inr choice"
  shows "\<exists>new. ensure_count_where ask gen svc wanted rows =
      (Inr (rows_of_service (rows @ new) svc), rows @ new) \<and> length new = k \<and>
      replica_table (rows @ new) \<and> placed_in_turn ask svc rows new"
  using assms(1-4)
proof (induction k arbitrary: rows)
  have cast: "unat (of_nat (length (rows_of_service rows svc)) :: u32) =
      length (rows_of_service rows svc)"
    if "length rows < 2 ^ 32 - 1" for rows
  proof -
    have "length (rows_of_service rows svc) \<le> length rows"
      by (simp add: length_rows_of_service)
    with that show ?thesis by (simp add: unat_of_nat_small)
  qed
  case 0
  then have "wanted \<le> of_nat (length (rows_of_service rows svc))"
    by (simp add: word_le_nat_alt cast)
  then have "ensure_count_where ask gen svc wanted rows = (Inr (rows_of_service rows svc), rows)"
    by (simp add: ensure_count_where.simps Let_def)
  with 0(2) show ?case by (intro exI [of _ "[]"]) (simp add: placed_in_turn_def)
next
  case (Suc k)
  have small: "length rows < 2 ^ 32 - 1" using Suc.prems(4) by simp
  have len: "length (rows_of_service rows svc) \<le> length rows"
    by (simp add: length_rows_of_service)
  have "unat (of_nat (length (rows_of_service rows svc)) :: u32) =
      length (rows_of_service rows svc)"
    using len small by (simp add: unat_of_nat_small)
  then have below: "\<not> wanted \<le> of_nat (length (rows_of_service rows svc))"
    using Suc.prems(1) by (simp add: word_le_nat_alt)
  obtain node who why where asked: "ask (rows_of_service rows svc) = Inr (node, who, why)"
    using ask [of "rows_of_service rows svc"] by (metis prod_cases3)
  obtain row where row:
    "place_by (gen (length rows)) rows svc node (of_nat (free_slot rows svc)) who why
       = (Inr (row, rows @ [row]) :: 'a row_error + replica \<times> replica list)"
    "replica_id row = ''rp-'' @ gen (length rows)" "replica_service row = svc"
    "unat (slot row) = free_slot rows svc" "node_id row = node" "placed_by row = Some who"
    "placed_note row = why"
    using place_by_free_slot [OF Suc.prems(3) small] by blast
  have step: "ensure_count_where ask gen svc wanted rows =
      ensure_count_where ask gen svc wanted (rows @ [row])"
    using below asked row(1) by (subst ensure_count_where.simps) (simp add: Let_def)
  have "k = unat wanted - length (rows_of_service (rows @ [row]) svc)"
    using Suc.prems(1) row(3) by (simp add: length_rows_of_service)
  moreover have "replica_table (rows @ [row])"
    using place_by_table [OF Suc.prems(2) row(1)] .
  moreover have "fresh_ids gen (rows @ [row])"
    using fresh_ids_snoc [OF Suc.prems(3) row(2)] .
  moreover have "length (rows @ [row]) + k < 2 ^ 32 - 1" using Suc.prems(4) by simp
  ultimately obtain new where new: "ensure_count_where ask gen svc wanted (rows @ [row]) =
      (Inr (rows_of_service ((rows @ [row]) @ new) svc), (rows @ [row]) @ new)" "length new = k"
      "replica_table ((rows @ [row]) @ new)" "placed_in_turn ask svc (rows @ [row]) new"
    using Suc.IH by blast
  show ?case
    using new step row asked
    by (intro exI [of _ "row # new"]) (simp add: placed_in_turn_Cons)
qed

text \<open>Property C28. Where the copies go can be answered and the generated ids are new,
  \<open>ensure_count_where\<close> always returns: exactly the missing number of copies is added, the
  copies there were are untouched, each new one takes the lowest slot its service has free
  at that moment (so removed slots come back and the numbering stays dense), it carries the
  answer given for it with the earlier ones counted in, and no id and no slot is doubled.\<close>

theorem count_is_reached_densely:
  assumes "replica_table rows" "fresh_ids gen rows" "length rows + unat wanted < 2 ^ 32 - 1"
    and "\<And>existing. \<exists>choice. ask existing = Inr choice"
  shows "\<exists>new. ensure_count_where ask gen svc wanted rows =
      (Inr (rows_of_service (rows @ new) svc), rows @ new) \<and>
      length new = unat wanted - length (rows_of_service rows svc) \<and>
      replica_table (rows @ new) \<and> placed_in_turn ask svc rows new"
  by (rule ensure_count_where_steps) (use assms in auto)

section \<open>Ports\<close>

interpretation overlay_ports: allocator OVERLAY_PORT_FIRST OVERLAY_PORT_END
  "lowest_free OVERLAY_PORT_FIRST OVERLAY_PORT_END"
  by (rule lowest_free_allocator)

lemma set_taken_ports: "set (taken_ports rows) = {p. \<exists>r\<in>set rows. overlay_port r = Some p}"
  by (auto simp: taken_ports_def set_map_filter)


text \<open>A move leaves the port of the row as it was: the copy that comes home keeps
  the number of the node it left, \<open>ensure_overlay_port\<close> hands that number back, and where a
  copy of this node already listens on it the two then share it.\<close>

theorem moved_copy_keeps_a_foreign_port:
  assumes "replica_table rows" "replicas_find rows rid = Some r" "overlay_port r = Some p"
    "replicas_find rows other = Some r'" "other \<noteq> rid" "is_here r'" "overlay_port r' = Some p"
  shows "ensure_overlay_port (move_to rid None rows) rid = Inr (p, move_to rid None rows) \<and>
    \<not> ports_exclusive (move_to rid None rows)"
proof -
  let ?moved = "r\<lparr>node_id := None, address := None, last_error := None, evicted_at := None,
      placed_by := Some Person, placed_note := None\<rparr>"
  let ?rows = "move_to rid None rows"
  have found: "replicas_find ?rows rid = Some ?moved" "replicas_find ?rows other = Some r'"
    using assms(2,4,5) by (simp_all add: move_to_def move_to_by_def replicas_find_update_row)
  have table: "replica_table ?rows"
    unfolding move_to_def move_to_by_def by (rule update_row_keeps_table [OF assms(1)]) simp
  obtain a b where s: "?rows = a @ ?moved # b" "replica_id ?moved = rid"
    using replicas_find_split [OF found(1) table] .
  have "r' \<in> set ?rows" "replica_id r' = other"
    using found(2) by (auto simp: replicas_find_def find_Some_iff)
  then have "r' \<in> set a \<or> r' \<in> set b" using s assms(5) by auto
  then have "p \<in> set (List.map_filter overlay_port (filter is_here a)) \<or>
      p \<in> set (List.map_filter overlay_port (filter is_here b))"
    using assms(6,7) by (auto simp: set_map_filter)
  then have "\<not> ports_exclusive ?rows"
    using assms(3) unfolding s(1) ports_exclusive_def
    by (auto simp: map_filter_append List.map_filter_simps is_here_def)
  moreover have "ensure_overlay_port ?rows rid = Inr (p, ?rows)"
    using found(1) assms(3) by (simp add: ensure_overlay_port_def)
  ultimately show ?thesis by blast
qed

section \<open>The theorems at concrete tables\<close>

definition sample_row :: "string \<Rightarrow> string \<Rightarrow> string option \<Rightarrow> u16 option \<Rightarrow> replica" where
  "sample_row rid svc node port = \<lparr>replica_id = rid, replica_service = svc, node_id = node,
    slot = 1, address = None, overlay_port = port, last_error = None, evicted_at = None,
    reserved_host = None, memory_bytes = None, disk_bytes = None, replica_cpu = None,
    following = None, wal_held = None, placed_by = Some Person, placed_note = None\<rparr>"

theorem count_is_reached_densely_witness:
  "\<exists>new. ensure_count_where (\<lambda>_. Inr (None, Person, None) :: unit + _)
      (\<lambda>k. replicate k CHR ''x'') ''svc-1'' 3 [sample_row ''rp-old'' ''svc-1'' None None] =
      (Inr (rows_of_service ([sample_row ''rp-old'' ''svc-1'' None None] @ new) ''svc-1''),
           [sample_row ''rp-old'' ''svc-1'' None None] @ new) \<and> length new = 2"
proof -
  let ?rows = "[sample_row ''rp-old'' ''svc-1'' None None]"
  have "replica_table ?rows" by (simp add: replica_table_def)
  moreover have "replicate k CHR ''x'' \<noteq> ''old''" for k
    by (cases k) auto
  then have "fresh_ids (\<lambda>k. replicate k CHR ''x'') ?rows"
    by (auto simp: fresh_ids_def inj_on_def sample_row_def dest: arg_cong [of _ _ length])
  moreover have "length ?rows + unat (3 :: u32) < 2 ^ 32 - 1" by simp
  moreover have "length (rows_of_service ?rows ''svc-1'') = 1"
    by (simp add: length_rows_of_service sample_row_def)
  ultimately show ?thesis
    using count_is_reached_densely [of ?rows "\<lambda>k. replicate k CHR ''x''" 3
        "\<lambda>_. Inr (None, Person, None) :: unit + _" "''svc-1''"] by auto
qed


theorem moved_copy_keeps_a_foreign_port_witness:
  "\<not> ports_exclusive (move_to ''rp-b'' None [sample_row ''rp-a'' ''svc-1'' None (Some 30000),
      sample_row ''rp-b'' ''svc-2'' (Some ''nd-2'') (Some 30000)])"
proof -
  let ?rows = "[sample_row ''rp-a'' ''svc-1'' None (Some 30000),
      sample_row ''rp-b'' ''svc-2'' (Some ''nd-2'') (Some 30000)]"
  have "replica_table ?rows" by (simp add: replica_table_def sample_row_def)
  moreover have
    "replicas_find ?rows ''rp-b'' = Some (sample_row ''rp-b'' ''svc-2'' (Some ''nd-2'') (Some 30000))"
    "replicas_find ?rows ''rp-a'' = Some (sample_row ''rp-a'' ''svc-1'' None (Some 30000))"
    by (simp_all add: replicas_find_def sample_row_def)
  ultimately show ?thesis
    using moved_copy_keeps_a_foreign_port [of ?rows "''rp-b''" _ 30000 "''rp-a''"]
    by (simp add: sample_row_def is_here_def)
qed

end
