(* ===== verification/Rooms.thy ===== *)
theory Rooms
  imports Replicas "HOL-Library.Multiset"
begin

text \<open>
  What a machine may promise and where a copy goes: the reserves and the ladders of sizes
  (src/src/domain/policies/presets.rs, policies/disk.rs), the room of a node and the
  question whether a promise fits (infra/deploy/mod.rs), the nodes that may be asked
  (infra/network/mod.rs) and the scheduler over them (infra/deploy/planner.rs). Sentences
  shown to people are constructors that carry what they say; the readings of the machine's
  meters are parameters. The lemmas show what the arithmetic admits, that the scheduler's
  choice is the best one whatever order the nodes are listed in, and that it spreads.
\<close>

section \<open>Reserves and ladders (policies/presets.rs)\<close>

definition NODE_RESERVE_FRACTION :: u64 where "NODE_RESERVE_FRACTION = 15"
definition NODE_RESERVE_FLOOR :: u64 where "NODE_RESERVE_FLOOR = 256 * MB"
definition NODE_RESERVE_MILLICORES :: u32 where "NODE_RESERVE_MILLICORES = 250"

text \<open>The product is the plain one of a release build, which wraps.\<close>

definition default_memory_reserve :: "u64 \<Rightarrow> u64" where
  "default_memory_reserve whole = max (whole * NODE_RESERVE_FRACTION div 100) NODE_RESERVE_FLOOR"

definition allocatable_memory :: "u64 \<Rightarrow> u64 option \<Rightarrow> u64" where
  "allocatable_memory whole reserve =
    sat_sub whole (case reserve of Some r \<Rightarrow> r | None \<Rightarrow> default_memory_reserve whole)"

definition allocatable_cpu :: "u32 \<Rightarrow> u32 option \<Rightarrow> u32" where
  "allocatable_cpu whole reserve =
    sat_sub whole (case reserve of Some r \<Rightarrow> r | None \<Rightarrow> NODE_RESERVE_MILLICORES)"

definition CPU_LADDER :: "u32 list" where
  "CPU_LADDER = [250, 500, 1000, 2000, 3000, 4000]"

text \<open>\<open>0xBC\<close> and \<open>0xBD\<close> are the signs for a quarter and a half.\<close>

definition cpu_label :: "u32 \<Rightarrow> string" where
  "cpu_label m =
    (if m = 0 then ''no ceiling''
     else if m = 250 then CHR 0xBC # '' core''
     else if m = 500 then CHR 0xBD # '' core''
     else if m mod 1000 = 0 then
       (if m div 1000 = 1 then ''1 core'' else show_nat (unat (m div 1000)) @ '' cores'')
     else show_nat (unat m) @ ''m'')"

definition LADDER :: "u64 list" where
  "LADDER = [64 * MB, 128 * MB, 256 * MB, 512 * MB, 1024 * MB, 2048 * MB, 4096 * MB]"

definition presets_parse :: "string \<Rightarrow> string + u64 option" where
  "presets_parse text =
    (let text = trim text in
     if text = [] then Inr None
     else case parse_uint (2 ^ 64) text of
            None \<Rightarrow> Inl text
          | Some bytes \<Rightarrow> if of_nat bytes \<in> set LADDER then Inr (Some (of_nat bytes)) else Inl text)"

definition size_field :: "u64 \<Rightarrow> string" where
  "size_field bytes =
    (let gb = 1024 * MB in
     if bytes mod gb = 0 then show_nat (unat (bytes div gb)) @ '' GB''
     else if bytes mod MB = 0 then show_nat (unat (bytes div MB)) @ '' MB''
     else show_nat (unat bytes) @ '' B'')"

definition presets_label :: "u64 \<Rightarrow> string" where
  "presets_label bytes =
    (if 1024 * MB \<le> bytes then show_nat (unat (bytes div (1024 * MB))) @ '' GB''
     else show_nat (unat (bytes div MB)) @ '' MB'')"

definition shm_for :: "u64 \<Rightarrow> u64" where
  "shm_for ceiling = min (max (ceiling div 4) (16 * MB)) (512 * MB)"

definition FREE_FLOOR_PERCENT :: u64 where "FREE_FLOOR_PERCENT = 10"

definition nearly_full :: "u64 \<Rightarrow> u64 \<Rightarrow> bool" where
  "nearly_full whole available \<longleftrightarrow>
    0 < whole \<and> sat_mul available 100 < sat_mul whole FREE_FLOOR_PERCENT"

section \<open>Rooms (deploy/mod.rs)\<close>

record room =
  allocatable :: u64
  known :: bool
  committed :: u64
  already :: u64

text \<open>Who has how much to promise, what is promised already, and what is asked times how often.\<close>

datatype no_room = NoRoom string u64 u64 u64 u64

definition fits :: "room \<Rightarrow> u64 \<Rightarrow> u64 \<Rightarrow> string \<Rightarrow> no_room option" where
  "fits r wanted copies who =
    (if \<not> known r then None
     else let others = sat_sub (committed r) (sat_mul (already r) copies);
              after = sat_add others (sat_mul wanted copies) in
          if after \<le> allocatable r then None
          else Some (NoRoom who (allocatable r) others wanted copies))"

record capacity =
  memory_allocatable :: u64
  memory_committed :: u64
  cpu_allocatable :: u32
  cpu_committed :: u32
  cap_unbounded :: u32

record rooms =
  room_memory :: room
  room_cpu :: room

definition or_zero :: "'a::zero option \<Rightarrow> 'a" where
  "or_zero x = (case x of Some a \<Rightarrow> a | None \<Rightarrow> 0)"

definition rooms_reported :: "capacity \<Rightarrow> service \<Rightarrow> rooms" where
  "rooms_reported c s =
    \<lparr>room_memory = \<lparr>allocatable = memory_allocatable c, known = True,
        committed = memory_committed c, already = or_zero (memory_limit s)\<rparr>,
     room_cpu = \<lparr>allocatable = ucast (cpu_allocatable c), known = True,
        committed = ucast (cpu_committed c), already = ucast (or_zero (cpu_millicores s))\<rparr>\<rparr>"

definition rooms_admit :: "rooms \<Rightarrow> u64 option \<Rightarrow> u32 option \<Rightarrow> u64 \<Rightarrow> string \<Rightarrow> no_room option" where
  "rooms_admit self memory cpu copies who =
    (case (case memory of Some bytes \<Rightarrow> fits (room_memory self) bytes copies who | None \<Rightarrow> None) of
       Some refusal \<Rightarrow> Some refusal
     | None \<Rightarrow>
         (case cpu of
            None \<Rightarrow> None
          | Some millicores \<Rightarrow> fits (room_cpu self) (ucast millicores) copies who))"

record committed_sum =
  sum_memory :: u64
  sum_cpu :: u32
  sum_unbounded :: nat

definition commit_copy :: "service list \<Rightarrow> replica \<Rightarrow> committed_sum \<Rightarrow> committed_sum" where
  "commit_copy services r c =
    (case List.find (\<lambda>s. service_id s = replica_service r) services of
       None \<Rightarrow> c
     | Some s \<Rightarrow>
         let c = (case memory_limit s of
               Some bytes \<Rightarrow> c\<lparr>sum_memory := sum_memory c + bytes\<rparr>
             | None \<Rightarrow> c\<lparr>sum_unbounded := Suc (sum_unbounded c)\<rparr>)
         in (case cpu_millicores s of
               Some m \<Rightarrow> c\<lparr>sum_cpu := sum_cpu c + m\<rparr> | None \<Rightarrow> c))"

definition node_committed :: "service list \<Rightarrow> replica list \<Rightarrow> committed_sum" where
  "node_committed services rows =
    fold (commit_copy services) (filter (\<lambda>r. \<not> evicted r) (rows_here rows))
      \<lparr>sum_memory = 0, sum_cpu = 0, sum_unbounded = 0\<rparr>"

text \<open>The machine's own readings: its memory, its millicores and the operator's two reserves.\<close>

record meters =
  memory_total :: u64
  cores_millicores :: u32
  kept_memory :: "u64 option"
  kept_cpu :: "u32 option"

definition rooms_here :: "meters \<Rightarrow> service list \<Rightarrow> replica list \<Rightarrow> service \<Rightarrow> rooms" where
  "rooms_here m services rows s =
    (let c = node_committed services rows;
         cores = allocatable_cpu (cores_millicores m) (kept_cpu m) in
     \<lparr>room_memory = \<lparr>allocatable = allocatable_memory (memory_total m) (kept_memory m),
        known = 0 < memory_total m, committed = sum_memory c,
        already = or_zero (memory_limit s)\<rparr>,
      room_cpu = \<lparr>allocatable = ucast cores, known = 0 < cores, committed = ucast (sum_cpu c),
        already = ucast (or_zero (cpu_millicores s))\<rparr>\<rparr>)"

definition copies_here :: "replica list \<Rightarrow> service \<Rightarrow> u64" where
  "copies_here rows s = of_nat (max (length (filter (\<lambda>r. replica_service r = service_id s \<and>
      \<not> evicted r) (rows_here rows))) 1)"

definition copies_on :: "replica list \<Rightarrow> string \<Rightarrow> service \<Rightarrow> u64" where
  "copies_on rows node s = of_nat (max (length (filter (\<lambda>r. node_id r = Some node)
      (filter (\<lambda>r. replica_service r = service_id s \<and> \<not> evicted r) (rows_elsewhere rows)))) 1)"

section \<open>Nodes (network/mod.rs)\<close>

datatype node_kind = Public | Private

fun node_kind_as_str :: "node_kind \<Rightarrow> string" where
  "node_kind_as_str Public = ''public''" | "node_kind_as_str Private = ''private''"

definition node_kind_parse :: "string \<Rightarrow> node_kind" where
  "node_kind_parse text = (if text = ''public'' then Public else Private)"

interpretation node_kind: spelled node_kind_as_str node_kind_parse Private
proof
  show "node_kind_parse (node_kind_as_str e) = e" for e
    by (cases e) (simp_all add: node_kind_parse_def)
  show "node_kind_parse t = Private" if "t \<notin> range node_kind_as_str" for t
    using that rangeI [of node_kind_as_str Public] by (auto simp: node_kind_parse_def)
qed

text \<open>The columns of a node's row that placement reads, and when it was last heard from.\<close>

record node =
  nd_id :: string
  nd_name :: string
  nd_kind :: node_kind
  endpoint :: "string option"
  is_self :: bool
  last_seen_at :: "int option"
  allows :: "capability list"
  draining_at :: "int option"
  node_capacity :: "capacity option"

definition may_be_edge :: "node \<Rightarrow> bool" where
  "may_be_edge n \<longleftrightarrow> nd_kind n = Public \<and> endpoint n \<noteq> None"

definition nodes_all :: "node list \<Rightarrow> node list" where
  "nodes_all nodes = sort_key (\<lambda>n. (\<not> is_self n, nd_name n)) nodes"

definition candidates_for :: "grant_db \<Rightarrow> node list \<Rightarrow> capability \<Rightarrow> node list" where
  "candidates_for db nodes c =
    (let here = provides db c in
     filter (\<lambda>n. if is_self n then here else c \<in> set (allows n))
       (filter (\<lambda>n. \<not> needs_endpoint c \<or> may_be_edge n) (nodes_all nodes)))"

definition room_for_on :: "meters \<Rightarrow> service list \<Rightarrow> replica list \<Rightarrow> node option \<Rightarrow> service
    \<Rightarrow> u64 option \<Rightarrow> u32 option \<Rightarrow> no_room option" where
  "room_for_on m services rows target s memory cpu =
    (case (case target of Some n \<Rightarrow> if is_self n then None else Some n | None \<Rightarrow> None) of
       None \<Rightarrow> rooms_admit (rooms_here m services rows s) memory cpu (copies_here rows s) ''this node''
     | Some n \<Rightarrow>
         (case node_capacity n of
            None \<Rightarrow> None
          | Some c \<Rightarrow> rooms_admit (rooms_reported c s) memory cpu (copies_on rows (nd_id n) s)
              (nd_name n)))"

section \<open>The scheduler (deploy/planner.rs)\<close>

record candidate =
  cand_node :: "string option"
  cand_name :: string
  cand_rooms :: rooms
  of_this_service :: u32
  cand_replicas :: u32
  cand_unbounded :: u32
  evicted_here :: bool
  draining :: bool

record want =
  want_memory :: "u64 option"
  want_cpu :: "u32 option"
  spread_required :: bool

text \<open>The line on the row, with the node's name, its headroom and how many were looked at.\<close>

datatype why = NotRedundant string u64 | DoubledUp string u64 | OnlyOne string u64
  | MostRoom string nat u64

datatype reason = TakenOut string | ThrewOff string | Full no_room | NotOffered string

datatype nowhere = NobodyAgreed | Reasons "reason list" nat

datatype choice = Chosen "string option" why | Nowhere nowhere

definition headroom :: "candidate \<Rightarrow> u64" where
  "headroom c = sat_sub (allocatable (room_memory (cand_rooms c))) (committed (room_memory (cand_rooms c)))"

text \<open>\<open>std::cmp::Reverse\<close>: the same values in the opposite order.\<close>

datatype 'a reverse = Reverse (reversed: 'a)

instantiation reverse :: (linorder) linorder
begin
definition less_eq_reverse :: "'a reverse \<Rightarrow> 'a reverse \<Rightarrow> bool" where
  "less_eq_reverse a b \<longleftrightarrow> reversed b \<le> reversed a"
definition less_reverse :: "'a reverse \<Rightarrow> 'a reverse \<Rightarrow> bool" where
  "less_reverse a b \<longleftrightarrow> reversed b < reversed a"
instance
  by standard (auto simp: less_eq_reverse_def less_reverse_def reverse.expand)
end

definition node_key :: "candidate \<Rightarrow> string" where
  "node_key c = (case cand_node c of Some n \<Rightarrow> n | None \<Rightarrow> [])"

definition rank :: "candidate \<Rightarrow> u64 reverse \<times> u32 \<times> u32 \<times> string" where
  "rank c = (Reverse (headroom c), cand_replicas c, cand_unbounded c, node_key c)"

text \<open>\<open>Iterator::min_by_key\<close>: the first of the least elements.\<close>

fun min_by_key :: "('a \<Rightarrow> 'k::linorder) \<Rightarrow> 'a list \<Rightarrow> 'a option" where
  "min_by_key k [] = None"
| "min_by_key k (x # xs) =
    (case min_by_key k xs of None \<Rightarrow> Some x | Some y \<Rightarrow> Some (if k x \<le> k y then x else y))"

definition cand_admits :: "want \<Rightarrow> candidate \<Rightarrow> no_room option" where
  "cand_admits w c = rooms_admit (cand_rooms c) (want_memory w) (want_cpu w) 1 (cand_name c)"

definition usable :: "want \<Rightarrow> candidate \<Rightarrow> bool" where
  "usable w c \<longleftrightarrow> \<not> evicted_here c \<and> \<not> draining c \<and> cand_admits w c = None"

definition nowhere_for :: "candidate list \<Rightarrow> want \<Rightarrow> nowhere" where
  "nowhere_for candidates w =
    (if candidates = [] then NobodyAgreed
     else let reasons = map (\<lambda>c.
            if draining c then TakenOut (cand_name c)
            else if evicted_here c then ThrewOff (cand_name c)
            else case cand_admits w c of Some refusal \<Rightarrow> Full refusal
                 | None \<Rightarrow> NotOffered (cand_name c)) candidates
          in Reasons (take 3 reasons) (length reasons - 3))"

definition planner_choose :: "candidate list \<Rightarrow> want \<Rightarrow> choice" where
  "planner_choose candidates w =
    (let fit = filter (usable w) candidates;
         spread = filter (\<lambda>c. of_this_service c = 0) fit;
         (pool, doubled_up) = (if spread \<noteq> [] then (spread, False) else (fit, True)) in
     case min_by_key rank pool of
       None \<Rightarrow> Nowhere (nowhere_for candidates w)
     | Some best \<Rightarrow>
         Chosen (cand_node best)
           (if doubled_up then
              (if spread_required w then NotRedundant (cand_name best) (headroom best)
               else DoubledUp (cand_name best) (headroom best))
            else if length candidates = 1 then OnlyOne (cand_name best) (headroom best)
            else MostRoom (cand_name best) (length candidates) (headroom best)))"

text \<open>
  The nodes a copy could go on (\<open>Deployer::candidates\<close>), and the answer given for each new
  copy when the form says anywhere (features/services/set_service_placement_command.rs): the
  candidates were gathered once, the copies added since are counted back in. \<open>say\<close> writes
  the sentence.
\<close>

definition candidate_of :: "meters \<Rightarrow> service list \<Rightarrow> replica list \<Rightarrow> service \<Rightarrow> node
    \<Rightarrow> candidate option" where
  "candidate_of m services rows s n =
    (let held = (if is_self n then rows_here rows
                 else filter (\<lambda>r. node_id r = Some (nd_id n)) (rows_elsewhere rows));
         there = (if is_self n then None else Some (nd_id n)) in
     case (if is_self n then Some (rooms_here m services rows s)
           else map_option (\<lambda>c. rooms_reported c s) (node_capacity n)) of
       None \<Rightarrow> None
     | Some rs \<Rightarrow> Some \<lparr>cand_node = there, cand_name = nd_name n, cand_rooms = rs,
         of_this_service = of_nat (length (filter (\<lambda>r. replica_service r = service_id s) held)),
         cand_replicas = of_nat (length held),
         cand_unbounded =
           (if is_self n then
              let k = sum_unbounded (node_committed services rows) in
              if k < 2 ^ 32 then of_nat k else word_top
            else (case node_capacity n of Some c \<Rightarrow> cap_unbounded c | None \<Rightarrow> 0)),
         evicted_here = list_ex (\<lambda>r. evicted r \<and> node_id r = there)
           (rows_of_service rows (service_id s)),
         draining = (draining_at n \<noteq> None)\<rparr>)"

definition candidates_of :: "grant_db \<Rightarrow> node list \<Rightarrow> meters \<Rightarrow> service list \<Rightarrow> replica list
    \<Rightarrow> service \<Rightarrow> candidate list" where
  "candidates_of db nodes m services rows s =
    List.map_filter (candidate_of m services rows s)
      (candidates_for db nodes (placement_capability (service_kind s)))"

definition held_on :: "string \<Rightarrow> replica list \<Rightarrow> string option \<Rightarrow> u32" where
  "held_on svc existing node =
    of_nat (length (filter (\<lambda>r. node_id r = node)
      (filter (\<lambda>r. \<not> evicted r) (filter (\<lambda>r. replica_service r = svc) existing))))"

definition anywhere :: "(why \<Rightarrow> string) \<Rightarrow> candidate list \<Rightarrow> want \<Rightarrow> string \<Rightarrow> replica list
    \<Rightarrow> nowhere + string option \<times> placed \<times> string option" where
  "anywhere say candidates w svc existing =
    (case planner_choose (map (\<lambda>c. c\<lparr>of_this_service := held_on svc existing (cand_node c)\<rparr>) candidates) w of
       Chosen node because \<Rightarrow> Inr (node, PlannerPlaced, Some (say because))
     | Nowhere n \<Rightarrow> Inl n)"

section \<open>What fits\<close>

lemma sat_sub_mul_add:
  "unat (sat_add (sat_sub a (sat_mul b c)) (sat_mul d c)) =
    min (unat a - unat b * unat c + unat d * unat c) (2 ^ LENGTH('a) - 1)"
  for a b c d :: "'a::len word"
proof -
  have "min ((x - min p top) + min q top) top = min (x - p + q) top"
    if "x \<le> top" for x p q top :: nat
    using that by (auto simp: min_def)
  then show ?thesis
    using unat_below_top [of a] unfolding unat_sat_add unat_sat_sub unat_sat_mul by blast
qed

text \<open>The saturating arithmetic answers what the natural numbers answer.\<close>

lemma fits_exact:
  "fits r wanted copies who = None \<longleftrightarrow>
    (if known r then min (unat (committed r) - unat (already r) * unat copies +
        unat wanted * unat copies) (2 ^ 64 - 1) \<le> unat (allocatable r) else True)"
  by (simp add: fits_def Let_def word_le_nat_alt sat_sub_mul_add)

lemma fits_own_size:
  assumes "known r" "already r = wanted"
  shows "fits r wanted copies who = None \<longleftrightarrow>
    max (committed r) (sat_mul wanted copies) \<le> allocatable r"
proof -
  have "unat (sat_add (sat_sub (committed r) (sat_mul wanted copies)) (sat_mul wanted copies)) =
      unat (max (committed r) (sat_mul wanted copies))"
    using unat_below_top [of "committed r"] unat_below_top [of "sat_mul wanted copies"]
    by (simp add: unat_sat_add unat_sat_sub max_def word_le_nat_alt)
  then show ?thesis using assms by (simp add: fits_def Let_def word_le_nat_alt)
qed

lemma fits_who: "fits r wanted copies who = None \<longleftrightarrow> fits r wanted copies who' = None"
  by (simp add: fits_def Let_def)

lemma rooms_admit_None:
  "rooms_admit rs memory cpu copies who = None \<longleftrightarrow>
    (case memory of Some b \<Rightarrow> fits (room_memory rs) b copies who = None | None \<Rightarrow> True) \<and>
    (case cpu of Some m \<Rightarrow> fits (room_cpu rs) (ucast m) copies who = None | None \<Rightarrow> True)"
  by (auto simp: rooms_admit_def split: option.splits)

lemma sat_mul_1 [simp]: "sat_mul a 1 = a"
  by (simp add: sat_mul_def unat_below_exp)

lemma ucast_u32_le: "(ucast a :: u64) \<le> ucast b \<longleftrightarrow> a \<le> b" for a b :: u32
proof -
  have "unat (ucast x :: u64) = unat x" for x :: u32
    using unat_below_exp [of x] by (simp add: unsigned_ucast_eq take_bit_nat_eq_self)
  then show ?thesis by (simp add: word_le_nat_alt)
qed

text \<open>The question the scheduler and a choice of node by hand ask another machine
  about one copy more never counts that copy: the service's own ceiling is taken off what
  the machine has promised before it is put back, whether or not the machine holds one.
  It is admitted exactly when what is promised already fits and the copy alone would fit on
  an empty machine.\<close>

theorem a_new_copy_is_not_counted:
  "rooms_admit (rooms_reported c s) (memory_limit s) (cpu_millicores s) 1 who = None \<longleftrightarrow>
    (case memory_limit s of None \<Rightarrow> True
     | Some m \<Rightarrow> max (memory_committed c) m \<le> memory_allocatable c) \<and>
    (case cpu_millicores s of None \<Rightarrow> True
     | Some m \<Rightarrow> max (cpu_committed c) m \<le> cpu_allocatable c)"
proof -
  have m: "fits (room_memory (rooms_reported c s)) m 1 who = None \<longleftrightarrow>
      max (memory_committed c) m \<le> memory_allocatable c" if "memory_limit s = Some m" for m
    using that by (subst fits_own_size) (simp_all add: rooms_reported_def or_zero_def)
  have cpu: "fits (room_cpu (rooms_reported c s)) (ucast m) 1 who = None \<longleftrightarrow>
      max (cpu_committed c) m \<le> cpu_allocatable c" if "cpu_millicores s = Some m" for m
    using that by (subst fits_own_size)
      (simp_all add: rooms_reported_def or_zero_def ucast_u32_le)
  show ?thesis
    unfolding rooms_admit_None using m cpu by (simp split: option.splits)
qed

section \<open>The scheduler's choice\<close>

lemma min_by_key_None [simp]: "min_by_key k xs = None \<longleftrightarrow> xs = []"
  by (cases xs) (auto split: option.splits)

lemma min_by_key_Some:
  "min_by_key k xs = Some x \<Longrightarrow> x \<in> set xs \<and> (\<forall>y\<in>set xs. k x \<le> k y)"
proof (induction xs arbitrary: x)
  case (Cons a xs)
  show ?case
  proof (cases "min_by_key k xs")
    case None
    with Cons.prems show ?thesis by simp
  next
    case (Some y)
    with Cons.IH [of y] Cons.prems show ?thesis
      by (auto split: if_splits intro: order_trans)
  qed
qed simp

definition planner_pool :: "want \<Rightarrow> candidate list \<Rightarrow> candidate list" where
  "planner_pool w cands =
    (if filter (\<lambda>c. of_this_service c = 0) (filter (usable w) cands) \<noteq> []
     then filter (\<lambda>c. of_this_service c = 0) (filter (usable w) cands)
     else filter (usable w) cands)"

lemma planner_pool_Nil: "planner_pool w cands = [] \<longleftrightarrow> filter (usable w) cands = []"
  by (auto simp: planner_pool_def filter_empty_conv)

lemma planner_chosen:
  assumes "planner_choose cands w = Chosen node because"
  obtains best where "best \<in> set (planner_pool w cands)"
    "\<And>d. d \<in> set (planner_pool w cands) \<Longrightarrow> rank best \<le> rank d" "node = cand_node best"
    "because = (if filter (\<lambda>c. of_this_service c = 0) (filter (usable w) cands) = [] then
        if spread_required w then NotRedundant (cand_name best) (headroom best)
        else DoubledUp (cand_name best) (headroom best)
      else if length cands = 1 then OnlyOne (cand_name best) (headroom best)
      else MostRoom (cand_name best) (length cands) (headroom best))"
proof (cases "min_by_key rank (planner_pool w cands)")
  case None
  then show ?thesis
    using assms by (auto simp: planner_choose_def planner_pool_def Let_def split: if_splits)
next
  case (Some best)
  then show ?thesis
    using assms min_by_key_Some [OF Some] that [of best]
    by (auto simp: planner_choose_def planner_pool_def Let_def split: if_splits)
qed

lemma planner_nowhere:
  "planner_choose cands w = Nowhere n \<Longrightarrow> filter (usable w) cands = []"
  by (auto simp: planner_choose_def Let_def split: if_splits option.splits)

lemma planner_best:
  "case planner_choose cands w of
     Chosen node because \<Rightarrow> \<exists>c\<in>set cands. usable w c \<and> cand_node c = node \<and>
       (if of_this_service c = 0
        then {d \<in> set cands. usable w d \<and> of_this_service d = 0} \<subseteq> {d. rank c \<le> rank d}
        else {d \<in> set cands. usable w d} \<subseteq> {d. of_this_service d \<noteq> 0 \<and> rank c \<le> rank d})
   | Nowhere n \<Rightarrow> filter (usable w) cands = []"
proof (cases "planner_choose cands w")
  case (Chosen node because)
  obtain best where best: "best \<in> set (planner_pool w cands)"
    "\<And>d. d \<in> set (planner_pool w cands) \<Longrightarrow> rank best \<le> rank d" "node = cand_node best"
    using planner_chosen [OF Chosen] by metis
  show ?thesis
  proof (cases "filter (\<lambda>c. of_this_service c = 0) (filter (usable w) cands) = []")
    case True
    then show ?thesis
      using best Chosen by (force simp: planner_pool_def filter_empty_conv)
  next
    case False
    then show ?thesis
      using best Chosen by (force simp: planner_pool_def)
  qed
next
  case (Nowhere n)
  then show ?thesis using planner_nowhere by simp
qed


text \<open>Two passes over the same nodes agree, in whatever order the rows came:
  where no two nodes share an id, the choice and the reason on the row depend on the nodes
  and not on how they are listed.\<close>

theorem planner_ignores_the_order:
  assumes same: "mset cands = mset cands'" and ids: "inj_on node_key (set cands)"
    and chosen: "planner_choose cands w = Chosen node because"
  shows "planner_choose cands' w = Chosen node because"
proof -
  have sets: "set cands' = set cands" and len: "length cands' = length cands"
    using mset_eq_setD [OF same] mset_eq_length [OF same] by simp_all
  have spread: "filter (\<lambda>c. of_this_service c = 0) (filter (usable w) cands') = [] \<longleftrightarrow>
      filter (\<lambda>c. of_this_service c = 0) (filter (usable w) cands) = []"
    by (simp add: filter_empty_conv sets)
  then have pools: "set (planner_pool w cands') = set (planner_pool w cands)"
    by (simp add: planner_pool_def sets)
  obtain best where best: "best \<in> set (planner_pool w cands)"
    "\<And>d. d \<in> set (planner_pool w cands) \<Longrightarrow> rank best \<le> rank d" "node = cand_node best"
    "because = (if filter (\<lambda>c. of_this_service c = 0) (filter (usable w) cands) = [] then
        if spread_required w then NotRedundant (cand_name best) (headroom best)
        else DoubledUp (cand_name best) (headroom best)
      else if length cands = 1 then OnlyOne (cand_name best) (headroom best)
      else MostRoom (cand_name best) (length cands) (headroom best))"
    using planner_chosen [OF chosen] by (metis (no_types, lifting))
  have "planner_pool w cands' \<noteq> []" using best(1) pools by auto
  then obtain node' because' where chosen': "planner_choose cands' w = Chosen node' because'"
    using planner_nowhere [of cands' w] planner_pool_Nil [of w cands']
    by (cases "planner_choose cands' w") auto
  obtain best' where best': "best' \<in> set (planner_pool w cands')"
    "\<And>d. d \<in> set (planner_pool w cands') \<Longrightarrow> rank best' \<le> rank d" "node' = cand_node best'"
    "because' = (if filter (\<lambda>c. of_this_service c = 0) (filter (usable w) cands') = [] then
        if spread_required w then NotRedundant (cand_name best') (headroom best')
        else DoubledUp (cand_name best') (headroom best')
      else if length cands' = 1 then OnlyOne (cand_name best') (headroom best')
      else MostRoom (cand_name best') (length cands') (headroom best'))"
    using planner_chosen [OF chosen'] by (metis (no_types, lifting))
  have "rank best = rank best'"
    using best(1,2) best'(1,2) pools by (blast intro: order_antisym)
  then have "node_key best = node_key best'" by (simp add: rank_def)
  moreover have "best \<in> set cands" "best' \<in> set cands"
    using best(1) best'(1) sets by (auto simp: planner_pool_def split: if_splits)
  ultimately have "best' = best" using ids by (metis inj_onD)
  then show ?thesis using chosen' best(3,4) best'(3,4) spread len by simp
qed

section \<open>Copies placed anywhere are spread\<close>

lemma usable_any_spread [simp]: "usable w (c\<lparr>of_this_service := k\<rparr>) = usable w c"
  by (simp add: usable_def cand_admits_def)

lemma anywhere_Inr:
  assumes "anywhere say cands w svc existing = Inr (node, who, why)"
  shows "who = PlannerPlaced \<and> (\<exists>c\<in>set cands. usable w c \<and> cand_node c = node \<and>
    (held_on svc existing node = 0 \<or>
     (\<forall>d\<in>set cands. usable w d \<longrightarrow> held_on svc existing (cand_node d) \<noteq> 0)))"
proof -
  let ?now = "map (\<lambda>c. c\<lparr>of_this_service := held_on svc existing (cand_node c)\<rparr>) cands"
  obtain because where chosen: "planner_choose ?now w = Chosen node because" "who = PlannerPlaced"
    using assms by (auto simp: anywhere_def split: choice.splits)
  obtain c where c: "c \<in> set ?now" "usable w c" "cand_node c = node"
    "if of_this_service c = 0
     then {d \<in> set ?now. usable w d \<and> of_this_service d = 0} \<subseteq> {d. rank c \<le> rank d}
     else {d \<in> set ?now. usable w d} \<subseteq> {d. of_this_service d \<noteq> 0 \<and> rank c \<le> rank d}"
    using planner_best [of ?now w] unfolding chosen(1) choice.case by blast
  then obtain c0 where c0: "c0 \<in> set cands"
      "c = c0\<lparr>of_this_service := held_on svc existing (cand_node c0)\<rparr>" by auto
  have "held_on svc existing (cand_node d) \<noteq> 0"
    if "held_on svc existing node \<noteq> 0" "d \<in> set cands" "usable w d" for d
    using c(3,4) c0(2) that by auto
  then show ?thesis using chosen(2) c(2,3) c0 by auto
qed

definition spread_in_turn :: "candidate list \<Rightarrow> want \<Rightarrow> string \<Rightarrow> replica list \<Rightarrow> replica list \<Rightarrow> bool" where
  "spread_in_turn cands w svc rows new \<longleftrightarrow> (\<forall>i<length new.
    let held = held_on svc (rows_of_service (rows @ take i new) svc) in
    placed_by (new ! i) = Some PlannerPlaced \<and>
    (\<exists>c\<in>set cands. usable w c \<and> cand_node c = node_id (new ! i) \<and>
      (held (node_id (new ! i)) = 0 \<or>
       (\<forall>d\<in>set cands. usable w d \<longrightarrow> held (cand_node d) \<noteq> 0))))"

text \<open>Property C38. A service placed anywhere spreads: every copy the form adds is the
  scheduler's and goes to a usable node, and to one that already runs a copy of the service
  only when, at that moment, every usable node does. The copies there were stay, and those
  placed before a refusal stay as well.\<close>

theorem anywhere_spreads:
  "\<exists>new. snd (ensure_count_where (anywhere say cands w svc) gen svc wanted rows) = rows @ new \<and>
    spread_in_turn cands w svc rows new"
proof -
  obtain new where new:
    "snd (ensure_count_where (anywhere say cands w svc) gen svc wanted rows) = rows @ new"
    "\<forall>i<length new. replica_service (new ! i) = svc \<and> (\<exists>who. placed_by (new ! i) = Some who \<and>
      anywhere say cands w svc (rows_of_service (rows @ take i new) svc) =
        Inr (node_id (new ! i), who, placed_note (new ! i)))"
    using ensure_count_where_shape by blast
  then have "spread_in_turn cands w svc rows new"
    using anywhere_Inr unfolding spread_in_turn_def by (fastforce simp: Let_def)
  with new(1) show ?thesis by blast
qed

section \<open>The theorems at concrete nodes\<close>

definition sample_candidate :: "string option \<Rightarrow> u64 \<Rightarrow> candidate" where
  "sample_candidate node promised = \<lparr>cand_node = node, cand_name = ''node'',
    cand_rooms = \<lparr>room_memory = \<lparr>allocatable = 1000, known = True, committed = promised, already = 0\<rparr>,
      room_cpu = \<lparr>allocatable = 1000, known = True, committed = 0, already = 0\<rparr>\<rparr>,
    of_this_service = 0, cand_replicas = 1, cand_unbounded = 0, evicted_here = False,
    draining = False\<rparr>"

theorem planner_ignores_the_order_witness:
  "planner_choose [sample_candidate None 300, sample_candidate (Some ''nd-2'') 100]
      \<lparr>want_memory = Some 200, want_cpu = None, spread_required = False\<rparr> =
    Chosen (Some ''nd-2'') (MostRoom ''node'' 2 900)"
proof -
  have "planner_choose [sample_candidate (Some ''nd-2'') 100, sample_candidate None 300]
      \<lparr>want_memory = Some 200, want_cpu = None, spread_required = False\<rparr> =
    Chosen (Some ''nd-2'') (MostRoom ''node'' 2 900)"
    by (simp add: planner_choose_def usable_def cand_admits_def rooms_admit_def fits_def
        sample_candidate_def Let_def sat_add_def sat_sub_def sat_mul_def rank_def headroom_def
        less_eq_reverse_def less_reverse_def)
  then show ?thesis
    by (rule planner_ignores_the_order [rotated 2])
      (simp_all add: sample_candidate_def node_key_def)
qed

end
