(* ===== verification/Estate.thy ===== *)
theory Estate
  imports Projects Rooms
begin

text \<open>
  The rows of the node put together: the projects with their people, the organisations
  (src/src/infra/repositories/tenants.rs), the services (infra/repositories/services.rs)
  and their copies, as one state. Generated ids and the clock are parameters, a unique
  index refusing a row is the sentence the code makes of it. The lemmas show what deleting
  and creating keep: every row still points at a row that is there.
\<close>

record tenant =
  tenant_id :: string
  tenant_name :: string
  tenant_slug :: string
  tenant_domain :: "string option"
  quota_memory :: "u64 option"
  quota_cpu :: "u32 option"
  quota_disk :: "u64 option"
  tenant_created :: int

text \<open>An invitation row here is its id and the organisation it invites into.\<close>

record estate =
  org :: org_db
  tenant_rows :: "tenant list"
  service_rows :: "service list"
  replica_rows :: "replica list"
  invitation_rows :: "(string \<times> string option) list"

datatype estate_refusal =
    BadTenantName | NoTenantSlug | TenantNameTaken string | StillOwns nat
  | BadImage image_refusal | ServiceNameTaken string | NoSuchProject
  | TooSmall u64 | TooFewMillicores u32 | DiskTooSmall | NotATag string | Database

section \<open>Organisations (repositories/tenants.rs)\<close>

definition tenants_create :: "string \<Rightarrow> int \<Rightarrow> string \<Rightarrow> estate \<Rightarrow> (estate_refusal + tenant) \<times> estate" where
  "tenants_create generated now name e =
    (let name = trim name in
     if name = [] \<or> length name > 60 then (Inl BadTenantName, e)
     else let slug = slug_of name in
       if slug = [] then (Inl NoTenantSlug, e)
       else let row = \<lparr>tenant_id = ''tnt-'' @ generated, tenant_name = name, tenant_slug = slug,
              tenant_domain = None, quota_memory = None, quota_cpu = None, quota_disk = None,
              tenant_created = now\<rparr>
         in if list_ex (\<lambda>t. tenant_id t = tenant_id row \<or>
                 lowercase (tenant_slug t) = lowercase slug) (tenant_rows e)
            then (Inl (TenantNameTaken name), e)
            else (Inr row, e\<lparr>tenant_rows := tenant_rows e @ [row]\<rparr>))"

definition tenants_all :: "estate \<Rightarrow> tenant list" where
  "tenants_all e = sort_key tenant_created (tenant_rows e)"

definition tenants_find :: "estate \<Rightarrow> string \<Rightarrow> tenant option" where
  "tenants_find e k = List.find (\<lambda>t. tenant_id t = k \<or> tenant_slug t = k) (tenant_rows e)"

definition tenants_by_domain :: "estate \<Rightarrow> string \<Rightarrow> tenant option" where
  "tenants_by_domain e domain =
    (let domain = lowercase (trim domain) in
     List.find (\<lambda>t. map_option lowercase (tenant_domain t) = Some domain) (tenant_rows e))"

definition update_tenant :: "string \<Rightarrow> (tenant \<Rightarrow> tenant) \<Rightarrow> estate \<Rightarrow> estate" where
  "update_tenant tid f e =
    e\<lparr>tenant_rows := map (\<lambda>t. if tenant_id t = tid then f t else t) (tenant_rows e)\<rparr>"

definition set_tenant_domain :: "string \<Rightarrow> string option \<Rightarrow> estate \<Rightarrow> estate" where
  "set_tenant_domain tid domain =
    (let domain = map_option (\<lambda>d. lowercase (trim d)) domain;
         stored = (case domain of Some d \<Rightarrow> if d = [] then None else Some d | None \<Rightarrow> None)
     in update_tenant tid (\<lambda>t. t\<lparr>tenant_domain := stored\<rparr>))"

definition set_quota :: "string \<Rightarrow> u64 option \<Rightarrow> u32 option \<Rightarrow> u64 option \<Rightarrow> estate \<Rightarrow> estate" where
  "set_quota tid memory cpu disk =
    update_tenant tid (\<lambda>t. t\<lparr>quota_memory := memory, quota_cpu := cpu, quota_disk := disk\<rparr>)"

text \<open>Memberships go with the account they belong to (\<open>ON DELETE CASCADE\<close>).\<close>

definition tenants_delete :: "string \<Rightarrow> estate \<Rightarrow> (estate_refusal + unit) \<times> estate" where
  "tenants_delete tid e =
    (let held = length (of_tenant (org e) tid) in
     if held > 0 then (Inl (StillOwns held), e)
     else let gone = map account_id (filter (\<lambda>a. account_tenant a = Some tid) (accounts (org e))) in
       (Inr (), e\<lparr>
          invitation_rows := filter (\<lambda>i. snd i \<noteq> Some tid) (invitation_rows e),
          org := (org e)\<lparr>accounts := filter (\<lambda>a. account_tenant a \<noteq> Some tid) (accounts (org e)),
            memberships := delete_where (\<lambda>k _. fst k \<in> set gone) (memberships (org e))\<rparr>,
          tenant_rows := filter (\<lambda>t. tenant_id t \<noteq> tid) (tenant_rows e)\<rparr>))"

section \<open>Services (repositories/services.rs)\<close>

definition services_all :: "estate \<Rightarrow> string option \<Rightarrow> service list" where
  "services_all e filter_by =
    (case filter_by of
       Some project \<Rightarrow> sort_key service_slug (filter (\<lambda>s. service_project s = project) (service_rows e))
     | None \<Rightarrow> sort_key (\<lambda>s. (service_project s, service_slug s)) (service_rows e))"

definition services_find :: "estate \<Rightarrow> string \<Rightarrow> service option" where
  "services_find e sid = List.find (\<lambda>s. service_id s = sid) (service_rows e)"

definition in_project :: "estate \<Rightarrow> string \<Rightarrow> string \<Rightarrow> service option" where
  "in_project e project slug =
    List.find (\<lambda>s. service_project s = project \<and> service_slug s = slug) (service_rows e)"

definition update_service :: "string \<Rightarrow> (service \<Rightarrow> service) \<Rightarrow> estate \<Rightarrow> estate" where
  "update_service sid f e =
    e\<lparr>service_rows := map (\<lambda>s. if service_id s = sid then f s else s) (service_rows e)\<rparr>"

definition service_set_image :: "string \<Rightarrow> string \<Rightarrow> estate \<Rightarrow> (estate_refusal + unit) \<times> estate" where
  "service_set_image sid typed e =
    (case image_parse typed of
       Inl r \<Rightarrow> (Inl (BadImage r), e)
     | Inr img \<Rightarrow> (Inr (), update_service sid (\<lambda>s. s\<lparr>service_image := img\<rparr>) e))"

definition service_set_origin :: "string \<Rightarrow> string \<Rightarrow> estate \<Rightarrow> estate" where
  "service_set_origin sid node = update_service sid (\<lambda>s. s\<lparr>service_origin := Some node\<rparr>)"

definition service_set_desired :: "string \<Rightarrow> desired_state \<Rightarrow> estate \<Rightarrow> estate" where
  "service_set_desired sid state = update_service sid (\<lambda>s. s\<lparr>desired := state\<rparr>)"

definition service_set_error :: "string \<Rightarrow> string option \<Rightarrow> estate \<Rightarrow> estate" where
  "service_set_error sid error = update_service sid (\<lambda>s. s\<lparr>service_error := error\<rparr>)"

definition set_tracking :: "string \<Rightarrow> string option \<Rightarrow> bool \<Rightarrow> estate \<Rightarrow> (estate_refusal + unit) \<times> estate" where
  "set_tracking sid watched auto e =
    (let refused = (case map_option trim watched of
           Some t \<Rightarrow> if t \<noteq> [] \<and> CHR ''*'' \<in> set t \<and> t \<noteq> ''*'' then Some t else None
         | None \<Rightarrow> None)
     in case refused of
          Some t \<Rightarrow> (Inl (NotATag t), e)
        | None \<Rightarrow> (Inr (), update_service sid (\<lambda>s. s\<lparr>track_tag := watched, auto_deploy := auto\<rparr>) e))"

definition service_set_kind :: "string \<Rightarrow> kind \<Rightarrow> estate \<Rightarrow> estate" where
  "service_set_kind sid k = update_service sid (\<lambda>s. s\<lparr>service_kind := k\<rparr>)"

definition MIN_MEMORY :: u64 where "MIN_MEMORY = 6 * MB"
definition MIN_MILLICORES :: u32 where "MIN_MILLICORES = 100"

definition set_memory_limit :: "string \<Rightarrow> u64 option \<Rightarrow> estate \<Rightarrow> (estate_refusal + unit) \<times> estate" where
  "set_memory_limit sid bytes e =
    (case bytes of
       Some b \<Rightarrow> if b < MIN_MEMORY then (Inl (TooSmall b), e)
         else (Inr (), update_service sid (\<lambda>s. s\<lparr>memory_limit := bytes\<rparr>) e)
     | None \<Rightarrow> (Inr (), update_service sid (\<lambda>s. s\<lparr>memory_limit := bytes\<rparr>) e))"

definition set_cpu_limit :: "string \<Rightarrow> u32 option \<Rightarrow> estate \<Rightarrow> (estate_refusal + unit) \<times> estate" where
  "set_cpu_limit sid m e =
    (case m of
       Some k \<Rightarrow> if k < MIN_MILLICORES then (Inl (TooFewMillicores k), e)
         else (Inr (), update_service sid (\<lambda>s. s\<lparr>cpu_millicores := m\<rparr>) e)
     | None \<Rightarrow> (Inr (), update_service sid (\<lambda>s. s\<lparr>cpu_millicores := m\<rparr>) e))"

definition set_disk_limit :: "string \<Rightarrow> u64 option \<Rightarrow> estate \<Rightarrow> (estate_refusal + unit) \<times> estate" where
  "set_disk_limit sid bytes e =
    (case bytes of
       Some b \<Rightarrow> if b < MIN_MEMORY then (Inl DiskTooSmall, e)
         else (Inr (), update_service sid (\<lambda>s. s\<lparr>disk_limit := bytes\<rparr>) e)
     | None \<Rightarrow> (Inr (), update_service sid (\<lambda>s. s\<lparr>disk_limit := bytes\<rparr>) e))"

definition set_log_budget :: "string \<Rightarrow> u64 option \<Rightarrow> estate \<Rightarrow> estate" where
  "set_log_budget sid bytes = update_service sid (\<lambda>s. s\<lparr>log_budget := bytes\<rparr>)"

definition set_log_timestamps :: "string \<Rightarrow> bool \<Rightarrow> estate \<Rightarrow> estate" where
  "set_log_timestamps sid on = update_service sid (\<lambda>s. s\<lparr>log_timestamps := on\<rparr>)"

definition service_set_env :: "string \<Rightarrow> (string \<Rightarrow> string option) \<Rightarrow> estate \<Rightarrow> estate" where
  "service_set_env sid env = update_service sid (\<lambda>s. s\<lparr>service_env := env\<rparr>)"

text \<open>The copies of a service go with its row (\<open>ON DELETE CASCADE\<close>).\<close>

definition service_delete :: "string \<Rightarrow> estate \<Rightarrow> estate" where
  "service_delete sid e = e\<lparr>
    service_rows := filter (\<lambda>s. service_id s \<noteq> sid) (service_rows e),
    replica_rows := filter (\<lambda>r. replica_service r \<noteq> sid) (replica_rows e)\<rparr>"

definition create_on :: "string \<Rightarrow> (nat \<Rightarrow> string) \<Rightarrow> string \<Rightarrow> string \<Rightarrow> string
    \<Rightarrow> (string \<times> string) list \<Rightarrow> string option \<Rightarrow> estate \<Rightarrow> (estate_refusal + service) \<times> estate" where
  "create_on generated gen project name typed env first_on e =
    (case service_new generated project name typed env of
       Inl r \<Rightarrow> (Inl (BadImage r), e)
     | Inr s \<Rightarrow>
         if list_ex (\<lambda>t. service_id t = service_id s \<or>
              service_project t = project \<and> service_slug t = service_slug s) (service_rows e)
         then (Inl (ServiceNameTaken (service_name s)), e)
         else if \<not> list_ex (\<lambda>p. project_id p = project) (projects (org e)) then (Inl NoSuchProject, e)
         else let e = e\<lparr>service_rows := service_rows e @ [s]\<rparr> in
           (case (case first_on of
                None \<Rightarrow> ensure_here gen (replica_rows e) (service_id s) 1
              | Some node \<Rightarrow> ensure_count gen (service_id s) 1 (Some node) (replica_rows e)) of
              (Inl _, rows) \<Rightarrow> (Inl Database, e\<lparr>replica_rows := rows\<rparr>)
            | (Inr _, rows) \<Rightarrow> (Inr s, e\<lparr>replica_rows := rows\<rparr>)))"

section \<open>Projects, with what hangs off them\<close>

text \<open>The services of a project, and their copies, go with its row.\<close>

definition estate_project_delete :: "string \<Rightarrow> estate \<Rightarrow> estate" where
  "estate_project_delete pid e =
    (let gone = map service_id (filter (\<lambda>s. service_project s = pid) (service_rows e)) in
     e\<lparr>org := project_delete pid (org e),
       service_rows := filter (\<lambda>s. service_project s \<noteq> pid) (service_rows e),
       replica_rows := filter (\<lambda>r. replica_service r \<notin> set gone) (replica_rows e)\<rparr>)"

text \<open>
  Everything that writes these tables, as one step. Where the code writes a key of another
  table the foreign key is the guard: the step on an unknown row does nothing.
\<close>

datatype service_edit =
    Image string | Origin string | Wish desired_state | Note "string option"
  | Track "string option" bool | AsKind kind | Memory "u64 option" | Cpu "u32 option"
  | Disk "u64 option" | Budget "u64 option" | Timestamps bool | Env "string \<Rightarrow> string option"

fun edit_service :: "string \<Rightarrow> service_edit \<Rightarrow> estate \<Rightarrow> estate" where
  "edit_service sid (Image typed) e = snd (service_set_image sid typed e)"
| "edit_service sid (Origin n) e = service_set_origin sid n e"
| "edit_service sid (Wish d) e = service_set_desired sid d e"
| "edit_service sid (Note x) e = service_set_error sid x e"
| "edit_service sid (Track t on) e = snd (set_tracking sid t on e)"
| "edit_service sid (AsKind k) e = service_set_kind sid k e"
| "edit_service sid (Memory b) e = snd (set_memory_limit sid b e)"
| "edit_service sid (Cpu m) e = snd (set_cpu_limit sid m e)"
| "edit_service sid (Disk b) e = snd (set_disk_limit sid b e)"
| "edit_service sid (Budget b) e = set_log_budget sid b e"
| "edit_service sid (Timestamps on) e = set_log_timestamps sid on e"
| "edit_service sid (Env v) e = service_set_env sid v e"

datatype replica_edit =
    Move "string option" placed "string option" | At "string option" | OnPort "u16 option"
  | Uses "u64 option" | Keeps "u64 option" | Spends "u32 option" | Failed "string option"
  | Follows bool u64 | Evicted int | NewPort | Gone

fun edit_replica :: "string \<Rightarrow> replica_edit \<Rightarrow> replica list \<Rightarrow> replica list" where
  "edit_replica rid (Move n who why) rows = move_to_by rid n who why rows"
| "edit_replica rid (At a) rows = set_address rid a rows"
| "edit_replica rid (OnPort p) rows = set_overlay_port rid p rows"
| "edit_replica rid (Uses b) rows = set_memory rid b rows"
| "edit_replica rid (Keeps b) rows = set_disk rid b rows"
| "edit_replica rid (Spends m) rows = set_cpu rid m rows"
| "edit_replica rid (Failed x) rows = set_last_error rid x rows"
| "edit_replica rid (Follows f h) rows = set_following rid f h rows"
| "edit_replica rid (Evicted now) rows = evict rid now rows"
| "edit_replica rid NewPort rows =
    (case ensure_overlay_port rows rid of Inr (_, rows') \<Rightarrow> rows' | Inl _ \<Rightarrow> rows)"
| "edit_replica rid Gone rows = replicas_remove rid rows"

datatype 'e estate_step =
    MakeTenant string int string | DropTenant string | TenantDomain string "string option"
  | TenantQuota string "u64 option" "u32 option" "u64 option"
  | MakeProject string int bool string string | DropProject string
  | Grant int string string project_role | Revoke string string
  | MakeService string "nat \<Rightarrow> string" string string string "(string \<times> string) list" "string option"
  | DropService string | EditService string service_edit
  | Fill "replica list \<Rightarrow> 'e + string option \<times> placed \<times> string option" "nat \<Rightarrow> string" string u32
  | EditReplica string replica_edit

fun estate_do :: "'e estate_step \<Rightarrow> estate \<Rightarrow> estate" where
  "estate_do (MakeTenant generated now name) e = snd (tenants_create generated now name e)"
| "estate_do (DropTenant tid) e = snd (tenants_delete tid e)"
| "estate_do (TenantDomain tid d) e = set_tenant_domain tid d e"
| "estate_do (TenantQuota tid m c d) e = set_quota tid m c d e"
| "estate_do (MakeProject generated now node_owns name aid) e =
    (case List.find (\<lambda>a. account_id a = aid) (accounts (org e)) of
       Some creator \<Rightarrow> e\<lparr>org := snd (create_project generated now node_owns name creator (org e))\<rparr>
     | None \<Rightarrow> e)"
| "estate_do (DropProject pid) e = estate_project_delete pid e"
| "estate_do (Grant now aid pid r) e =
    (if aid \<in> account_id ` set (accounts (org e)) \<and> pid \<in> project_id ` set (projects (org e))
     then e\<lparr>org := access_grant now aid pid r (org e)\<rparr> else e)"
| "estate_do (Revoke aid pid) e = e\<lparr>org := snd (access_revoke aid pid (org e))\<rparr>"
| "estate_do (MakeService generated gen project name typed env first_on) e =
    snd (create_on generated gen project name typed env first_on e)"
| "estate_do (DropService sid) e = service_delete sid e"
| "estate_do (EditService sid edit) e = edit_service sid edit e"
| "estate_do (Fill ask gen sid wanted) e =
    (if sid \<in> service_id ` set (service_rows e)
     then e\<lparr>replica_rows := snd (ensure_count_where ask gen sid wanted (replica_rows e))\<rparr> else e)"
| "estate_do (EditReplica rid edit) e = e\<lparr>replica_rows := edit_replica rid edit (replica_rows e)\<rparr>"

section \<open>Every row points at a row that is there\<close>

definition org_whole :: "org_db \<Rightarrow> bool" where
  "org_whole db \<longleftrightarrow>
    distinct (map project_id (projects db)) \<and> distinct (map project_slug (projects db)) \<and>
    distinct (map account_id (accounts db)) \<and> well_keyed (memberships db) \<and>
    fst ` set (memberships db) \<subseteq> account_id ` set (accounts db) \<times> project_id ` set (projects db)"

definition estate_whole :: "estate \<Rightarrow> bool" where
  "estate_whole e \<longleftrightarrow>
    org_whole (org e) \<and> distinct (map tenant_id (tenant_rows e)) \<and>
    distinct (map service_id (service_rows e)) \<and>
    distinct (map (\<lambda>s. (service_project s, service_slug s)) (service_rows e)) \<and>
    replica_table (replica_rows e) \<and>
    project_tenant ` set (projects (org e)) \<union> account_tenant ` set (accounts (org e)) \<union>
      snd ` set (invitation_rows e) \<subseteq> insert None (Some ` tenant_id ` set (tenant_rows e)) \<and>
    service_project ` set (service_rows e) \<subseteq> project_id ` set (projects (org e)) \<and>
    replica_service ` set (replica_rows e) \<subseteq> service_id ` set (service_rows e)"

lemma estate_wholeI:
  assumes "org_whole (org e)" "distinct (map tenant_id (tenant_rows e))"
    "distinct (map service_id (service_rows e))"
    "distinct (map (\<lambda>s. (service_project s, service_slug s)) (service_rows e))"
    "replica_table (replica_rows e)"
    "project_tenant ` set (projects (org e)) \<subseteq> insert None (Some ` tenant_id ` set (tenant_rows e))"
    "account_tenant ` set (accounts (org e)) \<subseteq> insert None (Some ` tenant_id ` set (tenant_rows e))"
    "snd ` set (invitation_rows e) \<subseteq> insert None (Some ` tenant_id ` set (tenant_rows e))"
    "service_project ` set (service_rows e) \<subseteq> project_id ` set (projects (org e))"
    "replica_service ` set (replica_rows e) \<subseteq> service_id ` set (service_rows e)"
  shows "estate_whole e"
  using assms by (simp add: estate_whole_def)

lemma estate_wholeD:
  assumes "estate_whole e"
  shows "org_whole (org e)" "distinct (map tenant_id (tenant_rows e))"
    "distinct (map service_id (service_rows e))"
    "distinct (map (\<lambda>s. (service_project s, service_slug s)) (service_rows e))"
    "replica_table (replica_rows e)"
    "project_tenant ` set (projects (org e)) \<subseteq> insert None (Some ` tenant_id ` set (tenant_rows e))"
    "account_tenant ` set (accounts (org e)) \<subseteq> insert None (Some ` tenant_id ` set (tenant_rows e))"
    "snd ` set (invitation_rows e) \<subseteq> insert None (Some ` tenant_id ` set (tenant_rows e))"
    "service_project ` set (service_rows e) \<subseteq> project_id ` set (projects (org e))"
    "replica_service ` set (replica_rows e) \<subseteq> service_id ` set (service_rows e)"
  using assms by (simp_all add: estate_whole_def)

lemma left_by_cascade:
  "x \<in> f ` set xs \<Longrightarrow> x \<notin> f ` set (filter P xs) \<Longrightarrow> x \<in> f ` set (filter (\<lambda>y. \<not> P y) xs)"
  by auto

lemma subset_left:
  assumes "f ` set xs \<subseteq> insert None (Some ` tenant_id ` set ts)"
    and "\<And>x. x \<in> set xs \<Longrightarrow> P x \<Longrightarrow> f x \<noteq> Some tid"
  shows "f ` set (filter P xs) \<subseteq>
    insert None (Some ` tenant_id ` set (filter (\<lambda>t. tenant_id t \<noteq> tid) ts))"
proof (rule image_subsetI)
  fix x
  assume "x \<in> set (filter P xs)"
  then have x: "x \<in> set xs" "f x \<noteq> Some tid" using assms(2) by auto
  with assms(1) have "f x \<in> insert None (Some ` tenant_id ` set ts)" by blast
  with x(2) show "f x \<in> insert None (Some ` tenant_id ` set (filter (\<lambda>t. tenant_id t \<noteq> tid) ts))"
    by auto
qed

text \<open>Only the keys matter: rows rewritten with their keys kept leave the estate whole.\<close>

lemma map_kept: "(\<And>x. f (g x) = f x) \<Longrightarrow> map f (map g xs) = map f xs"
  by simp

lemma whole_keys:
  assumes "estate_whole e" "org e' = org e" "replica_rows e' = replica_rows e"
    "invitation_rows e' = invitation_rows e"
    "map tenant_id (tenant_rows e') = map tenant_id (tenant_rows e)"
    "map service_id (service_rows e') = map service_id (service_rows e)"
    "map (\<lambda>s. (service_project s, service_slug s)) (service_rows e') =
     map (\<lambda>s. (service_project s, service_slug s)) (service_rows e)"
  shows "estate_whole e'"
proof -
  have "tenant_id ` set (tenant_rows e') = tenant_id ` set (tenant_rows e)"
    "service_id ` set (service_rows e') = service_id ` set (service_rows e)"
    using arg_cong [OF assms(5), of set] arg_cong [OF assms(6), of set] by simp_all
  moreover have "service_project ` set (service_rows e') = service_project ` set (service_rows e)"
    using arg_cong [OF assms(7), of "\<lambda>ps. fst ` set ps"] by (simp add: image_image)
  ultimately show ?thesis using assms unfolding estate_whole_def by simp
qed

lemma whole_update_tenant:
  assumes "estate_whole e" "\<And>t. tenant_id (f t) = tenant_id t"
  shows "estate_whole (update_tenant tid f e)"
  by (rule whole_keys [OF assms(1)]) (simp_all add: update_tenant_def assms(2))

lemma whole_update_service:
  assumes "estate_whole e" "\<And>s. service_id (f s) = service_id s"
    "\<And>s. service_project (f s) = service_project s" "\<And>s. service_slug (f s) = service_slug s"
  shows "estate_whole (update_service sid f e)"
  by (rule whole_keys [OF assms(1)]) (simp_all add: update_service_def assms(2-4))

lemma whole_edit_service: "estate_whole e \<Longrightarrow> estate_whole (edit_service sid edit e)"
proof (cases edit)
  case (Image t)
  then show "estate_whole e \<Longrightarrow> ?thesis"
    by (auto simp: service_set_image_def intro!: whole_update_service split: sum.splits)
next
  case (Track t on)
  then show "estate_whole e \<Longrightarrow> ?thesis"
    by (auto simp: set_tracking_def Let_def intro!: whole_update_service split: option.splits)
next
  case (Memory b)
  then show "estate_whole e \<Longrightarrow> ?thesis"
    by (auto simp: set_memory_limit_def intro!: whole_update_service split: option.splits)
next
  case (Cpu m)
  then show "estate_whole e \<Longrightarrow> ?thesis"
    by (auto simp: set_cpu_limit_def intro!: whole_update_service split: option.splits)
next
  case (Disk b)
  then show "estate_whole e \<Longrightarrow> ?thesis"
    by (auto simp: set_disk_limit_def intro!: whole_update_service split: option.splits)
qed (simp_all add: whole_update_service service_set_origin_def service_set_desired_def
    service_set_error_def service_set_kind_def set_log_budget_def set_log_timestamps_def
    service_set_env_def)

lemma table_edit_replica:
  assumes "replica_table rows"
  shows "replica_table (edit_replica rid edit rows) \<and>
    replica_service ` set (edit_replica rid edit rows) \<subseteq> replica_service ` set rows"
proof -
  have kept: "replica_table (update_row rid f rows) \<and>
      replica_service ` set (update_row rid f rows) \<subseteq> replica_service ` set rows"
    if "\<And>r. replica_id (f r) = replica_id r \<and> replica_service (f r) = replica_service r \<and> slot (f r) = slot r"
    for f
    using update_row_keeps_table [OF assms that] that by (auto simp: update_row_def)
  have "replica_table (set_overlay_port rid p rows) \<and>
      replica_service ` set (set_overlay_port rid p rows) \<subseteq> replica_service ` set rows" for p
    unfolding set_overlay_port_def by (rule kept) simp
  then have port: "replica_table (edit_replica rid NewPort rows) \<and>
      replica_service ` set (edit_replica rid NewPort rows) \<subseteq> replica_service ` set rows"
    using assms by (auto simp: ensure_overlay_port_def split: option.splits sum.splits)
  show ?thesis
  proof (cases edit)
    case NewPort
    with port show ?thesis by simp
  next
    case Gone
    then show ?thesis
      using assms by (auto simp: replicas_remove_def replica_table_def distinct_map_filter)
  qed (simp_all add: kept move_to_by_def set_address_def set_overlay_port_def set_memory_def
      set_disk_def set_cpu_def set_last_error_def set_following_def evict_def)
qed

lemma place_by_keeps:
  assumes "replica_table rows" "place_by g rows svc node n who why = Inr (row, rows')"
  shows "replica_table rows' \<and> replica_service ` set rows' \<subseteq> insert svc (replica_service ` set rows)"
  using place_by_table [OF assms] place_by_Inr(1,2) [OF assms(2)] by simp

lemma table_fill:
  "replica_table rows \<Longrightarrow>
    replica_table (snd (ensure_count_where ask gen svc wanted rows)) \<and>
    replica_service ` set (snd (ensure_count_where ask gen svc wanted rows)) \<subseteq>
      insert svc (replica_service ` set rows)"
proof (induction ask gen svc wanted rows rule: ensure_count_where.induct)
  case (1 ask gen svc wanted rows)
  show ?case
  proof (subst (1 2) ensure_count_where.simps,
      clarsimp simp: Let_def 1(2) subset_insertI split: sum.splits prod.splits, intro conjI)
    fix node who why row rows'
    assume a: "\<not> wanted \<le> word_of_nat (length (rows_of_service rows svc))"
      "ask (rows_of_service rows svc) = Inr (node, who, why)"
      "place_by (gen (length rows)) rows svc node (word_of_nat (free_slot rows svc)) who why =
        (Inr (row, rows') :: 'a row_error + replica \<times> replica list)"
    have kept: "replica_table rows'" "replica_service ` set rows' \<subseteq> insert svc (replica_service ` set rows)"
      using place_by_keeps [OF 1(2) a(3)] by blast+
    note rest = 1(1) [OF refl a(1,2) refl refl a(3) refl kept(1)]
    show "replica_table (snd (ensure_count_where ask gen svc wanted rows'))"
      "replica_service ` set (snd (ensure_count_where ask gen svc wanted rows'))
        \<subseteq> insert svc (replica_service ` set rows)"
      using rest kept(2) by blast+
  qed
qed

lemma table_place_missing:
  fixes res :: "'e row_error + unit"
  assumes "replica_table rows" "place_missing gen existing svc ns rows = (res, rows')"
  shows "replica_table rows' \<and>
    replica_service ` set rows' \<subseteq> insert svc (replica_service ` set rows)"
  using assms
proof (induction ns arbitrary: rows)
  case (Cons n ns)
  show ?case
  proof (cases "list_ex (\<lambda>r. slot r = n) existing")
    case True
    with Cons show ?thesis by simp
  next
    case False
    show ?thesis
    proof (cases "place (gen (length rows)) rows svc None n :: 'e row_error + replica \<times> replica list")
      case (Inl x)
      with False Cons.prems show ?thesis by auto
    next
      case (Inr p)
      obtain row more where p: "p = (row, more)" by (cases p)
      have placed: "place_by (gen (length rows)) rows svc None n Person None =
          (Inr (row, more) :: 'e row_error + replica \<times> replica list)"
        using Inr p by (simp add: place_def)
      have kept: "replica_table more" "replica_service ` set more \<subseteq> insert svc (replica_service ` set rows)"
        using place_by_keeps [OF Cons.prems(1) placed] by blast+
      have "place_missing gen existing svc ns more = (res, rows')"
        using Cons.prems(2) False Inr p by simp
      from Cons.IH [OF kept(1) this] kept(2) show ?thesis by blast
    qed
  qed
qed auto

lemma table_ensure_here:
  fixes res :: "'e row_error + replica list"
  assumes "replica_table rows" "ensure_here gen rows svc k = (res, rows')"
  shows "replica_table rows' \<and>
    replica_service ` set rows' \<subseteq> insert svc (replica_service ` set rows)"
proof -
  obtain out :: "'e row_error + unit" where "place_missing gen (rows_of_service rows svc) svc
      (map of_nat [1..<Suc (unat k)]) rows = (out, rows')"
    using assms(2) unfolding ensure_here_def ensure_slots_def
    by (auto split: prod.splits sum.splits)
  from table_place_missing [OF assms(1) this] show ?thesis .
qed

lemma whole_create_on:
  assumes "estate_whole e"
  shows "estate_whole (snd (create_on generated gen project name typed env first_on e))"
proof (cases "service_new generated project name typed env")
  case (Inl r)
  then show ?thesis using assms by (simp add: create_on_def)
next
  case (Inr s)
  have project: "service_project s = project"
    using Inr by (auto simp: service_new_def Let_def split: if_splits sum.splits)
  let ?clash = "list_ex (\<lambda>t. service_id t = service_id s \<or>
      service_project t = project \<and> service_slug t = service_slug s) (service_rows e)"
  let ?known = "list_ex (\<lambda>p. project_id p = project) (projects (org e))"
  let ?e = "e\<lparr>service_rows := service_rows e @ [s]\<rparr>"
  show ?thesis
  proof (cases "?clash \<or> \<not> ?known")
    case True
    then show ?thesis using assms Inr by (auto simp: create_on_def)
  next
    case False
    obtain res rows where filled: "(case first_on of
          None \<Rightarrow> ensure_here gen (replica_rows e) (service_id s) 1
        | Some node \<Rightarrow> ensure_count gen (service_id s) 1 (Some node) (replica_rows e)) = (res, rows)"
      by (meson surj_pair)
    have table: "replica_table (replica_rows e)" using assms by (simp add: estate_whole_def)
    have kept: "replica_table rows \<and>
        replica_service ` set rows \<subseteq> insert (service_id s) (replica_service ` set (replica_rows e))"
    proof (cases first_on)
      case None
      with filled table_ensure_here [OF table] show ?thesis by simp
    next
      case (Some node)
      with filled table_fill [OF table, of "\<lambda>_. Inr (Some node, Person, None) :: unit + _" gen "service_id s" 1]
      show ?thesis by (simp add: ensure_count_def)
    qed
    let ?after = "?e\<lparr>replica_rows := rows\<rparr>"
    have after: "snd (create_on generated gen project name typed env first_on e) =
        ?e\<lparr>replica_rows := rows\<rparr>"
      using Inr False filled
      by (cases first_on; cases res) (simp_all add: create_on_def Let_def)
    have fresh: "service_id s \<notin> service_id ` set (service_rows e)"
      "(project, service_slug s) \<notin> (\<lambda>s. (service_project s, service_slug s)) ` set (service_rows e)"
      "project \<in> project_id ` set (projects (org e))"
      using False by (auto simp: list_ex_iff)
    have more: "replica_table rows" "replica_service ` set rows \<subseteq>
        insert (service_id s) (service_id ` set (service_rows e))"
      using kept estate_wholeD(10) [OF assms] by blast+
    note w = estate_wholeD [OF assms]
    have "distinct (map service_id (service_rows e @ [s]))"
      "distinct (map (\<lambda>s. (service_project s, service_slug s)) (service_rows e @ [s]))"
      "service_project ` set (service_rows e @ [s]) \<subseteq> project_id ` set (projects (org e))"
      "replica_service ` set rows \<subseteq> service_id ` set (service_rows e @ [s])"
      using w(3,4,9) fresh more(2) project by simp_all
    note facts = this more(1) w(1,2,6,7,8)
    have "org ?after = org e" "tenant_rows ?after = tenant_rows e" "replica_rows ?after = rows"
      "service_rows ?after = service_rows e @ [s]" "invitation_rows ?after = invitation_rows e"
      by simp_all
    note columns = this
    show ?thesis unfolding after
      by (rule estate_wholeI; unfold columns; rule facts)
  qed
qed

lemma whole_service_delete: "estate_whole e \<Longrightarrow> estate_whole (service_delete sid e)"
  by (auto simp: estate_whole_def service_delete_def distinct_map_filter replica_table_def)

lemma whole_project_delete:
  assumes "estate_whole e"
  shows "estate_whole (estate_project_delete pid e)"
proof -
  note w = estate_wholeD [OF assms]
  let ?org = "project_delete pid (org e)"
  let ?gone = "filter (\<lambda>s. service_project s = pid) (service_rows e)"
  let ?kept = "filter (\<lambda>s. service_project s \<noteq> pid) (service_rows e)"
  let ?copies = "filter (\<lambda>r. replica_service r \<notin> set (map service_id ?gone)) (replica_rows e)"
  have "org_whole ?org"
    using w(1) by (force simp: org_whole_def project_delete_def distinct_map_filter set_delete_where)
  moreover have "project_tenant ` set (projects ?org) \<subseteq> insert None (Some ` tenant_id ` set (tenant_rows e))"
    "account_tenant ` set (accounts ?org) \<subseteq> insert None (Some ` tenant_id ` set (tenant_rows e))"
    using w(6,7) by (auto simp: project_delete_def)
  moreover have "service_project ` set ?kept \<subseteq> project_id ` set (projects ?org)"
    using w(9) by (force simp: project_delete_def)
  moreover have "replica_service ` set ?copies \<subseteq> service_id ` set ?kept"
  proof
    fix x
    assume "x \<in> replica_service ` set ?copies"
    then obtain r where "r \<in> set (replica_rows e)" "x = replica_service r" "x \<notin> service_id ` set ?gone"
      by auto
    note r = this
    with w(10) have "x \<in> service_id ` set (service_rows e)" by blast
    then show "x \<in> service_id ` set ?kept" using r(3) by (rule left_by_cascade)
  qed
  moreover have "replica_table ?copies"
    using w(5) by (simp add: replica_table_def distinct_map_filter)
  moreover have "distinct (map service_id ?kept)"
    "distinct (map (\<lambda>s. (service_project s, service_slug s)) ?kept)"
    using w(3,4) by (simp_all add: distinct_map_filter)
  note facts = calculation this w(2,8)
  let ?after = "estate_project_delete pid e"
  have "org ?after = ?org" "tenant_rows ?after = tenant_rows e" "replica_rows ?after = ?copies"
    "service_rows ?after = ?kept" "invitation_rows ?after = invitation_rows e"
    by (simp_all add: estate_project_delete_def Let_def)
  note columns = this
  show ?thesis
    by (rule estate_wholeI; unfold columns; rule facts)
qed

lemma whole_tenants_create: "estate_whole e \<Longrightarrow> estate_whole (snd (tenants_create generated now name e))"
  by (auto simp: estate_whole_def tenants_create_def Let_def list_ex_iff)

lemma whole_tenants_delete:
  assumes "estate_whole e"
  shows "estate_whole (snd (tenants_delete tid e))"
proof (cases "of_tenant (org e) tid = []")
  case False
  then show ?thesis using assms by (simp add: tenants_delete_def Let_def)
next
  case True
  then have "set (of_tenant (org e) tid) = {}" by simp
  then have "project_tenant p \<noteq> Some tid" if "p \<in> set (projects (org e))" for p
    using that unfolding of_tenant_def set_sort by auto
  note w = estate_wholeD [OF assms] and free = this
  let ?gone = "set (map account_id (filter (\<lambda>a. account_tenant a = Some tid) (accounts (org e))))"
  let ?org = "(org e)\<lparr>accounts := filter (\<lambda>a. account_tenant a \<noteq> Some tid) (accounts (org e)),
      memberships := delete_where (\<lambda>k _. fst k \<in> ?gone) (memberships (org e))\<rparr>"
  let ?left = "insert None (Some ` tenant_id ` set (filter (\<lambda>t. tenant_id t \<noteq> tid) (tenant_rows e)))"
  have "fst ` set (memberships ?org) \<subseteq>
      account_id ` set (accounts ?org) \<times> project_id ` set (projects ?org)"
  proof -
    have "(a, p) \<in> account_id ` set (accounts ?org) \<times> project_id ` set (projects ?org)"
      if "((a, p), r) \<in> set (memberships (org e))" "a \<notin> ?gone" for a p r
    proof -
      have "a \<in> account_id ` set (accounts (org e))" "p \<in> project_id ` set (projects (org e))"
        using w(1) that(1) unfolding org_whole_def by force+
      with that(2) left_by_cascade [of a account_id "accounts (org e)"
          "\<lambda>a. account_tenant a = Some tid"] show ?thesis by simp
    qed
    then show ?thesis by (force simp: set_delete_where)
  qed
  then have "org_whole ?org"
    using w(1) by (simp add: org_whole_def distinct_map_filter)
  moreover have "project_tenant ` set (projects ?org) \<subseteq> ?left"
    using subset_left [OF w(6), of "\<lambda>_. True"] free by simp
  moreover have "account_tenant ` set (accounts ?org) \<subseteq> ?left"
    using subset_left [OF w(7), of "\<lambda>a. account_tenant a \<noteq> Some tid"] by simp
  moreover have "snd ` set (filter (\<lambda>i. snd i \<noteq> Some tid) (invitation_rows e)) \<subseteq> ?left"
    by (rule subset_left [OF w(8)]) simp
  moreover have "distinct (map tenant_id (filter (\<lambda>t. tenant_id t \<noteq> tid) (tenant_rows e)))"
    using w(2) by (simp add: distinct_map_filter)
  moreover have "service_project ` set (service_rows e) \<subseteq> project_id ` set (projects ?org)"
    using w(9) by simp
  note facts = calculation this w(3,4,5,10)
  let ?after = "snd (tenants_delete tid e)"
  have "org ?after = ?org" "service_rows ?after = service_rows e" "replica_rows ?after = replica_rows e"
    "tenant_rows ?after = filter (\<lambda>t. tenant_id t \<noteq> tid) (tenant_rows e)"
    "invitation_rows ?after = filter (\<lambda>i. snd i \<noteq> Some tid) (invitation_rows e)"
    using True by (simp_all add: tenants_delete_def Let_def)
  note columns = this
  show ?thesis
    by (rule estate_wholeI; unfold columns; rule facts)
qed

lemma whole_grant:
  assumes "org_whole db" "aid \<in> account_id ` set (accounts db)" "pid \<in> project_id ` set (projects db)"
  shows "org_whole (access_grant now aid pid r db)"
  using assms unfolding org_whole_def access_grant_def dom_map_of_conv_image_fst [symmetric]
  by (simp add: update_conv')

lemma whole_revoke: "org_whole db \<Longrightarrow> org_whole (snd (access_revoke aid pid db))"
  unfolding org_whole_def access_revoke_def dom_map_of_conv_image_fst [symmetric]
  by (auto simp: Let_def delete_conv' distinct_delete)

lemma whole_create_project:
  assumes "estate_whole e" "creator \<in> set (accounts (org e))"
  shows "estate_whole (e\<lparr>org := snd (create_project generated now node_owns name creator (org e))\<rparr>)"
proof (cases "create_project generated now node_owns name creator (org e)")
  case (Pair res db)
  show ?thesis
  proof (cases res)
    case (Inl x)
    then have "db = org e"
      using Pair by (auto simp: create_project_def create_for_def Let_def split: if_splits option.splits)
    then show ?thesis using assms(1) Pair by simp
  next
    case (Inr p)
    let ?row = "\<lparr>project_id = ''prj-'' @ generated, project_name = trim name,
      project_slug = slug_of (trim name), created_at = now, origin_node_id = None,
      project_tenant = account_tenant creator, network_index = None, registry_domain = None\<rparr>"
    obtain row where row: "projects_insert row (org e) =
        Some ((org e)\<lparr>projects := projects (org e) @ [row]\<rparr>)"
      "project_id p = project_id row" "project_tenant row = account_tenant creator"
      "db = access_grant now (account_id creator) (project_id p) Owner
        ((org e)\<lparr>projects := projects (org e) @ [row]\<rparr>)"
      using Pair Inr that [of ?row]
      by (auto simp: create_project_def create_for_def Let_def projects_insert_def
          decode_project_def project.defs split: if_splits option.splits prod.splits)
    let ?db = "(org e)\<lparr>projects := projects (org e) @ [row]\<rparr>"
    note w = estate_wholeD [OF assms(1)]
    have "org_whole ?db"
      using w(1) row(1) by (auto simp: org_whole_def projects_insert_def list_ex_iff split: if_splits)
    then have "org_whole db"
      unfolding row(4) using assms(2) row(2) by (intro whole_grant) auto
    moreover have "projects db = projects (org e) @ [row]" "accounts db = accounts (org e)"
      unfolding row(4) by (simp_all add: access_grant_def)
    moreover have "account_tenant creator \<in> insert None (Some ` tenant_id ` set (tenant_rows e))"
      using w(7) assms(2) by blast
    ultimately show ?thesis
      using w row(3) Pair unfolding estate_whole_def by auto
  qed
qed

lemma whole_replicas:
  assumes "estate_whole e" "replica_table rows"
    "replica_service ` set rows \<subseteq> service_id ` set (service_rows e)"
  shows "estate_whole (e\<lparr>replica_rows := rows\<rparr>)"
  using assms unfolding estate_whole_def by simp

lemma whole_estate_do: "estate_whole e \<Longrightarrow> estate_whole (estate_do step e)"
proof (cases step)
  case (MakeProject generated now node_owns name aid)
  assume e: "estate_whole e"
  show ?thesis
  proof (cases "List.find (\<lambda>a. account_id a = aid) (accounts (org e))")
    case None
    with e MakeProject show ?thesis by simp
  next
    case (Some creator)
    then have "creator \<in> set (accounts (org e))" by (auto simp: find_Some_iff)
    from whole_create_project [OF e this] Some MakeProject show ?thesis by simp
  qed
next
  case (Grant now aid pid r)
  assume e: "estate_whole e"
  show ?thesis
  proof (cases "aid \<in> account_id ` set (accounts (org e)) \<and> pid \<in> project_id ` set (projects (org e))")
    case True
    with e Grant whole_grant [OF estate_wholeD(1) [OF e], of aid pid now r] show ?thesis
      by (simp add: estate_whole_def access_grant_def)
  next
    case False
    with e Grant show ?thesis by auto
  qed
next
  case (Revoke aid pid)
  assume e: "estate_whole e"
  have "projects (snd (access_revoke aid pid (org e))) = projects (org e)"
    "accounts (snd (access_revoke aid pid (org e))) = accounts (org e)"
    by (simp_all add: access_revoke_def Let_def)
  with e Revoke whole_revoke [OF estate_wholeD(1) [OF e], of aid pid] show ?thesis
    by (simp add: estate_whole_def)
next
  case (Fill ask gen sid wanted)
  assume e: "estate_whole e"
  note w = estate_wholeD [OF e]
  show ?thesis
  proof (cases "sid \<in> service_id ` set (service_rows e)")
    case True
    have "replica_service ` set (snd (ensure_count_where ask gen sid wanted (replica_rows e)))
        \<subseteq> service_id ` set (service_rows e)"
      using table_fill [OF w(5), of ask gen sid wanted] w(10) True by blast
    with table_fill [OF w(5), of ask gen sid wanted] e True Fill show ?thesis
      by (simp add: whole_replicas)
  next
    case False
    with e Fill show ?thesis by simp
  qed
next
  case (EditReplica rid edit)
  assume e: "estate_whole e"
  note w = estate_wholeD [OF e]
  have "replica_service ` set (edit_replica rid edit (replica_rows e)) \<subseteq> service_id ` set (service_rows e)"
    using table_edit_replica [OF w(5), of rid edit] w(10) by blast
  with table_edit_replica [OF w(5), of rid edit] e EditReplica show ?thesis
    by (simp add: whole_replicas)
qed (simp_all add: whole_tenants_create whole_tenants_delete whole_update_tenant
    set_tenant_domain_def Let_def set_quota_def whole_project_delete whole_create_on
    whole_service_delete whole_edit_service)



end
