(* ===== verification/Quotas.thy ===== *)
theory Quotas
  imports Estate
begin

text \<open>
  What an organisation has undertaken over all its copies, and whether it may undertake more
  (src/src/infra/deploy/quotas.rs), with the two commands that ask: the resources form
  (features/services/set_service_resources_command.rs), whose typed sizes arrive here parsed,
  and the placement form's question (set_service_placement_command.rs). The lemmas show that
  a change of ceiling never takes a tenant over its quota, and that a change of count is not
  held against it.
\<close>

section \<open>The sum\<close>

record charged_sum =
  ch_memory :: u64
  ch_cpu :: u32
  ch_disk :: u64
  ch_unbounded :: nat

definition live_copies :: "estate \<Rightarrow> string \<Rightarrow> nat" where
  "live_copies e sid = length (filter (\<lambda>r. \<not> evicted r) (rows_of_service (replica_rows e) sid))"

text \<open>The memory sum is the plain addition of a release build; the others saturate.\<close>

definition charge_service :: "estate \<Rightarrow> service \<Rightarrow> charged_sum \<Rightarrow> charged_sum" where
  "charge_service e s c =
    (let copies = of_nat (live_copies e (service_id s)) :: u64;
         c = (case memory_limit s of
               Some bytes \<Rightarrow> c\<lparr>ch_memory := ch_memory c + sat_mul bytes copies\<rparr>
             | None \<Rightarrow> c\<lparr>ch_unbounded := Suc (ch_unbounded c)\<rparr>);
         c = (case cpu_millicores s of
               Some m \<Rightarrow> c\<lparr>ch_cpu := sat_add (ch_cpu c) (sat_mul m (ucast copies))\<rparr>
             | None \<Rightarrow> c)
     in (case disk_limit s of
           Some bytes \<Rightarrow> c\<lparr>ch_disk := sat_add (ch_disk c) (sat_mul bytes copies)\<rparr>
         | None \<Rightarrow> c))"

definition charged :: "estate \<Rightarrow> string \<Rightarrow> charged_sum" where
  "charged e t =
    fold (\<lambda>p. fold (charge_service e) (services_all e (Some (project_id p)))) (of_tenant (org e) t)
      \<lparr>ch_memory = 0, ch_cpu = 0, ch_disk = 0, ch_unbounded = 0\<rparr>"

section \<open>The question\<close>

definition quota_rooms :: "estate \<Rightarrow> project \<Rightarrow> service \<Rightarrow> (rooms \<times> string) option" where
  "quota_rooms e p s =
    (case project_tenant p of
       None \<Rightarrow> None
     | Some t \<Rightarrow>
         (case tenants_find e t of
            None \<Rightarrow> None
          | Some tn \<Rightarrow>
              (let c = charged e t in
               Some (\<lparr>room_memory = \<lparr>allocatable = or_zero (quota_memory tn),
                        known = (quota_memory tn \<noteq> None), committed = ch_memory c,
                        already = or_zero (memory_limit s)\<rparr>,
                      room_cpu = \<lparr>allocatable = ucast (or_zero (quota_cpu tn)),
                        known = (quota_cpu tn \<noteq> None), committed = ucast (ch_cpu c),
                        already = ucast (or_zero (cpu_millicores s))\<rparr>\<rparr>, tenant_name tn))))"

definition limitless :: "estate \<Rightarrow> project \<Rightarrow> service \<Rightarrow> string option" where
  "limitless e p changing =
    (case project_tenant p of
       None \<Rightarrow> None
     | Some t \<Rightarrow> find_map (\<lambda>p. map_option service_slug
           (List.find (\<lambda>s. service_id s \<noteq> service_id changing \<and> memory_limit s = None)
              (services_all e (Some (project_id p))))) (of_tenant (org e) t))"

datatype quota_refusal = NeedsCeiling string string | OverQuota no_room

definition quotas_admit :: "estate \<Rightarrow> project \<Rightarrow> service \<Rightarrow> u64 option \<Rightarrow> u32 option \<Rightarrow> u64 option
    \<Rightarrow> u64 \<Rightarrow> quota_refusal option" where
  "quotas_admit e p s memory cpu disk copies =
    (case quota_rooms e p s of
       None \<Rightarrow> None
     | Some (rs, name) \<Rightarrow>
         (let gives_itself_one = (memory \<noteq> None \<and> memory_limit s = None);
              offender = (if (known (room_memory rs) \<or> known (room_cpu rs)) \<and> \<not> gives_itself_one
                          then limitless e p s else None) in
          case offender of
            Some slug \<Rightarrow> Some (NeedsCeiling name slug)
          | None \<Rightarrow>
              (case rooms_admit rs memory cpu copies name of
                 Some refusal \<Rightarrow> Some (OverQuota refusal)
               | None \<Rightarrow>
                   (case disk of
                      None \<Rightarrow> None
                    | Some wanted \<Rightarrow>
                        (case Option.bind (project_tenant p) (tenants_find e) of
                           None \<Rightarrow> None
                         | Some tn \<Rightarrow>
                             map_option OverQuota (fits
                               \<lparr>allocatable = or_zero (quota_disk tn), known = (quota_disk tn \<noteq> None),
                                committed = ch_disk (charged e (the (project_tenant p))),
                                already = or_zero (disk_limit s)\<rparr> wanted copies name))))))"

section \<open>The two forms\<close>

text \<open>The three writes of the resources form all run; the first that failed is the answer.\<close>

datatype resource_refusal =
    MysqlFloor | Quota quota_refusal | NodeFull no_room | NotStored estate_refusal

definition set_service_resources :: "meters \<Rightarrow> project \<Rightarrow> service \<Rightarrow> u64 option \<Rightarrow> u32 option
    \<Rightarrow> u64 option \<Rightarrow> estate \<Rightarrow> (resource_refusal + service) \<times> estate" where
  "set_service_resources mt p s memory cpu disk e =
    (if service_kind s = MysqlKind \<and> (case memory of Some b \<Rightarrow> b < engine_floor Mysql | None \<Rightarrow> False)
     then (Inl MysqlFloor, e)
     else
       (let copies = of_nat (max (live_copies e (service_id s)) 1) in
        case quotas_admit e p s memory cpu disk copies of
          Some refusal \<Rightarrow> (Inl (Quota refusal), e)
        | None \<Rightarrow>
            (case room_for_on mt (services_all e None) (replica_rows e) None s memory cpu of
               Some refusal \<Rightarrow> (Inl (NodeFull refusal), e)
             | None \<Rightarrow>
                 (let (memory_set, e) = set_memory_limit (service_id s) memory e;
                      (cpu_set, e) = set_cpu_limit (service_id s) cpu e;
                      (disk_set, e) = set_disk_limit (service_id s) disk e in
                  case find_map (\<lambda>r. case r of Inl x \<Rightarrow> Some x | Inr _ \<Rightarrow> None)
                         [memory_set, cpu_set, disk_set] of
                    Some x \<Rightarrow> (Inl (NotStored x), e)
                  | None \<Rightarrow>
                      (Inr (case services_find e (service_id s) of Some s' \<Rightarrow> s' | None \<Rightarrow> s), e)))))"

definition placement_quota :: "estate \<Rightarrow> project \<Rightarrow> service \<Rightarrow> u32 \<Rightarrow> quota_refusal option" where
  "placement_quota e p s wanted =
    quotas_admit e p s (memory_limit s) (cpu_millicores s) (disk_limit s) (ucast wanted)"

text \<open>Which copies go when the count is lowered, and the table after the form's count.\<close>

definition resize_going :: "replica list \<Rightarrow> string \<Rightarrow> nat \<Rightarrow> replica list" where
  "resize_going rows sid wanted =
    (let placements = rows_of_service rows sid in
     take (length placements - wanted)
       (rev (sort_key (\<lambda>r. (evicted r, slot r)) placements)))"

datatype placement = Named "string option" | Anywhere

definition resize :: "(why \<Rightarrow> string) \<Rightarrow> candidate list \<Rightarrow> (nat \<Rightarrow> string) \<Rightarrow> service \<Rightarrow> u32
    \<Rightarrow> placement \<Rightarrow> replica list \<Rightarrow> bool \<times> replica list" where
  "resize say cands gen s wanted where_to rows =
    (let sid = service_id s;
         rows = (if wanted < of_nat (length (rows_of_service rows sid))
                 then fold (\<lambda>r. replicas_remove (replica_id r))
                        (resize_going rows sid (unat wanted)) rows
                 else rows) in
     case where_to of
       Named node \<Rightarrow> (case ensure_count gen sid wanted node rows of (res, rows) \<Rightarrow> (\<not> isl res, rows))
     | Anywhere \<Rightarrow>
         (let w = \<lparr>want_memory = memory_limit s, want_cpu = cpu_millicores s,
                spread_required = is_managed (service_kind s)\<rparr> in
          case ensure_count_where (anywhere say cands w sid) gen sid wanted rows of
            (res, rows) \<Rightarrow> (\<not> isl res, rows)))"

section \<open>What a tenant has promised, as a number\<close>

definition tenant_projects :: "estate \<Rightarrow> string \<Rightarrow> string list" where
  "tenant_projects e t = map project_id (of_tenant (org e) t)"

definition cost :: "estate \<Rightarrow> service \<Rightarrow> nat" where
  "cost e s = unat (or_zero (memory_limit s)) * live_copies e (service_id s)"

definition promised :: "estate \<Rightarrow> string \<Rightarrow> nat" where
  "promised e t =
    sum_list (map (cost e) (filter (\<lambda>s. service_project s \<in> set (tenant_projects e t)) (service_rows e)))"

lemma sum_list_sort [simp]: "sum_list (map c (sort_key k xs)) = sum_list (map c xs)" for c :: "'a \<Rightarrow> nat"
  by (metis mset_map mset_sort sum_mset_sum_list)

lemma sum_over_parts:
  "distinct ids \<Longrightarrow>
    (\<Sum>i\<leftarrow>ids. sum_list (map c (filter (\<lambda>x. f x = i) xs))) =
    sum_list (map c (filter (\<lambda>x. f x \<in> set ids) xs))" for c :: "'a \<Rightarrow> nat"
proof (induction ids)
  case (Cons i ids)
  have "sum_list (map c (filter (\<lambda>x. f x = i) xs)) + sum_list (map c (filter (\<lambda>x. f x \<in> set ids) xs)) =
      sum_list (map c (filter (\<lambda>x. f x \<in> set (i # ids)) xs))"
    using Cons.prems by (induction xs) auto
  with Cons show ?case by simp
qed simp

lemma sat_mul_exact: "unat a * k < 2 ^ LENGTH('a) \<Longrightarrow> k < 2 ^ LENGTH('a) \<Longrightarrow>
    unat (sat_mul a (of_nat k)) = unat a * k" for a :: "'a::len word"
  by (simp add: unat_sat_mul unat_of_nat_small)

lemma live_copies_le: "live_copies e sid \<le> length (replica_rows e)"
proof -
  have "live_copies e sid \<le> length (rows_of_service (replica_rows e) sid)"
    unfolding live_copies_def by (rule length_filter_le)
  also have "\<dots> \<le> length (replica_rows e)"
    unfolding length_rows_of_service by (rule length_filter_le)
  finally show ?thesis .
qed

lemma charge_service_memory:
  assumes "unat (ch_memory c) + cost e s < 2 ^ 64" "length (replica_rows e) < 2 ^ 64"
  shows "unat (ch_memory (charge_service e s c)) = unat (ch_memory c) + cost e s"
proof -
  have live: "live_copies e (service_id s) < 2 ^ 64"
    using assms(2) live_copies_le [of e "service_id s"] by simp
  show ?thesis
  proof (cases "memory_limit s")
    case None
    then show ?thesis
      by (simp add: charge_service_def Let_def cost_def or_zero_def split: option.splits)
  next
    case (Some b)
    then have c: "cost e s = unat b * live_copies e (service_id s)"
      by (simp add: cost_def or_zero_def)
    have "unat (sat_mul b (of_nat (live_copies e (service_id s)))) = cost e s"
      using assms(1) live by (simp add: sat_mul_exact c)
    moreover from this have "unat (ch_memory c + sat_mul b (of_nat (live_copies e (service_id s)))) =
        unat (ch_memory c) + cost e s"
      using assms(1) unat_add_lem [of "ch_memory c" "sat_mul b (of_nat (live_copies e (service_id s)))"]
      by simp
    ultimately show ?thesis
      using Some by (simp add: charge_service_def Let_def split: option.splits)
  qed
qed

lemma charge_services_memory:
  "unat (ch_memory c) + sum_list (map (cost e) ss) < 2 ^ 64 \<Longrightarrow> length (replica_rows e) < 2 ^ 64 \<Longrightarrow>
    unat (ch_memory (fold (charge_service e) ss c)) = unat (ch_memory c) + sum_list (map (cost e) ss)"
  by (induction ss arbitrary: c) (simp_all add: charge_service_memory)

lemma charge_projects_memory:
  assumes "length (replica_rows e) < 2 ^ 64"
  shows "unat (ch_memory c) + (\<Sum>p\<leftarrow>ps. sum_list (map (cost e) (services_all e (Some p)))) < 2 ^ 64 \<Longrightarrow>
    unat (ch_memory (fold (\<lambda>p. fold (charge_service e) (services_all e (Some p))) ps c)) =
    unat (ch_memory c) + (\<Sum>p\<leftarrow>ps. sum_list (map (cost e) (services_all e (Some p))))"
  using assms by (induction ps arbitrary: c) (simp_all add: charge_services_memory)

lemma distinct_tenant_projects: "estate_whole e \<Longrightarrow> distinct (tenant_projects e t)"
  by (auto dest!: estate_wholeD(1) simp: org_whole_def tenant_projects_def of_tenant_def
      distinct_map_sort decode_project_def project.defs comp_def distinct_map_filter)

text \<open>Short of 2 ^ 64 bytes the code's sum is the sum.\<close>

lemma charged_memory:
  assumes "estate_whole e" "length (replica_rows e) < 2 ^ 64" "promised e t < 2 ^ 64"
  shows "unat (ch_memory (charged e t)) = promised e t"
proof -
  have parts: "(\<Sum>p\<leftarrow>tenant_projects e t. sum_list (map (cost e) (services_all e (Some p)))) = promised e t"
    using sum_over_parts [OF distinct_tenant_projects [OF assms(1)], of "cost e" service_project "service_rows e" t]
    by (simp add: promised_def services_all_def)
  note sums = parts [unfolded tenant_projects_def]
  show ?thesis
    using charge_projects_memory [OF assms(2), of "\<lparr>ch_memory = 0, ch_cpu = 0, ch_disk = 0, ch_unbounded = 0\<rparr>"
        "map project_id (of_tenant (org e) t)"] assms(3)
    unfolding charged_def fold_map sums comp_def by simp
qed

section \<open>A change of ceiling stays within the quota\<close>

lemma promised_replace:
  assumes "distinct (map service_id (service_rows e))" "s \<in> set (service_rows e)"
    "service_project s \<in> set (tenant_projects e t)"
    "org e' = org e" "replica_rows e' = replica_rows e"
    "service_rows e' = map (\<lambda>x. if service_id x = service_id s then g x else x) (service_rows e)"
    "\<And>x. service_id (g x) = service_id x \<and> service_project (g x) = service_project x"
  shows "promised e' t + cost e s = promised e t + cost e (g s)"
proof -
  have live: "live_copies e' = live_copies e" by (simp add: fun_eq_iff live_copies_def assms(5))
  have cost: "cost e' = cost e" by (simp add: fun_eq_iff cost_def live)
  have ids: "tenant_projects e' t = tenant_projects e t" by (simp add: tenant_projects_def assms(4))
  obtain a b where s: "service_rows e = a @ s # b" using split_list [OF assms(2)] by blast
  have "x \<in> set a \<union> set b \<Longrightarrow> service_id x \<noteq> service_id s" for x
    using assms(1) s by (auto simp: image_iff)
  then have "map (\<lambda>x. if service_id x = service_id s then g x else x) a = a"
    "map (\<lambda>x. if service_id x = service_id s then g x else x) b = b"
    by (simp_all add: map_idI)
  then have "service_rows e' = a @ g s # b" by (simp add: assms(6) s)
  then show ?thesis
    using assms(3) assms(7) [of s] by (simp add: promised_def cost ids s)
qed

lemma quotas_admit_memory:
  assumes "quotas_admit e p s (Some m) cpu disk copies = None"
    "project_tenant p = Some t" "tenants_find e t = Some tn" "quota_memory tn = Some q"
  shows "fits \<lparr>allocatable = q, known = True, committed = ch_memory (charged e t),
    already = or_zero (memory_limit s)\<rparr> m copies (tenant_name tn) = None"
  using assms
  by (auto simp: quotas_admit_def quota_rooms_def Let_def rooms_admit_def or_zero_def [of "Some q"]
      split: option.splits if_splits)

lemma set_service_resources_Inr:
  assumes "set_service_resources mt p s (Some m) cpu disk e = (Inr s', e')"
  shows "quotas_admit e p s (Some m) cpu disk (of_nat (max (live_copies e (service_id s)) 1)) = None \<and>
    e' = update_service (service_id s)
      (\<lambda>x. x\<lparr>memory_limit := Some m, cpu_millicores := cpu, disk_limit := disk\<rparr>) e"
proof -
  have again: "update_service sid f (update_service sid g e) = update_service sid (f \<circ> g) e"
    if "\<And>x. service_id (g x) = service_id x" for sid and f g :: "service \<Rightarrow> service" and e
    using that by (simp add: update_service_def)
  show ?thesis
    using assms
    by (auto simp: set_service_resources_def Let_def set_memory_limit_def set_cpu_limit_def
        set_disk_limit_def again comp_def split: if_splits option.splits prod.splits sum.splits)
qed


section \<open>A change of count is not held against the quota\<close>

text \<open>Under a quota on memory alone, the placement form's question about a number
  of copies does not depend on how many there are now: any number is admitted as long as what
  is already promised and what those copies would take on their own each fit, so that copies
  can be added to a tenant that has no room for them.\<close>

theorem a_count_is_not_held_against_the_quota:
  assumes "project_tenant p = Some t" "tenants_find e t = Some tn" "quota_memory tn = Some q"
    "quota_cpu tn = None" "quota_disk tn = None" "limitless e p s = None" "memory_limit s = Some m"
  shows "placement_quota e p s wanted = None \<longleftrightarrow>
    max (ch_memory (charged e t)) (sat_mul m (ucast wanted)) \<le> q"
proof -
  have mem: "fits \<lparr>allocatable = q, known = True, committed = ch_memory (charged e t), already = m\<rparr>
      m (ucast wanted) who = None \<longleftrightarrow> max (ch_memory (charged e t)) (sat_mul m (ucast wanted)) \<le> q" for who
    by (subst fits_own_size) simp_all
  have free: "fits \<lparr>allocatable = x, known = False, committed = y, already = z\<rparr> w c who = None"
    for x y z w c who by (simp add: fits_def)
  show ?thesis
    using assms mem [of "tenant_name tn"]
    by (auto simp: placement_quota_def quotas_admit_def quota_rooms_def Let_def rooms_admit_def
        or_zero_def free split: option.splits)
qed

section \<open>The theorems at concrete tenants\<close>

definition sample_service :: "string \<Rightarrow> u64 \<Rightarrow> service" where
  "sample_service sid ceiling = \<lparr>service_id = sid, service_project = ''prj'', service_name = sid,
    service_slug = sid, service_image = [], service_env = (\<lambda>_. None), desired = Running,
    service_error = None, service_address = None, track_tag = None, auto_deploy = True,
    service_origin = None, memory_limit = Some ceiling, cpu_millicores = None, disk_limit = None,
    log_timestamps = False, log_budget = None, service_kind = Container\<rparr>"

definition sample_copy :: "string \<Rightarrow> string \<Rightarrow> u32 \<Rightarrow> replica" where
  "sample_copy rid sid n = (sample_row rid sid None None)\<lparr>slot := n\<rparr>"

definition sample_project :: project_row where
  "sample_project = \<lparr>project_id = ''prj'', project_name = ''p'', project_slug = ''p'', created_at = 0,
    origin_node_id = None, project_tenant = Some ''tnt'', network_index = None, registry_domain = None\<rparr>"

definition sample_tenant :: "u64 \<Rightarrow> tenant" where
  "sample_tenant q = \<lparr>tenant_id = ''tnt'', tenant_name = ''Acme'', tenant_slug = ''acme'',
    tenant_domain = None, quota_memory = Some q, quota_cpu = None, quota_disk = None,
    tenant_created = 0\<rparr>"

definition sample_estate :: "u64 \<Rightarrow> service list \<Rightarrow> replica list \<Rightarrow> estate" where
  "sample_estate q services rows = \<lparr>org = \<lparr>projects = [sample_project], memberships = [], accounts = []\<rparr>,
    tenant_rows = [sample_tenant q], service_rows = services, replica_rows = rows,
    invitation_rows = []\<rparr>"

lemmas sample_defs = sample_service_def sample_copy_def sample_project_def sample_tenant_def
  sample_estate_def sample_row_def

lemma sample_lookups [simp]:
  "tenants_find (sample_estate q services rows) ''tnt'' = Some (sample_tenant q)"
  "of_tenant (org (sample_estate q services rows)) ''tnt'' = [decode_project sample_project]"
  "tenant_projects (sample_estate q services rows) ''tnt'' = [''prj'']"
  "project_tenant (decode_project sample_project) = Some ''tnt''"
  "service_rows (sample_estate q services rows) = services"
  "replica_rows (sample_estate q services rows) = rows"
  "project_id (decode_project sample_project) = ''prj''" "project_id sample_project = ''prj''" "project_tenant sample_project = Some ''tnt''"
  "quota_memory (sample_tenant q) = Some q" "quota_cpu (sample_tenant q) = None"
  "quota_disk (sample_tenant q) = None" "memory_limit (sample_service sid ceiling) = Some ceiling"
  "service_id (sample_service sid ceiling) = sid" "cpu_millicores (sample_service sid ceiling) = None"
  "service_project (sample_service sid ceiling) = ''prj''" "disk_limit (sample_service sid ceiling) = None"
  "service_slug (sample_service sid ceiling) = sid" "service_kind (sample_service sid ceiling) = Container"
  by (simp_all add: tenants_find_def of_tenant_def tenant_projects_def sample_defs decode_project_def
      project.defs)


text \<open>Three copies of 300 beside a service of 600, under a quota of 1000.\<close>

theorem a_count_is_not_held_against_the_quota_witness:
  "let e = sample_estate 1000 [sample_service ''web'' 300, sample_service ''db'' 600]
          [sample_copy ''rp-1'' ''web'' 1, sample_copy ''rp-2'' ''db'' 1];
       more = [sample_copy ''rp-3'' ''web'' 2, sample_copy ''rp-4'' ''web'' 3] in
   placement_quota e (decode_project sample_project) (sample_service ''web'' 300) 3 = None \<and>
   promised (e\<lparr>replica_rows := replica_rows e @ more\<rparr>) ''tnt'' = 1500"
proof -
  let ?e = "sample_estate 1000 [sample_service ''web'' 300, sample_service ''db'' 600]
      [sample_copy ''rp-1'' ''web'' 1, sample_copy ''rp-2'' ''db'' 1]"
  let ?after = "?e\<lparr>replica_rows := replica_rows ?e @
      [sample_copy ''rp-3'' ''web'' 2, sample_copy ''rp-4'' ''web'' 3]\<rparr>"
  have live: "live_copies ?e ''web'' = 1" "live_copies ?e ''db'' = 1"
    "live_copies ?after ''web'' = 3" "live_copies ?after ''db'' = 1"
    by (simp_all add: live_copies_def rows_of_service_def sample_copy_def sample_row_def evicted_def)
  have "ch_memory (charged ?e ''tnt'') = 900"
    by (simp add: charged_def services_all_def charge_service_def live sat_mul_def)
  moreover have "limitless ?e (decode_project sample_project) (sample_service ''web'' 300) = None"
    by (simp add: limitless_def services_all_def)
  ultimately have "placement_quota ?e (decode_project sample_project) (sample_service ''web'' 300) 3 = None"
    using a_count_is_not_held_against_the_quota [of "decode_project sample_project" "''tnt''" ?e
        "sample_tenant 1000" 1000 "sample_service ''web'' 300" 300 3]
    by (simp add: sat_mul_def)
  moreover have "tenant_projects ?after ''tnt'' = [''prj'']"
    by (simp add: tenant_projects_def)
  then have "promised ?after ''tnt'' = 1500"
    by (simp add: promised_def cost_def live [simplified] or_zero_def)
  ultimately show ?thesis by (simp add: Let_def)
qed

end
