(* ===== verification/Updates.thy ===== *)
theory Updates
  imports Text "HOL-Library.Code_Target_Nat"
begin

text \<open>
  Taking a release: versions and the release list (infra/update/github.rs), the record of an
  update attempt (infra/update/runs.rs) and the attempt itself, from the download to the
  process that comes back (infra/update/mod.rs).

  What the attempt asks of the world (GitHub, the disk, the service manager) is a record of
  answers, so every failure the code handles is a value of the model. The database copy is
  the run table as it is at that moment; SQLite's own failures are not modelled.
\<close>

section \<open>Versions (github.rs)\<close>

record version =
  major :: u32
  minor :: u32
  patch :: u32

definition u32_of_text :: "string \<Rightarrow> u32 option" where
  "u32_of_text s = map_option of_nat (parse_uint (2 ^ 32) s)"

text \<open>The tag as it is compared: blanks off, then every leading \<open>v\<close>.\<close>

definition bare_tag :: "string \<Rightarrow> string" where
  "bare_tag t = dropWhile (\<lambda>c. c = CHR ''v'') (trim t)"

definition version_parse :: "string \<Rightarrow> version option" where
  "version_parse t =
    (case split_on CHR ''.'' (bare_tag t) of
       [a, b, c] \<Rightarrow>
         (case (u32_of_text a, u32_of_text b, u32_of_text c) of
            (Some x, Some y, Some z) \<Rightarrow> Some \<lparr>major = x, minor = y, patch = z\<rparr>
          | _ \<Rightarrow> None)
     | _ \<Rightarrow> None)"

definition version_show :: "version \<Rightarrow> string" where
  "version_show v =
    show_nat (unat (major v)) @ ''.'' @ show_nat (unat (minor v)) @ ''.'' @ show_nat (unat (patch v))"

text \<open>The derived order: by major, then minor, then patch.\<close>

instantiation version_ext :: (linorder) linorder
begin

definition less_eq_version_ext :: "'a version_scheme \<Rightarrow> 'a version_scheme \<Rightarrow> bool" where
  "v \<le> w \<longleftrightarrow> major v < major w \<or> major v = major w \<and>
    (minor v < minor w \<or> minor v = minor w \<and>
      (patch v < patch w \<or> patch v = patch w \<and> version.more v \<le> version.more w))"

definition less_version_ext :: "'a version_scheme \<Rightarrow> 'a version_scheme \<Rightarrow> bool" where
  "less_version_ext v w \<longleftrightarrow> v \<le> w \<and> v \<noteq> w"

instance
proof
  fix u v w :: "'a version_scheme"
  have same: "v = w" if "major v = major w" "minor v = minor w" "patch v = patch w"
    "version.more v = version.more w" for v w :: "'a version_scheme"
    using that by (cases v; cases w) simp
  show "v \<le> v" by (simp add: less_eq_version_ext_def)
  show total: "v \<le> w \<or> w \<le> v"
    unfolding less_eq_version_ext_def using linear [of "version.more v" "version.more w"] by force
  show anti: "v = w" if "v \<le> w" "w \<le> v"
    using that unfolding less_eq_version_ext_def by (intro same) (force+)
  show "v < w \<longleftrightarrow> v \<le> w \<and> \<not> w \<le> v"
    unfolding less_version_ext_def using anti total by blast
  show "u \<le> w" if "u \<le> v" "v \<le> w"
    using that unfolding less_eq_version_ext_def
    by (elim disjE conjE) (simp_all, (metis less_trans order_trans)+)
qed

end

section \<open>The release list (github.rs)\<close>

record asset =
  asset_name :: string
  asset_url :: string
  asset_size :: u64

record node_release =
  tag_of :: string
  release_version :: version
  release_name :: string
  release_notes :: string
  published_at :: string
  prerelease :: bool
  html_url :: string
  binary :: "asset option"
  checksum :: "asset option"

definition installable :: "node_release \<Rightarrow> bool" where
  "installable r \<longleftrightarrow> binary r \<noteq> None \<and> checksum r \<noteq> None"

record raw_release =
  raw_tag :: string
  raw_name :: "string option"
  raw_body :: "string option"
  raw_published :: "string option"
  raw_draft :: bool
  raw_prerelease :: bool
  raw_html_url :: string
  raw_assets :: "asset list"

definition into_release :: "string \<Rightarrow> raw_release \<Rightarrow> node_release option" where
  "into_release tail raw =
    map_option (\<lambda>v.
      \<lparr>tag_of = raw_tag raw, release_version = v,
       release_name = (case raw_name raw of
          Some n \<Rightarrow> if trim n \<noteq> [] then n else raw_tag raw | None \<Rightarrow> raw_tag raw),
       release_notes = (case raw_body raw of Some b \<Rightarrow> b | None \<Rightarrow> []),
       published_at = (case raw_published raw of Some p \<Rightarrow> p | None \<Rightarrow> []),
       prerelease = raw_prerelease raw, html_url = raw_html_url raw,
       binary = List.find (\<lambda>a. ends_with tail (asset_name a)) (raw_assets raw),
       checksum = List.find (\<lambda>a. ends_with (tail @ ''.sha256'') (asset_name a)) (raw_assets raw)\<rparr>)
      (version_parse (raw_tag raw))"

definition asset_suffix :: "string \<Rightarrow> string option" where
  "asset_suffix arch =
    (if arch = ''x86_64'' then Some ''-x86_64-linux''
     else if arch = ''aarch64'' then Some ''-aarch64-linux'' else None)"

text \<open>
  \<open>sort_by_key(Reverse(version))\<close> is stable, so releases of one version keep GitHub's order.
\<close>

definition releases_of :: "string \<Rightarrow> raw_release list \<Rightarrow> node_release list" where
  "releases_of tail raws =
    rev (sort_key release_version (rev (List.map_filter (into_release tail)
      (filter (\<lambda>r. \<not> raw_draft r) raws))))"

definition newest_upgrade :: "node_release list \<Rightarrow> version option \<Rightarrow> node_release option" where
  "newest_upgrade rs current =
    (case current of None \<Rightarrow> None
     | Some v \<Rightarrow> List.find (\<lambda>r. v < release_version r)
         (filter (\<lambda>r. \<not> prerelease r \<and> installable r) rs))"

definition release_find :: "node_release list \<Rightarrow> string \<Rightarrow> node_release option" where
  "release_find rs tag =
    (let wanted = version_parse tag in
     List.find (\<lambda>r. tag_of r = tag \<or> wanted \<noteq> None \<and> Some (release_version r) = wanted) rs)"

definition is_release :: "string \<Rightarrow> string \<Rightarrow> bool" where
  "is_release tag version \<longleftrightarrow> bare_tag tag = trim version"

section \<open>The record of an attempt (runs.rs)\<close>

datatype status = Running | Restarting | Done | Failed

fun status_as_str :: "status \<Rightarrow> string" where
  "status_as_str Running = ''running''"
| "status_as_str Restarting = ''restarting''"
| "status_as_str Done = ''done''"
| "status_as_str Failed = ''failed''"

definition status_parse :: "string \<Rightarrow> status" where
  "status_parse t =
    (if t = ''running'' then Running else if t = ''restarting'' then Restarting
     else if t = ''done'' then Done else Failed)"

definition status_in_flight :: "status \<Rightarrow> bool" where
  "status_in_flight s \<longleftrightarrow> s = Running \<or> s = Restarting"

interpretation status: spelled status_as_str status_parse Failed
proof
  show "status_parse (status_as_str s) = s" for s by (cases s) (simp_all add: status_parse_def)
  show "t \<notin> range status_as_str \<Longrightarrow> status_parse t = Failed" for t
    unfolding status_parse_def by (metis rangeI status_as_str.simps(1,2,3))
qed

record run =
  run_id :: string
  from_version :: string
  to_version :: string
  run_tag :: string
  run_status :: status
  run_step :: "string option"
  run_detail :: "string option"
  backup_path :: "string option"
  run_account :: "string option"
  started_at :: int
  finished_at :: "int option"

definition run_start :: "int \<Rightarrow> string \<Rightarrow> string \<Rightarrow> string \<Rightarrow> string \<Rightarrow> string option
    \<Rightarrow> run list \<Rightarrow> run list" where
  "run_start now i from_v to_v tag account runs =
    runs @ [\<lparr>run_id = i, from_version = from_v, to_version = to_v, run_tag = tag,
      run_status = Running, run_step = Some ''starting'', run_detail = None,
      backup_path = None, run_account = account, started_at = now, finished_at = None\<rparr>]"

definition update_run :: "string \<Rightarrow> (run \<Rightarrow> run) \<Rightarrow> run list \<Rightarrow> run list" where
  "update_run i f runs = map (\<lambda>r. if run_id r = i then f r else r) runs"

definition set_step :: "string \<Rightarrow> string \<Rightarrow> run list \<Rightarrow> run list" where
  "set_step i step = update_run i (\<lambda>r. r\<lparr>run_step := Some step\<rparr>)"

definition set_backup :: "string \<Rightarrow> string \<Rightarrow> run list \<Rightarrow> run list" where
  "set_backup i path = update_run i (\<lambda>r. r\<lparr>backup_path := Some path\<rparr>)"

definition run_finish :: "int \<Rightarrow> string \<Rightarrow> status \<Rightarrow> string option \<Rightarrow> run list \<Rightarrow> run list" where
  "run_finish now i s detail = update_run i (\<lambda>r. r\<lparr>run_status := s, run_detail := detail,
    finished_at := (if s = Done \<or> s = Failed then Some now else None)\<rparr>)"

definition run_latest :: "run list \<Rightarrow> run option" where
  "run_latest runs = newest_by started_at runs"

definition run_recent :: "nat \<Rightarrow> run list \<Rightarrow> run list" where
  "run_recent limit runs = take limit (rev (sort_key started_at runs))"

definition STALE_AFTER :: int where
  "STALE_AFTER = 20 * 60 * 1000"

definition run_in_flight :: "int \<Rightarrow> run list \<Rightarrow> run option" where
  "run_in_flight now runs =
    (case run_latest runs of
       Some r \<Rightarrow> if status_in_flight (run_status r) \<and> now - started_at r < STALE_AFTER
                 then Some r else None
     | None \<Rightarrow> None)"

section \<open>Installing (update/mod.rs)\<close>

datatype update_error =
  UnknownRelease string | Http string | Io string | Checksum | BadChecksumFile string
  | WrongVersion string string | WillNotRun string | AlreadyRunning string
  | AlreadyCurrent string | NotInstallable string | NoServiceManager

text \<open>The first line of a text, as \<open>lines()\<close> gives it.\<close>

definition first_line :: "string \<Rightarrow> string" where
  "first_line t =
    (case split_once (char_of (10 :: nat)) t of
       None \<Rightarrow> t
     | Some (line, _) \<Rightarrow> (case strip_suffix [char_of (13 :: nat)] line of Some l \<Rightarrow> l | None \<Rightarrow> line))"

definition parse_checksum :: "string \<Rightarrow> update_error + string" where
  "parse_checksum published =
    (let first = first_line published;
         digest = (case split_whitespace first of [] \<Rightarrow> [] | d # _ \<Rightarrow> d)
     in if byte_len digest = 64 \<and> list_all is_hexdigit digest then Inr (lowercase digest)
        else Inl (BadChecksumFile (take 80 first)))"

definition hex_lower_char :: "nat \<Rightarrow> char" where
  "hex_lower_char d = (if d < 10 then char_of (48 + d) else char_of (87 + d))"

definition sha256_hex :: "(string \<Rightarrow> u8 list) \<Rightarrow> string \<Rightarrow> string" where
  "sha256_hex digest bytes =
    concat (map (\<lambda>b. [hex_lower_char (unat b div 16), hex_lower_char (unat b mod 16)]) (digest bytes))"

text \<open>
  What the attempt asks of everything outside the process. The first two are the downloads,
  then the digest, then what happens when the file is written, run with \<open>--version\<close> (it
  does not start, or its exit is not a success, or it prints), copied from the database,
  renamed away and renamed in, and when the service manager is asked to restart.
\<close>

datatype ran = NotStarted string | ExitedWith string | Printed string

record outside =
  get_text :: "string \<Rightarrow> string + string"
  get_bytes :: "string \<Rightarrow> string + string"
  sha256 :: "string \<Rightarrow> u8 list"
  writing :: "string option"
  running_it :: "string \<Rightarrow> ran"
  copying :: "string option"
  moving_away :: "string option"
  moving_in :: "string option"
  supervised :: bool
  restarting_it :: "string option"

text \<open>Programs on the disk by path, and the copies of the database by theirs.\<close>

record machine =
  runs :: "run list"
  disk :: "string \<Rightarrow> string option"
  copies :: "(string \<times> run list) list"

definition BINARY_PATH :: string where
  "BINARY_PATH = ''/usr/local/bin/wabot-deploy''"

definition with_extension :: "string \<Rightarrow> string \<Rightarrow> string" where
  "with_extension path extension =
    (let (dir, name) = (case rsplit_once CHR ''/'' path of
           None \<Rightarrow> ([], path) | Some (d, n) \<Rightarrow> (d @ ''/'', n));
         stem = (case rsplit_once CHR ''.'' name of
           Some (s, _) \<Rightarrow> if s = [] then name else s | None \<Rightarrow> name)
     in dir @ stem @ ''.'' @ extension)"

definition STAGING :: string where
  "STAGING = with_extension BINARY_PATH ''incoming''"

definition PREVIOUS :: string where
  "PREVIOUS = with_extension BINARY_PATH ''previous''"

definition write_executable :: "outside \<Rightarrow> string \<Rightarrow> string \<Rightarrow> machine
    \<Rightarrow> update_error option \<times> machine" where
  "write_executable w path bytes m =
    (case writing w of Some e \<Rightarrow> (Some (Io e), m)
     | None \<Rightarrow> (None, m\<lparr>disk := (disk m)(path \<mapsto> bytes)\<rparr>))"

definition reported_version :: "outside \<Rightarrow> string \<Rightarrow> update_error + string" where
  "reported_version w bytes =
    (case running_it w bytes of
       NotStarted e \<Rightarrow> Inl (WillNotRun e)
     | ExitedWith e \<Rightarrow> Inl (WillNotRun (''exited with '' @ e))
     | Printed text \<Rightarrow> Inr (case split_whitespace text of [] \<Rightarrow> [] | ws \<Rightarrow> last ws))"

definition swap_in :: "outside \<Rightarrow> string \<Rightarrow> string \<Rightarrow> machine \<Rightarrow> update_error option \<times> machine" where
  "swap_in w staging target m =
    (let into = (\<lambda>m. case moving_in w of
           Some e \<Rightarrow> (Some (Io e), m)
         | None \<Rightarrow> (None, m\<lparr>disk := (disk m)(target := disk m staging, staging := None)\<rparr>))
     in if disk m target \<noteq> None
        then (case moving_away w of
                Some e \<Rightarrow> (Some (Io e), m)
              | None \<Rightarrow> into (m\<lparr>disk := (disk m)
                  (with_extension target ''previous'' := disk m target, target := None)\<rparr>))
        else into m)"

definition show_now :: "int \<Rightarrow> string" where
  "show_now n = (if n < 0 then ''-'' @ show_nat (nat (- n)) else show_nat (nat n))"

definition copy_path :: "string \<Rightarrow> int \<Rightarrow> string \<Rightarrow> string" where
  "copy_path data_dir now version =
    data_dir @ ''/backups/before-'' @ version @ ''-'' @ show_now now @ ''.db''"

definition back_up :: "outside \<Rightarrow> string \<Rightarrow> int \<Rightarrow> string \<Rightarrow> machine
    \<Rightarrow> (update_error + string) \<times> machine" where
  "back_up w data_dir now version m =
    (let path = copy_path data_dir now version in
     case copying w of Some e \<Rightarrow> (Inl (Io e), m)
     | None \<Rightarrow> (Inr path, m\<lparr>copies := AList.update path (runs m) (copies m)\<rparr>))"

definition step_to :: "string \<Rightarrow> string \<Rightarrow> machine \<Rightarrow> machine" where
  "step_to i step m = m\<lparr>runs := set_step i step (runs m)\<rparr>"

definition install :: "outside \<Rightarrow> string \<Rightarrow> int \<Rightarrow> node_release \<Rightarrow> string \<Rightarrow> machine
    \<Rightarrow> update_error option \<times> machine" where
  "install w data_dir now r i m =
    (let m = step_to i ''downloading the checksum'' m in
     case get_text w (asset_url (the (checksum r))) of Inl e \<Rightarrow> (Some (Http e), m)
   | Inr published \<Rightarrow>
    (case parse_checksum published of Inl e \<Rightarrow> (Some e, m)
   | Inr expected \<Rightarrow>
    (let m = step_to i ''downloading the binary'' m in
     case get_bytes w (asset_url (the (binary r))) of Inl e \<Rightarrow> (Some (Http e), m)
   | Inr bytes \<Rightarrow>
    (let m = step_to i ''checking what arrived'' m in
     if sha256_hex (sha256 w) bytes \<noteq> expected then (Some Checksum, m) else
     case write_executable w STAGING bytes m of (Some e, m) \<Rightarrow> (Some e, m)
   | (None, m) \<Rightarrow>
    (let dropped = m\<lparr>disk := (disk m)(STAGING := None)\<rparr> in
     case reported_version w bytes of
       Inl e \<Rightarrow> (Some e, dropped)
     | Inr reported \<Rightarrow>
        if reported \<noteq> version_show (release_version r)
        then (Some (WrongVersion reported (version_show (release_version r))), dropped)
        else
    (let m = step_to i ''backing up the database'' m in
     case back_up w data_dir now (version_show (release_version r)) m of
       (Inl e, m) \<Rightarrow> (Some e, m)
     | (Inr path, m) \<Rightarrow>
    (let m = m\<lparr>runs := set_backup i path (runs m)\<rparr>;
         m = step_to i ''installing'' m
     in swap_in w STAGING BINARY_PATH m)))))))"

text \<open>
  \<open>apply\<close>. The release list, the version of this process, the clock at each reading and the
  id the row gets are arguments; \<open>say\<close> is the sentence an error is displayed as.
\<close>

record clocks =
  at_check :: int
  at_start :: int
  at_copy :: int
  at_end :: int

definition apply_release :: "outside \<Rightarrow> (update_error \<Rightarrow> string) \<Rightarrow> string \<Rightarrow> string \<Rightarrow> clocks
    \<Rightarrow> string \<Rightarrow> node_release list \<Rightarrow> string \<Rightarrow> string option \<Rightarrow> machine
    \<Rightarrow> update_error option \<times> machine" where
  "apply_release w say data_dir own t i rs tag account m =
    (case release_find rs tag of None \<Rightarrow> (Some (UnknownRelease tag), m)
   | Some r \<Rightarrow>
     if \<not> installable r then (Some (NotInstallable (tag_of r)), m)
     else if version_parse own = Some (release_version r) then (Some (AlreadyCurrent (tag_of r)), m)
     else
    (case run_in_flight (at_check t) (runs m) of
       Some existing \<Rightarrow> (Some (AlreadyRunning (to_version existing)), m)
     | None \<Rightarrow>
        if \<not> supervised w then (Some NoServiceManager, m)
        else
    (let m = m\<lparr>runs := run_start (at_start t) i
               (case version_parse own of Some v \<Rightarrow> version_show v | None \<Rightarrow> [])
               (version_show (release_version r)) (tag_of r) account (runs m)\<rparr>
     in case install w data_dir (at_copy t) r i m of
          (None, m) \<Rightarrow>
            (map_option Io (restarting_it w),
             m\<lparr>runs := run_finish (at_end t) i Restarting
                (Some ''restarting into the new binary'') (runs m)\<rparr>)
        | (Some e, m) \<Rightarrow>
            (Some e, m\<lparr>runs := run_finish (at_end t) i Failed (Some (say e)) (runs m)\<rparr>))))"

definition settle_after_restart :: "int \<Rightarrow> string \<Rightarrow> run list \<Rightarrow> run list" where
  "settle_after_restart now own rs =
    (case run_latest rs of None \<Rightarrow> rs
     | Some r \<Rightarrow>
        if run_status r \<noteq> Restarting then rs
        else if own = to_version r
        then run_finish now (run_id r) Done
               (Some (''running '' @ own @ '', migrations applied at startup'')) rs
        else run_finish now (run_id r) Failed
               (Some (''came back running '' @ own @ '', not '' @ to_version r)) rs)"

section \<open>Versions read back\<close>

lemma u32_of_show [simp]: "u32_of_text (show_nat (unat x)) = Some x"
  using unat_below_exp [of x] by (simp add: u32_of_text_def)

lemma not_digit_sep: "\<not> is_digit CHR ''.''" "\<not> is_digit CHR ''v''"
  by (simp_all add: is_digit_def)

lemma version_show_chars: "c \<in> set (version_show v) \<Longrightarrow> is_digit c \<or> c = CHR ''.''"
  by (auto simp: version_show_def dest: show_nat_chars)

lemma version_show_no_blank: "list_all (\<lambda>c. \<not> is_whitespace c) (version_show v)"
  by (auto simp: list_all_iff is_whitespace_def is_digit_def dest!: version_show_chars)

lemma bare_version_show: "bare_tag (version_show v) = version_show v"
  "bare_tag (CHR ''v'' # version_show v) = version_show v"
proof -
  have hd_digit: "dropWhile (\<lambda>c. c = CHR ''v'') (version_show v) = version_show v"
    using version_show_chars [of "hd (version_show v)" v] not_digit_sep
    by (cases "version_show v") auto
  then show "bare_tag (version_show v) = version_show v"
    by (simp add: bare_tag_def trim_plain version_show_no_blank)
  have "list_all (\<lambda>c. \<not> is_whitespace c) (CHR ''v'' # version_show v)"
    using version_show_no_blank by (simp add: is_whitespace_def)
  then show "bare_tag (CHR ''v'' # version_show v) = version_show v"
    using hd_digit by (simp add: bare_tag_def trim_plain)
qed

lemma split_version_show: "split_on CHR ''.'' (version_show v) =
    [show_nat (unat (major v)), show_nat (unat (minor v)), show_nat (unat (patch v))]"
proof -
  have "CHR ''.'' \<notin> set (show_nat n)" for n
    using show_nat_chars not_digit_sep by blast
  then show ?thesis by (simp add: version_show_def split_on_append split_on_free)
qed

lemma version_reread:
  "version_parse (version_show v) = Some v"
  "version_parse (CHR ''v'' # version_show v) = Some v"
  by (simp_all add: version_parse_def bare_version_show split_version_show)

lemma is_release_tag: "is_release (CHR ''v'' # version_show v) (version_show v)"
  by (simp add: is_release_def bare_version_show trim_plain version_show_no_blank)

section \<open>The newest upgrade\<close>

definition offered :: "string \<Rightarrow> raw_release list \<Rightarrow> version \<Rightarrow> node_release set" where
  "offered tail raws v = {r. \<exists>raw\<in>set raws. \<not> raw_draft raw \<and> into_release tail raw = Some r \<and>
    \<not> prerelease r \<and> installable r \<and> v < release_version r}"

lemma set_releases_of: "set (releases_of tail raws) =
    {r. \<exists>raw\<in>set raws. \<not> raw_draft raw \<and> into_release tail raw = Some r}"
  by (auto simp: releases_of_def set_map_filter)

lemma releases_descend: "sorted_wrt (\<lambda>r r'. release_version r' \<le> release_version r) (releases_of tail raws)"
proof -
  have "sorted_wrt (\<lambda>r r'. release_version r \<le> release_version r') (sort_key release_version xs)" for xs
    using sorted_sort_key [of release_version xs] by (simp add: sorted_wrt_map)
  then show ?thesis by (simp add: releases_of_def sorted_wrt_rev)
qed

lemma find_first_is_top:
  "sorted_wrt (\<lambda>x y. f y \<le> f x) xs \<Longrightarrow> List.find P xs = Some x \<Longrightarrow> y \<in> set xs \<Longrightarrow> P y \<Longrightarrow>
    f y \<le> (f x :: 'k::linorder)"
  by (induction xs) (auto split: if_splits)

text \<open>
  What the console offers is the newest release that is published, not a
  pre-release, built for this machine and newer than what is running; it offers nothing only
  when there is none.
\<close>

theorem newest_upgrade_is_newest:
  "case newest_upgrade (releases_of tail raws) (Some v) of
     None \<Rightarrow> offered tail raws v = {}
   | Some r \<Rightarrow> r \<in> offered tail raws v \<and>
       release_version ` offered tail raws v \<subseteq> {..release_version r}"
proof -
  let ?fit = "\<lambda>r. \<not> prerelease r \<and> installable r"
  let ?rs = "filter ?fit (releases_of tail raws)"
  have sorted: "sorted_wrt (\<lambda>r r'. release_version r' \<le> release_version r) ?rs"
    using releases_descend by (rule sorted_wrt_filter)
  have members: "offered tail raws v = {r \<in> set ?rs. v < release_version r}"
    by (auto simp: offered_def set_releases_of)
  show ?thesis
  proof (cases "List.find (\<lambda>r. v < release_version r) ?rs")
    case None
    then have "offered tail raws v = {}" by (auto simp: members find_None_iff)
    with None show ?thesis by (simp add: newest_upgrade_def)
  next
    case (Some r)
    then show ?thesis
      using find_SomeD [OF Some] find_first_is_top [OF sorted Some]
      by (auto simp: newest_upgrade_def members)
  qed
qed

section \<open>What an attempt leaves behind\<close>

lemma paths_differ [simp]:
  "STAGING \<noteq> BINARY_PATH" "PREVIOUS \<noteq> BINARY_PATH" "STAGING \<noteq> PREVIOUS"
  "BINARY_PATH \<noteq> STAGING" "BINARY_PATH \<noteq> PREVIOUS" "PREVIOUS \<noteq> STAGING"
  by code_simp+

text \<open>The bytes carry the published digest and say they are the release.\<close>

definition checked :: "outside \<Rightarrow> node_release \<Rightarrow> string \<Rightarrow> bool" where
  "checked w r bytes \<longleftrightarrow>
    (\<exists>published. get_text w (asset_url (the (checksum r))) = Inr published \<and>
       parse_checksum published = Inr (sha256_hex (sha256 w) bytes)) \<and>
    get_bytes w (asset_url (the (binary r))) = Inr bytes \<and>
    reported_version w bytes = Inr (version_show (release_version r))"

text \<open>
  The three ways the installed path can be left: as it was; holding checked bytes, with the
  old program kept and the database copied before; or gone, with the old program kept.
\<close>

definition untouched :: "machine \<Rightarrow> machine \<Rightarrow> bool" where
  "untouched m m' \<longleftrightarrow> disk m' BINARY_PATH = disk m BINARY_PATH"

definition kept_previous :: "machine \<Rightarrow> machine \<Rightarrow> bool" where
  "kept_previous m m' \<longleftrightarrow> disk m' PREVIOUS = (if disk m BINARY_PATH = None
     then disk m PREVIOUS else disk m BINARY_PATH)"

definition copied :: "string \<Rightarrow> int \<Rightarrow> node_release \<Rightarrow> machine \<Rightarrow> bool" where
  "copied data_dir now r m' \<longleftrightarrow>
    map_of (copies m') (copy_path data_dir now (version_show (release_version r))) \<noteq> None"

definition replaced :: "outside \<Rightarrow> string \<Rightarrow> int \<Rightarrow> node_release \<Rightarrow> machine \<Rightarrow> machine \<Rightarrow> bool" where
  "replaced w data_dir now r m m' \<longleftrightarrow>
    (\<exists>bytes. disk m' BINARY_PATH = Some bytes \<and> checked w r bytes) \<and>
    kept_previous m m' \<and> copied data_dir now r m'"

definition missing :: "outside \<Rightarrow> string \<Rightarrow> int \<Rightarrow> node_release \<Rightarrow> machine \<Rightarrow> machine \<Rightarrow> bool" where
  "missing w data_dir now r m m' \<longleftrightarrow>
    disk m BINARY_PATH \<noteq> None \<and> disk m' BINARY_PATH = None \<and> kept_previous m m' \<and>
    copied data_dir now r m' \<and> moving_in w \<noteq> None"

lemma step_to_disk [simp]: "disk (step_to i s m) = disk m" "copies (step_to i s m) = copies m"
  by (simp_all add: step_to_def)

lemma swap_in_disk:
  assumes "swap_in w STAGING BINARY_PATH m = (e, m')" "disk m STAGING = Some bytes"
  shows "e \<noteq> None \<and> disk m' BINARY_PATH = disk m BINARY_PATH \<or>
    e = None \<and> disk m' BINARY_PATH = Some bytes \<and> kept_previous m m' \<or>
    e \<noteq> None \<and> disk m BINARY_PATH \<noteq> None \<and> disk m' BINARY_PATH = None \<and>
      kept_previous m m' \<and> moving_in w \<noteq> None"
    and "copies m' = copies m" "runs m' = runs m"
  using assms unfolding swap_in_def PREVIOUS_def [symmetric] kept_previous_def
  by (auto simp: Let_def split: if_splits option.splits)

lemma back_up_shape:
  assumes "back_up w data_dir now v m = (res, m')"
  shows "disk m' = disk m" "runs m' = runs m"
    "res = Inr p \<Longrightarrow> p = copy_path data_dir now v \<and> copies m' = AList.update p (runs m) (copies m)"
  using assms by (auto simp: back_up_def Let_def split: option.splits)

lemma write_executable_shape:
  assumes "write_executable w path bytes m = (e, m')"
  shows "e \<noteq> None \<Longrightarrow> m' = m" "e = None \<Longrightarrow> m' = m\<lparr>disk := (disk m)(path \<mapsto> bytes)\<rparr>"
  using assms by (auto simp: write_executable_def split: option.splits)

lemma install_disk:
  assumes "install w data_dir now r i m = (e, m')"
  shows "e \<noteq> None \<and> untouched m m' \<or> e = None \<and> replaced w data_dir now r m m' \<or>
    e \<noteq> None \<and> missing w data_dir now r m m'"
proof (cases "e \<noteq> None \<and> untouched m m'")
  case False
  let ?v = "version_show (release_version r)"
  from assms False obtain published expected bytes where
    fetched: "get_text w (asset_url (the (checksum r))) = Inr published" and
    digest: "parse_checksum published = Inr expected" and
    bytes: "get_bytes w (asset_url (the (binary r))) = Inr bytes" and
    same: "sha256_hex (sha256 w) bytes = expected"
    by (auto simp: install_def Let_def untouched_def split: sum.splits if_splits)
  define m1 where "m1 = step_to i ''checking what arrived''
    (step_to i ''downloading the binary'' (step_to i ''downloading the checksum'' m))"
  define m2 where "m2 = step_to i ''backing up the database''
    (m1\<lparr>disk := (disk m1)(STAGING \<mapsto> bytes)\<rparr>)"
  from assms False fetched digest bytes same
  have wrote: "write_executable w STAGING bytes m1 = (None, m1\<lparr>disk := (disk m1)(STAGING \<mapsto> bytes)\<rparr>)"
    by (auto simp: install_def Let_def untouched_def write_executable_def m1_def split: option.splits)
  from assms False fetched digest bytes same wrote
  have says: "reported_version w bytes = Inr ?v"
    by (auto simp: install_def Let_def untouched_def m1_def split: sum.splits if_splits)
  obtain res m3 where copy: "back_up w data_dir now ?v m2 = (res, m3)" by fastforce
  have m3: "disk m3 = (disk m)(STAGING \<mapsto> bytes)"
    using back_up_shape(1) [OF copy] by (simp add: m2_def m1_def)
  have reduced: "(e, m') = (case res of Inl e \<Rightarrow> (Some e, m3)
     | Inr path \<Rightarrow> swap_in w STAGING BINARY_PATH
         (step_to i ''installing'' (m3\<lparr>runs := set_backup i path (runs m3)\<rparr>)))"
    using assms fetched digest bytes same wrote says copy
    by (cases res) (simp_all add: install_def Let_def m1_def m2_def)
  with False m3 obtain path where path: "res = Inr path"
    by (cases res) (auto simp: untouched_def)
  let ?m4 = "step_to i ''installing'' (m3\<lparr>runs := set_backup i path (runs m3)\<rparr>)"
  from reduced path have swap: "swap_in w STAGING BINARY_PATH ?m4 = (e, m')" by simp
  have m4: "disk ?m4 STAGING = Some bytes" by (simp add: m3)
  have "copied data_dir now r m'"
    using swap_in_disk(2) [OF swap m4] back_up_shape(3) [OF copy path]
    by (simp add: copied_def row_simps)
  moreover have "checked w r bytes"
    using fetched digest bytes same says by (auto simp: checked_def)
  ultimately show ?thesis
    using swap_in_disk(1) [OF swap m4]
    by (auto simp: m3 untouched_def replaced_def missing_def kept_previous_def)
qed simp

text \<open>
  Property C13.  Whatever GitHub, the disk and the service manager answer, an attempt leaves
  the installed program as it was, or replaces it by bytes with the published digest that
  print the version of the release asked for, with the old program kept and the database
  copied first; the one way left is that the second rename fails after the first, and then
  there is no program at the installed path.
\<close>

theorem only_a_checked_binary_is_installed:
  "case apply_release w say data_dir own t i rs tag account m of (e, m') \<Rightarrow>
    untouched m m' \<or>
    (\<exists>r. release_find rs tag = Some r \<and> installable r \<and> supervised w \<and>
       (replaced w data_dir (at_copy t) r m m' \<or>
        missing w data_dir (at_copy t) r m m' \<and> e \<noteq> None))"
proof (cases "release_find rs tag")
  case None
  then show ?thesis by (simp add: apply_release_def untouched_def)
next
  case (Some r)
  let ?start = "m\<lparr>runs := run_start (at_start t) i
    (case version_parse own of Some v \<Rightarrow> version_show v | None \<Rightarrow> [])
    (version_show (release_version r)) (tag_of r) account (runs m)\<rparr>"
  obtain e' m' where inst: "install w data_dir (at_copy t) r i ?start = (e', m')" by fastforce
  have same: "untouched ?start m'' = untouched m m''"
    "replaced w data_dir (at_copy t) r ?start m'' = replaced w data_dir (at_copy t) r m m''"
    "missing w data_dir (at_copy t) r ?start m'' = missing w data_dir (at_copy t) r m m''" for m''
    by (simp_all add: untouched_def replaced_def missing_def kept_previous_def)
  have later: "untouched m (m''\<lparr>runs := rows\<rparr>) = untouched m m''"
    "replaced w data_dir (at_copy t) r m (m''\<lparr>runs := rows\<rparr>) = replaced w data_dir (at_copy t) r m m''"
    "missing w data_dir (at_copy t) r m (m''\<lparr>runs := rows\<rparr>) = missing w data_dir (at_copy t) r m m''"
    for m'' rows
    by (simp_all add: untouched_def replaced_def missing_def kept_previous_def copied_def)
  have refl: "untouched m m" by (simp add: untouched_def)
  show ?thesis
    using Some inst install_disk [OF inst, unfolded same] refl later
    by (cases e') (auto simp: apply_release_def Let_def split: option.splits)
qed

section \<open>How an attempt ends\<close>

lemma update_run_map_id:
  "(\<And>r. run_id (f r) = run_id r) \<Longrightarrow> map run_id (update_run i f rs) = map run_id rs"
  by (simp add: update_run_def)

lemma update_run_snoc:
  "i \<notin> run_id ` set rs \<Longrightarrow> run_id row = i \<Longrightarrow> update_run i f (rs @ [row]) = rs @ [f row]"
  by (induction rs) (auto simp: update_run_def)

lemmas row_writes = set_step_def set_backup_def run_finish_def

text \<open>The rows of an install are the old ones and the row it is about.\<close>

definition only_row :: "run list \<Rightarrow> run \<Rightarrow> run list \<Rightarrow> bool" where
  "only_row rs row rs' \<longleftrightarrow> (\<exists>row'. rs' = rs @ [row'] \<and> run_id row' = run_id row \<and>
    to_version row' = to_version row \<and> started_at row' = started_at row)"

lemma only_row_update:
  assumes "only_row rs row rs'" "run_id row \<notin> run_id ` set rs"
    "\<And>r. run_id (f r) = run_id r \<and> to_version (f r) = to_version r \<and> started_at (f r) = started_at r"
  shows "only_row rs row (update_run (run_id row) f rs')"
  using assms by (auto simp: only_row_def update_run_snoc)

lemma step_to_only_row:
  "only_row rs row (runs m) \<Longrightarrow> run_id row \<notin> run_id ` set rs \<Longrightarrow>
    only_row rs row (runs (step_to (run_id row) s m))"
  by (simp add: step_to_def set_step_def only_row_update)

lemma backup_only_row:
  "only_row rs row rs' \<Longrightarrow> run_id row \<notin> run_id ` set rs \<Longrightarrow>
    only_row rs row (set_backup (run_id row) p rs')"
  by (simp add: set_backup_def only_row_update)

lemma swap_in_runs: "swap_in w a b m = (e, m') \<Longrightarrow> runs m' = runs m"
  by (auto simp: swap_in_def Let_def split: if_splits option.splits)

lemma write_executable_runs: "write_executable w p b m = (e, m') \<Longrightarrow> runs m' = runs m"
  by (auto simp: write_executable_def split: option.splits)

lemma install_rows:
  assumes "only_row rs row (runs m)" and new: "run_id row \<notin> run_id ` set rs"
    and "install w data_dir now r (run_id row) m = (e, m')"
  shows "only_row rs row (runs m')"
  using assms(1,3) unfolding install_def Let_def
  by (auto split: sum.splits option.splits if_splits prod.splits
      dest!: swap_in_runs write_executable_runs back_up_shape(2)
      intro!: step_to_only_row backup_only_row new)

text \<open>The new row of an attempt, and the rows once the process that came back settled it.\<close>

definition says_how_it_went :: "outside \<Rightarrow> (update_error \<Rightarrow> string) \<Rightarrow> update_error option \<Rightarrow> run \<Rightarrow> bool" where
  "says_how_it_went w say e row \<longleftrightarrow>
    run_status row = Failed \<and> run_detail row = map_option say e \<and> e \<noteq> None \<or>
    run_status row = Restarting \<and> e = map_option Io (restarting_it w)"

definition settles_to :: "run list \<Rightarrow> run \<Rightarrow> int \<Rightarrow> string \<Rightarrow> bool" where
  "settles_to rs row now own \<longleftrightarrow>
    (let rs' = settle_after_restart now own (rs @ [row]);
         row' = last rs' in
     butlast rs' = rs \<and> run_id row' = run_id row \<and>
     (run_status row' = Done \<longleftrightarrow> run_status row = Restarting \<and> own = to_version row) \<and>
     run_status row' \<in> {Done, Failed} \<and>
     (\<forall>later. run_in_flight later rs' = None))"

lemma settle_row:
  assumes "\<forall>r\<in>set rs. started_at r \<le> started_at row" "run_id row \<notin> run_id ` set rs"
    "run_status row \<in> {Restarting, Failed}"
  shows "settles_to rs row now own"
proof -
  have newest: "run_latest (rs @ [row']) = Some row'" if "started_at row' = started_at row" for row'
    using assms(1) that by (simp add: run_latest_def newest_by_snoc)
  have "\<exists>row'. settle_after_restart now own (rs @ [row]) = rs @ [row'] \<and> run_id row' = run_id row \<and>
      started_at row' = started_at row \<and>
      (run_status row' = Done \<longleftrightarrow> run_status row = Restarting \<and> own = to_version row) \<and>
      run_status row' \<in> {Done, Failed}"
    using assms(2,3) by (auto simp: settle_after_restart_def newest run_finish_def update_run_snoc)
  then show ?thesis
    by (auto simp: settles_to_def run_in_flight_def newest status_in_flight_def)
qed


text \<open>A release whose download carries its digest, on a node running 1.2.2.\<close>

definition demo_release :: node_release where
  "demo_release =
    \<lparr>tag_of = ''v1.2.3'', release_version = \<lparr>major = 1, minor = 2, patch = 3\<rparr>,
     release_name = ''v1.2.3'', release_notes = [], published_at = [], prerelease = False, html_url = [],
     binary = Some \<lparr>asset_name = ''b'', asset_url = ''b'', asset_size = 1\<rparr>,
     checksum = Some \<lparr>asset_name = ''s'', asset_url = ''s'', asset_size = 1\<rparr>\<rparr>"

definition demo_world :: outside where
  "demo_world =
    \<lparr>get_text = (\<lambda>u. Inr (replicate 64 CHR ''0'')), get_bytes = (\<lambda>u. Inr ''new''),
     sha256 = (\<lambda>b. replicate 32 0), writing = None, running_it = (\<lambda>b. Printed ''wabot-deploy 1.2.3''),
     copying = None, moving_away = None, moving_in = None, supervised = True, restarting_it = None\<rparr>"

definition demo_machine :: machine where
  "demo_machine = \<lparr>runs = [], disk = [BINARY_PATH \<mapsto> ''old''], copies = []\<rparr>"

definition demo_clocks :: clocks where
  "demo_clocks = \<lparr>at_check = 0, at_start = 0, at_copy = 0, at_end = 5\<rparr>"

abbreviation demo_apply :: "outside \<Rightarrow> update_error option \<times> machine" where
  "demo_apply w \<equiv> apply_release w (\<lambda>x. ''failed'') ''/d'' ''1.2.2'' demo_clocks ''upd-1''
    [demo_release] ''v1.2.3'' None demo_machine"


text \<open>The rename that puts the new program in place fails after the old one was moved away.\<close>

lemma a_failed_rename_leaves_no_program:
  "disk demo_machine BINARY_PATH = Some ''old''"
  "disk (snd (demo_apply (demo_world\<lparr>moving_in := Some ''no''\<rparr>))) BINARY_PATH = None"
  "disk (snd (demo_apply demo_world)) BINARY_PATH = Some ''new''"
  by code_simp+

end
