(* ===== verification/Errands.thy ===== *)
theory Errands
  imports Roles Updates
begin

text \<open>
  The errands of the network: the table of what a node has asked others to do
  (infra/network/errand.rs), and the pass of the node that collects, obeys and settles them
  (infra/network/collect.rs).

  The table is the list of its rows in the order they were inserted. Ids, clocks, what the
  network does with a call, and the serde readers and printers of the payloads are arguments;
  what an errand of a kind does on the obeying node (its rows, its containers) is a record of
  handlers, so what is proved of carrying out holds for every one of them.
\<close>

section \<open>Kinds and arguments (errand.rs)\<close>

datatype errand_kind = KHost | KEdge | KDatabase | KManage | KCommand | KZone | KUnknown

fun errand_kind_as_str :: "errand_kind \<Rightarrow> string" where
  "errand_kind_as_str KHost = ''host''"
| "errand_kind_as_str KEdge = ''edge''"
| "errand_kind_as_str KDatabase = ''database''"
| "errand_kind_as_str KManage = ''manage''"
| "errand_kind_as_str KCommand = ''command''"
| "errand_kind_as_str KZone = ''zone''"
| "errand_kind_as_str KUnknown = ''unknown''"

definition errand_kind_parse :: "string \<Rightarrow> errand_kind" where
  "errand_kind_parse t =
    (if t = ''host'' then KHost else if t = ''edge'' then KEdge
     else if t = ''database'' then KDatabase else if t = ''manage'' then KManage
     else if t = ''command'' then KCommand else if t = ''zone'' then KZone else KUnknown)"

interpretation errand_kind: spelled errand_kind_as_str errand_kind_parse KUnknown
proof
  show "errand_kind_parse (errand_kind_as_str k) = k" for k by (cases k) (simp_all add: errand_kind_parse_def)
  show "errand_kind_parse t = KUnknown" if "t \<notin> range errand_kind_as_str" for t
  proof -
    from that have "t \<noteq> errand_kind_as_str k" for k by blast
    from this [of KHost] this [of KEdge] this [of KDatabase] this [of KManage]
      this [of KCommand] this [of KZone]
    show ?thesis by (simp add: errand_kind_parse_def)
  qed
qed

datatype json =
  JNull | JBool bool | JNumber string | JString string | JArray "json list"
  | JObject "(string \<times> json) list"

record host_args =
  host_project :: string
  host_service :: string
  host_image :: string
  host_registry :: string
  host_username :: "string option"
  host_secret :: "string option"
  host_env :: "(string \<times> string) list"
  host_port :: "u16 option"
  host_slots :: "u32 list"
  host_running :: bool
  host_memory :: "u64 option"
  host_cpu :: "u32 option"
  host_disk :: "u64 option"

record peer =
  peer_node :: string
  peer_name :: string
  peer_overlay_ip :: string
  peer_public_key :: string
  peer_ca_pem :: string

record edge_args =
  edge_hostname :: string
  edge_upstreams :: "string list"
  edge_peers :: "peer list"
  edge_secret :: "string option"
  edge_redirect :: "string option"

record standby_args =
  sb_project :: string
  sb_service :: string
  sb_image :: string
  sb_registry :: string
  sb_username :: "string option"
  sb_secret :: "string option"
  sb_memory :: u64
  sb_engine :: string
  sb_version :: string
  sb_database :: string
  sb_admin_user :: string
  sb_admin_password :: string
  sb_replication_user :: string
  sb_replication_password :: string
  sb_primary :: string
  sb_slots :: "u32 list"
  sb_primary_slot :: u32
  sb_domain :: "string option"
  sb_running :: bool

record zone_record =
  zr_name :: string
  zr_kind :: string
  zr_value :: string
  zr_priority :: "u16 option"
  zr_ttl :: u32

record zone_args =
  zone_name :: string
  zone_serial :: u32
  zone_ttl :: u32
  zone_records :: "zone_record list"
  zone_servers :: "string list"
  zone_withdrawn :: bool

record manage_args =
  manage_version :: string

datatype action = Restart | BackUp | UnknownAction

fun action_as_str :: "action \<Rightarrow> string" where
  "action_as_str Restart = ''restart''"
| "action_as_str BackUp = ''back-up''"
| "action_as_str UnknownAction = ''unknown''"

record command_args =
  command_action :: action

text \<open>serde and serde_json, as the module uses them: an unreadable value is the reason why.\<close>

record serde =
  to_text :: "json \<Rightarrow> string"
  from_text :: "string \<Rightarrow> json option"
  as_host :: "json \<Rightarrow> string + host_args"
  as_edge :: "json \<Rightarrow> string + edge_args"
  as_standby :: "json \<Rightarrow> string + standby_args"
  as_manage :: "json \<Rightarrow> string + manage_args"
  as_command :: "json \<Rightarrow> string + command_args"
  as_zone :: "json \<Rightarrow> string + zone_args"
  edge_value :: "edge_args \<Rightarrow> json"

record errand =
  errand_id :: string
  errand_kind :: errand_kind
  errand_payload :: json

section \<open>The table (errand.rs)\<close>

record errand_entry =
  er_id :: string
  er_node :: string
  er_from :: "string option"
  er_kind :: string
  er_payload :: string
  er_subject :: "string option"
  er_created :: int
  er_taken :: "int option"
  er_done :: "int option"
  er_error :: "string option"

definition queue_about :: "serde \<Rightarrow> int \<Rightarrow> string \<Rightarrow> string \<Rightarrow> errand_kind \<Rightarrow> string option \<Rightarrow> json
    \<Rightarrow> errand_entry list \<Rightarrow> errand \<times> errand_entry list" where
  "queue_about sd now i node kind subject payload rows =
    (\<lparr>errand_id = i, errand_kind = kind, errand_payload = payload\<rparr>,
     rows @ [\<lparr>er_id = i, er_node = node, er_from = None, er_kind = errand_kind_as_str kind,
       er_payload = to_text sd payload, er_subject = subject, er_created = now,
       er_taken = None, er_done = None, er_error = None\<rparr>])"

definition queue :: "serde \<Rightarrow> int \<Rightarrow> string \<Rightarrow> string \<Rightarrow> errand_kind \<Rightarrow> json
    \<Rightarrow> errand_entry list \<Rightarrow> errand \<times> errand_entry list" where
  "queue sd now i node kind payload = queue_about sd now i node kind None payload"

definition accept :: "serde \<Rightarrow> int \<Rightarrow> string \<Rightarrow> string \<Rightarrow> string \<Rightarrow> errand_kind \<Rightarrow> json
    \<Rightarrow> errand_entry list \<Rightarrow> errand \<times> errand_entry list" where
  "accept sd now i me asker kind payload rows =
    (\<lparr>errand_id = i, errand_kind = kind, errand_payload = payload\<rparr>,
     rows @ [\<lparr>er_id = i, er_node = me, er_from = Some asker, er_kind = errand_kind_as_str kind,
       er_payload = to_text sd payload, er_subject = None, er_created = now,
       er_taken = None, er_done = None, er_error = None\<rparr>])"

definition withdraw_name :: "serde \<Rightarrow> int \<Rightarrow> string \<Rightarrow> string \<Rightarrow> string
    \<Rightarrow> errand_entry list \<Rightarrow> errand \<times> errand_entry list" where
  "withdraw_name sd now i node hostname rows =
    queue sd now i node KEdge
      (edge_value sd \<lparr>edge_hostname = hostname, edge_upstreams = [], edge_peers = [],
         edge_secret = None, edge_redirect = None\<rparr>) rows"

definition handed :: "serde \<Rightarrow> errand_entry \<Rightarrow> errand" where
  "handed sd r = \<lparr>errand_id = er_id r, errand_kind = errand_kind_parse (er_kind r),
     errand_payload = (case from_text sd (er_payload r) of Some v \<Rightarrow> v | None \<Rightarrow> JNull)\<rparr>"

definition pending :: "string \<Rightarrow> errand_entry list \<Rightarrow> errand_entry list" where
  "pending node rows =
    sort_key er_created (filter (\<lambda>r. er_node r = node \<and> er_done r = None) rows)"

definition mark_taken :: "int \<Rightarrow> string list \<Rightarrow> errand_entry list \<Rightarrow> errand_entry list" where
  "mark_taken now ids rows =
    map (\<lambda>r. if er_id r \<in> set ids then r\<lparr>er_taken := Some now\<rparr> else r) rows"

definition waiting :: "serde \<Rightarrow> int \<Rightarrow> string \<Rightarrow> errand_entry list \<Rightarrow> errand list \<times> errand_entry list" where
  "waiting sd now node rows =
    (let found = pending node rows in
     (map (handed sd) found, mark_taken now (map er_id found) rows))"

definition waiting_here :: "serde \<Rightarrow> string \<Rightarrow> errand_entry list \<Rightarrow> (errand \<times> string option) list" where
  "waiting_here sd me rows = map (\<lambda>r. (handed sd r, er_from r)) (pending me rows)"

definition settle :: "int \<Rightarrow> string \<Rightarrow> string \<Rightarrow> string option \<Rightarrow> errand_entry list
    \<Rightarrow> bool \<times> errand_entry list" where
  "settle now node i error rows =
    (let hit = (\<lambda>r. er_id r = i \<and> er_node r = node \<and> er_done r = None) in
     (list_ex hit rows,
      map (\<lambda>r. if hit r then r\<lparr>er_done := Some now, er_error := error\<rparr> else r) rows))"

definition what_it_says :: "errand_kind \<Rightarrow> json \<Rightarrow> json" where
  "what_it_says kind payload =
    (case payload of
       JObject obj \<Rightarrow>
         if kind = KHost
         then JObject (filter (\<lambda>f. fst f \<noteq> ''username'' \<and> fst f \<noteq> ''secret'') obj)
         else payload
     | _ \<Rightarrow> payload)"

text \<open>The \<open>authority\<close> table, as (node, revoked at).\<close>

definition is_authorised :: "(string \<times> int option) list \<Rightarrow> string \<Rightarrow> bool" where
  "is_authorised authorities node \<longleftrightarrow> list_ex (\<lambda>a. fst a = node \<and> snd a = None) authorities"

definition would_change :: "serde \<Rightarrow> (string \<times> int option) list \<Rightarrow> string \<Rightarrow> errand_kind \<Rightarrow> string
    \<Rightarrow> json \<Rightarrow> errand_entry list \<Rightarrow> bool" where
  "would_change sd authorities node kind subject payload rows =
    (case newest_by er_created (filter (\<lambda>r. er_node r = node \<and> er_subject r = Some subject) rows) of
       None \<Rightarrow> True
     | Some r \<Rightarrow>
        if er_error r \<noteq> None \<or> is_authorised authorities node then True
        else map_option (what_it_says kind) (from_text sd (er_payload r))
               \<noteq> Some (what_it_says kind payload))"

definition queue_if_changed :: "serde \<Rightarrow> (string \<times> int option) list \<Rightarrow> int \<Rightarrow> string \<Rightarrow> string
    \<Rightarrow> errand_kind \<Rightarrow> string \<Rightarrow> json \<Rightarrow> errand_entry list \<Rightarrow> errand option \<times> errand_entry list" where
  "queue_if_changed sd authorities now i node kind subject payload rows =
    (if \<not> would_change sd authorities node kind subject payload rows then (None, rows)
     else (let (e, rows') = queue_about sd now i node kind (Some subject) payload rows
           in (Some e, rows')))"

text \<open>The names each node was last told to answer for.\<close>

fun names_from :: "serde \<Rightarrow> (string \<times> string) list \<Rightarrow> errand_entry list \<Rightarrow> (string \<times> string) list" where
  "names_from sd seen [] = []"
| "names_from sd seen (r # rest) =
    (case Option.bind (from_text sd (er_payload r))
            (\<lambda>v. case as_edge sd v of Inr e \<Rightarrow> Some e | Inl _ \<Rightarrow> None) of
       None \<Rightarrow> names_from sd seen rest
     | Some e \<Rightarrow>
        (let key = (er_node r, edge_hostname e) in
         if key \<notin> set seen \<and> edge_upstreams e \<noteq> [] then key # names_from sd (key # seen) rest
         else names_from sd (key # seen) rest))"

definition names_told :: "serde \<Rightarrow> errand_entry list \<Rightarrow> (string \<times> string) list" where
  "names_told sd rows =
    names_from sd [] (rev (sort_key er_created (filter (\<lambda>r. er_kind r = ''edge'') rows)))"

text \<open>
  \<open>json_extract(payload, '$.k')\<close> of an object: the field, where it is there and not null.
\<close>

definition json_field :: "string \<Rightarrow> json \<Rightarrow> json option" where
  "json_field k v =
    (case v of JObject obj \<Rightarrow> (case map_of obj k of Some JNull \<Rightarrow> None | x \<Rightarrow> x) | _ \<Rightarrow> None)"

definition field_of_row :: "serde \<Rightarrow> string \<Rightarrow> errand_entry \<Rightarrow> json option" where
  "field_of_row sd k r = Option.bind (from_text sd (er_payload r)) (json_field k)"

definition credential_last_sent :: "serde \<Rightarrow> string \<Rightarrow> string \<Rightarrow> errand_entry list \<Rightarrow> string option" where
  "credential_last_sent sd node registry rows =
    (case newest_by er_created (filter (\<lambda>r. er_node r = node \<and> er_error r = None \<and>
            field_of_row sd ''registry'' r = Some (JString registry) \<and>
            field_of_row sd ''secret'' r \<noteq> None) rows) of
       None \<Rightarrow> None
     | Some r \<Rightarrow> (case field_of_row sd ''project'' r of Some (JString p) \<Rightarrow> Some p | _ \<Rightarrow> None))"

section \<open>Consent (errand.rs and collect.rs)\<close>

definition consent_for :: "serde \<Rightarrow> errand_kind \<Rightarrow> json \<Rightarrow> capability option" where
  "consent_for sd kind payload =
    (case kind of
       KHost \<Rightarrow> Some Host
     | KDatabase \<Rightarrow> Some Store
     | KManage \<Rightarrow> Some Manage
     | KCommand \<Rightarrow> Some Manage
     | KEdge \<Rightarrow>
         (let withdrawing = (case as_edge sd payload of Inr e \<Rightarrow> edge_upstreams e = [] | Inl _ \<Rightarrow> False)
          in if withdrawing then None else Some Edge)
     | KZone \<Rightarrow>
         (let withdrawing = (case as_zone sd payload of Inr z \<Rightarrow> zone_withdrawn z | Inl _ \<Rightarrow> False)
          in if withdrawing then None else Some Dns)
     | KUnknown \<Rightarrow> None)"

definition allowed :: "string option \<Rightarrow> grant_db \<Rightarrow> string \<Rightarrow> capability \<Rightarrow> string option" where
  "allowed me db authority c =
    (if me = Some authority then None
     else if c \<in> set (granted_to db authority) then None
     else Some (''this node has not agreed to `'' @ capability_name c @ ''` for that node''))"

section \<open>Carrying one out (collect.rs)\<close>

text \<open>
  The obeying node: its id, its grants and settings, its update attempts, and everything the
  handlers work on. An operation answers \<open>None\<close>, or the reason it refuses with.
\<close>

record 'w obeying =
  me_id :: "string option"
  grants :: grant_db
  attempts :: "run list"
  work :: 'w

record 'w handlers =
  host_service_h :: "string \<Rightarrow> host_args \<Rightarrow> 'w \<Rightarrow> string option \<times> 'w"
  hold_standby_h :: "string \<Rightarrow> standby_args \<Rightarrow> 'w \<Rightarrow> string option \<times> 'w"
  serve_name_h :: "string \<Rightarrow> edge_args \<Rightarrow> 'w \<Rightarrow> string option \<times> 'w"
  serve_zone_h :: "string \<Rightarrow> zone_args \<Rightarrow> 'w \<Rightarrow> string option \<times> 'w"
  queue_install :: "string \<Rightarrow> string \<Rightarrow> 'w \<Rightarrow> string option \<times> 'w"
  restart_h :: "'w \<Rightarrow> string option \<times> 'w"
  start_backup :: "'w \<Rightarrow> 'w"

text \<open>What the node reads of itself while it obeys.\<close>

record moment =
  clock :: int
  own_release :: string
  under_supervision :: bool
  catalogue :: "string + node_release list"
  backup_running :: bool

definition on_work :: "('w \<Rightarrow> string option \<times> 'w) \<Rightarrow> 'w obeying \<Rightarrow> string option \<times> 'w obeying" where
  "on_work f n = (let (e, w) = f (work n) in (e, n\<lparr>work := w\<rparr>))"

definition be_at_release :: "'w handlers \<Rightarrow> moment \<Rightarrow> string \<Rightarrow> string \<Rightarrow> 'w obeying
    \<Rightarrow> string option \<times> 'w obeying" where
  "be_at_release h t authority tag n =
    (if is_release tag (own_release t) then (None, n)
     else if \<not> under_supervision t
     then (Some ''nothing supervises this node, so it cannot restart itself'', n)
     else
    (case run_in_flight (clock t) (attempts n) of
       Some existing \<Rightarrow> (Some (''an update to '' @ to_version existing @ '' is already running here''), n)
     | None \<Rightarrow>
    (case catalogue t of Inl e \<Rightarrow> (Some e, n)
     | Inr rs \<Rightarrow>
    (case release_find rs tag of None \<Rightarrow> (Some (''no release is tagged '' @ tag), n)
     | Some r \<Rightarrow>
        if \<not> installable r
        then (Some (tag_of r @ '' published no build this node can install''), n)
        else on_work (queue_install h (tag_of r) authority) n))))"

definition obeyed_key :: "action \<Rightarrow> string" where
  "obeyed_key a = ''node.last_obeyed.'' @ action_as_str a"

definition already_obeyed :: "grant_db \<Rightarrow> action \<Rightarrow> string \<Rightarrow> bool" where
  "already_obeyed db a i \<longleftrightarrow> setting_read db (obeyed_key a) = Some i"

definition note_obeyed :: "action \<Rightarrow> string \<Rightarrow> grant_db \<Rightarrow> grant_db" where
  "note_obeyed a i db = setting_write (obeyed_key a) i db"

definition do_once :: "'w handlers \<Rightarrow> moment \<Rightarrow> string \<Rightarrow> action \<Rightarrow> 'w obeying
    \<Rightarrow> string option \<times> 'w obeying" where
  "do_once h t i a n =
    (if already_obeyed (grants n) a i then (None, n)
     else
    (case a of
       Restart \<Rightarrow>
         if \<not> under_supervision t
         then (Some ''nothing supervises this node, so it cannot restart itself'', n)
         else on_work (restart_h h) (n\<lparr>grants := note_obeyed a i (grants n)\<rparr>)
     | BackUp \<Rightarrow>
         if backup_running t then (Some ''a backup is already running here'', n)
         else on_work (\<lambda>w. (None, start_backup h w)) (n\<lparr>grants := note_obeyed a i (grants n)\<rparr>)
     | UnknownAction \<Rightarrow>
         (Some ''this node is older than that instruction and does not know it'', n)))"

definition refused_for :: "'w obeying \<Rightarrow> string \<Rightarrow> capability option \<Rightarrow> string option" where
  "refused_for n authority needed =
    (case needed of None \<Rightarrow> None | Some c \<Rightarrow> allowed (me_id n) (grants n) authority c)"

text \<open>\<open>serde_json::from_value(payload).map_err(..)?\<close>, then the handler.\<close>

definition reading :: "string \<Rightarrow> string + 'a \<Rightarrow> ('a \<Rightarrow> 'n \<Rightarrow> string option \<times> 'n) \<Rightarrow> 'n
    \<Rightarrow> string option \<times> 'n" where
  "reading what v f n =
    (case v of Inl e \<Rightarrow> (Some (''that is not '' @ what @ '' errand: '' @ e), n) | Inr x \<Rightarrow> f x n)"

definition carry_out :: "serde \<Rightarrow> 'w handlers \<Rightarrow> moment \<Rightarrow> string \<Rightarrow> errand \<Rightarrow> 'w obeying
    \<Rightarrow> string option \<times> 'w obeying" where
  "carry_out sd h t authority order n =
    (let payload = errand_payload order in
     case refused_for n authority (consent_for sd (errand_kind order) payload) of
       Some reason \<Rightarrow> (Some reason, n)
     | None \<Rightarrow>
    (case errand_kind order of
       KHost \<Rightarrow> reading ''a host'' (as_host sd payload) (\<lambda>a. on_work (host_service_h h authority a)) n
     | KDatabase \<Rightarrow>
        (case allowed (me_id n) (grants n) authority Store of
           Some reason \<Rightarrow> (Some reason, n)
         | None \<Rightarrow>
            reading ''a database'' (as_standby sd payload) (\<lambda>a. on_work (hold_standby_h h authority a)) n)
     | KEdge \<Rightarrow>
        reading ''an edge'' (as_edge sd payload)
          (\<lambda>a n. case (if edge_upstreams a \<noteq> [] then allowed (me_id n) (grants n) authority Edge else None) of
             Some reason \<Rightarrow> (Some reason, n)
           | None \<Rightarrow> on_work (serve_name_h h authority a) n) n
     | KManage \<Rightarrow>
        reading ''a manage'' (as_manage sd payload) (\<lambda>a. be_at_release h t authority (manage_version a)) n
     | KCommand \<Rightarrow>
        reading ''a command'' (as_command sd payload)
          (\<lambda>a. do_once h t (errand_id order) (command_action a)) n
     | KZone \<Rightarrow> reading ''a zone'' (as_zone sd payload) (\<lambda>a. on_work (serve_zone_h h authority a)) n
     | KUnknown \<Rightarrow> (Some ''this node is older than that instruction and does not know it'', n)))"

section \<open>The passes (collect.rs, and the door of web/remote_node_rest_controller.rs)\<close>

text \<open>What becomes of one call: both ways, or only there, or not even there.\<close>

datatype call = Reached | AnswerLost | RequestLost

definition call_settle :: "call \<Rightarrow> int \<Rightarrow> string \<Rightarrow> string \<Rightarrow> string option \<Rightarrow> errand_entry list
    \<Rightarrow> bool \<times> errand_entry list" where
  "call_settle c now node i error rows =
    (case c of
       RequestLost \<Rightarrow> (False, rows)
     | AnswerLost \<Rightarrow> (False, snd (settle now node i error rows))
     | Reached \<Rightarrow> settle now node i error rows)"

text \<open>
  The loop of \<open>from_one\<close> over what it collected: \<open>obey\<close> is carrying one out on the node's own
  state, the rows are the authority's, and each settling has its own call and clock.
\<close>

fun collect_loop :: "(errand \<Rightarrow> 'n \<Rightarrow> string option \<times> 'n) \<Rightarrow> string \<Rightarrow> (call \<times> int) list \<Rightarrow> errand list
    \<Rightarrow> nat \<Rightarrow> 'n \<Rightarrow> errand_entry list \<Rightarrow> nat \<times> 'n \<times> errand_entry list" where
  "collect_loop obey node (c # cs) (order # rest) settled n rows =
    (let (outcome, n) = obey order n;
         (ok, rows) = call_settle (fst c) (snd c) node (errand_id order) outcome rows
     in collect_loop obey node cs rest (if ok then Suc settled else settled) n rows)"
| "collect_loop obey node cs orders settled n rows = (settled, n, rows)"

definition from_one :: "serde \<Rightarrow> (errand \<Rightarrow> 'n \<Rightarrow> string option \<times> 'n) \<Rightarrow> string \<Rightarrow> int
    \<Rightarrow> call \<Rightarrow> (nat \<Rightarrow> call \<times> int) \<Rightarrow> 'n \<Rightarrow> errand_entry list \<Rightarrow> nat \<times> 'n \<times> errand_entry list" where
  "from_one sd obey node now asking calls n rows =
    (case asking of
       RequestLost \<Rightarrow> (0, n, rows)
     | AnswerLost \<Rightarrow> (0, n, snd (waiting sd now node rows))
     | Reached \<Rightarrow>
        (let (orders, rows) = waiting sd now node rows
         in collect_loop obey node (map calls [0..<length orders]) orders 0 n rows))"

text \<open>The node's own errands, obeyed for whoever asked and settled in its own table.\<close>

fun own_loop :: "(string \<Rightarrow> errand \<Rightarrow> 'n \<Rightarrow> string option \<times> 'n) \<Rightarrow> string \<Rightarrow> int
    \<Rightarrow> (errand \<times> string option) list \<Rightarrow> nat \<Rightarrow> 'n \<Rightarrow> errand_entry list \<Rightarrow> nat \<times> 'n \<times> errand_entry list" where
  "own_loop obey me now [] settled n rows = (settled, n, rows)"
| "own_loop obey me now ((order, from) # rest) settled n rows =
    (let (outcome, n) = obey (case from of Some asker \<Rightarrow> asker | None \<Rightarrow> me) order n;
         (ok, rows) = settle now me (errand_id order) outcome rows
     in own_loop obey me now rest (if ok then Suc settled else settled) n rows)"

definition from_here :: "serde \<Rightarrow> (string \<Rightarrow> errand \<Rightarrow> 'n \<Rightarrow> string option \<times> 'n) \<Rightarrow> string option \<Rightarrow> int
    \<Rightarrow> 'n \<Rightarrow> errand_entry list \<Rightarrow> nat \<times> 'n \<times> errand_entry list" where
  "from_here sd obey me now n rows =
    (case me of None \<Rightarrow> (0, n, rows)
     | Some me \<Rightarrow> own_loop obey me now (waiting_here sd me rows) 0 n rows)"

text \<open>What the endpoint an authority is asked at does with one errand: refused, or accepted.\<close>

definition door :: "serde \<Rightarrow> int \<Rightarrow> string \<Rightarrow> string option \<Rightarrow> grant_db \<Rightarrow> string \<Rightarrow> string \<Rightarrow> json
    \<Rightarrow> errand_entry list \<Rightarrow> bool \<times> errand_entry list" where
  "door sd now i me db asker kind_text payload rows =
    (let kind = errand_kind_parse kind_text in
     if kind = KUnknown then (False, rows)
     else
    (case me of None \<Rightarrow> (False, rows)
     | Some m \<Rightarrow>
        (case (case consent_for sd kind payload of None \<Rightarrow> None | Some c \<Rightarrow> allowed me db asker c) of
           Some reason \<Rightarrow> (False, rows)
         | None \<Rightarrow> (True, snd (accept sd now i m asker kind payload rows)))))"

text \<open>
  Handing over: the far end's table and the node's own, the ids the far end generates, and a
  call per errand. It is settled here when the answer says it arrived.
\<close>

fun hand_over_loop :: "serde \<Rightarrow> int \<Rightarrow> string option \<Rightarrow> grant_db \<Rightarrow> string \<Rightarrow> string
    \<Rightarrow> (call \<times> string) list \<Rightarrow> errand list \<Rightarrow> errand_entry list \<Rightarrow> errand_entry list
    \<Rightarrow> errand_entry list \<times> errand_entry list" where
  "hand_over_loop sd now far far_grants me authority ((c, i) # cs) (order # rest) far_rows rows =
    (let (accepted, heard) =
       (if c = RequestLost then (False, far_rows)
        else door sd now i far far_grants me (errand_kind_as_str (errand_kind order)) (errand_payload order) far_rows);
       rows' = (if accepted \<and> c = Reached
                then snd (settle now authority (errand_id order) None rows) else rows)
     in hand_over_loop sd now far far_grants me authority cs rest heard rows')"
| "hand_over_loop sd now far far_grants me authority cs orders far_rows rows = (far_rows, rows)"

definition hand_over :: "serde \<Rightarrow> int \<Rightarrow> string option \<Rightarrow> grant_db \<Rightarrow> string \<Rightarrow> string
    \<Rightarrow> (nat \<Rightarrow> call \<times> string) \<Rightarrow> errand_entry list \<Rightarrow> errand_entry list \<Rightarrow> errand_entry list \<times> errand_entry list" where
  "hand_over sd now far far_grants me authority calls far_rows rows =
    (let (orders, rows) = waiting sd now authority rows
     in hand_over_loop sd now far far_grants me authority (map calls [0..<length orders]) orders far_rows rows)"

section \<open>What a pass does to the rows\<close>

text \<open>A row as it was asked, whatever became of it.\<close>

definition kept :: "errand_entry \<Rightarrow> errand_entry \<Rightarrow> bool" where
  "kept r r' \<longleftrightarrow> er_id r' = er_id r \<and> er_node r' = er_node r \<and> er_created r' = er_created r \<and>
    er_kind r' = er_kind r \<and> er_payload r' = er_payload r \<and> er_subject r' = er_subject r"

text \<open>Rows of \<open>node\<close> with an id in \<open>ids\<close> are finished, everything else is as open as before.\<close>

definition finishes :: "string \<Rightarrow> string set \<Rightarrow> errand_entry list \<Rightarrow> errand_entry list \<Rightarrow> bool" where
  "finishes node ids = list_all2 (\<lambda>r r'. kept r r' \<and>
    (er_done r' = None \<longleftrightarrow> er_done r = None \<and> \<not> (er_node r = node \<and> er_id r \<in> ids)))"

lemma kept_refl [simp]: "kept r r"
  by (simp add: kept_def)

lemma finishes_refl: "finishes node {} rows rows"
  by (simp add: finishes_def list_all2_refl)

lemma finishes_trans:
  "finishes node a xs ys \<Longrightarrow> finishes node b ys zs \<Longrightarrow> finishes node (a \<union> b) xs zs"
  unfolding finishes_def by (rule list_all2_trans) (auto simp: kept_def)

lemma finishes_mark_taken: "finishes node {} rows (mark_taken now ids rows)"
  by (auto simp: finishes_def mark_taken_def list_all2_map2 kept_def intro!: list_all2_refl)

lemma finishes_call:
  "finishes node (if c = RequestLost then {} else {i}) rows (snd (call_settle c now node i error rows))"
  by (cases c) (auto simp: finishes_def call_settle_def settle_def Let_def list_all2_map2 kept_def
      intro!: list_all2_refl)

text \<open>Which of the collected ids the far end hears about.\<close>

definition heard :: "(call \<times> int) list \<Rightarrow> errand list \<Rightarrow> string set" where
  "heard cs orders = {errand_id o' |c o'. (c, o') \<in> set (zip cs orders) \<and> fst c \<noteq> RequestLost}"

lemma heard_Cons: "heard (c # cs) (o' # orders) =
    (if fst c = RequestLost then {} else {errand_id o'}) \<union> heard cs orders"
  by (cases c) (auto simp: heard_def)

lemma heard_subset: "heard cs orders \<subseteq> errand_id ` set orders"
  by (auto simp: heard_def dest: set_zip_rightD)

lemma heard_all: "length cs = length orders \<Longrightarrow> RequestLost \<notin> fst ` set cs \<Longrightarrow>
    heard cs orders = errand_id ` set orders"
  by (induction cs orders rule: list_induct2) (auto simp: heard_Cons, simp add: heard_def)

lemma collect_loop_rows:
  "finishes node (heard cs orders) rows (snd (snd (collect_loop obey node cs orders k n rows)))"
proof (induction obey node cs orders k n rows rule: collect_loop.induct)
  case (1 obey node c cs order rest k n rows)
  obtain outcome n' where o': "obey order n = (outcome, n')" by fastforce
  obtain ok rows' where call: "call_settle (fst c) (snd c) node (errand_id order) outcome rows = (ok, rows')"
    by fastforce
  from finishes_call [of node "fst c" "errand_id order" rows "snd c" outcome] call
  have "finishes node (if fst c = RequestLost then {} else {errand_id order}) rows rows'" by simp
  from finishes_trans [OF this 1 [OF o' [symmetric] refl call [symmetric] refl]]
  show ?case by (simp add: o' call heard_Cons)
qed (auto simp: heard_def finishes_refl)

definition logged :: "(errand \<Rightarrow> 'n \<Rightarrow> string option \<times> 'n) \<Rightarrow> errand \<Rightarrow> errand list \<times> 'n
    \<Rightarrow> string option \<times> errand list \<times> 'n" where
  "logged obey order s = (let (e, n) = obey order (snd s) in (e, fst s @ [order], n))"

lemma collect_loop_log:
  "length cs = length orders \<Longrightarrow>
    fst (fst (snd (collect_loop (logged obey) node cs orders k s rows))) = fst s @ orders"
  by (induction cs orders arbitrary: k s rows rule: list_induct2)
    (auto simp: logged_def Let_def split: prod.splits)

lemma collect_loop_short: "collect_loop obey node [] orders k n rows = (k, n, rows)"
  by simp

lemma finishes_ids: "finishes node a rows rows' \<Longrightarrow> map er_id rows' = map er_id rows"
  unfolding finishes_def by (induction rule: list_all2_induct) (auto simp: kept_def)

lemma finishes_created: "finishes node a rows rows' \<Longrightarrow> map er_created rows' = map er_created rows"
  unfolding finishes_def by (induction rule: list_all2_induct) (auto simp: kept_def)

text \<open>What is open for the node, in the order it was asked.\<close>

definition open_ids :: "string \<Rightarrow> errand_entry list \<Rightarrow> string list" where
  "open_ids node rows = map er_id (filter (\<lambda>r. er_node r = node \<and> er_done r = None) rows)"

lemma finishes_open:
  "finishes node a rows rows' \<Longrightarrow> open_ids node rows' = filter (\<lambda>i. i \<notin> a) (open_ids node rows)"
  unfolding finishes_def open_ids_def by (induction rule: list_all2_induct) (auto simp: kept_def)

definition asked_ids :: "string \<Rightarrow> errand_entry list \<Rightarrow> string list" where
  "asked_ids node rows = map er_id (filter (\<lambda>r. er_node r = node) rows)"

lemma finishes_asked: "finishes node' a rows rows' \<Longrightarrow> asked_ids node rows' = asked_ids node rows"
  unfolding finishes_def asked_ids_def by (induction rule: list_all2_induct) (auto simp: kept_def)

lemma set_pending: "set (map er_id (pending node rows)) = set (open_ids node rows)"
  by (auto simp: pending_def open_ids_def)

lemma pending_sorted:
  "sorted (map er_created rows) \<Longrightarrow> map er_id (pending node rows) = open_ids node rows"
proof -
  assume "sorted (map er_created rows)"
  then have "sorted (map er_created (filter (\<lambda>r. er_node r = node \<and> er_done r = None) rows))"
    by (rule sorted_filter)
  then show ?thesis by (simp add: pending_def open_ids_def sort_key_id_if_sorted)
qed

section \<open>Asked, obeyed and waiting, over a network that may lose any call\<close>

text \<open>
  The life of the table between an authority and one node that collects from it: somebody
  asks a node for something, or that node makes a pass.
\<close>

datatype net_event =
  Ask int string string errand_kind "string option" json
| Pass int call "nat \<Rightarrow> call \<times> int"

definition net_step :: "serde \<Rightarrow> (errand \<Rightarrow> 'n \<Rightarrow> string option \<times> 'n) \<Rightarrow> string \<Rightarrow> net_event
    \<Rightarrow> (errand list \<times> 'n) \<times> errand_entry list \<Rightarrow> (errand list \<times> 'n) \<times> errand_entry list" where
  "net_step sd obey node ev s =
    (case ev of
       Ask now i to_node kind subject payload \<Rightarrow>
         (fst s, snd (queue_about sd now i to_node kind subject payload (snd s)))
     | Pass now asking calls \<Rightarrow> snd (from_one sd (logged obey) node now asking calls (fst s) (snd s)))"

definition net_run :: "serde \<Rightarrow> (errand \<Rightarrow> 'n \<Rightarrow> string option \<times> 'n) \<Rightarrow> string \<Rightarrow> net_event list
    \<Rightarrow> 'n \<Rightarrow> (errand list \<times> 'n) \<times> errand_entry list" where
  "net_run sd obey node evs n = fold (net_step sd obey node) evs (([], n), [])"

definition asks :: "string \<Rightarrow> net_event list \<Rightarrow> string list" where
  "asks node evs = List.map_filter (\<lambda>ev. case ev of Ask _ i to_node _ _ _ \<Rightarrow>
     (if to_node = node then Some i else None) | Pass _ _ _ \<Rightarrow> None) evs"

definition obeyed_ids :: "(errand list \<times> 'n) \<times> errand_entry list \<Rightarrow> string list" where
  "obeyed_ids s = map errand_id (fst (fst s))"

lemma pass_shape:
  obtains a where "finishes node a rows (snd (snd (from_one sd (logged obey) node now asking calls s rows)))"
    "a \<subseteq> set (map er_id (pending node rows))"
    "fst (fst (snd (from_one sd (logged obey) node now asking calls s rows))) =
       fst s @ (if asking = Reached then map (handed sd) (pending node rows) else [])"
    "asking = Reached \<Longrightarrow> \<forall>k. fst (calls k) \<noteq> RequestLost \<Longrightarrow> a = set (map er_id (pending node rows))"
    "asking \<noteq> Reached \<Longrightarrow> a = {}"
proof (cases "asking = Reached")
  case True
  let ?found = "pending node rows"
  let ?orders = "map (handed sd) ?found" and ?cs = "map calls [0..<length ?found]"
  let ?rows = "mark_taken now (map er_id ?found) rows"
  have pass: "from_one sd (logged obey) node now asking calls s rows =
      collect_loop (logged obey) node ?cs ?orders 0 s ?rows"
    by (simp add: True from_one_def waiting_def Let_def)
  have ids: "errand_id ` set ?orders = set (map er_id ?found)"
    by (auto simp: handed_def image_iff)
  have fin: "finishes node ({} \<union> heard ?cs ?orders) rows
      (snd (snd (from_one sd (logged obey) node now asking calls s rows)))"
    unfolding pass by (rule finishes_trans [OF finishes_mark_taken collect_loop_rows])
  show thesis
  proof (rule that [OF fin])
    show "{} \<union> heard ?cs ?orders \<subseteq> set (map er_id ?found)"
      using heard_subset [of ?cs ?orders] ids by simp
    show "fst (fst (snd (from_one sd (logged obey) node now asking calls s rows))) =
        fst s @ (if asking = Reached then ?orders else [])"
      unfolding pass by (simp add: True collect_loop_log)
    show "{} \<union> heard ?cs ?orders = set (map er_id ?found)"
      if "\<forall>k. fst (calls k) \<noteq> RequestLost"
    proof -
      from that have "RequestLost \<notin> fst ` set ?cs" by (auto simp: image_iff) metis
      with ids show ?thesis by (simp add: heard_all)
    qed
  qed (use True in simp)
next
  case False
  then have "finishes node {} rows (snd (snd (from_one sd (logged obey) node now asking calls s rows)))"
    using finishes_refl finishes_mark_taken
    by (cases asking) (auto simp: from_one_def waiting_def Let_def)
  then show thesis
    using False by (intro that) (cases asking, auto simp: from_one_def)+
qed

lemma net_run_snoc: "net_run sd obey node (evs @ [ev]) n = net_step sd obey node ev (net_run sd obey node evs n)"
  by (simp add: net_run_def)

lemma asks_append: "asks node (evs @ evs') = asks node evs @ asks node evs'"
  by (simp add: asks_def map_filter_append)

lemma asks_one [simp]:
  "asks node [] = []"
  "asks node [Ask now i to_node kind subject payload] = (if to_node = node then [i] else [])"
  "asks node [Pass now asking calls] = []"
  by (simp_all add: asks_def map_filter_simps)

lemma net_asked: "asked_ids node (snd (net_run sd obey node evs n)) = asks node evs"
proof (induction evs rule: rev_induct)
  case Nil
  then show ?case by (simp add: net_run_def asked_ids_def)
next
  case (snoc ev evs)
  show ?case
  proof (cases ev)
    case (Ask now i to_node kind subject payload)
    with snoc show ?thesis
      by (auto simp: net_run_snoc asks_append net_step_def queue_about_def asked_ids_def)
  next
    case (Pass now asking calls)
    let ?s = "net_run sd obey node evs n"
    obtain a where "finishes node a (snd ?s) (snd (snd (from_one sd (logged obey) node now asking calls (fst ?s) (snd ?s))))"
      by (rule pass_shape)
    from finishes_asked [OF this] snoc Pass show ?thesis
      by (simp add: net_run_snoc asks_append net_step_def)
  qed
qed

lemma open_subset_asked: "set (open_ids node rows) \<subseteq> set (asked_ids node rows)"
  by (auto simp: open_ids_def asked_ids_def)

text \<open>
  Property C35.  Whatever calls the network loses, in either direction, nothing asked of the
  node is lost: each asking is still open, and collected by the next pass that gets through,
  or the node has obeyed it.
\<close>

theorem nothing_asked_is_lost:
  "let s = net_run sd obey node evs n in
   set (asks node evs) = set (asks node evs) \<inter> set (obeyed_ids s) \<union> set (map er_id (pending node (snd s)))"
proof -
  let ?s = "\<lambda>evs. net_run sd obey node evs n"
  have "set (asks node evs) \<subseteq> set (obeyed_ids (?s evs)) \<union> set (open_ids node (snd (?s evs)))"
  proof (induction evs rule: rev_induct)
    case Nil
    then show ?case by simp
  next
    case (snoc ev evs)
    show ?case
    proof (cases ev)
      case (Ask now i to_node kind subject payload)
      with snoc show ?thesis
        by (auto simp: net_run_snoc asks_append net_step_def queue_about_def
            open_ids_def obeyed_ids_def split: if_splits)
    next
      case (Pass now asking calls)
      obtain a where fin: "finishes node a (snd (?s evs))
            (snd (snd (from_one sd (logged obey) node now asking calls (fst (?s evs)) (snd (?s evs)))))"
        and sub: "a \<subseteq> set (map er_id (pending node (snd (?s evs))))"
        and log: "fst (fst (snd (from_one sd (logged obey) node now asking calls (fst (?s evs)) (snd (?s evs))))) =
          fst (fst (?s evs)) @ (if asking = Reached then map (handed sd) (pending node (snd (?s evs))) else [])"
        and none: "asking \<noteq> Reached \<Longrightarrow> a = {}"
        by (rule pass_shape [of node "snd (?s evs)" sd obey now asking calls "fst (?s evs)"]) blast
      have "a \<subseteq> set (obeyed_ids (?s (evs @ [ev])))"
        using sub none log Pass
        by (cases "asking = Reached") (auto simp: net_run_snoc net_step_def obeyed_ids_def handed_def image_iff)
      moreover have "set (obeyed_ids (?s evs)) \<subseteq> set (obeyed_ids (?s (evs @ [ev])))"
        using log Pass by (auto simp: net_run_snoc net_step_def obeyed_ids_def)
      moreover have "set (open_ids node (snd (?s evs))) - a \<subseteq> set (open_ids node (snd (?s (evs @ [ev]))))"
        using finishes_open [OF fin] Pass by (auto simp: net_run_snoc net_step_def)
      moreover have "asks node (evs @ [ev]) = asks node evs"
        using Pass by (simp add: asks_append)
      ultimately show ?thesis using snoc by auto
    qed
  qed
  then show ?thesis
    using open_subset_asked [of node "snd (?s evs)"] net_asked [of node sd obey evs n]
    unfolding Let_def set_pending by auto
qed

definition ask_times :: "net_event list \<Rightarrow> int list" where
  "ask_times evs = List.map_filter (\<lambda>ev. case ev of Ask now _ _ _ _ _ \<Rightarrow> Some now | Pass _ _ _ \<Rightarrow> None) evs"

definition hears_settles :: "net_event \<Rightarrow> bool" where
  "hears_settles ev \<longleftrightarrow> (case ev of Ask _ _ _ _ _ _ \<Rightarrow> True
    | Pass _ _ calls \<Rightarrow> range (fst \<circ> calls) \<subseteq> {Reached, AnswerLost})"

lemma ask_times_append: "ask_times (evs @ evs') = ask_times evs @ ask_times evs'"
  by (simp add: ask_times_def map_filter_append)

lemma ask_times_one [simp]:
  "ask_times [] = []"
  "ask_times [Ask now i to_node kind subject payload] = [now]"
  "ask_times [Pass now asking calls] = []"
  by (simp_all add: ask_times_def map_filter_simps)

lemma net_created: "map er_created (snd (net_run sd obey node evs n)) = ask_times evs"
proof (induction evs rule: rev_induct)
  case Nil
  then show ?case by (simp add: net_run_def)
next
  case (snoc ev evs)
  show ?case
  proof (cases ev)
    case (Ask now i to_node kind subject payload)
    with snoc show ?thesis
      by (auto simp: net_run_snoc ask_times_append net_step_def queue_about_def)
  next
    case (Pass now asking calls)
    let ?s = "net_run sd obey node evs n"
    obtain a where "finishes node a (snd ?s) (snd (snd (from_one sd (logged obey) node now asking calls (fst ?s) (snd ?s))))"
      by (rule pass_shape)
    from finishes_created [OF this] snoc Pass show ?thesis
      by (simp add: net_run_snoc ask_times_append net_step_def)
  qed
qed

lemma hears_settlesD: "hears_settles (Pass now asking calls) \<Longrightarrow> fst (calls k) \<noteq> RequestLost"
proof -
  assume "hears_settles (Pass now asking calls)"
  then have "range (fst \<circ> calls) \<subseteq> {Reached, AnswerLost}" by (simp add: hears_settles_def)
  moreover have "(fst \<circ> calls) k \<in> range (fst \<circ> calls)" by blast
  ultimately have "(fst \<circ> calls) k \<in> {Reached, AnswerLost}" by (rule subsetD)
  then show ?thesis by auto
qed

lemma pass_keeps_order:
  assumes "hears_settles (Pass now asking calls)" "sorted (map er_created (snd s))"
  shows "obeyed_ids (net_step sd obey node (Pass now asking calls) s) @
      open_ids node (snd (net_step sd obey node (Pass now asking calls) s)) =
    obeyed_ids s @ open_ids node (snd s)"
proof -
  let ?from = "from_one sd (logged obey) node now asking calls (fst s) (snd s)"
  obtain a where fin: "finishes node a (snd s) (snd (snd ?from))"
    and log: "fst (fst (snd ?from)) =
      fst (fst s) @ (if asking = Reached then map (handed sd) (pending node (snd s)) else [])"
    and all: "asking = Reached \<Longrightarrow> \<forall>k. fst (calls k) \<noteq> RequestLost \<Longrightarrow>
      a = set (map er_id (pending node (snd s)))"
    and none: "asking \<noteq> Reached \<Longrightarrow> a = {}"
    by (rule pass_shape [of node "snd s" sd obey now asking calls "fst s"]) blast
  have ids: "errand_id \<circ> handed sd = er_id" by (rule ext) (simp add: handed_def)
  show ?thesis
  proof (cases "asking = Reached")
    case True
    then have "a = set (open_ids node (snd s))"
      using all hears_settlesD [OF assms(1)] pending_sorted [OF assms(2), of node] by simp
    then show ?thesis
      using True log finishes_open [OF fin] pending_sorted [OF assms(2), of node] ids
      by (simp add: net_step_def obeyed_ids_def)
  next
    case False
    then show ?thesis
      using log none finishes_open [OF fin] by (simp add: net_step_def obeyed_ids_def)
  qed
qed

text \<open>
  Property C3.  Where the clock of the asking node does not go back and no settling is lost on
  its way, the table is a queue: what the node obeyed, followed by what is still open, is
  what it was asked, each asking once and in the order of the askings. Collections that fail
  and answers that are lost do not change that.
\<close>

theorem errands_in_order:
  assumes "sorted (ask_times evs)" "list_all hears_settles evs"
  shows "let s = net_run sd obey node evs n in
    obeyed_ids s @ map er_id (pending node (snd s)) = asks node evs"
proof -
  let ?s = "\<lambda>evs. net_run sd obey node evs n"
  have "obeyed_ids (?s evs) @ open_ids node (snd (?s evs)) = asks node evs"
    using assms
  proof (induction evs rule: rev_induct)
    case Nil
    then show ?case by (simp add: net_run_def obeyed_ids_def open_ids_def)
  next
    case (snoc ev evs)
    then have IH: "obeyed_ids (?s evs) @ open_ids node (snd (?s evs)) = asks node evs"
      and sorted: "sorted (map er_created (snd (?s evs)))"
      by (simp_all add: ask_times_append sorted_append net_created)
    show ?case
    proof (cases ev)
      case (Ask now i to_node kind subject payload)
      with IH show ?thesis
        by (auto simp: net_run_snoc asks_append net_step_def queue_about_def open_ids_def obeyed_ids_def)
    next
      case (Pass now asking calls)
      with snoc.prems(2) IH show ?thesis
        by (simp add: net_run_snoc asks_append pass_keeps_order sorted)
    qed
  qed
  then show ?thesis
    by (simp add: Let_def pending_sorted net_created assms(1))
qed

text \<open>A node that obeys everything, and payloads that are their own text.\<close>

definition demo_serde :: serde where
  "demo_serde = \<lparr>to_text = (\<lambda>v. case v of JString s \<Rightarrow> s | _ \<Rightarrow> []), from_text = (\<lambda>s. Some (JString s)),
    as_host = (\<lambda>v. Inl []), as_edge = (\<lambda>v. Inl []), as_standby = (\<lambda>v. Inl []),
    as_manage = (\<lambda>v. Inl []), as_command = (\<lambda>v. Inl []), as_zone = (\<lambda>v. Inl []), edge_value = (\<lambda>e. JNull)\<rparr>"

definition demo_events :: "net_event list" where
  "demo_events = [Ask 1 ''a'' ''n'' KEdge (Some ''s'') (JString ''x''), Pass 2 RequestLost (\<lambda>_. (Reached, 2)),
    Ask 2 ''b'' ''n'' KEdge (Some ''s'') (JString ''y''), Pass 3 Reached (\<lambda>_. (AnswerLost, 3))]"

theorem errands_in_order_witness:
  "let s = net_run demo_serde (\<lambda>o' n. (None, n + 1)) ''n'' demo_events (0::nat) in
    obeyed_ids s @ map er_id (pending ''n'' (snd s)) = [''a'', ''b'']"
proof -
  have "sorted (ask_times demo_events)" "asks ''n'' demo_events = [''a'', ''b'']"
    by (simp_all add: demo_events_def ask_times_def asks_def map_filter_simps)
  moreover have "list_all hears_settles demo_events"
    by (auto simp: demo_events_def hears_settles_def)
  ultimately show ?thesis
    using errands_in_order [of demo_events demo_serde "\<lambda>o' n. (None, n + 1)" "''n''" "0::nat"] by simp
qed

section \<open>A settling that is lost\<close>

text \<open>
  When two instructions about one subject are collected together and the
  settling of the older is lost while the newer is settled, the next pass obeys the older
  again, after the newer: what the node is left with is the older one, nothing is open, and
  saying the newer again would change nothing, so it is not said again.
\<close>

theorem a_lost_settle_reorders:
  assumes "a \<noteq> b" "t1 \<le> t2" "from_text sd (to_text sd new) = Some new"
    "\<not> is_authorised authorities node"
  shows "let s = net_run sd (\<lambda>order n. (None, f order n)) node
      [Ask t1 a node kind (Some subject) old, Ask t2 b node kind (Some subject) new,
       Pass t3 Reached (\<lambda>k. (if k = 0 then RequestLost else Reached, t3)),
       Pass t4 Reached (\<lambda>k. (Reached, t4))] n in
    obeyed_ids s = [a, b, a] \<and> pending node (snd s) = [] \<and>
    \<not> would_change sd authorities node kind subject new (snd s)"
  using assms
  by (simp add: net_run_def net_step_def queue_about_def from_one_def waiting_def pending_def
      mark_taken_def handed_def logged_def call_settle_def settle_def obeyed_ids_def
      would_change_def newest_by_def Let_def)

theorem a_lost_settle_reorders_witness:
  "let s = net_run demo_serde (\<lambda>order n. (None, n @ [errand_id order])) ''n''
      [Ask 1 ''a'' ''n'' KEdge (Some ''s'') (JString ''serve''), Ask 2 ''b'' ''n'' KEdge (Some ''s'') (JString ''stop''),
       Pass 3 Reached (\<lambda>k. (if k = 0 then RequestLost else Reached, 3)),
       Pass 4 Reached (\<lambda>k. (Reached, 4))] [] in
    obeyed_ids s = [''a'', ''b'', ''a''] \<and> pending ''n'' (snd s) = [] \<and>
    \<not> would_change demo_serde [] ''n'' KEdge ''s'' (JString ''stop'') (snd s)"
  by (rule a_lost_settle_reorders)
    (simp_all add: demo_serde_def is_authorised_def)

section \<open>Consent and obeying\<close>

lemma allowed_other:
  "me \<noteq> Some authority \<Longrightarrow> allowed me db authority c = None \<longleftrightarrow> c \<in> set (granted_to db authority)"
  by (simp add: allowed_def)

lemma consent_None:
  "consent_for sd kind payload = None \<Longrightarrow> kind = KUnknown \<or>
    kind = KEdge \<and> (\<exists>e. as_edge sd payload = Inr e \<and> edge_upstreams e = []) \<or>
    kind = KZone \<and> (\<exists>z. as_zone sd payload = Inr z \<and> zone_withdrawn z)"
  by (cases kind) (auto simp: consent_for_def Let_def split: sum.splits if_splits)

text \<open>A withdrawal: a name with nothing behind it, or a zone that is withdrawn.\<close>

definition puts_down :: "serde \<Rightarrow> errand \<Rightarrow> bool" where
  "puts_down sd order \<longleftrightarrow>
    errand_kind order = KEdge \<and>
      (case as_edge sd (errand_payload order) of Inr e \<Rightarrow> edge_upstreams e = [] | Inl _ \<Rightarrow> False) \<or>
    errand_kind order = KZone \<and>
      (case as_zone sd (errand_payload order) of Inr z \<Rightarrow> zone_withdrawn z | Inl _ \<Rightarrow> False)"

definition favour :: "errand_kind \<Rightarrow> capability option" where
  "favour kind = (case kind of KHost \<Rightarrow> Some Host | KDatabase \<Rightarrow> Some Store | KManage \<Rightarrow> Some Manage
     | KCommand \<Rightarrow> Some Manage | KEdge \<Rightarrow> Some Edge | KZone \<Rightarrow> Some Dns | KUnknown \<Rightarrow> None)"

lemma consent_favour:
  "consent_for sd (errand_kind order) (errand_payload order) =
    (if puts_down sd order then None else favour (errand_kind order))"
  by (cases "errand_kind order")
    (auto simp: consent_for_def puts_down_def favour_def Let_def split: sum.splits)

lemma on_work_attempts [simp]: "attempts (snd (on_work f n)) = attempts n"
  by (simp add: on_work_def split: prod.splits)

lemma on_work_grants [simp]: "grants (snd (on_work f n)) = grants n" "me_id (snd (on_work f n)) = me_id n"
  by (simp_all add: on_work_def split: prod.splits)

lemma granted_to_note: "granted_to (note_obeyed a i db) authority = granted_to db authority"
proof -
  have other: "capability_key c \<noteq> obeyed_key a" for c
    by (cases a; cases c) (simp_all add: obeyed_key_def)
  have "setting_read (note_obeyed a i db) (capability_key c) = setting_read db (capability_key c)" for c
    unfolding note_obeyed_def by (rule setting.get_put_other [OF other])
  then have "provides (note_obeyed a i db) c = provides db c" for c
    by (simp add: provides_def)
  moreover have "node_grant (note_obeyed a i db) = node_grant db"
    "node_grant_withdrawn (note_obeyed a i db) = node_grant_withdrawn db"
    by (simp_all add: note_obeyed_def setting_write_def)
  ultimately show ?thesis by (simp add: granted_to_def withdrawn_from_def)
qed

text \<open>Who the node is and what it has granted, which obeying never changes.\<close>

definition standing :: "string \<Rightarrow> 'w obeying \<Rightarrow> string option \<times> capability list" where
  "standing who n = (me_id n, granted_to (grants n) who)"

lemma on_work_standing: "standing who (snd (on_work f n)) = standing who n"
  by (simp add: standing_def)

lemma be_at_release_standing: "standing who (snd (be_at_release h t authority tag n)) = standing who n"
  by (auto simp: be_at_release_def on_work_standing split: option.splits sum.splits)

lemma do_once_standing: "standing who (snd (do_once h t i a n)) = standing who n"
  by (cases a) (auto simp: do_once_def on_work_standing, auto simp: standing_def granted_to_note)

lemma reading_standing:
  "(\<And>x n. standing who (snd (f x n)) = standing who n) \<Longrightarrow>
    standing who (snd (reading what v f n)) = standing who n"
  by (auto simp: reading_def split: sum.splits)

lemma carry_out_standing: "standing who (snd (carry_out sd h t authority order n)) = standing who n"
  unfolding carry_out_def Let_def
  by (cases "errand_kind order")
    (auto split: option.splits
      simp: on_work_standing be_at_release_standing do_once_standing intro!: reading_standing)


definition demo_node :: "nat obeying" where
  "demo_node = \<lparr>me_id = Some ''me'',
    grants = \<lparr>settings = [], node_grant = [((''n'', ''edge''), 1)], node_grant_withdrawn = []\<rparr>,
    attempts = [], work = 0\<rparr>"

definition counting :: "nat handlers" where
  "counting = \<lparr>host_service_h = (\<lambda>who a w. (None, w + 1)), hold_standby_h = (\<lambda>who a w. (None, w + 1)),
    serve_name_h = (\<lambda>who a w. (None, w + 1)), serve_zone_h = (\<lambda>who a w. (None, w + 1)),
    queue_install = (\<lambda>tag who w. (None, w + 1)), restart_h = (\<lambda>w. (None, w + 1)), start_backup = (\<lambda>w. w + 1)\<rparr>"

definition demo_moment :: moment where
  "demo_moment = \<lparr>clock = 0, own_release = ''1.2.2'', under_supervision = True,
    catalogue = Inr [], backup_running = False\<rparr>"


section \<open>Once, and what once means\<close>

text \<open>Handlers that only count restarts and backups.\<close>

definition tally :: "(nat \<times> nat) handlers" where
  "tally = \<lparr>host_service_h = (\<lambda>who a w. (None, w)), hold_standby_h = (\<lambda>who a w. (None, w)),
    serve_name_h = (\<lambda>who a w. (None, w)), serve_zone_h = (\<lambda>who a w. (None, w)),
    queue_install = (\<lambda>tag who w. (None, w)), restart_h = (\<lambda>w. (None, apfst Suc w)),
    start_backup = apsnd Suc\<rparr>"

definition ids_for :: "action \<Rightarrow> (moment \<times> string \<times> action) list \<Rightarrow> string list" where
  "ids_for a askings = map (fst \<circ> snd) (filter (\<lambda>(t, i, a'). a' = a) askings)"

definition able :: "moment \<times> string \<times> action \<Rightarrow> bool" where
  "able asking = (case asking of (t, i, a) \<Rightarrow> under_supervision t \<and> \<not> backup_running t)"

definition last_obeyed :: "'w obeying \<Rightarrow> action \<Rightarrow> string option" where
  "last_obeyed n a = setting_read (grants n) (obeyed_key a)"

text \<open>How many of a list differ from the one before, the first from what was noted.\<close>

fun changes :: "string option \<Rightarrow> string list \<Rightarrow> nat" where
  "changes prev [] = 0"
| "changes prev (i # later) = (if prev = Some i then 0 else 1) + changes (Some i) later"

lemma changes_remdups: "changes prev ids + (if ids \<noteq> [] \<and> prev = Some (hd ids) then 1 else 0) = length (remdups_adj ids)"
proof (induction ids arbitrary: prev)
  case (Cons i ids)
  from Cons [of "Some i"] show ?case
  proof (cases ids)
    case (Cons j js)
    then show ?thesis using Cons.IH [of "Some i"] by (cases "i = j") simp_all
  qed simp
qed simp

lemma obeyed_key_inject [simp]: "obeyed_key a = obeyed_key b \<longleftrightarrow> a = b"
  by (cases a; cases b) (simp_all add: obeyed_key_def)

lemma last_obeyed_note [simp]:
  "last_obeyed (n\<lparr>grants := note_obeyed a i (grants n)\<rparr>) b = (if b = a then Some i else last_obeyed n b)"
  by (simp add: last_obeyed_def note_obeyed_def setting.get_put)

lemma last_obeyed_on_work [simp]: "last_obeyed (snd (on_work f n)) a = last_obeyed n a"
  by (simp add: last_obeyed_def)

lemma do_once_tally:
  assumes "able (t, i, a)"
  shows "work (snd (do_once tally t i a n)) =
      (if last_obeyed n a = Some i then work n
       else (case a of Restart \<Rightarrow> apfst Suc (work n) | BackUp \<Rightarrow> apsnd Suc (work n) | UnknownAction \<Rightarrow> work n))"
    "b \<noteq> UnknownAction \<Longrightarrow> last_obeyed (snd (do_once tally t i a n)) b =
      (if b = a then Some i else last_obeyed n b)"
  using assms
  by (cases a; simp add: do_once_def already_obeyed_def able_def tally_def on_work_def last_obeyed_def
      note_obeyed_def setting.get_put)+

text \<open>
  What is done for a sequence of askings, each under a service manager and with
  no backup running, is one restart (or backup) each time the id differs from the id of the
  asking of that action before it: an asking collected again right away does nothing, and the
  two actions do not disturb each other.
\<close>

theorem once_is_per_change_of_id:
  assumes "list_all able askings" "last_obeyed n Restart = None" "last_obeyed n BackUp = None" "work n = (0, 0)"
  shows "work (fold (\<lambda>(t, i, a) n. snd (do_once tally t i a n)) askings n) =
    (length (remdups_adj (ids_for Restart askings)), length (remdups_adj (ids_for BackUp askings)))"
proof -
  let ?run = "\<lambda>askings n. fold (\<lambda>(t, i, a) n. snd (do_once tally t i a n)) askings n"
  have "work (?run askings n) =
    (fst (work n) + changes (last_obeyed n Restart) (ids_for Restart askings),
     snd (work n) + changes (last_obeyed n BackUp) (ids_for BackUp askings))"
    using assms(1)
  proof (induction askings arbitrary: n)
    case Nil
    then show ?case by (simp add: ids_for_def)
  next
    case (Cons x askings)
    obtain t i a where x: "x = (t, i, a)" by (cases x) auto
    from Cons.prems have able: "able (t, i, a)" "list_all able askings" by (simp_all add: x)
    show ?case
      using Cons.IH [OF able(2), of "snd (do_once tally t i a n)"] do_once_tally(1) [OF able(1), of n]
        do_once_tally(2) [OF able(1), of Restart n] do_once_tally(2) [OF able(1), of BackUp n]
      by (cases a) (simp_all add: x ids_for_def)
  qed
  with assms(2-4) changes_remdups [of None "ids_for Restart askings"] changes_remdups [of None "ids_for BackUp askings"]
  show ?thesis by simp
qed

text \<open>A first asking that comes back after a second one is done again.\<close>

theorem once_is_per_change_of_id_witness:
  "work (fold (\<lambda>(t, i, a) n. snd (do_once tally t i a n))
      [(demo_moment, ''a'', Restart), (demo_moment, ''b'', Restart), (demo_moment, ''a'', Restart)]
      \<lparr>me_id = None, grants = \<lparr>settings = [], node_grant = [], node_grant_withdrawn = []\<rparr>, attempts = [], work = (0, 0)\<rparr>)
    = (3, 0)"
  by (subst once_is_per_change_of_id)
    (simp_all add: able_def demo_moment_def last_obeyed_def setting_read_def ids_for_def)

section \<open>Handing over twice\<close>

text \<open>
  An errand handed up to an authority whose answer is lost is handed up again, and the door
  gives it a new id, so what identifies an asking on the obeying node is not the asking: one
  restart asked for is two errands there, and is carried out twice.
\<close>

lemma a_lost_answer_asks_twice:
  "let row = \<lparr>er_id = ''a'', er_node = ''n'', er_from = None, er_kind = ''command'', er_payload = ''p'',
        er_subject = None, er_created = 1, er_taken = None, er_done = None, er_error = None\<rparr>;
       db = \<lparr>settings = [], node_grant = [((''me'', ''manage''), 1)], node_grant_withdrawn = []\<rparr>;
       (far1, rows1) = hand_over demo_serde 2 (Some ''n'') db ''me'' ''n'' (\<lambda>_. (AnswerLost, ''x1'')) [] [row];
       (far2, rows2) = hand_over demo_serde 3 (Some ''n'') db ''me'' ''n'' (\<lambda>_. (Reached, ''x2'')) far1 rows1
   in map er_id far2 = [''x1'', ''x2''] \<and> map er_done rows2 = [Some 3]"
  by code_simp

end
