(* ===== verification/Accounts.thy ===== *)
theory Accounts
  imports "HOL-Library.Code_Target_Nat" Projects Services
begin

text \<open>
  Who may operate the node and how they prove it: accounts and the setup token
  (infra/accounts/mod.rs), sessions (infra/accounts/sessions.rs), invitations
  (infra/accounts/invitations.rs), the requests of features/people and features/access that
  use them, and the middleware that ties a session to the frontier a request arrived in
  (shell/auth.rs).

  The \<open>account\<close> table is in two parts: the columns an account is decoded from are the accounts
  of Projects, and the rest is a table of credentials by id. What is generated, the digest and
  the password hashing are arguments; sentences are constructors.
\<close>

section \<open>The tables\<close>

record credential =
  password_hash :: string
  account_created :: int
  last_seen_at :: "int option"

record session_row =
  session_account :: string
  session_created :: int
  session_expires :: int

record invitation =
  invite_id :: string
  invite_role :: node_role
  invite_project :: "string option"
  invite_project_role :: "project_role option"
  created_by :: string
  expires_at :: int
  used_at :: "int option"
  invite_tenant :: "string option"
  scope_name :: "string option"

record invitation_row =
  iv_id :: string
  iv_token :: string
  iv_role :: string
  iv_project :: "string option"
  iv_project_role :: "string option"
  iv_creator :: string
  iv_created :: int
  iv_expires :: int
  iv_used :: "int option"
  iv_used_by :: "string option"
  iv_tenant :: "string option"

record people_db =
  orgs :: org_db
  credentials :: "(string, credential) table"
  config :: "(string, string) table"
  session_rows :: "(string, session_row) table"
  invites :: "invitation_row list"
  frontiers :: "(string \<times> string) list"

datatype account_error =
    NoSetupToken | SetupTokenExpired | NotTheSetupToken | AlreadySetUp
  | BadUsernameLength | BadUsernameChars | PasswordTooShort | PasswordTooLong
  | UsernameTaken string | StorageError | HashError | OnlyAdministrator | NobodyIsCalled string
  | OwnOrganisationOnly | NoSuchOrganisation | AdministratorsOnly
  | InvitationInvalid | InvitationJustUsed

record crypto =
  sha :: "string \<Rightarrow> string"
  pw_hash :: "string \<Rightarrow> string option"
  pw_verify :: "string \<Rightarrow> string \<Rightarrow> bool"

section \<open>Settings of the setup token\<close>

definition get_setting :: "people_db \<Rightarrow> string \<Rightarrow> string option" where
  "get_setting db k = map_of (config db) k"

definition put_setting :: "string \<Rightarrow> string \<Rightarrow> people_db \<Rightarrow> people_db" where
  "put_setting k v db = db\<lparr>config := AList.update k v (config db)\<rparr>"

definition delete_setting :: "string \<Rightarrow> people_db \<Rightarrow> people_db" where
  "delete_setting k db = db\<lparr>config := AList.delete k (config db)\<rparr>"

definition SETUP_TOKEN_HOURS :: int where "SETUP_TOKEN_HOURS = 24"
definition SETUP_TOKEN_KEY :: string where "SETUP_TOKEN_KEY = ''setup_token_hash''"
definition SETUP_TOKEN_EXPIRY_KEY :: string where
  "SETUP_TOKEN_EXPIRY_KEY = ''setup_token_expires_at''"

definition show_i64 :: "int \<Rightarrow> string" where
  "show_i64 i = (if i < 0 then ''-'' @ show_nat (nat (- i)) else show_nat (nat i))"

text \<open>The bytes of a text, and the comparison that reads all of them.\<close>

definition utf8 :: "string \<Rightarrow> nat list" where
  "utf8 s = concat (map (\<lambda>c. if code_of c < 128 then [code_of c]
     else [192 + code_of c div 64, 128 + code_of c mod 64]) s)"

definition constant_time_eq :: "string \<Rightarrow> string \<Rightarrow> bool" where
  "constant_time_eq a b \<longleftrightarrow> length (utf8 a) = length (utf8 b) \<and>
    foldl (\<lambda>differences (x, y). or differences (xor x y)) 0 (zip (utf8 a) (utf8 b)) = 0"

definition any_account :: "people_db \<Rightarrow> bool" where
  "any_account db \<longleftrightarrow> length (accounts (orgs db)) > 0"

definition issue_setup_token :: "crypto \<Rightarrow> int \<Rightarrow> string \<Rightarrow> people_db \<Rightarrow> people_db" where
  "issue_setup_token cr now token db =
    put_setting SETUP_TOKEN_EXPIRY_KEY (show_i64 (now + SETUP_TOKEN_HOURS * 3600000))
      (put_setting SETUP_TOKEN_KEY (sha cr token) db)"

definition setup_token_valid :: "int \<Rightarrow> people_db \<Rightarrow> bool" where
  "setup_token_valid now db =
    (case get_setting db SETUP_TOKEN_EXPIRY_KEY of
       None \<Rightarrow> False
     | Some at \<Rightarrow> now < (case parse_i64 at of Some i \<Rightarrow> i | None \<Rightarrow> 0))"

definition spend_setup_token :: "crypto \<Rightarrow> int \<Rightarrow> string \<Rightarrow> people_db
    \<Rightarrow> account_error option \<times> people_db" where
  "spend_setup_token cr now offered db =
    (case get_setting db SETUP_TOKEN_KEY of
       None \<Rightarrow> (Some NoSetupToken, db)
     | Some stored \<Rightarrow>
        if \<not> setup_token_valid now db then (Some SetupTokenExpired, db)
        else if \<not> constant_time_eq (sha cr offered) stored then (Some NotTheSetupToken, db)
        else (None, delete_setting SETUP_TOKEN_EXPIRY_KEY (delete_setting SETUP_TOKEN_KEY db)))"

section \<open>Accounts (accounts/mod.rs)\<close>

definition validate_username :: "string \<Rightarrow> account_error option" where
  "validate_username u =
    (if byte_len u < 2 \<or> byte_len u > 40 then Some BadUsernameLength
     else if \<not> list_all (\<lambda>c. is_alphanumeric c \<or> c \<in> {CHR ''-'', CHR ''_'', CHR ''.''}) u
     then Some BadUsernameChars else None)"

definition validate_password :: "string \<Rightarrow> account_error option" where
  "validate_password p =
    (if length p < 12 then Some PasswordTooShort
     else if length p > 200 then Some PasswordTooLong else None)"

definition scope_key :: "string option \<Rightarrow> string" where
  "scope_key t = (case t of None \<Rightarrow> [] | Some x \<Rightarrow> x)"

text \<open>The unique index: the name without case, within the frontier.\<close>

definition name_key :: "account \<Rightarrow> string \<times> string" where
  "name_key a = (lowercase (username a), scope_key (account_tenant a))"

definition on_orgs :: "(org_db \<Rightarrow> org_db) \<Rightarrow> people_db \<Rightarrow> people_db" where
  "on_orgs f db = db\<lparr>orgs := f (orgs db)\<rparr>"

definition account_insert :: "crypto \<Rightarrow> int \<Rightarrow> string \<Rightarrow> string \<Rightarrow> string \<Rightarrow> node_role
    \<Rightarrow> string option \<Rightarrow> people_db \<Rightarrow> (account_error + account) \<times> people_db" where
  "account_insert cr now generated uname password r tenant db =
    (let account = \<lparr>account_id = ''acc-'' @ generated, username = uname, account_role = r,
           account_theme = System, account_language = En, account_tenant = tenant\<rparr>;
         others = accounts (orgs db)
     in case pw_hash cr password of None \<Rightarrow> (Inl HashError, db)
     | Some hash \<Rightarrow>
        if account_id account \<in> account_id ` set others \<or> name_key account \<in> name_key ` set others
        then (Inl (UsernameTaken uname), db)
        else if tenant \<noteq> None \<and> the tenant \<notin> fst ` set (frontiers db) then (Inl StorageError, db)
        else (Inr account,
          (on_orgs (\<lambda>o'. o'\<lparr>accounts := accounts o' @ [account]\<rparr>) db)
            \<lparr>credentials := AList.update (account_id account)
               \<lparr>password_hash = hash, account_created = now, last_seen_at = None\<rparr> (credentials db)\<rparr>))"

definition create_in :: "crypto \<Rightarrow> int \<Rightarrow> string \<Rightarrow> string \<Rightarrow> string \<Rightarrow> node_role \<Rightarrow> string option
    \<Rightarrow> people_db \<Rightarrow> (account_error + account) \<times> people_db" where
  "create_in cr now generated uname password r tenant db =
    (let uname = trim uname in
     case validate_username uname of Some e \<Rightarrow> (Inl e, db) | None \<Rightarrow>
     (case validate_password password of Some e \<Rightarrow> (Inl e, db) | None \<Rightarrow>
       account_insert cr now generated uname password r tenant db))"

definition create_admin :: "crypto \<Rightarrow> int \<Rightarrow> string \<Rightarrow> string \<Rightarrow> string \<Rightarrow> string \<Rightarrow> people_db
    \<Rightarrow> (account_error + account) \<times> people_db" where
  "create_admin cr now generated setup_token uname password db =
    (if any_account db then (Inl AlreadySetUp, db)
     else
    (let uname = trim uname in
     case validate_username uname of Some e \<Rightarrow> (Inl e, db) | None \<Rightarrow>
     (case validate_password password of Some e \<Rightarrow> (Inl e, db) | None \<Rightarrow>
       (case spend_setup_token cr now setup_token db of
          (Some e, db) \<Rightarrow> (Inl e, db)
        | (None, db) \<Rightarrow> account_insert cr now generated uname password Admin None db))))"

definition people_all :: "people_db \<Rightarrow> account list" where
  "people_all db = accounts_all (orgs db)"

definition of_scope :: "people_db \<Rightarrow> string option \<Rightarrow> account list" where
  "of_scope db tenant =
    sort_key username (filter (\<lambda>a. account_tenant a = tenant) (accounts (orgs db)))"

definition administrators :: "people_db \<Rightarrow> nat" where
  "administrators db = length (filter is_admin (people_all db))"

definition edit_account :: "string \<Rightarrow> (account \<Rightarrow> account) \<Rightarrow> people_db \<Rightarrow> people_db" where
  "edit_account aid f = on_orgs (\<lambda>o'. o'\<lparr>accounts :=
     map (\<lambda>a. if account_id a = aid then f a else a) (accounts o')\<rparr>)"

definition set_account_role :: "string \<Rightarrow> node_role \<Rightarrow> people_db \<Rightarrow> account_error option \<times> people_db" where
  "set_account_role aid r db =
    (if r \<noteq> Admin \<and> administrators db \<le> 1 \<and>
        list_ex (\<lambda>a. account_id a = aid \<and> is_admin a) (people_all db)
     then (Some OnlyAdministrator, db)
     else (None, edit_account aid (\<lambda>a. a\<lparr>account_role := r\<rparr>) db))"

text \<open>
  Deleting an account: its sessions, its memberships and the invitations it created go by
  cascade, and an invitation it used keeps no trace of who used it.
\<close>

definition drop_account :: "string \<Rightarrow> people_db \<Rightarrow> people_db" where
  "drop_account aid db =
    (on_orgs (\<lambda>o'. o'\<lparr>accounts := filter (\<lambda>a. account_id a \<noteq> aid) (accounts o'),
        memberships := delete_where (\<lambda>k r. fst k = aid) (memberships o')\<rparr>) db)
    \<lparr>credentials := AList.delete aid (credentials db),
     session_rows := delete_where (\<lambda>k s. session_account s = aid) (session_rows db),
     invites := map (\<lambda>i. if iv_used_by i = Some aid then i\<lparr>iv_used_by := None\<rparr> else i)
       (filter (\<lambda>i. iv_creator i \<noteq> aid) (invites db))\<rparr>"

definition account_delete :: "string \<Rightarrow> people_db \<Rightarrow> account_error option \<times> people_db" where
  "account_delete aid db =
    (if administrators db \<le> 1 \<and> list_ex (\<lambda>a. account_id a = aid \<and> is_admin a) (people_all db)
     then (Some OnlyAdministrator, db)
     else (None, drop_account aid db))"

definition set_theme :: "string \<Rightarrow> theme \<Rightarrow> people_db \<Rightarrow> people_db" where
  "set_theme aid t = edit_account aid (\<lambda>a. a\<lparr>account_theme := theme_parse (theme_as_str t)\<rparr>)"

definition set_language :: "string \<Rightarrow> language \<Rightarrow> people_db \<Rightarrow> people_db" where
  "set_language aid l = edit_account aid (\<lambda>a. a\<lparr>account_language := language_parse (language_as_str l)\<rparr>)"

definition set_hashes :: "(account \<Rightarrow> bool) \<Rightarrow> string \<Rightarrow> people_db \<Rightarrow> people_db" where
  "set_hashes P hash db = db\<lparr>credentials :=
     map (\<lambda>(k, c). if k \<in> account_id ` set (filter P (accounts (orgs db)))
                   then (k, c\<lparr>password_hash := hash\<rparr>) else (k, c)) (credentials db)\<rparr>"

definition reset_password :: "crypto \<Rightarrow> string \<Rightarrow> string \<Rightarrow> people_db
    \<Rightarrow> (account_error + string \<times> string) \<times> people_db" where
  "reset_password cr generated uname db =
    (let lookup = lowercase (trim uname); named = (\<lambda>a. lowercase (username a) = lookup) in
     case pw_hash cr generated of None \<Rightarrow> (Inl HashError, db)
     | Some hash \<Rightarrow>
        (case List.find named (accounts (orgs db)) of
           None \<Rightarrow> (Inl (NobodyIsCalled uname), db)
         | Some a \<Rightarrow> (Inr (username a, generated), set_hashes named hash db)))"

definition authenticate :: "crypto \<Rightarrow> int \<Rightarrow> string \<Rightarrow> string \<Rightarrow> string option \<Rightarrow> people_db
    \<Rightarrow> account option \<times> people_db" where
  "authenticate cr now uname password tenant db =
    (let lookup = lowercase (trim uname) in
     case List.find (\<lambda>a. name_key a = (lookup, scope_key tenant)) (accounts (orgs db)) of
       None \<Rightarrow> (None, db)
     | Some a \<Rightarrow>
        (case map_of (credentials db) (account_id a) of None \<Rightarrow> (None, db)
         | Some c \<Rightarrow>
            if \<not> pw_verify cr password (password_hash c) then (None, db)
            else (Some a, db\<lparr>credentials := AList.update (account_id a)
              (c\<lparr>last_seen_at := Some now\<rparr>) (credentials db)\<rparr>)))"

section \<open>Sessions (accounts/sessions.rs)\<close>

definition COOKIE_NAME :: string where "COOKIE_NAME = ''wabot_session''"
definition SESSION_DAYS :: int where "SESSION_DAYS = 7"

text \<open>The token is new, so its hash is: writing a row never meets another.\<close>

definition session_create :: "crypto \<Rightarrow> int \<Rightarrow> string \<Rightarrow> account \<Rightarrow> people_db \<Rightarrow> string \<times> people_db" where
  "session_create cr now token account db =
    (token, db\<lparr>session_rows := AList.update (sha cr token)
       \<lparr>session_account = account_id account, session_created = now,
        session_expires = now + SESSION_DAYS * 86400000\<rparr>
       (delete_where (\<lambda>k s. session_expires s < now) (session_rows db))\<rparr>)"

definition session_lookup :: "crypto \<Rightarrow> int \<Rightarrow> string \<Rightarrow> people_db \<Rightarrow> account option" where
  "session_lookup cr now token db =
    (case map_of (session_rows db) (sha cr token) of
       None \<Rightarrow> None
     | Some s \<Rightarrow>
        if session_expires s \<le> now then None
        else List.find (\<lambda>a. account_id a = session_account s) (accounts (orgs db)))"

definition session_revoke :: "crypto \<Rightarrow> string \<Rightarrow> people_db \<Rightarrow> people_db" where
  "session_revoke cr token db = db\<lparr>session_rows := AList.delete (sha cr token) (session_rows db)\<rparr>"

definition cookie_of_header :: "string \<Rightarrow> string option" where
  "cookie_of_header header =
    find_map (\<lambda>pair. case split_once CHR ''='' (trim pair) of
        None \<Rightarrow> None
      | Some (name, v) \<Rightarrow> if name = COOKIE_NAME then Some v else None)
      (split_on CHR '';'' header)"

definition set_cookie :: "string \<Rightarrow> string" where
  "set_cookie token = COOKIE_NAME @ ''='' @ token @
    ''; HttpOnly; Secure; SameSite=Lax; Path=/; Max-Age='' @ show_i64 (SESSION_DAYS * 86400)"

definition clear_cookie :: string where
  "clear_cookie = COOKIE_NAME @ ''=; HttpOnly; Secure; SameSite=Lax; Path=/; Max-Age=0''"

section \<open>Invitations (accounts/invitations.rs)\<close>

definition INVITATION_DAYS :: int where "INVITATION_DAYS = 7"

definition spent :: "invitation \<Rightarrow> bool" where
  "spent i \<longleftrightarrow> used_at i \<noteq> None"

definition expired :: "int \<Rightarrow> invitation \<Rightarrow> bool" where
  "expired now i \<longleftrightarrow> expires_at i \<le> now"

definition live :: "int \<Rightarrow> invitation \<Rightarrow> bool" where
  "live now i \<longleftrightarrow> \<not> spent i \<and> \<not> expired now i"

definition decode_invitation :: "(string \<times> string) list \<Rightarrow> invitation_row \<Rightarrow> invitation" where
  "decode_invitation names r =
    \<lparr>invite_id = iv_id r, invite_role = node_role_parse (iv_role r), invite_project = iv_project r,
     invite_project_role = map_option project_role_parse (iv_project_role r),
     created_by = iv_creator r, expires_at = iv_expires r, used_at = iv_used r,
     invite_tenant = iv_tenant r, scope_name = Option.bind (iv_tenant r) (map_of names)\<rparr>"

definition create_into :: "crypto \<Rightarrow> int \<Rightarrow> string \<Rightarrow> string \<Rightarrow> account \<Rightarrow> node_role
    \<Rightarrow> (string \<times> project_role) option \<Rightarrow> string option \<Rightarrow> people_db
    \<Rightarrow> (account_error + string) \<times> people_db" where
  "create_into cr now token generated creator r project tenant db =
    (let into = (if is_admin creator then tenant else account_tenant creator) in
     if \<not> is_admin creator \<and> tenant \<noteq> account_tenant creator then (Inl OwnOrganisationOnly, db)
     else if into \<noteq> None \<and> the into \<notin> fst ` set (frontiers db) then (Inl NoSuchOrganisation, db)
     else if r = Admin \<and> \<not> administers_scope creator then (Inl AdministratorsOnly, db)
     else if list_ex (\<lambda>i. iv_id i = ''inv-'' @ generated \<or> iv_token i = sha cr token) (invites db)
     then (Inl StorageError, db)
     else (Inr token, db\<lparr>invites := invites db @
       [\<lparr>iv_id = ''inv-'' @ generated, iv_token = sha cr token, iv_role = node_role_as_str r,
         iv_project = map_option fst project,
         iv_project_role = map_option (project_role_as_str \<circ> snd) project,
         iv_creator = account_id creator, iv_created = now,
         iv_expires = now + INVITATION_DAYS * 86400000, iv_used = None, iv_used_by = None,
         iv_tenant = into\<rparr>]\<rparr>))"

definition look_up :: "crypto \<Rightarrow> int \<Rightarrow> string \<Rightarrow> people_db \<Rightarrow> invitation option" where
  "look_up cr now token db =
    (case List.find (\<lambda>i. iv_token i = sha cr token) (invites db) of
       None \<Rightarrow> None
     | Some r \<Rightarrow> (let i = decode_invitation (frontiers db) r in if live now i then Some i else None))"

text \<open>
  Accepting, from what was looked up: the account, then the invitation if it is still unspent,
  and the account goes again when somebody else spent it in between.
\<close>

definition accept_found :: "crypto \<Rightarrow> int \<Rightarrow> string \<Rightarrow> invitation \<Rightarrow> string \<Rightarrow> string \<Rightarrow> people_db
    \<Rightarrow> (account_error + account) \<times> people_db" where
  "accept_found cr now generated found uname password db =
    (case create_in cr now generated uname password (invite_role found) (invite_tenant found) db of
       (Inl e, db) \<Rightarrow> (Inl e, db)
     | (Inr account, db) \<Rightarrow>
        (let mine = (\<lambda>i. iv_id i = invite_id found \<and> iv_used i = None) in
         if \<not> list_ex mine (invites db)
         then (case account_delete (account_id account) db of
                 (Some e, db) \<Rightarrow> (Inl e, db)
               | (None, db) \<Rightarrow> (Inl InvitationJustUsed, db))
         else
           (let db = db\<lparr>invites := map (\<lambda>i. if mine i
                 then i\<lparr>iv_used := Some now, iv_used_by := Some (account_id account)\<rparr> else i) (invites db)\<rparr>
            in case (invite_project found, invite_project_role found) of
                 (Some p, Some r) \<Rightarrow> (Inr account, on_orgs (access_grant now (account_id account) p r) db)
               | _ \<Rightarrow> (Inr account, db))))"

definition accept_invitation :: "crypto \<Rightarrow> int \<Rightarrow> string \<Rightarrow> string \<Rightarrow> string \<Rightarrow> string \<Rightarrow> people_db
    \<Rightarrow> (account_error + account) \<times> people_db" where
  "accept_invitation cr now generated token uname password db =
    (case look_up cr now token db of
       None \<Rightarrow> (Inl InvitationInvalid, db)
     | Some found \<Rightarrow> accept_found cr now generated found uname password db)"

definition invitations_all :: "people_db \<Rightarrow> invitation list" where
  "invitations_all db =
    map (decode_invitation (frontiers db)) (rev (sort_key iv_created (invites db)))"

definition revoke_invitation :: "string \<Rightarrow> people_db \<Rightarrow> people_db" where
  "revoke_invitation i db = db\<lparr>invites := filter (\<lambda>r. iv_id r \<noteq> i) (invites db)\<rparr>"

section \<open>The requests (features/access, features/people, features/organisations)\<close>

datatype people_refusal =
    Account account_error | NotMatching | OtherFrontier "string option" | NotThisOrganisation
  | NodeAdministratorsOnly | OrganisationAdministratorsOnly | NoSuchPerson | Yourself
  | NoSuchInvitation | NoProjectCalled | OrganisationsProject | NoOrganisation | SignedOut
  | NodesOwnPerson | NotAnAdministrator

text \<open>What one request is given: the clock and what it generates.\<close>

record request_env =
  rq_now :: int
  rq_account :: string
  rq_session :: string
  rq_link :: string
  rq_invite :: string

definition refusing :: "(account_error + 'a) \<times> people_db \<Rightarrow> (people_refusal + 'a) \<times> people_db" where
  "refusing r = (case fst r of Inl e \<Rightarrow> (Inl (Account e), snd r) | Inr x \<Rightarrow> (Inr x, snd r))"

definition doing :: "account_error option \<times> people_db \<Rightarrow> (people_refusal + string) \<times> people_db" where
  "doing r = (case fst r of Some e \<Rightarrow> (Inl (Account e), snd r) | None \<Rightarrow> (Inr [], snd r))"

definition guest_claim_the_node :: "crypto \<Rightarrow> request_env \<Rightarrow> string \<Rightarrow> string \<Rightarrow> string \<Rightarrow> people_db
    \<Rightarrow> (people_refusal + string) \<times> people_db" where
  "guest_claim_the_node cr v token uname password db =
    (case create_admin cr (rq_now v) (rq_account v) token uname password db of
       (Inl e, db) \<Rightarrow> (Inl (Account e), db)
     | (Inr account, db) \<Rightarrow> apfst Inr (session_create cr (rq_now v) (rq_session v) account db))"

definition guest_sign_in :: "crypto \<Rightarrow> request_env \<Rightarrow> string \<Rightarrow> string \<Rightarrow> string option \<Rightarrow> people_db
    \<Rightarrow> (people_refusal + string) \<times> people_db" where
  "guest_sign_in cr v uname password tenant db =
    (case authenticate cr (rq_now v) uname password tenant db of
       (None, db) \<Rightarrow> (Inl NotMatching, db)
     | (Some account, db) \<Rightarrow> apfst Inr (session_create cr (rq_now v) (rq_session v) account db))"

definition guest_join_as_node_user :: "crypto \<Rightarrow> request_env \<Rightarrow> string \<Rightarrow> string \<Rightarrow> string \<Rightarrow> people_db
    \<Rightarrow> (people_refusal + account) \<times> people_db" where
  "guest_join_as_node_user cr v token uname password db =
    (case look_up cr (rq_now v) token db of
       None \<Rightarrow> (Inl (Account InvitationInvalid), db)
     | Some found \<Rightarrow>
        if invite_tenant found \<noteq> None then (Inl (OtherFrontier (scope_name found)), db)
        else refusing (accept_invitation cr (rq_now v) (rq_account v) token uname password db))"

definition guest_join_as_tenant_user :: "crypto \<Rightarrow> request_env \<Rightarrow> string \<Rightarrow> string \<Rightarrow> string \<Rightarrow> string
    \<Rightarrow> people_db \<Rightarrow> (people_refusal + account) \<times> people_db" where
  "guest_join_as_tenant_user cr v tenant token uname password db =
    (case look_up cr (rq_now v) token db of
       None \<Rightarrow> (Inl (Account InvitationInvalid), db)
     | Some found \<Rightarrow>
        if invite_tenant found \<noteq> Some tenant then (Inl NotThisOrganisation, db)
        else refusing (accept_invitation cr (rq_now v) (rq_account v) token uname password db))"

text \<open>The project a form names: empty and blank alike mean none.\<close>

definition asked_project :: "string \<Rightarrow> string option" where
  "asked_project p = (if trim p \<noteq> [] then Some (trim p) else None)"

definition node_user_invite_person :: "crypto \<Rightarrow> request_env \<Rightarrow> account \<Rightarrow> node_role \<Rightarrow> string
    \<Rightarrow> project_role \<Rightarrow> people_db \<Rightarrow> (people_refusal + string) \<times> people_db" where
  "node_user_invite_person cr v account r project pr db =
    (if \<not> shares_the_machine_out account then (Inl NodeAdministratorsOnly, db)
     else
      (let mint = (\<lambda>p. refusing (create_into cr (rq_now v) (rq_link v) (rq_invite v) account r p None db)) in
       case asked_project project of
         None \<Rightarrow> mint None
       | Some slug \<Rightarrow>
          (case find_project (orgs db) account slug of
             None \<Rightarrow> (Inl NoProjectCalled, db)
           | Some (p, _) \<Rightarrow>
              if is_the_nodes_own p then mint (Some (project_id p, pr)) else (Inl OrganisationsProject, db))))"

definition tenant_user_invite_person :: "crypto \<Rightarrow> request_env \<Rightarrow> account \<Rightarrow> node_role \<Rightarrow> string
    \<Rightarrow> project_role \<Rightarrow> people_db \<Rightarrow> (people_refusal + string) \<times> people_db" where
  "tenant_user_invite_person cr v account r project pr db =
    (if \<not> tenant_user_administers account then (Inl OrganisationAdministratorsOnly, db)
     else
      (let mint = (\<lambda>p. refusing (create_into cr (rq_now v) (rq_link v) (rq_invite v) account r p
                          (account_tenant account) db)) in
       case asked_project project of
         None \<Rightarrow> mint None
       | Some slug \<Rightarrow>
          (case find_project (orgs db) account slug of
             None \<Rightarrow> (Inl NoProjectCalled, db)
           | Some (p, _) \<Rightarrow> mint (Some (project_id p, pr)))))"

definition node_user_invite_owner :: "crypto \<Rightarrow> request_env \<Rightarrow> account \<Rightarrow> string \<Rightarrow> people_db
    \<Rightarrow> (people_refusal + string) \<times> people_db" where
  "node_user_invite_owner cr v account tenant db =
    (if \<not> shares_the_machine_out account then (Inl NodeAdministratorsOnly, db)
     else if tenant \<notin> fst ` set (frontiers db) then (Inl NoOrganisation, db)
     else refusing (create_into cr (rq_now v) (rq_link v) (rq_invite v) account Admin None (Some tenant) db))"

definition known_in :: "people_db \<Rightarrow> string option \<Rightarrow> string \<Rightarrow> bool" where
  "known_in db tenant person \<longleftrightarrow> list_ex (\<lambda>a. account_id a = person) (of_scope db tenant)"

definition node_user_remove_person :: "account \<Rightarrow> string \<Rightarrow> people_db
    \<Rightarrow> (people_refusal + string) \<times> people_db" where
  "node_user_remove_person account person db =
    (if \<not> manages_the_machine account then (Inl NodeAdministratorsOnly, db)
     else if person = account_id account then (Inl Yourself, db)
     else if \<not> known_in db None person then (Inl NoSuchPerson, db)
     else doing (account_delete person db))"

definition node_user_remove_owner :: "account \<Rightarrow> string \<Rightarrow> people_db
    \<Rightarrow> (people_refusal + string) \<times> people_db" where
  "node_user_remove_owner account person db =
    (if \<not> shares_the_machine_out account then (Inl NodeAdministratorsOnly, db)
     else case List.find (\<lambda>a. account_id a = person) (people_all db) of
       None \<Rightarrow> (Inl NoSuchPerson, db)
     | Some found \<Rightarrow>
        if account_tenant found = None then (Inl NodesOwnPerson, db)
        else if account_role found \<noteq> Admin then (Inl NotAnAdministrator, db)
        else doing (account_delete person db))"

definition tenant_user_remove_person :: "account \<Rightarrow> string \<Rightarrow> people_db
    \<Rightarrow> (people_refusal + string) \<times> people_db" where
  "tenant_user_remove_person account person db =
    (if \<not> tenant_user_administers account then (Inl OrganisationAdministratorsOnly, db)
     else if \<not> known_in db (account_tenant account) person then (Inl NoSuchPerson, db)
     else doing (account_delete person db))"

definition node_user_set_person_role :: "account \<Rightarrow> string \<Rightarrow> node_role \<Rightarrow> people_db
    \<Rightarrow> (people_refusal + string) \<times> people_db" where
  "node_user_set_person_role account person r db =
    (if \<not> manages_the_machine account then (Inl NodeAdministratorsOnly, db)
     else if \<not> known_in db None person then (Inl NoSuchPerson, db)
     else doing (set_account_role person r db))"

definition tenant_user_set_person_role :: "account \<Rightarrow> string \<Rightarrow> node_role \<Rightarrow> people_db
    \<Rightarrow> (people_refusal + string) \<times> people_db" where
  "tenant_user_set_person_role account person r db =
    (if \<not> tenant_user_administers account then (Inl OrganisationAdministratorsOnly, db)
     else if \<not> known_in db (account_tenant account) person then (Inl NoSuchPerson, db)
     else doing (set_account_role person r db))"

definition node_user_revoke_invitation :: "account \<Rightarrow> string \<Rightarrow> people_db
    \<Rightarrow> (people_refusal + string) \<times> people_db" where
  "node_user_revoke_invitation account i db =
    (if \<not> shares_the_machine_out account then (Inl NodeAdministratorsOnly, db)
     else if \<not> list_ex (\<lambda>v. invite_id v = i) (invitations_all db) then (Inl NoSuchInvitation, db)
     else (Inr [], revoke_invitation i db))"

definition tenant_user_revoke_invitation :: "account \<Rightarrow> string \<Rightarrow> people_db
    \<Rightarrow> (people_refusal + string) \<times> people_db" where
  "tenant_user_revoke_invitation account i db =
    (if \<not> tenant_user_administers account then (Inl OrganisationAdministratorsOnly, db)
     else if \<not> list_ex (\<lambda>v. invite_id v = i \<and> invite_tenant v = account_tenant account) (invitations_all db)
     then (Inl NoSuchInvitation, db)
     else (Inr [], revoke_invitation i db))"

section \<open>A request at a console (shell/auth.rs)\<close>

text \<open>
  The \<open>Host\<close> decides the frontier; the cookie is a session, and it counts only where its
  account belongs.
\<close>

definition who_asks :: "crypto \<Rightarrow> int \<Rightarrow> string option \<Rightarrow> string option \<Rightarrow> people_db \<Rightarrow> account option" where
  "who_asks cr now tenant cookies db =
    (case Option.bind cookies cookie_of_header of
       None \<Rightarrow> None
     | Some token \<Rightarrow>
        (case session_lookup cr now token db of
           None \<Rightarrow> None
         | Some account \<Rightarrow> if belongs_to account tenant then Some account else None))"

datatype people_request =
    Claim string string string
  | SignIn string string
  | Join string string string
  | InvitePerson node_role string project_role
  | InviteOwner string
  | RemovePerson string
  | RemoveOwner string
  | SetPersonRole string node_role
  | RevokeInvitation string
  | ChooseTheme theme
  | ChooseLanguage language
  | SignOut

definition signed :: "account option \<Rightarrow> (account \<Rightarrow> people_db \<Rightarrow> (people_refusal + string) \<times> people_db)
    \<Rightarrow> people_db \<Rightarrow> (people_refusal + string) \<times> people_db" where
  "signed who f db = (case who of None \<Rightarrow> (Inl SignedOut, db) | Some a \<Rightarrow> f a db)"

text \<open>
  One console is the node's own, every other is an organisation's, and each has its own
  controller for people; the doors and the preferences are shared.
\<close>

definition answer :: "crypto \<Rightarrow> request_env \<Rightarrow> string option \<Rightarrow> string option \<Rightarrow> people_request
    \<Rightarrow> people_db \<Rightarrow> (people_refusal + string) \<times> people_db" where
  "answer cr v tenant cookies request db =
    (let who = who_asks cr (rq_now v) tenant cookies db in
     case request of
       Claim token u p \<Rightarrow> guest_claim_the_node cr v token u p db
     | SignIn u p \<Rightarrow> guest_sign_in cr v u p tenant db
     | Join token u p \<Rightarrow>
        (case (case tenant of None \<Rightarrow> guest_join_as_node_user cr v token u p db
               | Some t \<Rightarrow> guest_join_as_tenant_user cr v t token u p db) of
           (Inl e, db) \<Rightarrow> (Inl e, db)
         | (Inr account, db) \<Rightarrow> apfst Inr (session_create cr (rq_now v) (rq_session v) account db))
     | InvitePerson r project pr \<Rightarrow>
        signed who (\<lambda>a. (if tenant = None then node_user_invite_person else tenant_user_invite_person)
          cr v a r project pr) db
     | InviteOwner t \<Rightarrow> signed who (\<lambda>a. node_user_invite_owner cr v a t) db
     | RemoveOwner person \<Rightarrow> signed who (\<lambda>a. node_user_remove_owner a person) db
     | RemovePerson person \<Rightarrow>
        signed who (\<lambda>a. (if tenant = None then node_user_remove_person else tenant_user_remove_person) a person) db
     | SetPersonRole person r \<Rightarrow>
        signed who (\<lambda>a. (if tenant = None then node_user_set_person_role else tenant_user_set_person_role) a person r) db
     | RevokeInvitation i \<Rightarrow>
        signed who (\<lambda>a. (if tenant = None then node_user_revoke_invitation else tenant_user_revoke_invitation) a i) db
     | ChooseTheme t \<Rightarrow> signed who (\<lambda>a db. (Inr [], set_theme (account_id a) t db)) db
     | ChooseLanguage l \<Rightarrow> signed who (\<lambda>a db. (Inr [], set_language (account_id a) l db)) db
     | SignOut \<Rightarrow>
        (Inr [], case Option.bind cookies cookie_of_header of
                   None \<Rightarrow> db | Some token \<Rightarrow> session_revoke cr token db))"

section \<open>The comparison of hashes\<close>

lemma xor_zero: "xor x y = 0 \<longleftrightarrow> x = (y :: nat)"
proof
  assume "xor x y = 0"
  then have "xor (xor x y) y = y" by simp
  then show "x = y" by (simp add: xor.assoc)
qed simp

lemma fold_differences:
  "foldl (\<lambda>d (x, y). or d (xor x y)) d zs = 0 \<longleftrightarrow> d = 0 \<and> list_all (\<lambda>(x, y). x = (y :: nat)) zs"
proof (induction zs arbitrary: d)
  case (Cons z zs)
  obtain x y where "z = (x, y)" by fastforce
  then show ?case by (simp add: Cons.IH or_eq_0_iff xor_zero)
qed simp

lemma list_all_zip_eq: "length xs = length ys \<Longrightarrow> list_all (\<lambda>(x, y). x = y) (zip xs ys) \<longleftrightarrow> xs = ys"
  by (induction xs ys rule: list_induct2) auto

lemma utf8_simps: "utf8 [] = []"
  "utf8 (c # s) = (if code_of c < 128 then [code_of c]
     else [192 + code_of c div 64, 128 + code_of c mod 64]) @ utf8 s"
  by (simp_all add: utf8_def)

lemma utf8_inject: "utf8 a = utf8 b \<longleftrightarrow> a = b"
proof
  show "utf8 a = utf8 b \<Longrightarrow> a = b"
  proof (induction a arbitrary: b)
    case Nil
    then show ?case by (cases b) (auto simp: utf8_simps split: if_splits)
  next
    case (Cons x a)
    then obtain y b' where b: "b = y # b'" by (cases b) (auto simp: utf8_simps split: if_splits)
    have "code_of x = 64 * (code_of x div 64) + code_of x mod 64"
      "code_of y = 64 * (code_of y div 64) + code_of y mod 64" by simp_all
    then have "code_of x = code_of y \<and> utf8 a = utf8 b'"
      using Cons.prems unfolding b utf8_simps
      by (cases "code_of x < 128"; cases "code_of y < 128") (simp_all, linarith?)
    then show ?case using Cons.IH b by simp
  qed
qed simp

lemma constant_time_eq_eq [simp]: "constant_time_eq a b \<longleftrightarrow> a = b"
  by (auto simp: constant_time_eq_def fold_differences list_all_zip_eq utf8_inject)

section \<open>What a request of one organisation leaves alone\<close>

definition ids_beyond :: "string \<Rightarrow> people_db \<Rightarrow> string set" where
  "ids_beyond T db = account_id ` {a \<in> set (accounts (orgs db)). account_tenant a \<noteq> Some T}"

text \<open>
  The rows as their keys and references allow: ids and tokens unique, somebody beyond the
  organisation, and an invitation into another frontier neither minted nor used from here.
\<close>

definition in_place :: "string \<Rightarrow> people_db \<Rightarrow> bool" where
  "in_place T db \<longleftrightarrow> T \<noteq> [] \<and> distinct (map account_id (accounts (orgs db))) \<and>
    distinct (map iv_id (invites db)) \<and> ids_beyond T db \<noteq> {} \<and>
    (\<forall>i\<in>set (invites db). iv_tenant i = Some T \<or>
       iv_creator i \<in> ids_beyond T db \<and> (iv_used_by i = None \<or> the (iv_used_by i) \<in> ids_beyond T db))"

text \<open>Everything of the other frontiers is as it was, and nobody new is signed in there.\<close>

definition same_beyond :: "string \<Rightarrow> people_db \<Rightarrow> people_db \<Rightarrow> bool" where
  "same_beyond T db db' \<longleftrightarrow>
    filter (\<lambda>a. account_tenant a \<noteq> Some T) (accounts (orgs db')) =
      filter (\<lambda>a. account_tenant a \<noteq> Some T) (accounts (orgs db)) \<and>
    (\<forall>i\<in>ids_beyond T db. map_of (credentials db') i = map_of (credentials db) i \<and>
       (\<forall>p. map_of (memberships (orgs db')) (i, p) = map_of (memberships (orgs db)) (i, p))) \<and>
    filter (\<lambda>v. iv_tenant v \<noteq> Some T) (invites db') = filter (\<lambda>v. iv_tenant v \<noteq> Some T) (invites db) \<and>
    (\<forall>(k, s)\<in>set (session_rows db'). session_account s \<in> ids_beyond T db \<longrightarrow> (k, s) \<in> set (session_rows db)) \<and>
    projects (orgs db') = projects (orgs db) \<and> frontiers db' = frontiers db \<and> config db' = config db"

lemma ids_beyond_frames [simp]:
  "ids_beyond T (db\<lparr>credentials := c\<rparr>) = ids_beyond T db"
  "ids_beyond T (db\<lparr>invites := v\<rparr>) = ids_beyond T db"
  "ids_beyond T (db\<lparr>session_rows := s\<rparr>) = ids_beyond T db"
  by (simp_all add: ids_beyond_def)

lemma same_beyond_ids: "same_beyond T db db' \<Longrightarrow> ids_beyond T db' = ids_beyond T db"
proof -
  assume "same_beyond T db db'"
  then have "set (filter (\<lambda>a. account_tenant a \<noteq> Some T) (accounts (orgs db'))) =
      set (filter (\<lambda>a. account_tenant a \<noteq> Some T) (accounts (orgs db)))"
    by (simp add: same_beyond_def)
  then show ?thesis by (simp add: ids_beyond_def)
qed

lemma same_beyond_refl [simp]: "same_beyond T db db"
  by (auto simp: same_beyond_def)

lemma same_beyond_trans:
  assumes "same_beyond T a b" "same_beyond T b c"
  shows "same_beyond T a c"
  using assms same_beyond_ids [OF assms(1)] unfolding same_beyond_def by fastforce

definition keeps_out :: "string \<Rightarrow> people_db \<Rightarrow> people_db \<Rightarrow> bool" where
  "keeps_out T db db' \<longleftrightarrow> same_beyond T db db' \<and> in_place T db'"

lemma keeps_out_refl: "in_place T db \<Longrightarrow> keeps_out T db db"
  by (simp add: keeps_out_def)

lemma keeps_out_trans: "keeps_out T a b \<Longrightarrow> keeps_out T b c \<Longrightarrow> keeps_out T a c"
  unfolding keeps_out_def using same_beyond_trans by blast

lemma id_here_not_beyond:
  assumes "in_place T db" "a \<in> set (accounts (orgs db))" "account_tenant a = Some T"
  shows "account_id a \<notin> ids_beyond T db"
proof
  assume "account_id a \<in> ids_beyond T db"
  then obtain b where "b \<in> set (accounts (orgs db))" "account_tenant b \<noteq> Some T" "account_id b = account_id a"
    by (auto simp: ids_beyond_def)
  moreover have "inj_on account_id (set (accounts (orgs db)))"
    using assms(1) by (simp add: in_place_def distinct_map)
  ultimately show False using assms(2,3) by (auto dest: inj_onD)
qed

lemma keeps_edit_account:
  assumes "in_place T db" "aid \<notin> ids_beyond T db"
    "\<And>a. account_tenant (f a) = account_tenant a \<and> account_id (f a) = account_id a"
  shows "keeps_out T db (edit_account aid f db)"
proof -
  have same: "filter (\<lambda>a. account_tenant a \<noteq> Some T) (map (\<lambda>a. if account_id a = aid then f a else a) xs) =
      filter (\<lambda>a. account_tenant a \<noteq> Some T) xs"
    if "aid \<notin> account_id ` {a \<in> set xs. account_tenant a \<noteq> Some T}" for xs
    using that assms(3) by (induction xs) auto
  have "account_id \<circ> (\<lambda>a. if account_id a = aid then f a else a) = account_id"
    using assms(3) by (intro ext) simp
  moreover have "same_beyond T db (edit_account aid f db)"
    using assms(2) same by (auto simp: same_beyond_def edit_account_def on_orgs_def ids_beyond_def)
  moreover from this have "ids_beyond T (edit_account aid f db) = ids_beyond T db"
    by (rule same_beyond_ids)
  ultimately show ?thesis
    using assms(1) unfolding keeps_out_def in_place_def by (simp add: edit_account_def on_orgs_def)
qed

lemma map_of_delete_keys: "\<not> P k \<Longrightarrow> map_of (delete_where (\<lambda>k r. P k) t) k = map_of t k"
  by (induction t) (auto simp: delete_where_def)

lemma keeps_drop_account:
  assumes "in_place T db" "aid \<notin> ids_beyond T db"
  shows "keeps_out T db (drop_account aid db)"
proof -
  have accounts: "filter (\<lambda>a. account_tenant a \<noteq> Some T) (filter (\<lambda>a. account_id a \<noteq> aid) (accounts (orgs db))) =
      filter (\<lambda>a. account_tenant a \<noteq> Some T) (accounts (orgs db))"
    using assms(2) by (auto simp: ids_beyond_def intro!: filter_cong)
  have invites: "filter (\<lambda>v. iv_tenant v \<noteq> Some T) (map (\<lambda>i. if iv_used_by i = Some aid then i\<lparr>iv_used_by := None\<rparr> else i)
       (filter (\<lambda>i. iv_creator i \<noteq> aid) xs)) = filter (\<lambda>v. iv_tenant v \<noteq> Some T) xs"
    if "\<forall>i\<in>set xs. iv_tenant i = Some T \<or> iv_creator i \<noteq> aid \<and> iv_used_by i \<noteq> Some aid" for xs
    using that by (induction xs) auto
  have "\<forall>i\<in>set (invites db). iv_tenant i = Some T \<or> iv_creator i \<noteq> aid \<and> iv_used_by i \<noteq> Some aid"
    using assms by (auto simp: in_place_def)
  from invites [OF this] accounts have same: "same_beyond T db (drop_account aid db)"
    using assms(2)
    by (auto simp: same_beyond_def drop_account_def on_orgs_def delete_conv' set_delete_where
        intro!: map_of_delete_keys)
  have "map iv_id (map (\<lambda>i. if iv_used_by i = Some aid then i\<lparr>iv_used_by := None\<rparr> else i) xs) = map iv_id xs"
    for xs :: "invitation_row list"
    by (induction xs) auto
  then have "distinct (map iv_id (invites (drop_account aid db)))"
    using assms(1) by (simp add: in_place_def drop_account_def on_orgs_def distinct_map_filter del: map_map)
  moreover have "distinct (map account_id (accounts (orgs (drop_account aid db))))"
    using assms(1) by (simp add: in_place_def drop_account_def on_orgs_def distinct_map_filter)
  ultimately show ?thesis
    using assms(1) same same_beyond_ids [OF same] unfolding keeps_out_def in_place_def
    by (auto simp: drop_account_def on_orgs_def)
qed



lemma keeps_account_delete:
  assumes "in_place T db" "aid \<notin> ids_beyond T db" "account_delete aid db = (e, db')"
  shows "keeps_out T db db'"
  using assms keeps_drop_account keeps_out_refl by (auto simp: account_delete_def split: if_splits)

lemma keeps_set_role:
  assumes "in_place T db" "aid \<notin> ids_beyond T db" "set_account_role aid r db = (e, db')"
  shows "keeps_out T db db'"
  using assms keeps_edit_account keeps_out_refl by (auto simp: set_account_role_def split: if_splits)

lemma keeps_account_insert:
  assumes "in_place T db" "account_insert cr now generated u p r (Some T) db = (res, db')"
  shows "keeps_out T db db' \<and> (\<forall>a. res = Inr a \<longrightarrow>
    account_tenant a = Some T \<and> account_id a \<notin> ids_beyond T db' \<and> a \<in> set (accounts (orgs db')) \<and>
    invites db' = invites db)"
proof (cases res)
  case (Inl e)
  then have "db' = db" using assms(2) by (auto simp: account_insert_def Let_def split: option.splits if_splits)
  then show ?thesis using Inl assms(1) keeps_out_refl by simp
next
  case (Inr a)
  with assms(2) obtain hash where
    a: "account_tenant a = Some T" "account_id a \<notin> account_id ` set (accounts (orgs db))" and
    db': "db' = (on_orgs (\<lambda>o'. o'\<lparr>accounts := accounts o' @ [a]\<rparr>) db)
        \<lparr>credentials := AList.update (account_id a)
           \<lparr>password_hash = hash, account_created = now, last_seen_at = None\<rparr> (credentials db)\<rparr>"
    by (auto simp: account_insert_def Let_def split: option.splits if_splits)
  have new: "account_id a \<notin> ids_beyond T db" using a(2) by (auto simp: ids_beyond_def)
  have same: "same_beyond T db db'"
    using a new by (auto simp: same_beyond_def db' on_orgs_def row_simps)
  then have ids: "ids_beyond T db' = ids_beyond T db" by (rule same_beyond_ids)
  have "in_place T db'"
    using assms(1) a ids unfolding in_place_def by (auto simp: db' on_orgs_def)
  then show ?thesis
    using same ids new Inr a by (auto simp: keeps_out_def db' on_orgs_def)
qed

lemma keeps_create_in:
  assumes "in_place T db" "create_in cr now generated u p r (Some T) db = (res, db')"
  shows "keeps_out T db db' \<and> (\<forall>a. res = Inr a \<longrightarrow>
    account_tenant a = Some T \<and> account_id a \<notin> ids_beyond T db' \<and> a \<in> set (accounts (orgs db')) \<and>
    invites db' = invites db)"
  using assms keeps_account_insert keeps_out_refl
  by (auto simp: create_in_def Let_def split: option.splits)

lemma keeps_session:
  assumes "in_place T db" "account_id a \<notin> ids_beyond T db"
  shows "keeps_out T db (snd (session_create cr now token a db))"
proof -
  have "set (AList.update k s t) \<subseteq> insert (k, s) (set t)" for k and s :: session_row and t
    by (induction t) auto
  then show ?thesis
    using assms
    by (fastforce simp: keeps_out_def same_beyond_def session_create_def in_place_def ids_beyond_def set_delete_where)
qed

lemma keeps_mark_used:
  assumes "in_place T db" "iv \<in> set (invites db)" "iv_tenant iv = Some T"
  shows "keeps_out T db (db\<lparr>invites := map (\<lambda>i. if iv_id i = iv_id iv \<and> iv_used i = None
    then i\<lparr>iv_used := Some now, iv_used_by := Some who\<rparr> else i) (invites db)\<rparr>)"
proof -
  have only: "i = iv" if "i \<in> set (invites db)" "iv_id i = iv_id iv" for i
    using that assms(1,2) by (auto simp: in_place_def distinct_map dest: inj_onD)
  have "filter (\<lambda>v. iv_tenant v \<noteq> Some T) (map (\<lambda>i. if iv_id i = iv_id iv \<and> iv_used i = None
      then i\<lparr>iv_used := Some now, iv_used_by := Some who\<rparr> else i) xs) = filter (\<lambda>v. iv_tenant v \<noteq> Some T) xs"
    if "\<forall>i\<in>set xs. iv_id i = iv_id iv \<longrightarrow> iv_tenant i = Some T" for xs :: "invitation_row list"
    using that by (induction xs) auto
  moreover have "map iv_id (map (\<lambda>i. if iv_id i = iv_id iv \<and> iv_used i = None
      then i\<lparr>iv_used := Some now, iv_used_by := Some who\<rparr> else i) xs) = map iv_id xs"
    for xs :: "invitation_row list"
    by (induction xs) auto
  moreover have "\<forall>i\<in>set (invites db). iv_id i = iv_id iv \<longrightarrow> iv_tenant i = Some T"
    using only assms(3) by blast
  ultimately show ?thesis
    using assms(1) only assms(3)
    by (auto simp: keeps_out_def same_beyond_def in_place_def ids_beyond_def simp del: map_map)
qed

lemma keeps_grant:
  assumes "in_place T db" "aid \<notin> ids_beyond T db"
  shows "keeps_out T db (on_orgs (access_grant now aid p r) db)"
  using assms by (auto simp: keeps_out_def same_beyond_def in_place_def ids_beyond_def on_orgs_def access_grant_def row_simps)


lemma look_up_SomeD:
  assumes "look_up cr now token db = Some found"
  shows "\<exists>iv\<in>set (invites db). invite_id found = iv_id iv \<and> invite_tenant found = iv_tenant iv \<and>
    iv_used iv = None \<and> iv_token iv = sha cr token"
proof -
  from assms obtain iv where "List.find (\<lambda>i. iv_token i = sha cr token) (invites db) = Some iv"
    "found = decode_invitation (frontiers db) iv" "live now found"
    by (auto simp: look_up_def Let_def split: option.splits if_splits)
  then show ?thesis
    by (intro bexI [of _ iv])
      (auto simp: decode_invitation_def live_def spent_def find_Some_iff)
qed

lemma keeps_accept_found:
  assumes place: "in_place T db" and found: "look_up cr now' token db = Some found"
    and tenant: "invite_tenant found = Some T"
    and run: "accept_found cr now generated found u p db = (res, db')"
  shows "keeps_out T db db' \<and> (\<forall>a. res = Inr a \<longrightarrow> account_id a \<notin> ids_beyond T db')"
proof -
  obtain iv where iv: "iv \<in> set (invites db)" "invite_id found = iv_id iv" "iv_tenant iv = Some T"
    using look_up_SomeD [OF found] tenant by auto
  obtain made db1 where made: "create_in cr now generated u p (invite_role found) (Some T) db = (made, db1)"
    by fastforce
  note step1 = keeps_create_in [OF place made]
  show ?thesis
  proof (cases made)
    case (Inl e)
    then show ?thesis using run made tenant step1 by (simp add: accept_found_def)
  next
    case (Inr a)
    let ?mine = "\<lambda>i. iv_id i = iv_id iv \<and> iv_used i = None"
    from step1 Inr have k1: "keeps_out T db db1" and place1: "in_place T db1"
      and a: "account_id a \<notin> ids_beyond T db1" and same: "invites db1 = invites db"
      by (auto simp: keeps_out_def)
    show ?thesis
    proof (cases "list_ex ?mine (invites db1)")
      case False
      obtain e db2 where del: "account_delete (account_id a) db1 = (e, db2)" by fastforce
      have "db' = db2" "\<exists>x. res = Inl x"
        using run made tenant Inr False del iv(2) by (auto simp: accept_found_def Let_def split: option.splits)
      with keeps_account_delete [OF place1 a del] k1 show ?thesis by (auto intro: keeps_out_trans)
    next
      case True
      define db2 where "db2 = db1\<lparr>invites := map (\<lambda>i. if ?mine i
        then i\<lparr>iv_used := Some now, iv_used_by := Some (account_id a)\<rparr> else i) (invites db1)\<rparr>"
      have k2: "keeps_out T db1 db2"
        unfolding db2_def by (rule keeps_mark_used [OF place1]) (use iv same in auto)
      then have ids: "account_id a \<notin> ids_beyond T db2" and place2: "in_place T db2"
        using a by (auto simp: keeps_out_def same_beyond_ids)
      have res: "res = Inr a" and db': "db' = db2 \<or> (\<exists>q r. db' = on_orgs (access_grant now (account_id a) q r) db2)"
        using run made tenant Inr True iv(2)
        by (auto simp: accept_found_def Let_def db2_def split: option.splits)
      have k3: "keeps_out T db2 db'"
        using db' keeps_grant [OF place2 ids] keeps_out_refl [OF place2] by auto
      then have "ids_beyond T db' = ids_beyond T db2" using same_beyond_ids by (auto simp: keeps_out_def)
      with ids have "account_id a \<notin> ids_beyond T db'" by simp
      then show ?thesis using res keeps_out_trans [OF keeps_out_trans [OF k1 k2] k3] by simp
    qed
  qed
qed

lemma keeps_join:
  assumes place: "in_place T db" and run: "guest_join_as_tenant_user cr v T token u p db = (res, db')"
  shows "keeps_out T db db' \<and> (\<forall>a. res = Inr a \<longrightarrow> account_id a \<notin> ids_beyond T db')"
proof (cases "look_up cr (rq_now v) token db")
  case None
  then show ?thesis using run keeps_out_refl [OF place] by (auto simp: guest_join_as_tenant_user_def)
next
  case (Some found)
  show ?thesis
  proof (cases "invite_tenant found = Some T")
    case False
    then show ?thesis using Some run keeps_out_refl [OF place] by (auto simp: guest_join_as_tenant_user_def)
  next
    case True
    obtain r db1 where acc: "accept_found cr (rq_now v) (rq_account v) found u p db = (r, db1)" by fastforce
    have "db' = db1 \<and> (\<forall>a. res = Inr a \<longrightarrow> r = Inr a)"
      using run Some True acc
      by (cases r) (auto simp: guest_join_as_tenant_user_def accept_invitation_def refusing_def)
    with keeps_accept_found [OF place Some True acc] show ?thesis by blast
  qed
qed

lemma keeps_authenticate:
  assumes place: "in_place T db" and run: "authenticate cr now u p (Some T) db = (res, db')"
  shows "keeps_out T db db' \<and> (\<forall>a. res = Some a \<longrightarrow> account_id a \<notin> ids_beyond T db')"
proof -
  let ?key = "(lowercase (trim u), T)"
  show ?thesis
  proof (cases "List.find (\<lambda>a. name_key a = ?key) (accounts (orgs db))")
    case None
    then show ?thesis
      using run keeps_out_refl [OF place] by (simp add: authenticate_def Let_def scope_key_def)
  next
    case (Some a)
    then have a: "a \<in> set (accounts (orgs db))" "scope_key (account_tenant a) = T"
      by (auto simp: find_Some_iff name_key_def)
    have "account_tenant a = Some T"
      using a(2) place by (cases "account_tenant a") (auto simp: scope_key_def in_place_def)
    from id_here_not_beyond [OF place a(1) this] have beyond: "account_id a \<notin> ids_beyond T db" .
    have "keeps_out T db (db\<lparr>credentials := AList.update (account_id a) c (credentials db)\<rparr>)" for c
      using place beyond by (auto simp: keeps_out_def same_beyond_def in_place_def row_simps)
    then show ?thesis
      using run Some keeps_out_refl [OF place] beyond same_beyond_ids
      by (auto simp: authenticate_def Let_def scope_key_def keeps_out_def split: option.splits if_splits)
  qed
qed

lemma keeps_create_into:
  assumes place: "in_place T db" and a: "account_tenant a = Some T"
    and run: "create_into cr now token generated a r project (Some T) db = (res, db')"
  shows "keeps_out T db db'"
proof -
  have "\<not> is_admin a" using a by (simp add: is_admin_def)
  let ?row = "\<lparr>iv_id = ''inv-'' @ generated, iv_token = sha cr token, iv_role = node_role_as_str r,
    iv_project = map_option fst project, iv_project_role = map_option (project_role_as_str \<circ> snd) project,
    iv_creator = account_id a, iv_created = now, iv_expires = now + INVITATION_DAYS * 86400000,
    iv_used = None, iv_used_by = None, iv_tenant = Some T\<rparr>"
  have "db' = db \<or> db' = db\<lparr>invites := invites db @ [?row]\<rparr> \<and> iv_id ?row \<notin> iv_id ` set (invites db)"
    using run a \<open>\<not> is_admin a\<close> by (auto simp: create_into_def Let_def list_ex_iff split: if_splits)
  then show ?thesis
    using place keeps_out_refl [OF place]
    by (auto simp: keeps_out_def same_beyond_def in_place_def)
qed

lemma keeps_revoke_invitation:
  assumes place: "in_place T db" and iv: "iv \<in> set (invites db)" "iv_tenant iv = Some T"
  shows "keeps_out T db (revoke_invitation (iv_id iv) db)"
proof -
  have only: "i = iv" if "i \<in> set (invites db)" "iv_id i = iv_id iv" for i
    using that place iv(1) by (auto simp: in_place_def distinct_map dest: inj_onD)
  have "filter (\<lambda>v. iv_tenant v \<noteq> Some T) (filter (\<lambda>r. iv_id r \<noteq> iv_id iv) (invites db)) =
      filter (\<lambda>v. iv_tenant v \<noteq> Some T) (invites db)"
    using only iv(2) by (auto intro!: filter_cong)
  then show ?thesis
    using place by (auto simp: keeps_out_def same_beyond_def in_place_def ids_beyond_def revoke_invitation_def
        distinct_map_filter)
qed

lemma known_in_beyond:
  assumes "in_place T db" "known_in db (Some T) person"
  shows "person \<notin> ids_beyond T db"
  using assms(2) id_here_not_beyond [OF assms(1)] by (auto simp: known_in_def of_scope_def list_ex_iff)

lemma who_asks_SomeD:
  "who_asks cr now tenant cookies db = Some a \<Longrightarrow> a \<in> set (accounts (orgs db)) \<and> account_tenant a = tenant"
  by (auto simp: who_asks_def session_lookup_def belongs_to_def find_Some_iff split: option.splits if_splits)


lemma keeps_signed:
  assumes "in_place T db"
    "\<And>a. a \<in> set (accounts (orgs db)) \<Longrightarrow> account_tenant a = Some T \<Longrightarrow> keeps_out T db (snd (f a db))"
  shows "keeps_out T db (snd (signed (who_asks cr now (Some T) cookies db) f db))"
  using assms(2) keeps_out_refl [OF assms(1)] who_asks_SomeD [of cr now "Some T" cookies db]
  by (auto simp: signed_def split: option.splits)

lemma keeps_refusing: "keeps_out T db (snd r) \<Longrightarrow> keeps_out T db (snd (refusing r))"
  by (cases "fst r") (simp_all add: refusing_def)

lemma keeps_doing: "keeps_out T db (snd r) \<Longrightarrow> keeps_out T db (snd (doing r))"
  by (cases "fst r") (simp_all add: doing_def)

lemma keeps_invite:
  assumes "in_place T db" "account_tenant a = Some T"
  shows "keeps_out T db (snd (tenant_user_invite_person cr v a r project pr db))"
proof -
  have "keeps_out T db (snd (refusing (create_into cr (rq_now v) (rq_link v) (rq_invite v) a r q (Some T) db)))" for q
    by (intro keeps_refusing keeps_create_into [OF assms]) (rule prod.collapse [symmetric])
  then show ?thesis
    using assms(2) keeps_out_refl [OF assms(1)]
    by (auto simp: tenant_user_invite_person_def Let_def split: option.splits)
qed

lemma keeps_remove:
  assumes "in_place T db" "account_tenant a = Some T"
  shows "keeps_out T db (snd (tenant_user_remove_person a person db))"
  using keeps_account_delete [OF assms(1) known_in_beyond [OF assms(1)], of person] keeps_out_refl [OF assms(1)] assms(2)
  by (auto simp: tenant_user_remove_person_def intro!: keeps_doing) (metis prod.collapse)

lemma keeps_role:
  assumes "in_place T db" "account_tenant a = Some T"
  shows "keeps_out T db (snd (tenant_user_set_person_role a person r db))"
  using keeps_set_role [OF assms(1) known_in_beyond [OF assms(1)], of person r] keeps_out_refl [OF assms(1)] assms(2)
  by (auto simp: tenant_user_set_person_role_def intro!: keeps_doing) (metis prod.collapse)

lemma keeps_revoke:
  assumes "in_place T db" "account_tenant a = Some T"
  shows "keeps_out T db (snd (tenant_user_revoke_invitation a i db))"
proof (cases "list_ex (\<lambda>v. invite_id v = i \<and> invite_tenant v = account_tenant a) (invitations_all db)")
  case True
  then obtain iv where "iv \<in> set (invites db)" "iv_id iv = i" "iv_tenant iv = Some T"
    using assms(2) by (auto simp: invitations_all_def decode_invitation_def list_ex_iff)
  with keeps_revoke_invitation [OF assms(1)] keeps_out_refl [OF assms(1)] show ?thesis
    by (auto simp: tenant_user_revoke_invitation_def)
qed (use keeps_out_refl [OF assms(1)] in \<open>auto simp: tenant_user_revoke_invitation_def\<close>)

lemma keeps_edit_own:
  assumes "in_place T db" "a \<in> set (accounts (orgs db))" "account_tenant a = Some T"
  shows "keeps_out T db (set_theme (account_id a) th db)" "keeps_out T db (set_language (account_id a) l db)"
  unfolding set_theme_def set_language_def
  by (rule keeps_edit_account [OF assms(1) id_here_not_beyond [OF assms]]; simp)+

lemma keeps_session_revoke: "in_place T db \<Longrightarrow> keeps_out T db (session_revoke cr token db)"
  by (auto simp: keeps_out_def same_beyond_def session_revoke_def in_place_def AList.delete_eq)

lemma keeps_answer:
  assumes place: "in_place T db"
  shows "keeps_out T db (snd (answer cr v (Some T) cookies request db))"
proof (cases request)
  case (Claim token u p)
  have "any_account db" using place by (auto simp: in_place_def ids_beyond_def any_account_def)
  then show ?thesis
    using Claim keeps_out_refl [OF place] by (simp add: answer_def guest_claim_the_node_def create_admin_def)
next
  case (SignIn u p)
  obtain res db1 where auth: "authenticate cr (rq_now v) u p (Some T) db = (res, db1)" by fastforce
  note step1 = keeps_authenticate [OF place auth]
  show ?thesis
  proof (cases res)
    case (Some a)
    with step1 have "keeps_out T db1 (snd (session_create cr (rq_now v) (rq_session v) a db1))"
      using same_beyond_ids [of T db db1] by (intro keeps_session) (auto simp: keeps_out_def)
    with step1 SignIn Some auth show ?thesis
      by (auto simp: answer_def guest_sign_in_def apfst_def map_prod_def split: prod.splits intro: keeps_out_trans)
  qed (use step1 SignIn auth in \<open>simp add: answer_def guest_sign_in_def\<close>)
next
  case (Join token u p)
  obtain res db1 where join: "guest_join_as_tenant_user cr v T token u p db = (res, db1)" by fastforce
  note step1 = keeps_join [OF place join]
  show ?thesis
  proof (cases res)
    case (Inr a)
    with step1 have "keeps_out T db1 (snd (session_create cr (rq_now v) (rq_session v) a db1))"
      by (intro keeps_session) (auto simp: keeps_out_def)
    with step1 Join Inr join show ?thesis
      by (auto simp: answer_def apfst_def map_prod_def split: prod.splits intro: keeps_out_trans)
  qed (use step1 Join join in \<open>simp add: answer_def\<close>)
next
  case (InviteOwner t)
  then show ?thesis
    using keeps_out_refl [OF place]
    by (auto simp: answer_def node_user_invite_owner_def shares_the_machine_out_def manages_the_machine_def
        is_admin_def intro!: keeps_signed [OF place])
next
  case (RemoveOwner person)
  then show ?thesis
    using keeps_out_refl [OF place]
    by (auto simp: answer_def node_user_remove_owner_def shares_the_machine_out_def manages_the_machine_def
        is_admin_def intro!: keeps_signed [OF place])
qed (auto simp: answer_def keeps_session_revoke place keeps_out_refl [OF place] split: option.splits
  intro!: keeps_signed [OF place] keeps_invite keeps_remove keeps_role keeps_revoke keeps_edit_own)

text \<open>
  Property C7.  Whatever arrives at one organisation's console, signed in or not and with
  whatever links its people hold, no other frontier changes: its accounts and their roles,
  passwords and memberships, the invitations into it, the projects and the setup token are
  as they were, and nobody of another frontier is newly signed in.
\<close>

theorem an_organisation_stays_in_its_frontier:
  assumes "in_place T db"
  shows "same_beyond T db (fold (\<lambda>(v, cookies, request) db. snd (answer cr v (Some T) cookies request db)) requests db)"
proof -
  have "keeps_out T db (fold (\<lambda>(v, cookies, request) db. snd (answer cr v (Some T) cookies request db)) requests db)"
    using assms
  proof (induction requests arbitrary: db)
    case (Cons r requests)
    obtain v cookies request where r: "r = (v, cookies, request)" by (cases r) auto
    from keeps_answer [OF Cons.prems, of cr v cookies request] Cons.IH show ?case
      by (auto simp: r keeps_out_def intro: same_beyond_trans)
  qed (simp add: keeps_out_refl)
  then show ?thesis by (simp add: keeps_out_def)
qed

section \<open>Somebody operates the machine\<close>

definition operated :: "people_db \<Rightarrow> bool" where
  "operated db \<longleftrightarrow> distinct (map account_id (accounts (orgs db))) \<and> (\<exists>a\<in>set (accounts (orgs db)). is_admin a)"

lemma length_filter_insort: "length (filter P (insort_key f x xs)) = length (filter P (x # xs))"
  by (induction xs) auto

lemma length_filter_sort: "length (filter P (sort_key f xs)) = length (filter P xs)"
  by (induction xs) (simp_all add: length_filter_insort)

lemma administrators_count: "administrators db = length (filter is_admin (accounts (orgs db)))"
  by (simp add: administrators_def people_all_def accounts_all_def length_filter_sort)

lemma set_people_all [simp]: "set (people_all db) = set (accounts (orgs db))"
  by (simp add: people_all_def accounts_all_def)

text \<open>Somebody else is an administrator too, when the guard lets one go.\<close>

lemma another_admin:
  assumes "operated db" "\<not> (administrators db \<le> 1 \<and> list_ex (\<lambda>a. account_id a = aid \<and> is_admin a) (people_all db))"
  shows "\<exists>b\<in>set (accounts (orgs db)). is_admin b \<and> account_id b \<noteq> aid"
proof (rule ccontr)
  let ?admins = "filter is_admin (accounts (orgs db))"
  assume none: "\<not> ?thesis"
  then have all: "set (map account_id ?admins) \<subseteq> {aid}" by auto
  moreover have "distinct (map account_id ?admins)"
    using assms(1) by (simp add: operated_def distinct_map_filter)
  ultimately have "length ?admins \<le> 1"
    by (metis card_mono distinct_card finite.emptyI finite_insert is_singletonI is_singleton_altdef length_map)
  moreover from assms(1) none have "list_ex (\<lambda>a. account_id a = aid \<and> is_admin a) (people_all db)"
    by (auto simp: operated_def list_ex_iff)
  ultimately show False using assms(2) by (simp add: administrators_count)
qed

lemma operated_frames [simp]:
  "operated (db\<lparr>credentials := c\<rparr>) = operated db"
  "operated (db\<lparr>invites := v\<rparr>) = operated db"
  "operated (db\<lparr>session_rows := s\<rparr>) = operated db"
  "operated (db\<lparr>config := g\<rparr>) = operated db"
  "operated (on_orgs (access_grant now aid p r) db) = operated db"
  by (simp_all add: operated_def on_orgs_def access_grant_def)

lemma operated_edit:
  assumes "operated db" "\<And>a. account_id (f a) = account_id a"
    "\<And>a. is_admin a \<Longrightarrow> is_admin (f a) \<or> (\<exists>b\<in>set (accounts (orgs db)). is_admin b \<and> account_id b \<noteq> aid)"
  shows "operated (edit_account aid f db)"
proof -
  have "account_id \<circ> (\<lambda>a. if account_id a = aid then f a else a) = account_id"
    using assms(2) by (intro ext) simp
  moreover obtain a where "a \<in> set (accounts (orgs db))" "is_admin a" using assms(1) by (auto simp: operated_def)
  ultimately show ?thesis
    using assms(1,3) unfolding operated_def edit_account_def on_orgs_def
    by (auto simp: image_iff)
qed

lemma operated_set_role:
  assumes "operated db" "set_account_role aid r db = (e, db')"
  shows "operated db'"
  using assms(2) another_admin [OF assms(1), of aid] assms(1)
  by (auto simp: set_account_role_def is_admin_def split: if_splits intro!: operated_edit)

lemma operated_delete:
  assumes "operated db" "account_delete aid db = (e, db')"
  shows "operated db'"
  using assms(2) another_admin [OF assms(1), of aid] assms(1)
  by (auto simp: account_delete_def drop_account_def operated_def on_orgs_def distinct_map_filter split: if_splits)

lemma operated_insert:
  assumes "operated db" "account_insert cr now generated u p r tenant db = (res, db')"
  shows "operated db'"
  using assms by (auto simp: account_insert_def Let_def operated_def on_orgs_def split: option.splits if_splits)

lemma operated_create_in:
  assumes "operated db" "create_in cr now generated u p r tenant db = (res, db')"
  shows "operated db'"
  using assms operated_insert by (auto simp: create_in_def Let_def split: option.splits)

lemma operated_accept_found:
  assumes "operated db" "accept_found cr now generated found u p db = (res, db')"
  shows "operated db'"
proof -
  obtain made db1 where made: "create_in cr now generated u p (invite_role found) (invite_tenant found) db = (made, db1)"
    by fastforce
  have o1: "operated db1" by (rule operated_create_in [OF assms(1) made])
  show ?thesis
  proof (cases made)
    case (Inl e)
    then show ?thesis using assms(2) made o1 by (simp add: accept_found_def)
  next
    case (Inr a)
    obtain e db2 where del: "account_delete (account_id a) db1 = (e, db2)" by fastforce
    have "operated db2" by (rule operated_delete [OF o1 del])
    then show ?thesis
      using assms(2) made Inr del o1
      by (auto simp: accept_found_def Let_def split: if_splits option.splits)
  qed
qed

lemma operated_accept:
  "operated db \<Longrightarrow> accept_invitation cr now generated token u p db = (res, db') \<Longrightarrow> operated db'"
  by (auto simp: accept_invitation_def operated_accept_found split: option.splits)

lemma operated_authenticate: "operated db \<Longrightarrow> authenticate cr now u p tenant db = (res, db') \<Longrightarrow> operated db'"
  by (auto simp: authenticate_def Let_def split: option.splits if_splits)

lemma operated_session: "operated (snd (session_create cr now token a db)) = operated db"
  by (simp add: session_create_def)

lemma operated_refusing: "operated (snd (refusing r)) = operated (snd r)"
  by (cases "fst r") (simp_all add: refusing_def)

lemma operated_doing: "operated (snd (doing r)) = operated (snd r)"
  by (cases "fst r") (simp_all add: doing_def)

lemma operated_create_into: "operated (snd (create_into cr now token generated a r project tenant db)) = operated db"
  by (simp add: create_into_def Let_def)

lemma operated_signed:
  "operated db \<Longrightarrow> (\<And>a. operated (snd (f a db))) \<Longrightarrow> operated (snd (signed who f db))"
  by (cases who) (simp_all add: signed_def)

lemma operated_claim:
  assumes "operated db"
  shows "operated (snd (guest_claim_the_node cr v token u p db))"
proof -
  have "any_account db" using assms by (auto simp: operated_def any_account_def)
  then show ?thesis using assms by (simp add: guest_claim_the_node_def create_admin_def)
qed

lemma operated_sign_in: "operated db \<Longrightarrow> operated (snd (guest_sign_in cr v u p tenant db))"
  by (auto simp: guest_sign_in_def operated_session split: prod.splits option.splits dest: operated_authenticate)

lemma operated_doors:
  "operated db \<Longrightarrow> operated (snd (guest_join_as_node_user cr v token u p db))"
  "operated db \<Longrightarrow> operated (snd (guest_join_as_tenant_user cr v t token u p db))"
  by (auto simp: guest_join_as_node_user_def guest_join_as_tenant_user_def operated_refusing
      split: option.splits) (metis operated_accept prod.collapse)+

lemma operated_inviting:
  "operated db \<Longrightarrow> operated (snd (node_user_invite_person cr v a r project pr db))"
  "operated db \<Longrightarrow> operated (snd (tenant_user_invite_person cr v a r project pr db))"
  "operated db \<Longrightarrow> operated (snd (node_user_invite_owner cr v a t db))"
  by (auto simp: node_user_invite_person_def tenant_user_invite_person_def node_user_invite_owner_def Let_def
      operated_refusing operated_create_into split: option.splits)

lemma operated_people:
  "operated db \<Longrightarrow> operated (snd (node_user_remove_person a person db))"
  "operated db \<Longrightarrow> operated (snd (tenant_user_remove_person a person db))"
  "operated db \<Longrightarrow> operated (snd (node_user_set_person_role a person r db))"
  "operated db \<Longrightarrow> operated (snd (tenant_user_set_person_role a person r db))"
  "operated db \<Longrightarrow> operated (snd (node_user_revoke_invitation a i db))"
  "operated db \<Longrightarrow> operated (snd (tenant_user_revoke_invitation a i db))"
  by (auto simp: node_user_remove_person_def tenant_user_remove_person_def node_user_set_person_role_def
      tenant_user_set_person_role_def node_user_revoke_invitation_def tenant_user_revoke_invitation_def
      revoke_invitation_def operated_doing)
    (metis operated_delete operated_set_role prod.collapse)+

lemma operated_remove_owner: "operated db \<Longrightarrow> operated (snd (node_user_remove_owner a person db))"
  by (auto simp: node_user_remove_owner_def operated_doing split: option.splits)
    (metis operated_delete operated_doing prod.collapse)+

lemma operated_preferences:
  "operated db \<Longrightarrow> operated (set_theme aid th db)" "operated db \<Longrightarrow> operated (set_language aid l db)"
  unfolding set_theme_def set_language_def by (auto simp: is_admin_def intro!: operated_edit)

lemma operated_answer:
  assumes "operated db"
  shows "operated (snd (answer cr v tenant cookies request db))"
proof (cases request)
  case (Join token u p)
  let ?joined = "case tenant of None \<Rightarrow> guest_join_as_node_user cr v token u p db
    | Some t \<Rightarrow> guest_join_as_tenant_user cr v t token u p db"
  have "operated (snd ?joined)" using operated_doors [OF assms] by (cases tenant) simp_all
  then show ?thesis
    by (auto simp: Join answer_def Let_def operated_session split: prod.splits sum.splits)
qed (auto simp: answer_def session_revoke_def assms operated_claim operated_sign_in operated_inviting
  operated_people operated_remove_owner operated_preferences intro!: operated_signed split: option.splits)

text \<open>
  Property C31.  A machine that has an operator keeps one: no sequence of requests at any of
  its consoles, by anybody, removes or demotes its last administrator.
\<close>

theorem an_operator_is_left:
  assumes "operated db"
  shows "operated (fold (\<lambda>(v, tenant, cookies, request) db. snd (answer cr v tenant cookies request db)) requests db)"
  using assms
proof (induction requests arbitrary: db)
  case (Cons r requests)
  then show ?case by (cases r) (auto intro: operated_answer)
qed simp

section \<open>One link, one account\<close>

lemma create_in_shape:
  assumes "create_in cr now generated u p r tenant db = (res, db')"
  shows "(\<exists>e. res = Inl e) \<and> db' = db \<or>
    (\<exists>a. res = Inr a \<and> accounts (orgs db') = accounts (orgs db) @ [a] \<and> invites db' = invites db \<and>
       account_role a = r \<and> account_tenant a = tenant \<and> account_id a \<notin> account_id ` set (accounts (orgs db)))"
  using assms by (auto simp: create_in_def account_insert_def Let_def on_orgs_def split: option.splits if_splits)

text \<open>Several people who all opened one link before any of them took it.\<close>

fun race :: "crypto \<Rightarrow> invitation \<Rightarrow> (int \<times> string \<times> string \<times> string) list \<Rightarrow> people_db
    \<Rightarrow> (account_error + account) list \<times> people_db" where
  "race cr found [] db = ([], db)"
| "race cr found ((now, generated, u, p) # later) db =
    (let (res, db) = accept_found cr now generated found u p db;
         (rest, db) = race cr found later db
     in (res # rest, db))"

definition winners :: "(account_error + account) list \<Rightarrow> account list" where
  "winners results = List.map_filter (\<lambda>r. case r of Inr a \<Rightarrow> Some a | Inl _ \<Rightarrow> None) results"

definition unspent_in :: "invitation \<Rightarrow> people_db \<Rightarrow> bool" where
  "unspent_in found db \<longleftrightarrow> list_ex (\<lambda>i. iv_id i = invite_id found \<and> iv_used i = None) (invites db)"

lemma accept_found_unspent:
  assumes "accept_found cr now generated found u p db = (res, db')" "unspent_in found db"
  shows "(\<exists>e. res = Inl e) \<and> db' = db \<or>
    (\<exists>a. res = Inr a \<and> accounts (orgs db') = accounts (orgs db) @ [a] \<and> \<not> unspent_in found db' \<and>
       account_role a = invite_role found \<and> account_tenant a = invite_tenant found)"
proof -
  obtain made db1 where made: "create_in cr now generated u p (invite_role found) (invite_tenant found) db = (made, db1)"
    by fastforce
  from create_in_shape [OF made] show ?thesis
  proof (elim disjE exE conjE)
    fix e
    assume "made = Inl e" "db1 = db"
    then show ?thesis using assms(1) made by (auto simp: accept_found_def)
  next
    fix a
    assume a: "made = Inr a" "accounts (orgs db1) = accounts (orgs db) @ [a]" "invites db1 = invites db"
      "account_role a = invite_role found" "account_tenant a = invite_tenant found"
    define db2 where "db2 = db1\<lparr>invites := map (\<lambda>i. if iv_id i = invite_id found \<and> iv_used i = None
      then i\<lparr>iv_used := Some now, iv_used_by := Some (account_id a)\<rparr> else i) (invites db1)\<rparr>"
    have "list_ex (\<lambda>i. iv_id i = invite_id found \<and> iv_used i = None) (invites db1)"
      using assms(2) a(3) by (simp add: unspent_in_def)
    then have res: "res = Inr a" and db': "db' = db2 \<or> (\<exists>q r. db' = on_orgs (access_grant now (account_id a) q r) db2)"
      using assms(1) made a(1) by (auto simp: accept_found_def Let_def db2_def split: option.splits)
    have "accounts (orgs db') = accounts (orgs db2)" "invites db' = invites db2"
      using db' by (auto simp: on_orgs_def access_grant_def)
    moreover have "\<not> list_ex (\<lambda>i. iv_id i = invite_id found \<and> iv_used i = None) (invites db2)"
      by (auto simp: db2_def list_ex_iff)
    ultimately show ?thesis
      using res a by (auto simp: unspent_in_def db2_def)
  qed
qed

lemma accept_found_spent:
  assumes "accept_found cr now generated found u p db = (res, db')" "\<not> unspent_in found db"
    "w \<in> set (accounts (orgs db))" "account_role w = invite_role found" "account_tenant w = invite_tenant found"
  shows "(\<exists>e. res = Inl e) \<and> accounts (orgs db') = accounts (orgs db) \<and> \<not> unspent_in found db'"
proof -
  obtain made db1 where made: "create_in cr now generated u p (invite_role found) (invite_tenant found) db = (made, db1)"
    by fastforce
  from create_in_shape [OF made] show ?thesis
  proof (elim disjE exE conjE)
    fix e
    assume "made = Inl e" "db1 = db"
    then show ?thesis using assms(1,2) made by (auto simp: accept_found_def)
  next
    fix a
    assume a: "made = Inr a" "accounts (orgs db1) = accounts (orgs db) @ [a]" "invites db1 = invites db"
      "account_role a = invite_role found" "account_tenant a = invite_tenant found"
      "account_id a \<notin> account_id ` set (accounts (orgs db))"
    have "\<not> (administrators db1 \<le> 1 \<and> list_ex (\<lambda>b. account_id b = account_id a \<and> is_admin b) (people_all db1))"
    proof (cases "is_admin a")
      case True
      then have "is_admin w" using a(4,5) assms(4,5) by (simp add: is_admin_def)
      then have "filter is_admin (accounts (orgs db)) \<noteq> []" using assms(3) by (auto simp: filter_empty_conv)
      then show ?thesis using True a(2) by (cases "filter is_admin (accounts (orgs db))") (auto simp: administrators_count)
    next
      case False
      then show ?thesis using a(2,6) by (auto simp: list_ex_iff image_iff)
    qed
    then have "account_delete (account_id a) db1 = (None, drop_account (account_id a) db1)"
      by (simp add: account_delete_def)
    moreover have "filter (\<lambda>b. account_id b \<noteq> account_id a) (accounts (orgs db)) = accounts (orgs db)"
      using a(6) by (intro filter_True) (auto simp: image_iff)
    ultimately show ?thesis
      using assms(1,2) made a
      by (auto simp: accept_found_def Let_def unspent_in_def drop_account_def on_orgs_def list_ex_iff
          split: if_splits)
  qed
qed

lemma race_spent:
  assumes "race cr found joiners db = (results, db')" "\<not> unspent_in found db"
    "w \<in> set (accounts (orgs db))" "account_role w = invite_role found" "account_tenant w = invite_tenant found"
  shows "winners results = [] \<and> accounts (orgs db') = accounts (orgs db)"
  using assms
proof (induction joiners arbitrary: db results)
  case Nil
  then show ?case by (simp add: winners_def map_filter_simps)
next
  case (Cons j joiners)
  obtain now generated u p where j: "j = (now, generated, u, p)" by (cases j) auto
  obtain res db1 where step: "accept_found cr now generated found u p db = (res, db1)" by fastforce
  obtain rest where rest: "race cr found joiners db1 = (rest, db')" "results = res # rest"
    using Cons.prems(1) step by (auto simp: j split: prod.splits)
  note one = accept_found_spent [OF step Cons.prems(2-5)]
  then have "winners rest = [] \<and> accounts (orgs db') = accounts (orgs db1)"
    using Cons.IH [OF rest(1)] Cons.prems(3-5) by auto
  then show ?case using one rest(2) by (auto simp: winners_def map_filter_simps)
qed

text \<open>
  Property C32.  However many people open one link before any of them takes it, at most one of
  them becomes an account, born in the role and the frontier the link names, and the accounts
  of the others are gone again.
\<close>

theorem one_link_one_account:
  assumes "look_up cr now token db = Some found"
  shows "case race cr found joiners db of (results, db') \<Rightarrow>
    accounts (orgs db') = accounts (orgs db) @ winners results \<and> length (winners results) \<le> 1 \<and>
    list_all (\<lambda>a. account_role a = invite_role found \<and> account_tenant a = invite_tenant found) (winners results)"
proof -
  obtain results db' where run: "race cr found joiners db = (results, db')" by fastforce
  have "unspent_in found db"
    using look_up_SomeD [OF assms] by (auto simp: unspent_in_def list_ex_iff)
  with run have "accounts (orgs db') = accounts (orgs db) @ winners results \<and> length (winners results) \<le> 1 \<and>
      list_all (\<lambda>a. account_role a = invite_role found \<and> account_tenant a = invite_tenant found) (winners results)"
  proof (induction joiners arbitrary: db results)
    case Nil
    then show ?case by (simp add: winners_def map_filter_simps)
  next
    case (Cons j joiners)
    obtain now generated u p where j: "j = (now, generated, u, p)" by (cases j) auto
    obtain res db1 where step: "accept_found cr now generated found u p db = (res, db1)" by fastforce
    obtain rest where rest: "race cr found joiners db1 = (rest, db')" "results = res # rest"
      using Cons.prems(1) step by (auto simp: j split: prod.splits)
    from accept_found_unspent [OF step Cons.prems(2)] show ?case
    proof (elim disjE exE conjE)
      fix e
      assume "res = Inl e" "db1 = db"
      then show ?thesis
        using Cons.IH [OF rest(1)] Cons.prems(2) rest(2) by (simp add: winners_def map_filter_simps)
    next
      fix a
      assume a: "res = Inr a" "accounts (orgs db1) = accounts (orgs db) @ [a]" "\<not> unspent_in found db1"
        "account_role a = invite_role found" "account_tenant a = invite_tenant found"
      from race_spent [OF rest(1) a(3), of a] a
      have "winners rest = []" "accounts (orgs db') = accounts (orgs db1)" by auto
      then show ?thesis using a rest(2) by (simp add: winners_def map_filter_simps)
    qed
  qed
  then show ?thesis by (simp add: run)
qed

section \<open>Resetting a password\<close>

lemma map_of_set_hashes: "map_of (credentials (set_hashes P h db)) k =
    map_option (\<lambda>c. if k \<in> account_id ` set (filter P (accounts (orgs db))) then c\<lparr>password_hash := h\<rparr> else c)
      (map_of (credentials db) k)"
proof -
  have "map_of (map (\<lambda>(k, c). if k \<in> S then (k, f c) else (k, c)) t) k =
      map_option (\<lambda>c. if k \<in> S then f c else c) (map_of t k)" for S t and f :: "credential \<Rightarrow> credential"
    by (induction t) auto
  then show ?thesis by (simp add: set_hashes_def)
qed

lemma find_by_key:
  assumes "distinct (map f xs)" "x \<in> set xs"
  shows "List.find (\<lambda>y. f y = f x) xs = Some x"
  using assms by (induction xs) auto


section \<open>A node with two frontiers\<close>

definition plain :: crypto where
  "plain = \<lparr>sha = (\<lambda>s. s), pw_hash = Some, pw_verify = (=)\<rparr>"

definition demo_account :: "string \<Rightarrow> string \<Rightarrow> node_role \<Rightarrow> string option \<Rightarrow> account" where
  "demo_account i u r t = \<lparr>account_id = i, username = u, account_role = r, account_theme = System,
     account_language = En, account_tenant = t\<rparr>"

definition demo_people :: people_db where
  "demo_people =
    \<lparr>orgs = \<lparr>projects = [], memberships = [], accounts =
        [demo_account ''acc-1'' ''Leo'' Admin None, demo_account ''acc-2'' ''leo'' Admin (Some ''tnt-1'')]\<rparr>,
     credentials = [(''acc-1'', \<lparr>password_hash = ''one'', account_created = 0, last_seen_at = None\<rparr>),
        (''acc-2'', \<lparr>password_hash = ''two'', account_created = 0, last_seen_at = None\<rparr>)],
     config = [], session_rows = [(''s2'', \<lparr>session_account = ''acc-2'', session_created = 0, session_expires = 100\<rparr>)],
     invites = [\<lparr>iv_id = ''inv-1'', iv_token = ''k'', iv_role = ''member'', iv_project = None,
        iv_project_role = None, iv_creator = ''acc-2'', iv_created = 0, iv_expires = 100, iv_used = None,
        iv_used_by = None, iv_tenant = Some ''tnt-1''\<rparr>],
     frontiers = [(''tnt-1'', ''Acme'')]\<rparr>"

lemma demo_in_place: "in_place ''tnt-1'' demo_people"
proof -
  have "ids_beyond T db = set (map account_id (filter (\<lambda>a. account_tenant a \<noteq> Some T) (accounts (orgs db))))" for T db
    by (auto simp: ids_beyond_def)
  then have "ids_beyond ''tnt-1'' demo_people = {''acc-1''}"
    by (simp add: demo_people_def demo_account_def del: set_map set_filter)
  then show ?thesis by (simp add: in_place_def) (simp add: demo_people_def demo_account_def)
qed

theorem an_organisation_stays_in_its_frontier_witness:
  "let v = \<lparr>rq_now = 1, rq_account = ''9'', rq_session = ''s9'', rq_link = ''l9'', rq_invite = ''9''\<rparr> in
   same_beyond ''tnt-1'' demo_people
     (fold (\<lambda>(v, cookies, request) db. snd (answer plain v (Some ''tnt-1'') cookies request db))
       [(v, Some ''wabot_session=s2'', RemovePerson ''acc-1''), (v, None, Join ''k'' ''newcomer'' ''a long passphrase'')]
       demo_people)"
  unfolding Let_def by (rule an_organisation_stays_in_its_frontier [OF demo_in_place])

theorem an_operator_is_left_witness:
  "let v = \<lparr>rq_now = 1, rq_account = ''9'', rq_session = ''s9'', rq_link = ''l9'', rq_invite = ''9''\<rparr> in
   operated (fold (\<lambda>(v, tenant, cookies, request) db. snd (answer plain v tenant cookies request db))
     [(v, Some ''tnt-1'', Some ''wabot_session=s2'', SetPersonRole ''acc-2'' Member)] demo_people)"
  unfolding Let_def
  by (rule an_operator_is_left) (simp add: operated_def demo_people_def demo_account_def is_admin_def)

definition demo_link :: invitation where
  "demo_link = \<lparr>invite_id = ''inv-1'', invite_role = Member, invite_project = None, invite_project_role = None,
     created_by = ''acc-2'', expires_at = 100, used_at = None, invite_tenant = Some ''tnt-1'', scope_name = Some ''Acme''\<rparr>"

lemma demo_look_up: "look_up plain 1 ''k'' demo_people = Some demo_link"
  by code_simp

theorem one_link_one_account_witness:
  "case race plain demo_link [(1, ''7'', ''ana'', ''a long passphrase''), (1, ''8'', ''eva'', ''a long passphrase'')] demo_people of
     (results, db') \<Rightarrow>
    accounts (orgs db') = accounts (orgs demo_people) @ winners results \<and> length (winners results) \<le> 1 \<and>
    list_all (\<lambda>a. account_role a = Member \<and> account_tenant a = Some ''tnt-1'') (winners results)"
  using one_link_one_account [OF demo_look_up, where joiners = "[(1, ''7'', ''ana'', ''a long passphrase''), (1, ''8'', ''eva'', ''a long passphrase'')]"]
  by (simp add: demo_link_def)


end
