(* ===== verification/Zones.thy ===== *)
theory Zones
  imports "HOL-Library.Code_Target_Nat" Addresses Estate
begin

text \<open>
  The zones a node keeps for DNS: what a record says (domain/values/record_data.rs), the record
  and the zone (domain/entities/dns_record.rs, dns_zone.rs), its serial
  (domain/policies/zn_serial.rs), and the three tables with every operation on them
  (infra/repositories/zones.rs).

  Zone names and record names are texts in the normal form their parsers give (Names). The
  generated ids and the clock are arguments; a broken constraint is \<open>StorageFailed\<close>.
\<close>

section \<open>What a record says (record_data.rs)\<close>

datatype record_kind = KindA | KindAaaa | KindCname | KindMx | KindTxt | KindSrv | KindCaa

definition record_kinds :: "record_kind list" where
  "record_kinds = [KindA, KindAaaa, KindCname, KindMx, KindTxt, KindSrv, KindCaa]"

fun kind_name :: "record_kind \<Rightarrow> string" where
  "kind_name KindA = ''A''"
| "kind_name KindAaaa = ''AAAA''"
| "kind_name KindCname = ''CNAME''"
| "kind_name KindMx = ''MX''"
| "kind_name KindTxt = ''TXT''"
| "kind_name KindSrv = ''SRV''"
| "kind_name KindCaa = ''CAA''"

datatype data_refusal =
    NOT_AN_IPV4 | NOT_AN_IPV6 | NOT_A_TARGET | NO_PRIORITY | EMPTY_TEXT | TEXT_TOO_LONG
  | BAD_SRV | BAD_CAA | UNKNOWN_KIND

definition record_kind_parse :: "string \<Rightarrow> data_refusal + record_kind" where
  "record_kind_parse name =
    (case List.find (\<lambda>k. lowercase (kind_name k) = lowercase (trim name)) record_kinds of
       Some k \<Rightarrow> Inr k | None \<Rightarrow> Inl UNKNOWN_KIND)"

datatype record_data =
    RecordA "u8 \<times> u8 \<times> u8 \<times> u8"
  | RecordAaaa "u16 list"
  | RecordCname string
  | RecordMx u16 string
  | RecordTxt string
  | RecordSrv u16 u16 u16 string
  | RecordCaa bool string string

definition priority_of :: "string option \<Rightarrow> data_refusal + u16" where
  "priority_of p =
    (case map_option trim p of
       None \<Rightarrow> Inl NO_PRIORITY
     | Some t \<Rightarrow> if t = [] then Inl NO_PRIORITY
         else (case parse_uint (2 ^ 16) t of Some n \<Rightarrow> Inr (of_nat n) | None \<Rightarrow> Inl NO_PRIORITY))"

definition target_parse :: "string \<Rightarrow> data_refusal + string" where
  "target_parse typed =
    (let name = lowercase (trim_end_matches (\<lambda>c. c = CHR ''.'') (trim typed));
         labels = split_on CHR ''.'' name in
     if 2 \<le> length labels \<and> byte_len name \<le> 253 \<and>
        list_all (\<lambda>l. is_host_label (map (\<lambda>c. if c = CHR ''_'' then CHR ''a'' else c) l)) labels
     then Inr name else Inl NOT_A_TARGET)"

abbreviation quote_char :: char where
  "quote_char \<equiv> CHR 0x22"

text \<open>\<open>str::replace\<close> by nothing, for a pattern that is not empty.\<close>

function without_text :: "string \<Rightarrow> string \<Rightarrow> string" where
  "without_text p s =
    (if s = [] \<or> p = [] then s
     else if starts_with p s then without_text p (drop (length p) s)
     else hd s # without_text p (tl s))"
  by pat_completeness auto
termination
  by (relation "measure (\<lambda>(p, s). length s)") (simp_all add: diff_less)

declare without_text.simps [simp del]

definition wrapped :: "string \<Rightarrow> bool" where
  "wrapped t \<longleftrightarrow> byte_len t \<ge> 2 \<and> starts_with [quote_char] t \<and> ends_with [quote_char] t"

definition TEXT_LIMIT :: nat where "TEXT_LIMIT = 2048"

definition text_parse :: "string \<Rightarrow> data_refusal + string" where
  "text_parse typed =
    (let unquoted = (if wrapped typed
           then without_text [quote_char, CHR '' '', quote_char] (butlast (tl typed)) else typed) in
     if unquoted = [] then Inl EMPTY_TEXT
     else if byte_len unquoted > TEXT_LIMIT then Inl TEXT_TOO_LONG else Inr unquoted)"

definition caa_parse :: "string \<Rightarrow> data_refusal + record_data" where
  "caa_parse typed =
    (let parts = split_whitespace typed;
         (critical, parts) = (case parts of
            first # rest \<Rightarrow> (case parse_uint (2 ^ 8) first of
               Some flags \<Rightarrow> (and flags 128 \<noteq> 0, rest) | None \<Rightarrow> (False, parts))
          | [] \<Rightarrow> (False, parts))
     in case parts of
          [] \<Rightarrow> Inl BAD_CAA
        | first # words \<Rightarrow>
            (let tg = lowercase first;
                 v = trim_matches (\<lambda>c. c = quote_char) (join_with '' '' words) in
             if tg \<notin> {''issue'', ''issuewild''} \<or> v = [] then Inl BAD_CAA
             else Inr (RecordCaa critical tg v)))"

definition bind_sum :: "'e + 'a \<Rightarrow> ('a \<Rightarrow> 'e + 'b) \<Rightarrow> 'e + 'b" where
  "bind_sum r f = (case r of Inl e \<Rightarrow> Inl e | Inr x \<Rightarrow> f x)"

definition ok_or :: "'e \<Rightarrow> 'a option \<Rightarrow> 'e + 'a" where
  "ok_or e x = (case x of Some v \<Rightarrow> Inr v | None \<Rightarrow> Inl e)"

definition data_parse :: "record_kind \<Rightarrow> string \<Rightarrow> string option \<Rightarrow> data_refusal + record_data" where
  "data_parse kind v p =
    (let v = trim v in
     case kind of
       KindA \<Rightarrow> bind_sum (ok_or NOT_AN_IPV4 (parse_ipv4 v)) (\<lambda>a. Inr (RecordA a))
     | KindAaaa \<Rightarrow> bind_sum (ok_or NOT_AN_IPV6 (parse_ipv6 v)) (\<lambda>a. Inr (RecordAaaa a))
     | KindCname \<Rightarrow> bind_sum (target_parse v) (\<lambda>t. Inr (RecordCname t))
     | KindMx \<Rightarrow> bind_sum (priority_of p) (\<lambda>n. bind_sum (target_parse v) (\<lambda>t. Inr (RecordMx n t)))
     | KindTxt \<Rightarrow> bind_sum (text_parse v) (\<lambda>t. Inr (RecordTxt t))
     | KindSrv \<Rightarrow>
        (case split_whitespace v of
           [weight, port, host] \<Rightarrow>
             bind_sum (priority_of p) (\<lambda>n.
             bind_sum (ok_or BAD_SRV (parse_uint (2 ^ 16) weight)) (\<lambda>w.
             bind_sum (ok_or BAD_SRV (parse_uint (2 ^ 16) port)) (\<lambda>q.
             bind_sum (target_parse host) (\<lambda>t. Inr (RecordSrv n (of_nat w) (of_nat q) t)))))
         | _ \<Rightarrow> Inl BAD_SRV)
     | KindCaa \<Rightarrow> caa_parse v)"

fun data_kind :: "record_data \<Rightarrow> record_kind" where
  "data_kind (RecordA _) = KindA"
| "data_kind (RecordAaaa _) = KindAaaa"
| "data_kind (RecordCname _) = KindCname"
| "data_kind (RecordMx _ _) = KindMx"
| "data_kind (RecordTxt _) = KindTxt"
| "data_kind (RecordSrv _ _ _ _) = KindSrv"
| "data_kind (RecordCaa _ _ _) = KindCaa"

fun data_value :: "record_data \<Rightarrow> string" where
  "data_value (RecordA (a, b, c, d)) = show_ipv4 a b c d"
| "data_value (RecordAaaa gs) = show_ipv6 gs"
| "data_value (RecordCname t) = t"
| "data_value (RecordMx _ t) = t"
| "data_value (RecordTxt t) = t"
| "data_value (RecordSrv _ w q t) = show_byte w @ '' '' @ show_byte q @ '' '' @ t"
| "data_value (RecordCaa c tg v) = (if c then ''128'' else ''0'') @ '' '' @ tg @ '' '' @ v"

fun data_priority :: "record_data \<Rightarrow> u16 option" where
  "data_priority (RecordMx n _) = Some n"
| "data_priority (RecordSrv n _ _ _) = Some n"
| "data_priority _ = None"

text \<open>The strings a TXT record goes out as: the text cut before a byte too many.\<close>

fun text_strings_loop :: "string list \<Rightarrow> string \<Rightarrow> string \<Rightarrow> string list" where
  "text_strings_loop strings current [] =
    (if current \<noteq> [] \<or> strings = [] then strings @ [current] else strings)"
| "text_strings_loop strings current (c # cs) =
    (if byte_len current + len_utf8 c > 255 then text_strings_loop (strings @ [current]) [c] cs
     else text_strings_loop strings (current @ [c]) cs)"

definition text_strings :: "string \<Rightarrow> string list" where
  "text_strings t = text_strings_loop [] [] t"

section \<open>Words and blanks\<close>

definition clean :: "string \<Rightarrow> bool" where
  "clean s \<longleftrightarrow> list_all (\<lambda>c. \<not> is_whitespace c) s"

lemma blank_space [simp]: "is_whitespace CHR '' ''"
  by (simp add: is_whitespace_def)

lemma words_from_clean: "clean w \<Longrightarrow> words_from cur (w @ s) = words_from (rev w @ cur) s"
  by (induction w arbitrary: cur) (auto simp: clean_def)

lemma split_whitespace_one: "clean w \<Longrightarrow> w \<noteq> [] \<Longrightarrow> split_whitespace w = [w]"
  using words_from_clean [of w "[]" "[]"] by (simp add: split_whitespace_def)

lemma split_whitespace_word:
  "clean w \<Longrightarrow> w \<noteq> [] \<Longrightarrow> split_whitespace (w @ CHR '' '' # s) = w # split_whitespace s"
  using words_from_clean [of w "[]" "CHR '' '' # s"] by (simp add: split_whitespace_def)

lemma words_from_blank: "list_all is_whitespace b \<Longrightarrow> words_from [] (b @ s) = words_from [] s"
  by (induction b) auto

lemma words_from_end: "list_all is_whitespace b \<Longrightarrow> words_from cur (s @ b) = words_from cur s"
proof (induction s arbitrary: cur)
  case Nil
  then show ?case using words_from_blank [of _ "[]"] by (cases b) (auto simp: list_all_iff)
qed auto

lemma trim_split: "\<exists>a b. s = a @ trim s @ b \<and> list_all is_whitespace a \<and> list_all is_whitespace b"
proof -
  have "s = takeWhile is_whitespace s @ dropWhile is_whitespace s" by simp
  moreover obtain b where "dropWhile is_whitespace s = trim s @ b" "list_all is_whitespace b"
    using trim_end_prefix [of "dropWhile is_whitespace s" is_whitespace]
    by (auto simp: trim_def trim_matches_def)
  moreover have "list_all is_whitespace (takeWhile is_whitespace s)"
    by (auto simp: list_all_iff dest: set_takeWhileD)
  ultimately show ?thesis by metis
qed

lemma split_whitespace_trim: "split_whitespace (trim s) = split_whitespace s"
  using trim_split [of s] unfolding split_whitespace_def
  by (metis words_from_blank words_from_end)

lemma length_trim: "length (trim s) \<le> length s" "length (trim s) = length s \<longleftrightarrow> trim s = s"
proof -
  obtain a b where s: "s = a @ trim s @ b" using trim_split [of s] by blast
  then have l: "length s = length a + length (trim s) + length b"
    by (metis add.assoc length_append)
  then show "length (trim s) \<le> length s" by simp
  show "length (trim s) = length s \<longleftrightarrow> trim s = s"
  proof
    assume "length (trim s) = length s"
    with l have "a = []" "b = []" by auto
    with s show "trim s = s" by simp
  qed simp
qed

lemma words_from_words:
  assumes "w \<in> set (words_from cur s)" "clean cur"
  shows "w \<noteq> [] \<and> clean w"
  using assms by (induction s arbitrary: cur) (fastforce simp: clean_def split: if_splits)+

lemma split_whitespace_words: "w \<in> set (split_whitespace s) \<Longrightarrow> w \<noteq> [] \<and> clean w"
  using words_from_words [of w "[]" s] by (simp add: split_whitespace_def clean_def)

text \<open>Single spaces between words, and nothing else that is blank.\<close>

definition spaced :: "string \<Rightarrow> bool" where
  "spaced s \<longleftrightarrow> list_all (\<lambda>c. is_whitespace c \<longrightarrow> c = CHR '' '') s \<and> \<not> (\<exists>a b. s = a @ ''  '' @ b)"

lemma spaced_infix: "spaced (a @ s @ b) \<Longrightarrow> spaced s"
  unfolding spaced_def by (auto simp: list_all_iff) (metis append.assoc append_Cons)

lemma spaced_tl: "spaced (c # s) \<Longrightarrow> spaced s"
  using spaced_infix [of "[c]" s "[]"] by simp

lemma join_words_from:
  assumes "spaced s" "s = [] \<or> \<not> is_whitespace (last s)" "cur = [] \<Longrightarrow> s = [] \<or> \<not> is_whitespace (hd s)"
  shows "join_with '' '' (words_from cur s) = rev cur @ s"
  using assms
proof (induction s arbitrary: cur)
  case (Cons x xs)
  show ?case
  proof (cases "is_whitespace x")
    case True
    with Cons.prems have x: "x = CHR '' ''" "cur \<noteq> []" "xs \<noteq> []"
      by (auto simp: spaced_def)
    obtain y ys where xs: "xs = y # ys" using x(3) by (cases xs) auto
    have y: "\<not> is_whitespace y"
    proof
      assume "is_whitespace y"
      then have "x # xs = [] @ ''  '' @ ys" using Cons.prems(1) x(1) xs by (simp add: spaced_def)
      with Cons.prems(1) show False unfolding spaced_def by blast
    qed
    have "join_with '' '' (words_from [] xs) = xs"
      using Cons.IH [of "[]"] Cons.prems spaced_tl y xs x(3) by auto
    moreover from this x(3) have "words_from [] xs \<noteq> []" by (metis join_with.simps(1))
    ultimately show ?thesis using True x by (cases "words_from [] xs") auto
  next
    case False
    then show ?thesis
      using Cons.IH [of "x # cur"] Cons.prems spaced_tl by (auto split: if_splits)
  qed
qed auto

lemma join_split_whitespace:
  assumes "spaced s" "trim s = s"
  shows "join_with '' '' (split_whitespace s) = s"
proof -
  have "s = [] \<or> \<not> is_whitespace (hd s) \<and> \<not> is_whitespace (last s)"
    using trim_matches_ends [of is_whitespace s] assms(2) by (auto simp: trim_def)
  then show ?thesis
    using join_words_from [of s "[]"] assms(1) by (auto simp: split_whitespace_def)
qed

lemma spaced_join: "list_all (\<lambda>w. w \<noteq> [] \<and> clean w) ws \<Longrightarrow> spaced (join_with '' '' ws)"
proof (induction "'' ''" ws rule: join_with.induct)
  case 1
  then show ?case by (simp add: spaced_def)
next
  case (2 x)
  then show ?case
    by (auto simp: spaced_def clean_def list_all_iff)
next
  case (3 x y xs)
  then have IH: "spaced (join_with '' '' (y # xs))" and x: "clean x" and y: "y \<noteq> []" "clean y" by auto
  define rest where "rest = join_with '' '' (y # xs)"
  have hd: "rest \<noteq> []" "\<not> is_whitespace (hd rest)"
    using y by (cases xs; cases y; auto simp: rest_def clean_def)+
  have "\<not> (\<exists>a b. x @ '' '' @ rest = a @ ''  '' @ b)"
  proof (intro notI, elim exE)
    fix a b
    assume eq: "x @ '' '' @ rest = a @ ''  '' @ b"
    from iffD1 [OF append_eq_append_conv2 eq]
    consider u where "x = a @ u" "u @ '' '' @ rest = ''  '' @ b" | u where "a = x @ u" "'' '' @ rest = u @ ''  '' @ b"
      by blast
    then show False
    proof cases
      case 1
      show ?thesis
      proof (cases u)
        case Nil
        with 1(2) have "rest = CHR '' '' # b" by simp
        then show ?thesis using hd(2) by simp
      next
        case (Cons c u')
        with 1(2) have "c = CHR '' ''" by simp
        with 1(1) Cons have "CHR '' '' \<in> set x" by simp
        with x show ?thesis by (auto simp: clean_def list_all_iff)
      qed
    next
      case 2
      show ?thesis
      proof (cases u)
        case Nil
        with 2(2) have "rest = CHR '' '' # b" by simp
        then show ?thesis using hd(2) by simp
      next
        case (Cons c u')
        with 2(2) have "rest = u' @ ''  '' @ b" by simp
        with IH show ?thesis unfolding rest_def spaced_def by blast
      qed
    qed
  qed
  then show ?case
    using IH x unfolding rest_def by (auto simp: spaced_def clean_def list_all_iff)
qed

section \<open>A stored record is read back\<close>

lemma show_byte_clean [simp]: "clean (show_byte b)" "show_byte b \<noteq> []"
  using show_nat_digits [of "unat b"]
  by (auto simp: show_byte_def clean_def list_all_iff char_class_defs)

lemma show_hex_clean: "clean (show_hex n)"
proof -
  have "\<not> is_whitespace c" if "is_hexdigit c" for c
    using that by (auto simp: is_hexdigit_def char_class_defs)
  then show ?thesis using show_hex_hexdigits [of n] by (auto simp: clean_def list_all_iff)
qed

lemma clean_append [simp]: "clean (a @ b) \<longleftrightarrow> clean a \<and> clean b" "clean []"
  "clean (c # s) \<longleftrightarrow> \<not> is_whitespace c \<and> clean s"
  by (auto simp: clean_def)

lemma clean_join: "clean sep \<Longrightarrow> list_all clean xs \<Longrightarrow> clean (join_with sep xs)"
  by (induction sep xs rule: join_with.induct) auto

lemma show_ipv4_clean: "clean (show_ipv4 a b c d)"
  by (simp add: show_ipv4_def char_class_defs)

lemma show_groups_clean: "clean (show_groups gs)"
  unfolding show_groups_def
  by (rule clean_join) (auto simp: list_all_iff show_hex_clean char_class_defs)

lemma show_ipv6_clean: "clean (show_ipv6 gs)"
  by (auto simp: show_ipv6_def show_groups_clean show_ipv4_clean Let_def char_class_defs split: prod.splits)

lemma trim_clean: "clean s \<Longrightarrow> trim s = s"
  by (simp add: clean_def trim_plain)

lemma length_read_groups: "k \<le> limit \<Longrightarrow> length (fst (read_groups limit k s)) \<le> k"
proof (induction limit k s rule: read_groups.induct)
  case (2 limit k s)
  then show ?case
    by (auto simp: Let_def split: option.splits prod.splits if_splits)
qed simp

lemma length_parse_ipv6: "parse_ipv6 s = Some gs \<Longrightarrow> length gs = 8"
proof -
  assume "parse_ipv6 s = Some gs"
  then obtain rest where r: "read_ipv6 s = Some (gs, rest)"
    by (auto simp: parse_ipv6_def split: option.splits if_splits)
  obtain head v4 s1 where h: "read_groups 8 8 s = (head, v4, s1)" by (metis prod_cases3)
  have lh: "length head \<le> 8" using length_read_groups [of 8 8 s] h by simp
  show ?thesis
  proof (cases "length head = 8")
    case False
    then obtain s2 tail' v s3 where t: "read_groups (7 - length head) (7 - length head) s2 = (tail', v, s3)"
      "gs = head @ replicate (8 - length head - length tail') 0 @ tail'"
      using r h by (auto simp: read_ipv6_def Let_def split: if_splits Option.bind_splits prod.splits)
    have "length tail' \<le> 7 - length head"
      using length_read_groups [of "7 - length head" "7 - length head" s2] t(1) by simp
    with t(2) lh False show ?thesis by simp
  qed (use r h in \<open>auto simp: read_ipv6_def\<close>)
qed

lemma target_parse_Inr:
  assumes "target_parse typed = Inr name"
  shows "settled name" "name \<noteq> []" "clean name" "target_parse name = Inr name"
proof -
  let ?mask = "\<lambda>l. map (\<lambda>c. if c = CHR ''_'' then CHR ''a'' else c) l"
  have n: "name = lowercase (trim_end_matches (\<lambda>c. c = CHR ''.'') (trim typed))"
    and labels: "2 \<le> length (split_on CHR ''.'' name)" "byte_len name \<le> 253"
      "list_all (\<lambda>l. is_host_label (?mask l)) (split_on CHR ''.'' name)"
    using assms by (auto simp: target_parse_def Let_def split: if_splits)
  have plain: "\<not> is_whitespace c \<and> \<not> is_upper c" if "c \<in> set name" for c
  proof (cases "c = CHR ''.''")
    case False
    have "set name \<subseteq> \<Union> (set (map set (split_on CHR ''.'' name))) \<union> {CHR ''.''}"
      using set_join [of "''.''" "split_on CHR ''.'' name"] by simp
    with that False obtain l where l: "l \<in> set (split_on CHR ''.'' name)" "c \<in> set l" by auto
    then have "(if c = CHR ''_'' then CHR ''a'' else c) \<in> set (?mask l)" by simp
    moreover have "is_host_label (?mask l)" using labels(3) l(1) by (auto simp: list_all_iff)
    ultimately have "zone_char (if c = CHR ''_'' then CHR ''a'' else c)"
      using host_label_chars by blast
    then show ?thesis using zone_char_plain by (auto simp: char_class_defs split: if_splits)
  qed (simp add: char_class_defs)
  have ne: "name \<noteq> []" using labels(1) by auto
  have "last name \<noteq> CHR ''.''"
  proof -
    let ?t = "trim_end_matches (\<lambda>c. c = CHR ''.'') (trim typed)"
    have t: "?t \<noteq> []" using ne n by auto
    then have "last name = to_lower (last ?t)" by (simp add: n lowercase_def last_map)
    moreover have "last ?t \<noteq> CHR ''.''" using last_trim_end [OF t] .
    ultimately show ?thesis by (auto simp: to_lower_eq_iff char_class_defs)
  qed
  then show s: "settled name" using plain by (auto simp: settled_def list_all_iff)
  show "name \<noteq> []" by (rule ne)
  show "clean name" using plain by (auto simp: clean_def list_all_iff)
  show "target_parse name = Inr name"
    using labels settled_normal [OF s] by (simp add: target_parse_def Let_def)
qed

interpretation target: stable_parser target_parse
  by unfold_locales (rule target_parse_Inr(4))

lemma priority_of_show: "priority_of (Some (show_byte n)) = Inr n"
  for n :: u16
  using unat_below_exp [of n]
  by (simp add: priority_of_def trim_clean) (simp add: show_byte_def)

lemma parse_port_show: "parse_uint 65536 (show_byte n) = Some (unat n)"
  for n :: u16
  using unat_below_exp [of n] by (simp add: show_byte_def)

lemma length_without_text: "length (without_text p s) \<le> length s"
proof (induction p s rule: without_text.induct)
  case (1 p s)
  then show ?case
    by (subst without_text.simps) (cases s; auto intro: order_trans)
qed

text \<open>Whether the stored form says the same.\<close>

definition stored_back :: "record_data \<Rightarrow> data_refusal + record_data" where
  "stored_back d = data_parse (data_kind d) (data_value d) (map_option show_byte (data_priority d))"

fun says_itself :: "record_data \<Rightarrow> bool" where
  "says_itself (RecordTxt t) \<longleftrightarrow> trim t = t \<and> \<not> wrapped t"
| "says_itself (RecordCaa _ _ v) \<longleftrightarrow> trim v = v"
| "says_itself _ \<longleftrightarrow> True"

lemma text_parse_fixed:
  assumes "text_parse typed = Inr t"
  shows "text_parse (trim t) = Inr t \<longleftrightarrow> trim t = t \<and> \<not> wrapped t"
proof
  assume "trim t = t \<and> \<not> wrapped t"
  then show "text_parse (trim t) = Inr t"
    using assms by (auto simp: text_parse_def Let_def split: if_splits)
next
  assume again: "text_parse (trim t) = Inr t"
  show "trim t = t \<and> \<not> wrapped t"
  proof (cases "wrapped (trim t)")
    case True
    with again have "t = without_text [quote_char, CHR '' '', quote_char] (butlast (tl (trim t)))"
      by (auto simp: text_parse_def Let_def split: if_splits)
    then have "length t \<le> length (butlast (tl (trim t)))" by (metis length_without_text)
    moreover have "length (butlast (tl (trim t))) < length (trim t)"
      using True by (cases "trim t") (auto simp: wrapped_def)
    ultimately have "length t < length t" using length_trim(1) [of t] by linarith
    then show ?thesis by simp
  next
    case False
    with again have "trim t = t" by (auto simp: text_parse_def Let_def split: if_splits)
    with False show ?thesis by simp
  qed
qed

lemma caa_parse_Inr:
  assumes "caa_parse typed = Inr d"
  shows "\<exists>c tg v. d = RecordCaa c tg v \<and> tg \<in> {''issue'', ''issuewild''} \<and> v \<noteq> [] \<and> spaced v \<and>
    trim_matches (\<lambda>c. c = quote_char) v = v"
proof -
  obtain c tg words where d: "d = RecordCaa c tg (trim_matches (\<lambda>c. c = quote_char) (join_with '' '' words))"
      "tg \<in> {''issue'', ''issuewild''}" "set words \<subseteq> set (split_whitespace typed)"
      "trim_matches (\<lambda>c. c = quote_char) (join_with '' '' words) \<noteq> []"
    using assms by (auto simp: caa_parse_def Let_def split: list.splits option.splits if_splits)
  let ?j = "join_with '' '' words"
  have "spaced ?j"
    using d(3) split_whitespace_words by (intro spaced_join) (auto simp: list_all_iff)
  moreover have "\<exists>a b. ?j = a @ trim_matches P ?j @ b" for P
    using trim_end_prefix [of "dropWhile P ?j" P] unfolding trim_matches_def
    by (metis takeWhile_dropWhile_id)
  ultimately have "spaced (trim_matches (\<lambda>c. c = quote_char) ?j)" by (metis spaced_infix)
  with d show ?thesis by auto
qed

lemma caa_parse_stored:
  assumes "tg \<in> {''issue'', ''issuewild''}" "v \<noteq> []" "spaced v" "trim_matches (\<lambda>c. c = quote_char) v = v"
  shows "caa_parse (trim (data_value (RecordCaa c tg v))) = Inr (RecordCaa c tg v) \<longleftrightarrow> trim v = v"
proof -
  let ?flags = "if c then ''128'' else ''0''"
  have flags: "clean ?flags" "?flags \<noteq> []" "clean tg" "tg \<noteq> []" "lowercase tg = tg"
    using assms(1) by (auto simp: char_class_defs to_lower_def)
  have "?flags = show_nat (if c then 128 else 0)"
    by (simp add: show_nat.simps) code_simp
  then have num: "parse_uint (2 ^ 8) ?flags = Some (if c then 128 else 0)"
    by (cases c) (simp_all add: parse_show_nat)
  have "spaced (trim v)"
    using trim_split [of v] assms(3) by (metis spaced_infix)
  then have j: "join_with '' '' (split_whitespace v) = trim v"
    using join_split_whitespace [of "trim v"] by (simp add: split_whitespace_trim)
  have bits: "(and (if c then 128 else 0) 128 \<noteq> (0 :: nat)) = c" by (cases c) simp_all
  have parsed: "caa_parse (trim (data_value (RecordCaa c tg v))) =
      (let v' = trim_matches (\<lambda>c. c = quote_char) (trim v) in if v' = [] then Inl BAD_CAA else Inr (RecordCaa c tg v'))"
    unfolding caa_parse_def data_value.simps split_whitespace_trim
    using flags num bits assms(1)
    by (auto simp: split_whitespace_word j Let_def)
  have short: "length (trim_matches P s) \<le> length s" for P s
    using trim_end_prefix [of "dropWhile P s" P] length_dropWhile_le [of P s]
    unfolding trim_matches_def by (metis le_add1 le_trans length_append)
  show ?thesis
  proof
    assume "caa_parse (trim (data_value (RecordCaa c tg v))) = Inr (RecordCaa c tg v)"
    then have "trim_matches (\<lambda>c. c = quote_char) (trim v) = v"
      unfolding parsed by (auto simp: Let_def split: if_splits)
    then show "trim v = v"
      using short [of "\<lambda>c. c = quote_char" "trim v"] length_trim [of v] by (metis le_antisym)
  next
    assume "trim v = v"
    then show "caa_parse (trim (data_value (RecordCaa c tg v))) = Inr (RecordCaa c tg v)"
      unfolding parsed using assms(2,4) by simp
  qed
qed

lemma split_srv:
  "clean t \<Longrightarrow> t \<noteq> [] \<Longrightarrow>
    split_whitespace (show_byte w @ '' '' @ show_byte q @ '' '' @ t) = [show_byte w, show_byte q, t]"
  for w q :: u16
  using split_whitespace_word [of "show_byte w" "show_byte q @ CHR '' '' # t"]
    split_whitespace_word [of "show_byte q" t] split_whitespace_one [of t]
  by simp

text \<open>
  Property C40.  A record that was accepted is of the kind asked for, and what is stored of it
  parses back to the same record exactly where it says itself: an address, a name, an exchange
  and a service always do, a text when it neither begins or ends in a blank nor is wrapped in
  quotes of its own, an authority when its value has no blank at its ends.
\<close>

theorem a_record_reads_back:
  assumes "data_parse kind v p = Inr d"
  shows "data_kind d = kind \<and> (stored_back d = Inr d \<longleftrightarrow> says_itself d)"
proof (cases kind)
  case KindA
  with assms obtain a b c e where "d = RecordA (a, b, c, e)"
    by (auto simp: data_parse_def bind_sum_def ok_or_def split: option.splits sum.splits)
  then show ?thesis
    using KindA by (simp add: stored_back_def data_parse_def trim_clean show_ipv4_clean parse_show_ipv4
        ok_or_def bind_sum_def)
next
  case KindAaaa
  with assms obtain gs where "d = RecordAaaa gs" "length gs = 8"
    by (auto simp: data_parse_def bind_sum_def ok_or_def length_parse_ipv6 split: option.splits sum.splits)
  then show ?thesis
    using KindAaaa by (simp add: stored_back_def data_parse_def trim_clean show_ipv6_clean parse_show_ipv6
        ok_or_def bind_sum_def)
next
  case KindCname
  with assms obtain t where t: "d = RecordCname t" "target_parse (trim v) = Inr t"
    by (auto simp: data_parse_def bind_sum_def split: sum.splits)
  then show ?thesis
    using KindCname target_parse_Inr [OF t(2)]
    by (simp add: stored_back_def data_parse_def trim_clean bind_sum_def)
next
  case KindMx
  with assms obtain n t where t: "d = RecordMx n t" "target_parse (trim v) = Inr t"
    by (auto simp: data_parse_def bind_sum_def split: sum.splits)
  then show ?thesis
    using KindMx target_parse_Inr [OF t(2)]
    by (simp add: stored_back_def data_parse_def trim_clean bind_sum_def priority_of_show)
next
  case KindTxt
  with assms obtain t where t: "d = RecordTxt t" "text_parse (trim v) = Inr t"
    by (auto simp: data_parse_def bind_sum_def split: sum.splits)
  then show ?thesis
    using KindTxt text_parse_fixed [OF t(2)]
    by (auto simp: stored_back_def data_parse_def bind_sum_def split: sum.splits)
next
  case KindSrv
  with assms obtain n w q host t where t: "d = RecordSrv n w q t" "target_parse host = Inr t"
    by (auto simp: data_parse_def bind_sum_def ok_or_def split: sum.splits list.splits option.splits)
  note target = target_parse_Inr [OF t(2)]
  have "split_whitespace (trim (data_value d)) = [show_byte w, show_byte q, t]"
    using target by (simp add: t split_whitespace_trim split_srv del: append_Cons)
  then show ?thesis
    using KindSrv target
    by (simp add: t stored_back_def data_parse_def bind_sum_def ok_or_def priority_of_show parse_port_show)
next
  case KindCaa
  with assms have "caa_parse (trim v) = Inr d" by (simp add: data_parse_def)
  then obtain c tg w where d: "d = RecordCaa c tg w" "tg \<in> {''issue'', ''issuewild''}" "w \<noteq> []" "spaced w"
    "trim_matches (\<lambda>c. c = quote_char) w = w" using caa_parse_Inr by blast
  then show ?thesis
    using KindCaa caa_parse_stored [OF d(2-5)] by (simp add: stored_back_def data_parse_def)
qed

text \<open>
  A lone space in quotes is a text; what is stored of it is refused.
\<close>

theorem a_record_reads_back_witness:
  "data_parse KindTxt [quote_char, CHR '' '', quote_char] None = Inr (RecordTxt '' '') \<and>
   stored_back (RecordTxt '' '') = Inl EMPTY_TEXT \<and>
   data_parse KindSrv '' 5  5060 SIP.example.com.'' (Some ''10'') = Inr (RecordSrv 10 5 5060 ''sip.example.com'') \<and>
   stored_back (RecordSrv 10 5 5060 ''sip.example.com'') = Inr (RecordSrv 10 5 5060 ''sip.example.com'')"
proof -
  have t: "data_parse KindTxt [quote_char, CHR '' '', quote_char] None = Inr (RecordTxt '' '')" by code_simp
  have s: "data_parse KindSrv '' 5  5060 SIP.example.com.'' (Some ''10'') = Inr (RecordSrv 10 5 5060 ''sip.example.com'')"
    by code_simp
  have "stored_back (RecordTxt '' '') = Inl EMPTY_TEXT" by code_simp
  then show ?thesis
    using t s a_record_reads_back [OF t] a_record_reads_back [OF s] by simp
qed

lemma text_strings_loop_cut:
  assumes "list_all (\<lambda>s. byte_len s \<le> 255) strings" "byte_len current \<le> 255"
  shows "list_all (\<lambda>s. byte_len s \<le> 255) (text_strings_loop strings current t) \<and>
    concat (text_strings_loop strings current t) = concat strings @ current @ t"
  using assms
proof (induction strings current t rule: text_strings_loop.induct)
  case (2 strings current c cs)
  have "len_utf8 c \<le> 2" by (simp add: len_utf8_def)
  then show ?case using 2 by auto
qed auto

text \<open>A text goes out whole, in strings of at most 255 bytes.\<close>

lemma text_strings_whole:
  "concat (text_strings t) = t \<and> list_all (\<lambda>s. byte_len s \<le> 255) (text_strings t)"
  using text_strings_loop_cut [of "[]" "[]" t] by (simp add: text_strings_def)

section \<open>Records and zones (dns_record.rs, dns_zone.rs, zn_serial.rs)\<close>

datatype zone_refusal =
    BadName name_refusal | BadData data_refusal | CNAME_AT_APEX | BAD_TTL
  | ALREADY_SERVED | OVERLAPS | PROJECT_SENT_HERE | HOLDS_THE_NODE | HOLDS_AN_ORGANISATION
  | CNAME_STANDS_ALONE | ALREADY_THERE | NO_SUCH_RECORD | OURS_ALREADY | HELD_FOR_ANOTHER
  | StorageFailed

definition MIN_TTL :: u32 where "MIN_TTL = 60"
definition MAX_TTL :: u32 where "MAX_TTL = 86400"
definition DEFAULT_TTL :: u32 where "DEFAULT_TTL = 300"

record dns_record =
  dr_id :: string
  dr_zone :: string
  dr_name :: string
  dr_says :: record_data
  dr_ttl :: u32

definition record_new :: "string \<Rightarrow> string \<Rightarrow> string \<Rightarrow> record_data \<Rightarrow> u32 \<Rightarrow> zone_refusal + dns_record" where
  "record_new i zone name d ttl =
    (if is_apex name \<and> data_kind d = KindCname then Inl CNAME_AT_APEX
     else if \<not> (MIN_TTL \<le> ttl \<and> ttl \<le> MAX_TTL) then Inl BAD_TTL
     else Inr \<lparr>dr_id = i, dr_zone = zone, dr_name = name, dr_says = d, dr_ttl = ttl\<rparr>)"

datatype delegation_status = Here | Partly | Elsewhere | Unregistered | Unknown

fun delegation_as_str :: "delegation_status \<Rightarrow> string" where
  "delegation_as_str Here = ''here''"
| "delegation_as_str Partly = ''partly''"
| "delegation_as_str Elsewhere = ''elsewhere''"
| "delegation_as_str Unregistered = ''unregistered''"
| "delegation_as_str Unknown = ''unknown''"

definition delegation_parse :: "string \<Rightarrow> delegation_status" where
  "delegation_parse t =
    (if t = ''here'' then Here else if t = ''partly'' then Partly
     else if t = ''elsewhere'' then Elsewhere else if t = ''unregistered'' then Unregistered else Unknown)"

interpretation delegation_status: spelled delegation_as_str delegation_parse Unknown
proof
  show "delegation_parse (delegation_as_str e) = e" for e
    by (cases e) (auto simp: delegation_parse_def)
  show "delegation_parse t = Unknown" if "t \<notin> range delegation_as_str" for t
    using that unfolding delegation_parse_def image_iff
    by (metis UNIV_I delegation_as_str.simps(1-4))
qed

record delegation =
  delegation_status :: delegation_status
  delegated_to :: "string list"
  delegation_reason :: "string option"
  checked_at :: int

definition server_norm :: "string \<Rightarrow> string" where
  "server_norm name = lowercase (trim_end_matches (\<lambda>c. c = CHR ''.'') (trim name))"

definition delegation_verdict :: "string list \<Rightarrow> string list \<Rightarrow> delegation_status" where
  "delegation_verdict listed answering =
    (let d = server_norm ` set listed; a = server_norm ` set answering in
     if d = {} then Unregistered else if d = a then Here
     else if d \<inter> a \<noteq> {} then Partly else Elsewhere)"

definition delegation_against :: "delegation \<Rightarrow> string list \<Rightarrow> delegation" where
  "delegation_against d answering =
    (if delegation_status d \<in> {Here, Partly, Elsewhere}
     then d\<lparr>delegation_status := delegation_verdict (delegated_to d) answering\<rparr> else d)"

record dns_zone =
  zn_id :: string
  zn_name :: string
  zn_project :: "string option"
  zn_authority :: "string option"
  zn_serial :: u32
  zn_default_ttl :: u32
  zn_delegation :: "delegation option"
  zn_received :: "string list"
  zn_created :: int
  zn_updated :: int

definition zone_is_ours :: "dns_zone \<Rightarrow> bool" where
  "zone_is_ours z \<longleftrightarrow> zn_authority z = None"

definition hostmaster :: "dns_zone \<Rightarrow> string" where
  "hostmaster z = ''hostmaster.'' @ zn_name z"

definition zone_serial_next :: "u32 \<Rightarrow> u64 \<Rightarrow> u32" where
  "zone_serial_next previous now_secs =
    (let clock = (if unat now_secs < 2 ^ 32 then ucast now_secs else word_top)
     in max clock (sat_add previous 1))"

text \<open>\<open>(now / 1000) as u64\<close>, of milliseconds as \<open>i64\<close>: division towards zero, then the bits.\<close>

definition in_seconds :: "int \<Rightarrow> u64" where
  "in_seconds now = word_of_int (if now < 0 then - ((- now) div 1000) else now div 1000)"

section \<open>The tables (repositories/zones.rs)\<close>

record zone_row =
  zw_id :: string
  zw_name :: string
  zw_project :: "string option"
  zw_authority :: "string option"
  zw_serial :: u32
  zw_ttl :: u32
  zw_status :: "string option"
  zw_note :: "string option"
  zw_checked :: "int option"
  zw_servers :: "string option"
  zw_created :: int
  zw_updated :: int

record record_row =
  rw_id :: string
  rw_zone :: string
  rw_name :: string
  rw_kind :: string
  rw_value :: string
  rw_priority :: "u16 option"
  rw_ttl :: u32
  rw_created :: int

record server_row =
  sw_zone :: string
  sw_node :: string
  sw_position :: nat

record zones_db =
  zone_rows :: "zone_row list"
  record_rows :: "record_row list"
  server_rows :: "server_row list"

definition comma_names :: "string \<Rightarrow> string list" where
  "comma_names s = filter (\<lambda>n. n \<noteq> []) (split_on CHR '','' s)"

definition read_delegation :: "string option \<Rightarrow> string option \<Rightarrow> int option \<Rightarrow> delegation option" where
  "read_delegation status note checked =
    (case (status, checked) of
       (Some s, Some at) \<Rightarrow>
         (let st = delegation_parse s; note = (case note of Some n \<Rightarrow> n | None \<Rightarrow> []) in
          Some \<lparr>delegation_status = st,
            delegated_to = (if st = Unknown then [] else comma_names note),
            delegation_reason = (if st = Unknown then Some note else None), checked_at = at\<rparr>)
     | _ \<Rightarrow> None)"

definition read_zone :: "zone_row \<Rightarrow> dns_zone option" where
  "read_zone r =
    (case zone_parse (zw_name r) of
       Inl _ \<Rightarrow> None
     | Inr name \<Rightarrow> Some
        \<lparr>zn_id = zw_id r, zn_name = name, zn_project = zw_project r, zn_authority = zw_authority r,
         zn_serial = zw_serial r, zn_default_ttl = zw_ttl r,
         zn_delegation = read_delegation (zw_status r) (zw_note r) (zw_checked r),
         zn_received = (case zw_servers r of Some n \<Rightarrow> comma_names n | None \<Rightarrow> []),
         zn_created = zw_created r, zn_updated = zw_updated r\<rparr>)"

definition zones_all :: "zones_db \<Rightarrow> dns_zone list" where
  "zones_all db = List.map_filter read_zone (sort_key zw_name (zone_rows db))"

definition zones_of_project :: "zones_db \<Rightarrow> string \<Rightarrow> dns_zone list" where
  "zones_of_project db pid =
    List.map_filter read_zone (sort_key zw_name (filter (\<lambda>r. zw_project r = Some pid) (zone_rows db)))"

definition zone_by_name :: "zones_db \<Rightarrow> string \<Rightarrow> dns_zone option" where
  "zone_by_name db name =
    (case zone_parse name of
       Inl _ \<Rightarrow> None
     | Inr name \<Rightarrow> List.find (\<lambda>z. zn_name z = name) (zones_all db))"

definition or_refused :: "('e \<Rightarrow> zone_refusal) \<Rightarrow> 'e + 'a \<Rightarrow> zone_refusal + 'a" where
  "or_refused f r = (case r of Inl e \<Rightarrow> Inl (f e) | Inr x \<Rightarrow> Inr x)"

text \<open>The three parsers every stored or received record goes through.\<close>

definition parse_said :: "string \<Rightarrow> string \<Rightarrow> string \<Rightarrow> string \<Rightarrow> u16 option
    \<Rightarrow> zone_refusal + string \<times> record_data" where
  "parse_said zone name kind v priority =
    bind_sum (or_refused BadName (record_parse zone name)) (\<lambda>at.
    bind_sum (or_refused BadData (record_kind_parse kind)) (\<lambda>k.
    bind_sum (or_refused BadData (data_parse k v (map_option show_byte priority))) (\<lambda>d.
      Inr (at, d))))"

definition read_record :: "dns_zone \<Rightarrow> record_row \<Rightarrow> zone_refusal + dns_record" where
  "read_record z r =
    bind_sum (parse_said (zn_name z) (rw_name r) (rw_kind r) (rw_value r) (rw_priority r)) (\<lambda>(at, d).
      record_new (rw_id r) (zn_id z) at d (rw_ttl r))"

definition ok_of :: "'e + 'a \<Rightarrow> 'a option" where
  "ok_of r = (case r of Inl _ \<Rightarrow> None | Inr x \<Rightarrow> Some x)"

definition records_of :: "zones_db \<Rightarrow> dns_zone \<Rightarrow> dns_record list" where
  "records_of db z =
    List.map_filter (\<lambda>r. ok_of (read_record z r))
      (sort_key (\<lambda>r. (rw_name r, rw_kind r, rw_value r))
        (filter (\<lambda>r. rw_zone r = zn_id z) (record_rows db)))"

definition servers_of :: "zones_db \<Rightarrow> string \<Rightarrow> string list" where
  "servers_of db i = map sw_node (sort_key sw_position (filter (\<lambda>r. sw_zone r = i) (server_rows db)))"

definition tenant_domains :: "tenant list \<Rightarrow> (string \<times> string) list" where
  "tenant_domains ts = List.map_filter (\<lambda>t. map_option (Pair (tenant_id t)) (tenant_domain t)) ts"

text \<open>\<open>INSERT OR IGNORE\<close>, the key being the zone and the node.\<close>

fun insert_servers :: "string \<Rightarrow> nat \<Rightarrow> string list \<Rightarrow> server_row list \<Rightarrow> server_row list" where
  "insert_servers z position [] rows = rows"
| "insert_servers z position (node # nodes) rows =
    insert_servers z (Suc position) nodes
      (if list_ex (\<lambda>r. sw_zone r = z \<and> sw_node r = node) rows then rows
       else rows @ [\<lparr>sw_zone = z, sw_node = node, sw_position = position\<rparr>])"

definition write_servers :: "string \<Rightarrow> string list \<Rightarrow> zones_db \<Rightarrow> zones_db" where
  "write_servers z servers db =
    db\<lparr>server_rows := insert_servers z 0 servers (filter (\<lambda>r. sw_zone r \<noteq> z) (server_rows db))\<rparr>"

definition edit_zone :: "string \<Rightarrow> (zone_row \<Rightarrow> zone_row) \<Rightarrow> zones_db \<Rightarrow> zones_db" where
  "edit_zone i f db = db\<lparr>zone_rows := map (\<lambda>r. if zw_id r = i then f r else r) (zone_rows db)\<rparr>"

definition bump :: "int \<Rightarrow> string \<Rightarrow> zones_db \<Rightarrow> zones_db option" where
  "bump now i db =
    (if List.find (\<lambda>r. zw_id r = i) (zone_rows db) = None then None
     else Some (edit_zone i (\<lambda>r. r\<lparr>zw_serial := zone_serial_next (zw_serial r) (in_seconds now),
                                   zw_updated := now\<rparr>) db))"

definition zones_create :: "int \<Rightarrow> string \<Rightarrow> grant_db \<Rightarrow> tenant list \<Rightarrow> string \<Rightarrow> project \<Rightarrow> string list
    \<Rightarrow> zones_db \<Rightarrow> zone_refusal + dns_zone \<times> zones_db" where
  "zones_create now generated st tenants name project servers db =
    (let zones = zones_all db;
         i = ''zone-'' @ generated;
         serial = zone_serial_next 0 (in_seconds now);
         overlaps = (\<lambda>z. zn_project z \<noteq> Some (project_id project) \<and>
           (zone_holds (zn_name z) name \<or> zone_holds name (zn_name z)));
         organisation = (\<lambda>t.
           if (case node_domain st of Some d \<Rightarrow> zone_holds name d | None \<Rightarrow> False) then Some HOLDS_THE_NODE
           else if list_ex (\<lambda>(other, d). other \<noteq> t \<and> zone_holds name d) (tenant_domains tenants)
           then Some HOLDS_AN_ORGANISATION else None)
     in
     if \<not> project_is_ours project then Inl PROJECT_SENT_HERE
     else if list_ex (\<lambda>z. zn_name z = name) zones then Inl ALREADY_SERVED
     else if list_ex overlaps zones then Inl OVERLAPS
     else case Option.bind (project_tenant project) organisation of Some e \<Rightarrow> Inl e | None \<Rightarrow>
     if list_ex (\<lambda>r. zw_id r = i \<or> zw_name r = name) (zone_rows db) then Inl ALREADY_SERVED
     else Inr
       (\<lparr>zn_id = i, zn_name = name, zn_project = Some (project_id project), zn_authority = None,
         zn_serial = serial, zn_default_ttl = DEFAULT_TTL, zn_delegation = None, zn_received = [],
         zn_created = now, zn_updated = now\<rparr>,
        write_servers i servers
          (db\<lparr>zone_rows := zone_rows db @
            [\<lparr>zw_id = i, zw_name = name, zw_project = Some (project_id project), zw_authority = None,
              zw_serial = serial, zw_ttl = DEFAULT_TTL, zw_status = None, zw_note = None,
              zw_checked = None, zw_servers = None, zw_created = now, zw_updated = now\<rparr>]\<rparr>)))"

definition row_of_record :: "int \<Rightarrow> string \<Rightarrow> string \<Rightarrow> string \<Rightarrow> record_data \<Rightarrow> u32 \<Rightarrow> record_row" where
  "row_of_record now i zone name d ttl =
    \<lparr>rw_id = i, rw_zone = zone, rw_name = name, rw_kind = kind_name (data_kind d), rw_value = data_value d,
     rw_priority = data_priority d, rw_ttl = ttl, rw_created = now\<rparr>"

definition add_record :: "int \<Rightarrow> string \<Rightarrow> dns_zone \<Rightarrow> string \<Rightarrow> record_data \<Rightarrow> u32 \<Rightarrow> zones_db
    \<Rightarrow> zone_refusal + dns_record \<times> zones_db" where
  "add_record now generated zone name d ttl db =
    bind_sum (record_new (''rec-'' @ generated) (zn_id zone) name d ttl) (\<lambda>record.
    (let at_name = filter (\<lambda>other. dr_name other = dr_name record) (records_of db zone);
         adding_cname = (data_kind (dr_says record) = KindCname);
         name_has_cname = list_ex (\<lambda>other. data_kind (dr_says other) = KindCname) at_name in
     if adding_cname \<and> at_name \<noteq> [] \<or> \<not> adding_cname \<and> name_has_cname then Inl CNAME_STANDS_ALONE
     else if list_ex (\<lambda>other. dr_says other = dr_says record) at_name then Inl ALREADY_THERE
     else if list_ex (\<lambda>r. rw_id r = dr_id record) (record_rows db) then Inl StorageFailed
     else case bump now (zn_id zone) (db\<lparr>record_rows := record_rows db @
            [row_of_record now (dr_id record) (dr_zone record) (dr_name record) (dr_says record) (dr_ttl record)]\<rparr>) of
       None \<Rightarrow> Inl StorageFailed
     | Some db' \<Rightarrow> Inr (record, db')))"

definition remove_record :: "int \<Rightarrow> dns_zone \<Rightarrow> string \<Rightarrow> zones_db \<Rightarrow> zone_refusal + zones_db" where
  "remove_record now zone i db =
    (let gone = (\<lambda>r. rw_id r = i \<and> rw_zone r = zn_id zone) in
     if \<not> list_ex gone (record_rows db) then Inl NO_SUCH_RECORD
     else ok_or StorageFailed (bump now (zn_id zone)
       (db\<lparr>record_rows := filter (\<lambda>r. \<not> gone r) (record_rows db)\<rparr>)))"

definition set_servers :: "int \<Rightarrow> dns_zone \<Rightarrow> string list \<Rightarrow> zones_db \<Rightarrow> zone_refusal + zones_db" where
  "set_servers now zone servers db = ok_or StorageFailed (bump now (zn_id zone) (write_servers (zn_id zone) servers db))"

definition zones_delete :: "string \<Rightarrow> zones_db \<Rightarrow> zones_db" where
  "zones_delete i db =
    \<lparr>zone_rows = filter (\<lambda>r. zw_id r \<noteq> i) (zone_rows db),
     record_rows = filter (\<lambda>r. rw_zone r \<noteq> i) (record_rows db),
     server_rows = filter (\<lambda>r. sw_zone r \<noteq> i) (server_rows db)\<rparr>"

text \<open>A zone another node administers, as it arrived.\<close>

record received =
  rc_name :: string
  rc_authority :: string
  rc_serial :: u32
  rc_ttl :: u32
  rc_records :: "(string \<times> record_data \<times> u32) list"
  rc_servers :: "string list"

definition replace_received :: "int \<Rightarrow> string \<Rightarrow> (nat \<Rightarrow> string) \<Rightarrow> received \<Rightarrow> zones_db
    \<Rightarrow> zone_refusal + zones_db" where
  "replace_received now generated ids rc db =
    (let existing = zone_by_name db (rc_name rc) in
     case Option.bind existing (\<lambda>z. if zone_is_ours z then Some OURS_ALREADY
       else if zn_authority z \<noteq> Some (rc_authority rc) then Some HELD_FOR_ANOTHER else None) of
       Some e \<Rightarrow> Inl e
     | None \<Rightarrow>
        (let i = (case existing of Some z \<Rightarrow> zn_id z | None \<Rightarrow> ''zone-'' @ generated);
             names = Some (join_with '','' (rc_servers rc));
             written = map (\<lambda>(k, name, d, ttl). row_of_record now (''rec-'' @ ids k) i name d ttl)
               (enumerate 0 (rc_records rc));
             kept = filter (\<lambda>r. rw_zone r \<noteq> i) (record_rows db);
             rows = (if list_ex (\<lambda>r. zw_id r = i) (zone_rows db)
               then Some (map (\<lambda>r. if zw_id r = i then r\<lparr>zw_serial := rc_serial rc, zw_ttl := rc_ttl rc,
                   zw_servers := names, zw_updated := now\<rparr> else r) (zone_rows db))
               else if list_ex (\<lambda>r. zw_name r = rc_name rc) (zone_rows db) then None
               else Some (zone_rows db @
                 [\<lparr>zw_id = i, zw_name = rc_name rc, zw_project = None, zw_authority = Some (rc_authority rc),
                   zw_serial = rc_serial rc, zw_ttl = rc_ttl rc, zw_status = None, zw_note = None,
                   zw_checked = None, zw_servers = names, zw_created = now, zw_updated = now\<rparr>])) in
         case rows of None \<Rightarrow> Inl StorageFailed
         | Some rows \<Rightarrow>
            if \<not> distinct (map rw_id (kept @ written)) then Inl StorageFailed
            else Inr (db\<lparr>zone_rows := rows, record_rows := kept @ written\<rparr>)))"

definition forget_received :: "string \<Rightarrow> string \<Rightarrow> zones_db \<Rightarrow> bool \<times> zones_db" where
  "forget_received name authority db =
    (case zone_by_name db name of
       Some z \<Rightarrow> if zn_authority z = Some authority then (True, zones_delete (zn_id z) db) else (False, db)
     | None \<Rightarrow> (False, db))"

definition save_delegation :: "dns_zone \<Rightarrow> delegation \<Rightarrow> zones_db \<Rightarrow> zones_db" where
  "save_delegation z d =
    edit_zone (zn_id z) (\<lambda>r. r\<lparr>zw_status := Some (delegation_as_str (delegation_status d)),
      zw_note := Some (case delegation_reason d of Some why \<Rightarrow> why | None \<Rightarrow> join_with '','' (delegated_to d)),
      zw_checked := Some (checked_at d)\<rparr>)"

text \<open>The cascade of a project's row.\<close>

definition zones_project_gone :: "string \<Rightarrow> zones_db \<Rightarrow> zones_db" where
  "zones_project_gone pid db =
    fold zones_delete (map zw_id (filter (\<lambda>r. zw_project r = Some pid) (zone_rows db))) db"

section \<open>What the tables keep\<close>

definition zone_ids :: "zones_db \<Rightarrow> string set" where
  "zone_ids db = zw_id ` set (zone_rows db)"

definition server_keys :: "server_row list \<Rightarrow> (string \<times> string) list" where
  "server_keys rows = map (\<lambda>r. (sw_zone r, sw_node r)) rows"

text \<open>Keys and references hold, and every stored name is in the form its parser gives.\<close>

definition zones_keyed :: "zones_db \<Rightarrow> bool" where
  "zones_keyed db \<longleftrightarrow>
    distinct (map zw_id (zone_rows db)) \<and> distinct (map zw_name (zone_rows db)) \<and>
    distinct (map rw_id (record_rows db)) \<and> distinct (server_keys (server_rows db)) \<and>
    list_all (\<lambda>r. zone_parse (zw_name r) = Inr (zw_name r)) (zone_rows db) \<and>
    list_all (\<lambda>r. rw_zone r \<in> zone_ids db) (record_rows db) \<and>
    list_all (\<lambda>r. sw_zone r \<in> zone_ids db) (server_rows db)"

text \<open>Two zones administered here that are not of one project do not overlap.\<close>

definition zones_apart :: "zones_db \<Rightarrow> bool" where
  "zones_apart db \<longleftrightarrow>
    list_all (\<lambda>r. list_all (\<lambda>r'. zw_authority r = None \<longrightarrow> zw_authority r' = None \<longrightarrow>
      zw_project r \<noteq> zw_project r' \<longrightarrow> \<not> zone_holds (zw_name r) (zw_name r')) (zone_rows db)) (zone_rows db)"

definition zones_sound :: "zones_db \<Rightarrow> bool" where
  "zones_sound db \<longleftrightarrow> zones_keyed db \<and> zones_apart db"

definition plain_edit :: "(zone_row \<Rightarrow> zone_row) \<Rightarrow> bool" where
  "plain_edit f \<longleftrightarrow> (\<forall>r. zw_id (f r) = zw_id r \<and> zw_name (f r) = zw_name r \<and>
    zw_project (f r) = zw_project r \<and> zw_authority (f r) = zw_authority r)"

lemma plain_edit_map:
  assumes "plain_edit f"
  shows "zw_id \<circ> (\<lambda>r. if zw_id r = i then f r else r) = zw_id"
    "zw_name \<circ> (\<lambda>r. if zw_id r = i then f r else r) = zw_name"
    "zw_project (if zw_id r = i then f r else r) = zw_project r"
    "zw_authority (if zw_id r = i then f r else r) = zw_authority r"
    "zw_name (if zw_id r = i then f r else r) = zw_name r"
  using assms by (auto simp: plain_edit_def)

lemma edit_zone_ids [simp]: "plain_edit f \<Longrightarrow> zone_ids (edit_zone i f db) = zone_ids db"
  using plain_edit_map(1) [of f i] unfolding zone_ids_def list.set_map [symmetric]
  by (simp add: edit_zone_def)

lemma sound_edit:
  assumes "plain_edit f" "zones_sound db"
  shows "zones_sound (edit_zone i f db)"
  using assms(2) edit_zone_ids [OF assms(1), of i db]
  by (simp add: zones_sound_def zones_keyed_def zones_apart_def edit_zone_def plain_edit_map [OF assms(1)]
      list_all_iff) (use assms(1) in \<open>auto simp: plain_edit_def\<close>)

lemma plain_bump: "plain_edit (\<lambda>r. r\<lparr>zw_serial := f r, zw_updated := now\<rparr>)"
  by (simp add: plain_edit_def)

lemma sound_bump: "bump now i db = Some db' \<Longrightarrow> zones_sound db \<Longrightarrow> zones_sound db'"
  by (auto simp: bump_def split: if_splits intro!: sound_edit plain_bump)

lemma bump_rows:
  assumes "bump now i db = Some db'"
  shows "record_rows db' = record_rows db" "server_rows db' = server_rows db" "i \<in> zone_ids db"
  using assms by (auto simp: bump_def edit_zone_def zone_ids_def find_None_iff split: if_splits)

lemma bump_ids: "bump now i db = Some db' \<Longrightarrow> zone_ids db' = zone_ids db"
  by (auto simp: bump_def plain_bump split: if_splits)

lemma insert_servers_keys:
  assumes "distinct (server_keys rows)"
  shows "distinct (server_keys (insert_servers z k nodes rows)) \<and>
    set (server_keys (insert_servers z k nodes rows)) = set (server_keys rows) \<union> Pair z ` set nodes"
  using assms
proof (induction z k nodes rows rule: insert_servers.induct)
  case (2 z k node nodes rows)
  let ?rows = "if list_ex (\<lambda>r. sw_zone r = z \<and> sw_node r = node) rows then rows
    else rows @ [\<lparr>sw_zone = z, sw_node = node, sw_position = k\<rparr>]"
  have "list_ex (\<lambda>r. sw_zone r = z \<and> sw_node r = node) rows \<longleftrightarrow> (z, node) \<in> set (server_keys rows)"
    by (auto simp: server_keys_def list_ex_iff)
  then have rows: "distinct (server_keys ?rows)" "set (server_keys ?rows) = insert (z, node) (set (server_keys rows))"
    using 2(2) by (auto simp: server_keys_def)
  from 2(1) [OF rows(1)] rows(2) show ?case by simp
qed (simp add: server_keys_def)

lemma set_server_zones: "sw_zone ` set rows = fst ` set (server_keys rows)"
  by (auto simp: server_keys_def image_iff)

lemma sound_write_servers:
  assumes "zones_sound db" "i \<in> zone_ids db"
  shows "zones_sound (write_servers i servers db)"
proof -
  let ?kept = "filter (\<lambda>r. sw_zone r \<noteq> i) (server_rows db)"
  have "distinct (server_keys ?kept)"
    using assms(1) by (simp add: zones_sound_def zones_keyed_def server_keys_def distinct_map_filter)
  note keys = insert_servers_keys [OF this, of i 0 servers]
  have "sw_zone r \<in> zone_ids db" if "r \<in> set (insert_servers i 0 servers ?kept)" for r
  proof -
    from that have "sw_zone r \<in> fst ` set (server_keys (insert_servers i 0 servers ?kept))"
      using set_server_zones by blast
    then have "sw_zone r = i \<or> sw_zone r \<in> fst ` set (server_keys ?kept)" using keys by auto
    then show ?thesis
      using assms unfolding set_server_zones [symmetric]
      by (auto simp: zones_sound_def zones_keyed_def list_all_iff)
  qed
  moreover have "zone_ids (write_servers i servers db) = zone_ids db"
    by (simp add: zone_ids_def write_servers_def)
  ultimately show ?thesis
    using assms keys
    by (auto simp: zones_sound_def zones_keyed_def zones_apart_def write_servers_def list_all_iff)
qed

lemma read_zone_row:
  "zone_parse (zw_name r) = Inr (zw_name r) \<Longrightarrow> \<exists>z. read_zone r = Some z \<and> zn_id z = zw_id r \<and>
    zn_name z = zw_name r \<and> zn_project z = zw_project r \<and> zn_authority z = zw_authority r"
  by (simp add: read_zone_def)

lemma in_zones_all: "z \<in> set (zones_all db) \<longleftrightarrow> (\<exists>r\<in>set (zone_rows db). read_zone r = Some z)"
  by (simp add: zones_all_def set_map_filter)

lemma read_zone_columns:
  "read_zone r = Some z \<Longrightarrow> zn_id z = zw_id r \<and> zn_project z = zw_project r \<and> zn_authority z = zw_authority r \<and>
    zone_parse (zw_name r) = Inr (zn_name z) \<and> zn_serial z = zw_serial r"
  by (auto simp: read_zone_def split: sum.splits)

lemma zone_by_name_Some:
  assumes "zone_by_name db name = Some z"
  shows "zone_parse name = Inr (zn_name z)" "z \<in> set (zones_all db)"
  using assms by (auto simp: zone_by_name_def dest!: find_SomeD split: sum.splits)

lemma sound_zones_all:
  assumes "zones_sound db" "r \<in> set (zone_rows db)"
  shows "\<exists>z\<in>set (zones_all db). zn_id z = zw_id r \<and> zn_name z = zw_name r \<and> zn_project z = zw_project r \<and>
    zn_authority z = zw_authority r"
proof -
  have "zone_parse (zw_name r) = Inr (zw_name r)"
    using assms by (simp add: zones_sound_def zones_keyed_def list_all_iff)
  then obtain z where "read_zone r = Some z" "zn_id z = zw_id r" "zn_name z = zw_name r"
    "zn_project z = zw_project r" "zn_authority z = zw_authority r"
    using read_zone_row by blast
  with assms(2) show ?thesis by (auto simp: in_zones_all intro!: bexI [of _ z])
qed

lemma zone_holds_lower: "zone_parse t = Inr n \<Longrightarrow> zone_parse t' = Inr n' \<Longrightarrow> zone_holds n n' \<longleftrightarrow>
    n' = n \<or> ends_with (''.'' @ n) n'"
  using settled_zone [of t' n'] by (auto simp: zone_holds_def Let_def settled_def trim_end_id lowercase_id list_all_iff)

lemma sound_create:
  assumes "zones_sound db" "zone_parse name = Inr name"
    "zones_create now g st tenants name project servers db = Inr (z, db')"
  shows "zones_sound db'"
proof -
  define i where "i = ''zone-'' @ g"
  define row where "row = \<lparr>zw_id = i, zw_name = name, zw_project = Some (project_id project), zw_authority = None,
      zw_serial = zone_serial_next 0 (in_seconds now), zw_ttl = DEFAULT_TTL, zw_status = None, zw_note = None,
      zw_checked = None, zw_servers = None, zw_created = now, zw_updated = now\<rparr>"
  define db1 where "db1 = db\<lparr>zone_rows := zone_rows db @ [row]\<rparr>"
  have db': "db' = write_servers i servers db1"
    and fresh: "\<not> list_ex (\<lambda>r. zw_id r = i \<or> zw_name r = name) (zone_rows db)"
    and clear: "\<not> list_ex (\<lambda>z. zn_project z \<noteq> Some (project_id project) \<and>
        (zone_holds (zn_name z) name \<or> zone_holds name (zn_name z))) (zones_all db)"
    using assms(3)
    by (auto simp: zones_create_def Let_def i_def db1_def row_def split: if_splits option.splits)
  have ids: "zone_ids db1 = insert i (zone_ids db)" by (auto simp: zone_ids_def db1_def row_def)
  have clear': "\<not> zone_holds (zw_name r) name \<and> \<not> zone_holds name (zw_name r)"
    if "r \<in> set (zone_rows db)" "zw_project r \<noteq> Some (project_id project)" for r
    using sound_zones_all [OF assms(1) that(1)] clear that(2) by (auto simp: list_ex_iff)
  have "zones_keyed db1"
    using assms(1,2) fresh
    by (auto simp: zones_sound_def zones_keyed_def ids list_all_iff list_ex_iff)
      (auto simp: db1_def row_def)
  moreover have "zones_apart db1"
    using assms(1) clear' unfolding zones_sound_def zones_apart_def list_all_iff
    by (auto simp: db1_def row_def)
  ultimately show ?thesis
    unfolding db' by (intro sound_write_servers) (simp_all add: zones_sound_def ids)
qed

lemma sound_add_record:
  assumes "zones_sound db" "add_record now g zone name d ttl db = Inr (r, db')"
  shows "zones_sound db'"
proof -
  obtain row where row: "rw_zone row = zn_id zone" "rw_id row \<notin> rw_id ` set (record_rows db)"
      "bump now (zn_id zone) (db\<lparr>record_rows := record_rows db @ [row]\<rparr>) = Some db'"
  proof -
    from assms(2) obtain rec where rec: "record_new (''rec-'' @ g) (zn_id zone) name d ttl = Inr rec"
      "\<not> list_ex (\<lambda>r. rw_id r = dr_id rec) (record_rows db)"
      "bump now (zn_id zone) (db\<lparr>record_rows := record_rows db @
        [row_of_record now (dr_id rec) (dr_zone rec) (dr_name rec) (dr_says rec) (dr_ttl rec)]\<rparr>) = Some db'"
      by (auto simp: add_record_def bind_sum_def Let_def split: sum.splits if_splits option.splits)
    moreover from rec(1) have "dr_zone rec = zn_id zone" by (auto simp: record_new_def split: if_splits)
    ultimately show ?thesis
      by (intro that [of "row_of_record now (dr_id rec) (dr_zone rec) (dr_name rec) (dr_says rec) (dr_ttl rec)"])
        (auto simp: row_of_record_def list_ex_iff)
  qed
  have "zn_id zone \<in> zone_ids db" using bump_rows(3) [OF row(3)] by (simp add: zone_ids_def)
  then have "zones_sound (db\<lparr>record_rows := record_rows db @ [row]\<rparr>)"
    using assms(1) row(1,2)
    by (auto simp: zones_sound_def zones_keyed_def zones_apart_def zone_ids_def list_all_iff)
  with row(3) show ?thesis by (rule sound_bump)
qed

lemma sound_remove_record:
  assumes "zones_sound db" "remove_record now zone i db = Inr db'"
  shows "zones_sound db'"
proof -
  obtain P where "bump now (zn_id zone) (db\<lparr>record_rows := filter P (record_rows db)\<rparr>) = Some db'"
    using assms(2) by (auto simp: remove_record_def ok_or_def Let_def split: if_splits option.splits)
  moreover have "zones_sound (db\<lparr>record_rows := filter P (record_rows db)\<rparr>)"
    using assms(1)
    by (auto simp: zones_sound_def zones_keyed_def zones_apart_def zone_ids_def list_all_iff distinct_map_filter)
  ultimately show ?thesis by (rule sound_bump)
qed

lemma sound_set_servers:
  assumes "zones_sound db" "set_servers now zone servers db = Inr db'"
  shows "zones_sound db'"
proof -
  have b: "bump now (zn_id zone) (write_servers (zn_id zone) servers db) = Some db'"
    using assms(2) by (auto simp: set_servers_def ok_or_def split: option.splits)
  have "zn_id zone \<in> zone_ids db"
    using bump_rows(3) [OF b] by (simp add: zone_ids_def write_servers_def)
  from sound_bump [OF b sound_write_servers [OF assms(1) this]] show ?thesis .
qed

lemma sound_delete: "zones_sound db \<Longrightarrow> zones_sound (zones_delete i db)"
  by (auto simp: zones_sound_def zones_keyed_def zones_apart_def zones_delete_def zone_ids_def list_all_iff
      distinct_map_filter server_keys_def image_iff)

lemma sound_deletes: "zones_sound db \<Longrightarrow> zones_sound (fold zones_delete ids db)"
  by (induction ids arbitrary: db) (simp_all add: sound_delete)

lemma sound_project_gone: "zones_sound db \<Longrightarrow> zones_sound (zones_project_gone pid db)"
  by (simp add: zones_project_gone_def sound_deletes)

lemma sound_forget: "zones_sound db \<Longrightarrow> zones_sound (snd (forget_received name authority db))"
  by (auto simp: forget_received_def sound_delete split: option.splits)

lemma sound_save_delegation: "zones_sound db \<Longrightarrow> zones_sound (save_delegation z d db)"
  unfolding save_delegation_def by (rule sound_edit) (simp add: plain_edit_def)

lemma sound_replace:
  assumes "zones_sound db" "zone_parse (rc_name rc) = Inr (rc_name rc)"
    "replace_received now g ids rc db = Inr db'"
  shows "zones_sound db'"
proof -
  define i where "i = (case zone_by_name db (rc_name rc) of Some z \<Rightarrow> zn_id z | None \<Rightarrow> ''zone-'' @ g)"
  define edit :: "zone_row \<Rightarrow> zone_row" where "edit = (\<lambda>r. r\<lparr>zw_serial := rc_serial rc, zw_ttl := rc_ttl rc,
      zw_servers := Some (join_with '','' (rc_servers rc)), zw_updated := now\<rparr>)"
  define row where "row = \<lparr>zw_id = i, zw_name = rc_name rc, zw_project = None, zw_authority = Some (rc_authority rc),
      zw_serial = rc_serial rc, zw_ttl = rc_ttl rc, zw_status = None, zw_note = None, zw_checked = None,
      zw_servers = Some (join_with '','' (rc_servers rc)), zw_created = now, zw_updated = now\<rparr>"
  define db1 where "db1 = (if i \<in> zone_ids db then edit_zone i edit db else db\<lparr>zone_rows := zone_rows db @ [row]\<rparr>)"
  define written where "written = map (\<lambda>(k, name, d, ttl). row_of_record now (''rec-'' @ ids k) i name d ttl)
      (enumerate 0 (rc_records rc))"
  have exists: "list_ex (\<lambda>r. zw_id r = i) (zone_rows db) \<longleftrightarrow> i \<in> zone_ids db"
    by (auto simp: zone_ids_def list_ex_iff)
  have w: "db' = db1\<lparr>record_rows := filter (\<lambda>r. rw_zone r \<noteq> i) (record_rows db) @ written\<rparr>"
      "distinct (map rw_id (filter (\<lambda>r. rw_zone r \<noteq> i) (record_rows db) @ written))"
      "i \<notin> zone_ids db \<Longrightarrow> rc_name rc \<notin> zw_name ` set (zone_rows db)"
    using assms(3)
    unfolding replace_received_def Let_def i_def [symmetric] written_def [symmetric] exists row_def [symmetric]
      edit_def [symmetric]
    by (auto simp: db1_def edit_zone_def list_ex_iff edit_def split: option.splits if_splits)
  have written: "list_all (\<lambda>r. rw_zone r = i) written"
    by (auto simp: written_def row_of_record_def list_all_iff)
  have ids: "zone_ids db1 = insert i (zone_ids db)"
    by (cases "i \<in> zone_ids db") (auto simp: db1_def edit_def plain_edit_def, auto simp: zone_ids_def row_def)
  have "zones_sound db1"
  proof (cases "i \<in> zone_ids db")
    case True
    then show ?thesis
      using sound_edit [OF _ assms(1), of edit i] by (simp add: db1_def edit_def plain_edit_def)
  next
    case False
    then have n: "rc_name rc \<notin> zw_name ` set (zone_rows db)" "i \<notin> zw_id ` set (zone_rows db)"
      using w(3) by (auto simp: zone_ids_def)
    have db1: "db1 = db\<lparr>zone_rows := zone_rows db @ [row]\<rparr>" using False by (simp add: db1_def)
    have "zones_keyed db1"
      using assms(1,2) n
      by (auto simp: zones_sound_def zones_keyed_def ids list_all_iff) (auto simp: db1 row_def)
    moreover have "zones_apart db1"
      using assms(1) unfolding zones_sound_def zones_apart_def list_all_iff by (auto simp: db1 row_def)
    ultimately show ?thesis by (simp add: zones_sound_def)
  qed
  moreover have "record_rows db1 = record_rows db" "server_rows db1 = server_rows db"
    by (simp_all add: db1_def edit_zone_def)
  ultimately show ?thesis
    using w(1,2) written ids
    by (auto simp: zones_sound_def zones_keyed_def zones_apart_def zone_ids_def list_all_iff)
qed

end
