(* ===== verification/Nameserver.thy ===== *)
theory Nameserver
  imports Zones Errands
begin

text \<open>
  Answering DNS: the names a node answers as (infra/dns/names.rs), the zones it serves and what
  it serves of each (infra/dns/mod.rs), telling the other nodes (infra/dns/dispatch.rs), holding
  a zone for another node (the zone errand of infra/network/collect.rs), asking the parent zone
  (infra/dns/delegation.rs), and the commands behind the forms (features/dns).

  The resolver library, serde and the network are arguments. What a query is answered from is
  the list of zones served; the listener and its budget are not modelled.
\<close>

section \<open>The names nodes answer as (names.rs)\<close>

record dns_node = node +
  nd_name_servers :: "string option"

record name_host =
  nh_zones :: zones_db
  nh_grants :: grant_db
  nh_nodes :: "dns_node list"
  nh_errands :: "errand_entry list"
  nh_authorities :: "(string \<times> int option) list"

definition DECLARED :: string where "DECLARED = ''dns.name_servers''"

definition split_names :: "string \<Rightarrow> string list" where
  "split_names said = filter (\<lambda>n. n \<noteq> []) (map trim (split_on CHR '','' said))"

definition declared :: "grant_db \<Rightarrow> string list" where
  "declared db = (case setting_read db DECLARED of Some said \<Rightarrow> split_names said | None \<Rightarrow> [])"

definition declare_names :: "string list \<Rightarrow> grant_db \<Rightarrow> grant_db" where
  "declare_names names = setting_write DECLARED (join_with '','' names)"

definition of_this_node :: "grant_db \<Rightarrow> string list" where
  "of_this_node db =
    (let d = declared db in
     if d \<noteq> [] then d else (case node_domain db of Some n \<Rightarrow> [n] | None \<Rightarrow> []))"

definition remember_names :: "string \<Rightarrow> string list \<Rightarrow> 'a dns_node_scheme list \<Rightarrow> bool \<times> 'a dns_node_scheme list" where
  "remember_names node said nodes =
    (let said = Some (join_with '','' (name_servers_kept said));
         moves = (\<lambda>n. nd_id n = node \<and> nd_name_servers n \<noteq> said) in
     (list_ex moves nodes, map (\<lambda>n. if moves n then n\<lparr>nd_name_servers := said\<rparr> else n) nodes))"

definition said_by_others :: "'a dns_node_scheme list \<Rightarrow> string \<Rightarrow> string list option" where
  "said_by_others nodes node =
    map_option split_names (find_map (\<lambda>n. if nd_id n = node \<and> \<not> is_self n then nd_name_servers n else None) nodes)"

definition reaches_all :: "'ip set \<Rightarrow> 'ip set \<Rightarrow> bool" where
  "reaches_all addresses here \<longleftrightarrow> addresses \<noteq> {} \<and> addresses \<subseteq> here"

section \<open>What this node serves (dns/mod.rs)\<close>

definition all_nodes :: "dns_node list \<Rightarrow> dns_node list" where
  "all_nodes nodes = sort_key (\<lambda>n. (\<not> is_self n, nd_name n)) nodes"

definition me_of :: "dns_node list \<Rightarrow> string option" where
  "me_of nodes = map_option nd_id (List.find is_self (all_nodes nodes))"

definition host_of_endpoint :: "string \<Rightarrow> string" where
  "host_of_endpoint e = (case rsplit_once CHR '':'' e of Some (host, _) \<Rightarrow> host | None \<Rightarrow> e)"

definition names_of_node :: "grant_db \<Rightarrow> dns_node list \<Rightarrow> dns_node \<Rightarrow> string list" where
  "names_of_node db nodes n =
    (if is_self n then of_this_node db
     else case Option.bind (said_by_others nodes (nd_id n)) (\<lambda>ns. if ns = [] then None else Some ns) of
       Some ns \<Rightarrow> ns
     | None \<Rightarrow> (case endpoint n of Some e \<Rightarrow> [host_of_endpoint e] | None \<Rightarrow> []))"

text \<open>Collected into a map by id, so of two rows with one id the later one stands.\<close>

definition published_names :: "grant_db \<Rightarrow> dns_node list \<Rightarrow> string \<Rightarrow> string list" where
  "published_names db nodes i =
    (case find_map (\<lambda>n. let ns = names_of_node db nodes n in
        if nd_id n = i \<and> ns \<noteq> [] then Some ns else None) (rev (all_nodes nodes)) of
       Some ns \<Rightarrow> ns | None \<Rightarrow> [])"

definition answering :: "grant_db \<Rightarrow> dns_node list \<Rightarrow> string list \<Rightarrow> string list" where
  "answering db nodes servers =
    (let agreed = map nd_id (candidates_for db (map node.truncate nodes) Dns); me = me_of nodes in
     filter (\<lambda>s. Some s = me \<or> s \<in> set agreed) servers)"

fun add_names :: "string list \<Rightarrow> string list \<Rightarrow> string list" where
  "add_names named [] = named"
| "add_names named (n # ns) = add_names (if n \<in> set named then named else named @ [n]) ns"

definition name_servers_for :: "grant_db \<Rightarrow> dns_node list \<Rightarrow> string list \<Rightarrow> string list" where
  "name_servers_for db nodes servers =
    foldl add_names [] (map (published_names db nodes) (answering db nodes servers))"

record served =
  sv_zone :: dns_zone
  sv_records :: "dns_record list"
  sv_names :: "string list"

definition serve_one :: "name_host \<Rightarrow> dns_zone \<Rightarrow> served option" where
  "serve_one h z =
    (let servers = servers_of (nh_zones h) (zn_id z);
         here = (case zn_authority z of
            None \<Rightarrow> (case me_of (nh_nodes h) of Some me \<Rightarrow> me \<in> set servers | None \<Rightarrow> False)
          | Some authority \<Rightarrow> Dns \<in> set (granted_to (nh_grants h) authority)) in
     if \<not> here then None
     else Some \<lparr>sv_zone = z, sv_records = records_of (nh_zones h) z,
       sv_names = (if zone_is_ours z then name_servers_for (nh_grants h) (nh_nodes h) servers else zn_received z)\<rparr>)"

definition what_this_node_serves :: "name_host \<Rightarrow> served list" where
  "what_this_node_serves h = List.map_filter (serve_one h) (zones_all (nh_zones h))"

definition forget_ungranted :: "name_host \<Rightarrow> string list \<times> name_host" where
  "forget_ungranted h =
    (let gone = filter (\<lambda>z. case zn_authority z of None \<Rightarrow> False
           | Some authority \<Rightarrow> Dns \<notin> set (granted_to (nh_grants h) authority)) (zones_all (nh_zones h)) in
     (map zn_name gone, h\<lparr>nh_zones := fold zones_delete (map zn_id gone) (nh_zones h)\<rparr>))"

section \<open>Telling the others (dispatch.rs)\<close>

text \<open>What is sent with each errand: its id and the moment.\<close>

record sending =
  wire :: serde
  zone_value :: "zone_args \<Rightarrow> json"
  next_id :: "nat \<Rightarrow> string"
  send_clock :: "nat \<Rightarrow> int"

definition zone_subject :: "dns_zone \<Rightarrow> string" where
  "zone_subject z = ''zone:'' @ zn_id z"

definition said_record :: "dns_record \<Rightarrow> zone_record" where
  "said_record r = \<lparr>zr_name = dr_name r, zr_kind = kind_name (data_kind (dr_says r)),
     zr_value = data_value (dr_says r), zr_priority = data_priority (dr_says r), zr_ttl = dr_ttl r\<rparr>"

definition zone_now :: "name_host \<Rightarrow> dns_zone \<Rightarrow> zone_args" where
  "zone_now h z =
    \<lparr>zone_name = zn_name z, zone_serial = zn_serial z, zone_ttl = zn_default_ttl z,
     zone_records = map said_record (records_of (nh_zones h) z),
     zone_servers = name_servers_for (nh_grants h) (nh_nodes h) (servers_of (nh_zones h) (zn_id z)),
     zone_withdrawn = False\<rparr>"

definition send_zone :: "sending \<Rightarrow> (string \<times> int option) list \<Rightarrow> nat \<Rightarrow> string \<Rightarrow> string \<Rightarrow> zone_args
    \<Rightarrow> errand_entry list \<Rightarrow> errand_entry list" where
  "send_zone s authorities k node subject zone rows =
    snd (queue_if_changed (wire s) authorities (send_clock s k) (next_id s k) node KZone subject (zone_value s zone) rows)"

definition tell_servers :: "sending \<Rightarrow> dns_zone \<Rightarrow> string list \<Rightarrow> name_host \<Rightarrow> name_host" where
  "tell_servers s z removed h =
    (if \<not> zone_is_ours z then h
     else
      (let servers = servers_of (nh_zones h) (zn_id z);
           me = me_of (nh_nodes h);
           allowed = map nd_id (candidates_for (nh_grants h) (map node.truncate (nh_nodes h)) Dns);
           current = zone_now h z;
           withdrawal = current\<lparr>zone_records := [], zone_withdrawn := True\<rparr>;
           sends = map (\<lambda>n. (n, current)) (filter (\<lambda>n. Some n \<noteq> me \<and> n \<in> set allowed) servers) @
                   map (\<lambda>n. (n, withdrawal)) (filter (\<lambda>n. Some n \<noteq> me \<and> n \<notin> set servers) removed) in
       h\<lparr>nh_errands :=
          fold (\<lambda>(k, n, a). send_zone s (nh_authorities h) k n (zone_subject z) a) (enumerate 0 sends) (nh_errands h)\<rparr>))"

definition tell_all :: "(nat \<Rightarrow> sending) \<Rightarrow> name_host \<Rightarrow> name_host" where
  "tell_all s h =
    fold (\<lambda>(k, z) h. tell_servers (s k) z [] h) (enumerate 0 (filter zone_is_ours (zones_all (nh_zones h)))) h"

section \<open>Holding a zone for another node (collect.rs)\<close>

definition received_records :: "string \<Rightarrow> zone_record list \<Rightarrow> (string \<times> record_data \<times> u32) list" where
  "received_records name rs =
    List.map_filter (\<lambda>r. map_option (\<lambda>(at, d). (at, d, zr_ttl r))
      (ok_of (parse_said name (zr_name r) (zr_kind r) (zr_value r) (zr_priority r)))) rs"

definition serve_zone :: "int \<Rightarrow> string \<Rightarrow> (nat \<Rightarrow> string) \<Rightarrow> string \<Rightarrow> zone_args \<Rightarrow> zones_db
    \<Rightarrow> zone_refusal option \<times> zones_db" where
  "serve_zone now generated ids authority zone db =
    (case zone_parse (zone_name zone) of
       Inl e \<Rightarrow> (Some (BadName e), db)
     | Inr name \<Rightarrow>
        if zone_withdrawn zone then (None, snd (forget_received name authority db))
        else (case replace_received now generated ids
                \<lparr>rc_name = name, rc_authority = authority, rc_serial = zone_serial zone, rc_ttl = zone_ttl zone,
                 rc_records = received_records name (zone_records zone), rc_servers = zone_servers zone\<rparr> db of
             Inl e \<Rightarrow> (Some e, db)
           | Inr db' \<Rightarrow> (None, db')))"

section \<open>Asking the parent (delegation.rs)\<close>

type_synonym ip = "(u8 \<times> u8 \<times> u8 \<times> u8) + u16 list"

datatype response_code = NoError | NXDomain | OtherCode string

datatype rdata_seen = NsSeen string | ASeen "u8 \<times> u8 \<times> u8 \<times> u8" | OtherSeen

record message =
  response_code :: response_code
  answers :: "(string \<times> rdata_seen) list"
  authorities :: "(string \<times> rdata_seen) list"

datatype asked_kind = AskNs | AskA

type_synonym asker = "ip \<Rightarrow> string \<Rightarrow> asked_kind \<Rightarrow> bool \<Rightarrow> string + message"

datatype unanswered =
    NoServerOf string | ServerSaid ip response_code | Reason string | NoZoneAbove string
  | NoAddressFor string | NoResolver | ResolverSaid ip response_code string

datatype outcome = DelegatedTo "string list" | NotRegistered | Unanswered unanswered

definition same_name :: "string \<Rightarrow> string \<Rightarrow> bool" where
  "same_name name other \<longleftrightarrow>
    lowercase (trim_end_matches (\<lambda>c. c = CHR ''.'') name) = lowercase (trim_end_matches (\<lambda>c. c = CHR ''.'') other)"

definition ns_of :: "string \<Rightarrow> (string \<times> rdata_seen) list \<Rightarrow> string list" where
  "ns_of owner rs = List.map_filter (\<lambda>(n, d). case d of
     NsSeen s \<Rightarrow> if same_name n owner then Some (lowercase (trim_end_matches (\<lambda>c. c = CHR ''.'') s)) else None
   | _ \<Rightarrow> None) rs"

definition ns_names :: "message \<Rightarrow> string \<Rightarrow> string list" where
  "ns_names answer owner = ns_of owner (answers answer @ authorities answer)"

fun recursively :: "asker \<Rightarrow> unanswered \<Rightarrow> ip list \<Rightarrow> string \<Rightarrow> asked_kind \<Rightarrow> unanswered + message" where
  "recursively ask latest [] name kind = Inl latest"
| "recursively ask latest (r # rs) name kind =
    (case ask r name kind True of
       Inr answer \<Rightarrow>
         if response_code answer = NoError then Inr answer
         else recursively ask (ResolverSaid r (response_code answer) name) rs name kind
     | Inl why \<Rightarrow> recursively ask (Reason why) rs name kind)"

text \<open>The labels above the zone, the nearest first.\<close>

fun parent_loop :: "asker \<Rightarrow> ip list \<Rightarrow> unanswered \<Rightarrow> string list \<Rightarrow> unanswered + string \<times> string list" where
  "parent_loop ask resolvers latest [] = Inl latest"
| "parent_loop ask resolvers latest (l # labels) =
    (let candidate = join_with ''.'' (l # labels) in
     case recursively ask NoResolver resolvers candidate AskNs of
       Inr answer \<Rightarrow>
         (let names = ns_of candidate (answers answer) in
          if names \<noteq> [] then Inr (candidate, names) else parent_loop ask resolvers latest labels)
     | Inl why \<Rightarrow> parent_loop ask resolvers why labels)"

definition parent_of :: "asker \<Rightarrow> ip list \<Rightarrow> string \<Rightarrow> unanswered + string \<times> string list" where
  "parent_of ask resolvers zone = parent_loop ask resolvers (NoZoneAbove zone) (tl (split_on CHR ''.'' zone))"

fun addresses_loop :: "asker \<Rightarrow> ip list \<Rightarrow> ip list \<Rightarrow> string list \<Rightarrow> ip list" where
  "addresses_loop ask resolvers found [] = found"
| "addresses_loop ask resolvers found (n # ns) =
    (let found = found @ (case recursively ask NoResolver resolvers n AskA of
            Inr answer \<Rightarrow> List.map_filter (\<lambda>(_, d). case d of ASeen a \<Rightarrow> Some (Inl a) | _ \<Rightarrow> None) (answers answer)
          | Inl _ \<Rightarrow> []) in
     if 3 \<le> length found then found else addresses_loop ask resolvers found ns)"

definition addresses_of :: "asker \<Rightarrow> ip list \<Rightarrow> string \<Rightarrow> string list \<Rightarrow> unanswered + ip list" where
  "addresses_of ask resolvers parent names =
    (let found = addresses_loop ask resolvers [] (take 4 names) in
     if found = [] then Inl (NoAddressFor parent) else Inr found)"

fun ask_parent :: "asker \<Rightarrow> string \<Rightarrow> unanswered \<Rightarrow> ip list \<Rightarrow> outcome" where
  "ask_parent ask zone latest [] = Unanswered latest"
| "ask_parent ask zone latest (server # servers) =
    (case ask server zone AskNs False of
       Inr answer \<Rightarrow>
         (case response_code answer of
            NXDomain \<Rightarrow> NotRegistered
          | NoError \<Rightarrow> (let names = ns_names answer zone in if names = [] then NotRegistered else DelegatedTo names)
          | code \<Rightarrow> ask_parent ask zone (ServerSaid server code) servers)
     | Inl why \<Rightarrow> ask_parent ask zone (Reason why) servers)"

definition delegated :: "asker \<Rightarrow> ip list \<Rightarrow> string \<Rightarrow> outcome" where
  "delegated ask resolvers zone =
    (case parent_of ask resolvers zone of
       Inl why \<Rightarrow> Unanswered why
     | Inr (parent, names) \<Rightarrow>
        (case addresses_of ask resolvers parent names of
           Inl why \<Rightarrow> Unanswered why
         | Inr servers \<Rightarrow> ask_parent ask zone (NoServerOf parent) (take 3 servers)))"

section \<open>The commands behind the forms (features/dns)\<close>

datatype dns_refusal =
    Zone zone_refusal | SENT_FROM_ELSEWHERE | NOBODY_ANSWERS | NOT_AGREED | NO_SUCH_ZONE
  | NoNodeYet | NotThisConsole | NoProjectHere | LookNotTouch | OperatorsOnly

record dns_env =
  dn_now :: int
  dn_id :: string
  dn_sends :: "nat \<Rightarrow> sending"

definition first_servers :: "project \<Rightarrow> name_host \<Rightarrow> dns_refusal + string list" where
  "first_servers project h =
    (case me_of (nh_nodes h) of
       None \<Rightarrow> Inl NoNodeYet
     | Some me \<Rightarrow> Inr (me #
        (if is_the_nodes_own project then []
         else filter (\<lambda>i. i \<noteq> me) (map nd_id (candidates_for (nh_grants h) (map node.truncate (nh_nodes h)) Dns)))))"

definition create_zone :: "dns_env \<Rightarrow> tenant list \<Rightarrow> string \<Rightarrow> project \<Rightarrow> name_host
    \<Rightarrow> dns_refusal option \<times> name_host" where
  "create_zone e tenants name project h =
    (case first_servers project h of
       Inl r \<Rightarrow> (Some r, h)
     | Inr servers \<Rightarrow>
        (case zones_create (dn_now e) (dn_id e) (nh_grants h) tenants name project servers (nh_zones h) of
           Inl r \<Rightarrow> (Some (Zone r), h)
         | Inr (z, db) \<Rightarrow> (None, tell_servers (dn_sends e 0) z [] (h\<lparr>nh_zones := db\<rparr>))))"

definition told :: "dns_env \<Rightarrow> dns_zone \<Rightarrow> name_host \<Rightarrow> name_host" where
  "told e zone h =
    (case zone_by_name (nh_zones h) (zn_name zone) of
       Some z \<Rightarrow> tell_servers (dn_sends e 0) z [] h | None \<Rightarrow> h)"

record add_request =
  ar_name :: string
  ar_kind :: string
  ar_value :: string
  ar_priority :: string
  ar_ttl :: string

definition parse_asked :: "dns_zone \<Rightarrow> add_request \<Rightarrow> zone_refusal + string \<times> record_data \<times> u32" where
  "parse_asked zone asked =
    bind_sum (or_refused BadName (record_parse (zn_name zone) (ar_name asked))) (\<lambda>name.
    bind_sum (or_refused BadData (record_kind_parse (ar_kind asked))) (\<lambda>kind.
    bind_sum (or_refused BadData (data_parse kind (ar_value asked)
      (if trim (ar_priority asked) = [] then None else Some (ar_priority asked)))) (\<lambda>d.
    bind_sum (if trim (ar_ttl asked) = [] then Inr DEFAULT_TTL
       else ok_or BAD_TTL (map_option of_nat (parse_uint (2 ^ 32) (trim (ar_ttl asked))))) (\<lambda>ttl.
      Inr (name, d, ttl)))))"

definition add_record_command :: "dns_env \<Rightarrow> dns_zone \<Rightarrow> add_request \<Rightarrow> name_host
    \<Rightarrow> dns_refusal option \<times> name_host" where
  "add_record_command e zone asked h =
    (if \<not> zone_is_ours zone then (Some SENT_FROM_ELSEWHERE, h)
     else case bind_sum (parse_asked zone asked) (\<lambda>(name, d, ttl).
            add_record (dn_now e) (dn_id e) zone name d ttl (nh_zones h)) of
       Inl r \<Rightarrow> (Some (Zone r), h)
     | Inr (_, db) \<Rightarrow> (None, told e zone (h\<lparr>nh_zones := db\<rparr>)))"

definition remove_record_command :: "dns_env \<Rightarrow> dns_zone \<Rightarrow> string \<Rightarrow> name_host
    \<Rightarrow> dns_refusal option \<times> name_host" where
  "remove_record_command e zone i h =
    (if \<not> zone_is_ours zone then (Some SENT_FROM_ELSEWHERE, h)
     else case remove_record (dn_now e) zone i (nh_zones h) of
       Inl r \<Rightarrow> (Some (Zone r), h)
     | Inr db \<Rightarrow> (None, told e zone (h\<lparr>nh_zones := db\<rparr>)))"

definition delete_zone :: "dns_env \<Rightarrow> dns_zone \<Rightarrow> name_host \<Rightarrow> name_host" where
  "delete_zone e zone h =
    (let servers = servers_of (nh_zones h) (zn_id zone) in
     tell_servers (dn_sends e 0) zone servers (h\<lparr>nh_zones := zones_delete (zn_id zone) (nh_zones h)\<rparr>))"

text \<open>From the zone on, once who asks has been settled.\<close>

definition set_zone_servers :: "dns_env \<Rightarrow> dns_zone \<Rightarrow> string list \<Rightarrow> name_host
    \<Rightarrow> dns_refusal option \<times> name_host" where
  "set_zone_servers e zone asked h =
    (if \<not> zone_is_ours zone then (Some SENT_FROM_ELSEWHERE, h)
     else if asked = [] then (Some NOBODY_ANSWERS, h)
     else
      (let me = me_of (nh_nodes h);
           agreed = map nd_id (candidates_for (nh_grants h) (map node.truncate (nh_nodes h)) Dns) @
             (case me of Some m \<Rightarrow> [m] | None \<Rightarrow> []) in
       if list_ex (\<lambda>s. s \<notin> set agreed) asked then (Some NOT_AGREED, h)
       else
        (let servers = sort_key (\<lambda>s. Some s \<noteq> me) asked;
             before = servers_of (nh_zones h) (zn_id zone) in
         case set_servers (dn_now e) zone servers (nh_zones h) of
           Inl r \<Rightarrow> (Some (Zone r), h)
         | Inr db \<Rightarrow>
            (let h = h\<lparr>nh_zones := db\<rparr>; removed = filter (\<lambda>s. s \<notin> set servers) before in
             (None, case zone_by_name db (zn_name zone) of
                Some z \<Rightarrow> tell_servers (dn_sends e 0) z removed h | None \<Rightarrow> h)))))"

definition set_name_servers :: "dns_env \<Rightarrow> string list \<Rightarrow> name_host \<Rightarrow> dns_refusal option \<times> name_host" where
  "set_name_servers e names h =
    (case name_servers_all names of
       Inl r \<Rightarrow> (Some (Zone (BadName r)), h)
     | Inr named \<Rightarrow> (None, tell_all (dn_sends e) (h\<lparr>nh_grants := declare_names named (nh_grants h)\<rparr>)))"

definition check_delegation :: "dns_env \<Rightarrow> asker \<Rightarrow> ip list \<Rightarrow> (unanswered \<Rightarrow> string) \<Rightarrow> dns_zone \<Rightarrow> name_host \<Rightarrow> name_host" where
  "check_delegation e ask resolvers sentence zone h =
    (if \<not> zone_is_ours zone then h
     else
      (let answering = name_servers_for (nh_grants h) (nh_nodes h) (servers_of (nh_zones h) (zn_id zone));
           seen = (case delegated ask resolvers (zn_name zone) of
              DelegatedTo names \<Rightarrow> \<lparr>delegation_status = delegation_verdict names answering, delegated_to = names,
                delegation_reason = None, checked_at = dn_now e\<rparr>
            | NotRegistered \<Rightarrow> \<lparr>delegation_status = Unregistered, delegated_to = [],
                delegation_reason = None, checked_at = dn_now e\<rparr>
            | Unanswered why \<Rightarrow> \<lparr>delegation_status = Unknown, delegated_to = [],
                delegation_reason = Some (sentence why), checked_at = dn_now e\<rparr>) in
       h\<lparr>nh_zones := save_delegation zone seen (nh_zones h)\<rparr>))"

section \<open>Who may ask\<close>

text \<open>The two consoles ask the same, each of its own people.\<close>

definition theirs :: "(account \<Rightarrow> bool) \<Rightarrow> org_db \<Rightarrow> account \<Rightarrow> string \<Rightarrow> string \<Rightarrow> name_host
    \<Rightarrow> dns_refusal + project \<times> access \<times> dns_zone" where
  "theirs belongs orgs account project zone h =
    (if \<not> belongs account then Inl NotThisConsole
     else case find_project orgs account project of
       None \<Rightarrow> Inl NoProjectHere
     | Some (p, acc) \<Rightarrow>
        (case zone_by_name (nh_zones h) zone of
           None \<Rightarrow> Inl NO_SUCH_ZONE
         | Some z \<Rightarrow> if zn_project z = Some (project_id p) then Inr (p, acc, z) else Inl NO_SUCH_ZONE))"

definition node_user_theirs :: "org_db \<Rightarrow> account \<Rightarrow> string \<Rightarrow> string \<Rightarrow> name_host
    \<Rightarrow> dns_refusal + project \<times> access \<times> dns_zone" where
  "node_user_theirs = theirs node_user_belongs_here"

definition tenant_user_theirs :: "org_db \<Rightarrow> account \<Rightarrow> string \<Rightarrow> string \<Rightarrow> name_host
    \<Rightarrow> dns_refusal + project \<times> access \<times> dns_zone" where
  "tenant_user_theirs = theirs tenant_user_belongs_here"

definition deploying :: "dns_refusal + project \<times> access \<times> dns_zone \<Rightarrow> name_host
    \<Rightarrow> (dns_zone \<Rightarrow> dns_refusal option \<times> name_host) \<Rightarrow> dns_refusal option \<times> name_host" where
  "deploying found h f =
    (case found of
       Inl r \<Rightarrow> (Some r, h)
     | Inr (p, acc, z) \<Rightarrow> if \<not> may_deploy acc then (Some LookNotTouch, h) else f z)"

definition user_create_zone :: "(account \<Rightarrow> bool) \<Rightarrow> dns_env \<Rightarrow> org_db \<Rightarrow> tenant list \<Rightarrow> account \<Rightarrow> string \<Rightarrow> string
    \<Rightarrow> name_host \<Rightarrow> dns_refusal option \<times> name_host" where
  "user_create_zone belongs e orgs tenants account project name h =
    (if \<not> belongs account then (Some NotThisConsole, h)
     else case find_project orgs account project of
       None \<Rightarrow> (Some NoProjectHere, h)
     | Some (p, acc) \<Rightarrow>
        if \<not> may_deploy acc then (Some LookNotTouch, h)
        else case zone_parse name of
          Inl r \<Rightarrow> (Some (Zone (BadName r)), h)
        | Inr name \<Rightarrow> create_zone e tenants name p h)"

datatype dns_request =
    CreateZone string string
  | AddRecord string string add_request
  | RemoveRecord string string string
  | DeleteZone string string
  | CheckDelegation string string
  | SetZoneServers string string "string list"
  | EvictZone string
  | SetNameServers "string list"

text \<open>
  What the console at \<open>at_node\<close> (the node's own, or an organisation's) does for an account: the
  last three are the operator's, and only the node's console has them.
\<close>

definition dns_answer :: "dns_env \<Rightarrow> asker \<Rightarrow> ip list \<Rightarrow> (unanswered \<Rightarrow> string) \<Rightarrow> bool \<Rightarrow> org_db \<Rightarrow> tenant list
    \<Rightarrow> account \<Rightarrow> dns_request \<Rightarrow> name_host \<Rightarrow> dns_refusal option \<times> name_host" where
  "dns_answer e ask resolvers sentence at_node orgs tenants account request h =
    (let theirs = (if at_node then node_user_theirs else tenant_user_theirs) orgs account;
         belongs = (if at_node then node_user_belongs_here else tenant_user_belongs_here) in
     case request of
       CreateZone project name \<Rightarrow> user_create_zone belongs e orgs tenants account project name h
     | AddRecord project zone asked \<Rightarrow> deploying (theirs project zone h) h (\<lambda>z. add_record_command e z asked h)
     | RemoveRecord project zone i \<Rightarrow> deploying (theirs project zone h) h (\<lambda>z. remove_record_command e z i h)
     | DeleteZone project zone \<Rightarrow> deploying (theirs project zone h) h (\<lambda>z. (None, delete_zone e z h))
     | CheckDelegation project zone \<Rightarrow>
         deploying (theirs project zone h) h (\<lambda>z. (None, check_delegation e ask resolvers sentence z h))
     | SetZoneServers project zone servers \<Rightarrow>
         if \<not> at_node \<or> \<not> manages_the_machine account then (Some OperatorsOnly, h)
         else (case theirs project zone h of
           Inl r \<Rightarrow> (Some r, h) | Inr (_, _, z) \<Rightarrow> set_zone_servers e z servers h)
     | EvictZone zone \<Rightarrow>
         if \<not> at_node \<or> \<not> manages_the_machine account then (Some OperatorsOnly, h)
         else (case zone_by_name (nh_zones h) zone of
           Some z \<Rightarrow> if zn_project z = None then (None, delete_zone e z h) else (Some NO_SUCH_ZONE, h)
         | None \<Rightarrow> (Some NO_SUCH_ZONE, h))
     | SetNameServers names \<Rightarrow>
         if \<not> at_node \<or> \<not> manages_the_machine account then (Some OperatorsOnly, h)
         else set_name_servers e names h)"

section \<open>What happens to a node that answers DNS\<close>

text \<open>Deleting a project's zones as its own page does, each told to stop, before the rows go.\<close>

definition delete_project_zones :: "dns_env \<Rightarrow> string \<Rightarrow> name_host \<Rightarrow> name_host" where
  "delete_project_zones e pid h =
    (let h = fold (\<lambda>(k, z). delete_zone (e\<lparr>dn_sends := \<lambda>_. dn_sends e k\<rparr>) z)
           (enumerate 0 (zones_of_project (nh_zones h) pid)) h in
     h\<lparr>nh_zones := zones_project_gone pid (nh_zones h)\<rparr>)"

definition boot_dns :: "dns_env \<Rightarrow> name_host \<Rightarrow> name_host" where
  "boot_dns e h = tell_all (dn_sends e) (snd (forget_ungranted h))"

text \<open>
  A request at a console, an errand obeyed, the start of the process, a project deleted, and
  what other parts of the node change meanwhile: the rows of the other nodes, the grants and
  settings, and errands settled. The node keeps its own id.
\<close>

datatype dns_event =
    Asked dns_env asker "ip list" "unanswered \<Rightarrow> string" bool org_db "tenant list" account dns_request
  | Sent dns_env "nat \<Rightarrow> string" string zone_args
  | Started dns_env
  | ProjectDeleted dns_env string
  | NodesAre "dns_node list"
  | GrantsAre grant_db
  | Settled int string string "string option"

fun dns_step :: "dns_event \<Rightarrow> name_host \<Rightarrow> name_host" where
  "dns_step (Asked e ask resolvers sentence at_node orgs tenants account request) h =
    snd (dns_answer e ask resolvers sentence at_node orgs tenants account request h)"
| "dns_step (Sent e ids authority zone) h =
    h\<lparr>nh_zones := snd (serve_zone (dn_now e) (dn_id e) ids authority zone (nh_zones h))\<rparr>"
| "dns_step (Started e) h = boot_dns e h"
| "dns_step (ProjectDeleted e pid) h = delete_project_zones e pid h"
| "dns_step (NodesAre nodes) h = (if me_of nodes = me_of (nh_nodes h) then h\<lparr>nh_nodes := nodes\<rparr> else h)"
| "dns_step (GrantsAre granted) h = h\<lparr>nh_grants := granted\<rparr>"
| "dns_step (Settled now node i error) h = h\<lparr>nh_errands := snd (settle now node i error (nh_errands h))\<rparr>"

section \<open>The tables stay sound\<close>

lemma tell_servers_zones [simp]:
  "nh_zones (tell_servers s z removed h) = nh_zones h" "nh_grants (tell_servers s z removed h) = nh_grants h"
  "nh_nodes (tell_servers s z removed h) = nh_nodes h" "nh_authorities (tell_servers s z removed h) = nh_authorities h"
  by (simp_all add: tell_servers_def Let_def)

lemma fold_tell_zones:
  "nh_zones (fold (\<lambda>(k, z). tell_servers (s k) z []) zs h) = nh_zones h"
  "nh_grants (fold (\<lambda>(k, z). tell_servers (s k) z []) zs h) = nh_grants h"
  "nh_nodes (fold (\<lambda>(k, z). tell_servers (s k) z []) zs h) = nh_nodes h"
  by (induction zs arbitrary: h) auto

lemma tell_all_fold:
  "tell_all s h = fold (\<lambda>(k, z). tell_servers (s k) z []) (enumerate 0 (filter zone_is_ours (zones_all (nh_zones h)))) h"
  by (simp add: tell_all_def)

lemma tell_all_zones [simp]:
  "nh_zones (tell_all s h) = nh_zones h" "nh_grants (tell_all s h) = nh_grants h" "nh_nodes (tell_all s h) = nh_nodes h"
  by (simp_all add: tell_all_fold fold_tell_zones)

lemma told_zones [simp]: "nh_zones (told e z h) = nh_zones h" "nh_nodes (told e z h) = nh_nodes h"
  by (simp_all add: told_def split: option.splits)

lemma delete_zone_zones [simp]:
  "nh_zones (delete_zone e z h) = zones_delete (zn_id z) (nh_zones h)" "nh_nodes (delete_zone e z h) = nh_nodes h"
  "nh_grants (delete_zone e z h) = nh_grants h"
  by (simp_all add: delete_zone_def Let_def)

lemma fold_delete_zones:
  "nh_zones (fold (\<lambda>(k, z). delete_zone (f k) z) zs h) = fold zones_delete (map (zn_id \<circ> snd) zs) (nh_zones h)"
  by (induction zs arbitrary: h) auto

lemma delete_project_zones_db:
  "nh_zones (delete_project_zones e pid h) =
    zones_project_gone pid (fold zones_delete (map zn_id (zones_of_project (nh_zones h) pid)) (nh_zones h))"
  using map_snd_enumerate [of 0 "zones_of_project (nh_zones h) pid"]
  by (simp add: delete_project_zones_def Let_def fold_delete_zones flip: map_map)

lemma sound_serve_zone: "zones_sound db \<Longrightarrow> zones_sound (snd (serve_zone now g ids authority zone db))"
  by (auto simp: serve_zone_def sound_forget zone_parse_stable split: sum.splits elim!: sound_replace [rotated 2])

lemma sound_add_record_command:
  "zones_sound (nh_zones h) \<Longrightarrow> zones_sound (nh_zones (snd (add_record_command e z asked h)))"
  by (auto simp: add_record_command_def bind_sum_def split: sum.splits dest: sound_add_record)

lemma sound_remove_record_command:
  "zones_sound (nh_zones h) \<Longrightarrow> zones_sound (nh_zones (snd (remove_record_command e z i h)))"
  by (auto simp: remove_record_command_def split: sum.splits dest: sound_remove_record)

lemma sound_set_zone_servers:
  "zones_sound (nh_zones h) \<Longrightarrow> zones_sound (nh_zones (snd (set_zone_servers e z servers h)))"
  by (auto simp: set_zone_servers_def Let_def split: sum.splits option.splits dest: sound_set_servers)

lemma sound_create_zone:
  "zones_sound (nh_zones h) \<Longrightarrow> zone_parse name = Inr name \<Longrightarrow>
    zones_sound (nh_zones (snd (create_zone e tenants name p h)))"
  by (auto simp: create_zone_def split: sum.splits dest: sound_create)

lemma sound_deploying:
  "zones_sound (nh_zones h) \<Longrightarrow> (\<And>z. zones_sound (nh_zones (snd (f z)))) \<Longrightarrow>
    zones_sound (nh_zones (snd (deploying found h f)))"
  by (auto simp: deploying_def split: sum.splits)

lemma sound_check_delegation:
  "zones_sound (nh_zones h) \<Longrightarrow> zones_sound (nh_zones (check_delegation e ask rs sentence z h))"
  by (simp add: check_delegation_def Let_def sound_save_delegation)

lemma sound_user_create_zone:
  "zones_sound (nh_zones h) \<Longrightarrow> zones_sound (nh_zones (snd (user_create_zone b e orgs tenants a p name h)))"
  by (auto simp: user_create_zone_def zone_parse_stable split: option.splits sum.splits intro!: sound_create_zone)

lemma sound_dns_answer:
  assumes "zones_sound (nh_zones h)"
  shows "zones_sound (nh_zones (snd (dns_answer e ask rs sentence at_node orgs tenants account request h)))"
proof (cases request)
  case (SetNameServers names)
  then show ?thesis using assms by (auto simp: dns_answer_def set_name_servers_def split: sum.splits)
qed (use assms in \<open>auto simp: dns_answer_def Let_def sound_user_create_zone sound_add_record_command
    sound_remove_record_command sound_check_delegation sound_set_zone_servers sound_delete
    split: sum.splits option.splits intro!: sound_deploying\<close>)

lemma sound_dns_step: "zones_sound (nh_zones h) \<Longrightarrow> zones_sound (nh_zones (dns_step ev h))"
  by (cases ev) (auto simp: sound_dns_answer sound_serve_zone boot_dns_def forget_ungranted_def Let_def
      sound_deletes delete_project_zones_db sound_project_gone)

interpretation zones: kept_machine dns_step "\<lambda>h. zones_sound (nh_zones h)"
  by unfold_locales (rule sound_dns_step)

text \<open>
  Property C16.  Whatever is asked at the consoles, arrives from other nodes, is deleted or
  forgotten, a domain has one row here, and two domains administered here overlap only inside
  one project: no project gets a zone inside, or around, another project's.
\<close>

theorem a_domain_has_one_owner:
  assumes "zones_sound (nh_zones h)"
  shows "(let db = nh_zones (fold dns_step events h) in
    distinct (map zw_name (zone_rows db)) \<and>
    (\<forall>r\<in>set (zone_rows db). \<forall>r'\<in>set (zone_rows db).
       zw_authority r = None \<and> zw_authority r' = None \<and> zw_project r \<noteq> zw_project r' \<longrightarrow>
       \<not> suffix (split_on CHR ''.'' (zw_name r)) (split_on CHR ''.'' (zw_name r'))))"
proof -
  let ?db = "nh_zones (fold dns_step events h)"
  have sound: "zones_sound ?db" using zones.run_keeps [OF assms] .
  have "\<not> suffix (split_on CHR ''.'' (zw_name r)) (split_on CHR ''.'' (zw_name r'))"
    if r: "r \<in> set (zone_rows ?db)" "r' \<in> set (zone_rows ?db)" "zw_authority r = None" "zw_authority r' = None"
      "zw_project r \<noteq> zw_project r'" for r r'
  proof -
    have "zone_parse (zw_name r) = Inr (zw_name r)" "zone_parse (zw_name r') = Inr (zw_name r')"
      "\<not> zone_holds (zw_name r) (zw_name r')"
      using sound r by (auto simp: zones_sound_def zones_keyed_def zones_apart_def list_all_iff)
    then show ?thesis by (simp add: zone_holds_lower suffix_labels [symmetric])
  qed
  with sound show ?thesis by (auto simp: Let_def zones_sound_def zones_keyed_def)
qed

text \<open>A node alone, its wire a verbatim one, and two people asking for domains of their projects.\<close>

definition demo_value :: "zone_args \<Rightarrow> json" where
  "demo_value z = JString ((if zone_withdrawn z then CHR ''-'' else CHR ''+'') # zone_name z)"

definition demo_sending :: "nat \<Rightarrow> sending" where
  "demo_sending k = \<lparr>wire = demo_serde, zone_value = demo_value, next_id = (\<lambda>n. replicate n CHR ''e''),
    send_clock = (\<lambda>_. 5)\<rparr>"

definition demo_env :: "string \<Rightarrow> dns_env" where
  "demo_env i = \<lparr>dn_now = 5, dn_id = i, dn_sends = demo_sending\<rparr>"

definition demo_host :: name_host where
  "demo_host = \<lparr>nh_zones = \<lparr>zone_rows = [], record_rows = [], server_rows = []\<rparr>,
    nh_grants = \<lparr>settings = [], node_grant = [], node_grant_withdrawn = []\<rparr>,
    nh_nodes = [\<lparr>nd_id = ''me'', nd_name = ''me'', nd_kind = Public, endpoint = None, is_self = True,
      last_seen_at = None, allows = [], draining_at = None, node_capacity = None, nd_name_servers = None\<rparr>],
    nh_errands = [], nh_authorities = []\<rparr>"

definition two_domains :: "dns_event list" where
  "two_domains =
    [Asked (demo_env ''1'') (\<lambda>_ _ _ _. Inl []) [] (\<lambda>_. []) False two_projects [] (accounts two_projects ! 1)
       (CreateZone ''b'' ''Acme.io.''),
     Asked (demo_env ''2'') (\<lambda>_ _ _ _. Inl []) [] (\<lambda>_. []) True two_projects [] (accounts two_projects ! 0)
       (CreateZone ''a'' ''www.acme.io''),
     Asked (demo_env ''3'') (\<lambda>_ _ _ _. Inl []) [] (\<lambda>_. []) True two_projects [] (accounts two_projects ! 0)
       (CreateZone ''a'' ''other.io'')]"

theorem a_domain_has_one_owner_witness:
  "let db = nh_zones (fold dns_step two_domains demo_host) in
    map zw_name (zone_rows db) = [''acme.io'', ''other.io''] \<and>
    map zw_project (zone_rows db) = [Some ''prj-b'', Some ''prj-a''] \<and>
    distinct (map zw_name (zone_rows db)) \<and>
    \<not> suffix (split_on CHR ''.'' ''acme.io'') (split_on CHR ''.'' ''other.io'')"
proof -
  let ?db = "nh_zones (fold dns_step two_domains demo_host)"
  have "zones_sound (nh_zones demo_host)" by code_simp
  note owner = a_domain_has_one_owner [OF this, of two_domains, unfolded Let_def]
  have rows: "map (\<lambda>r. (zw_name r, zw_project r, zw_authority r)) (zone_rows ?db) =
      [(''acme.io'', Some ''prj-b'', None), (''other.io'', Some ''prj-a'', None)]" by code_simp
  then obtain r s where rs: "zone_rows ?db = [r, s]" "zw_name r = ''acme.io''" "zw_name s = ''other.io''"
      "zw_project r = Some ''prj-b''" "zw_project s = Some ''prj-a''" "zw_authority r = None" "zw_authority s = None"
    by (auto simp: Cons_eq_map_conv map_eq_Cons_conv)
  then show ?thesis using owner by (simp add: Let_def)
qed

end
