(* ===== verification/Dispatch.thy ===== *)
theory Dispatch
  imports Nameserver
begin

text \<open>
  What telling the other nodes achieves (infra/dns/dispatch.rs with the errand queue of
  infra/network/errand.rs and the zone errand of infra/network/collect.rs): nobody who stopped
  being asked to answer for a zone is left answering, a zone is answered alike wherever it is
  held, and what saying nothing new costs.
\<close>

section \<open>The last word to a node about a zone\<close>

definition last_said :: "string \<Rightarrow> string \<Rightarrow> errand_entry list \<Rightarrow> errand_entry option" where
  "last_said node subject rows =
    newest_by er_created (filter (\<lambda>r. er_node r = node \<and> er_subject r = Some subject) rows)"

text \<open>serde reads back what it wrote, and a zone's JSON says whether it is a withdrawal.\<close>

definition zone_codec :: "serde \<Rightarrow> (zone_args \<Rightarrow> json) \<Rightarrow> bool" where
  "zone_codec sd zv \<longleftrightarrow>
    (\<forall>a. from_text sd (to_text sd (zv a)) = Some (zv a)) \<and>
    (\<forall>a b. zv a = zv b \<longrightarrow> zone_withdrawn a = zone_withdrawn b)"

definition says :: "serde \<Rightarrow> (zone_args \<Rightarrow> json) \<Rightarrow> zone_args \<Rightarrow> errand_entry option \<Rightarrow> bool" where
  "says sd zv a r \<longleftrightarrow> (case r of None \<Rightarrow> False | Some r \<Rightarrow> from_text sd (er_payload r) = Some (zv a))"

text \<open>The node was last told to answer for the zone.\<close>

definition still_told :: "serde \<Rightarrow> (zone_args \<Rightarrow> json) \<Rightarrow> string \<Rightarrow> string \<Rightarrow> errand_entry list \<Rightarrow> bool" where
  "still_told sd zv node i rows \<longleftrightarrow>
    (\<exists>a. \<not> zone_withdrawn a \<and> says sd zv a (last_said node (''zone:'' @ i) rows))"

definition rows_by :: "int \<Rightarrow> errand_entry list \<Rightarrow> bool" where
  "rows_by t rows \<longleftrightarrow> list_all (\<lambda>r. er_created r \<le> t) rows"

lemma what_it_says_zone [simp]: "what_it_says KZone p = p"
  by (cases p) (simp_all add: what_it_says_def)

lemma last_said_snoc:
  assumes "rows_by (er_created r) rows"
  shows "last_said node subject (rows @ [r]) =
    (if er_node r = node \<and> er_subject r = Some subject then Some r else last_said node subject rows)"
  using assms by (auto simp: last_said_def rows_by_def list_all_iff intro!: newest_by_snoc)

lemma send_zone_cases:
  assumes "zone_codec (wire s) (zone_value s)" "rows_by (send_clock s k) rows"
  shows "says (wire s) (zone_value s) a (last_said node subject (send_zone s au k node subject a rows))"
    "(n, sub) \<noteq> (node, subject) \<Longrightarrow>
      last_said n sub (send_zone s au k node subject a rows) = last_said n sub rows"
    "rows_by (send_clock s k) (send_zone s au k node subject a rows)"
proof -
  define r where "r = \<lparr>er_id = next_id s k, er_node = node, er_from = None, er_kind = errand_kind_as_str KZone,
      er_payload = to_text (wire s) (zone_value s a), er_subject = Some subject, er_created = send_clock s k,
      er_taken = None, er_done = None, er_error = None\<rparr>"
  have sent: "send_zone s au k node subject a rows =
      (if would_change (wire s) au node KZone subject (zone_value s a) rows then rows @ [r] else rows)"
    by (simp add: send_zone_def queue_if_changed_def queue_about_def r_def)
  have by_r: "rows_by (er_created r) rows" using assms(2) by (simp add: r_def)
  have same: "says (wire s) (zone_value s) a (last_said node subject rows)"
    if "\<not> would_change (wire s) au node KZone subject (zone_value s a) rows"
    using that by (auto simp: would_change_def says_def last_said_def newest_by_def [of _ "[]"] split: option.splits if_splits)
  show "says (wire s) (zone_value s) a (last_said node subject (send_zone s au k node subject a rows))"
  proof (cases "would_change (wire s) au node KZone subject (zone_value s a) rows")
    case True
    then have "last_said node subject (send_zone s au k node subject a rows) = Some r"
      unfolding sent by (simp add: last_said_snoc [OF by_r]) (simp add: r_def)
    then show ?thesis using assms(1) by (simp add: says_def zone_codec_def) (simp add: r_def)
  qed (use same in \<open>simp add: sent\<close>)
  show "(n, sub) \<noteq> (node, subject) \<Longrightarrow>
      last_said n sub (send_zone s au k node subject a rows) = last_said n sub rows"
    unfolding sent by (simp add: last_said_snoc [OF by_r]) (auto simp: r_def)
  show "rows_by (send_clock s k) (send_zone s au k node subject a rows)"
    using assms(2) by (auto simp: sent rows_by_def r_def)
qed

text \<open>One command's sends: to each node what the last of them says, and nobody else hears.\<close>

definition on_time :: "sending \<Rightarrow> bool" where
  "on_time s \<longleftrightarrow> (\<forall>k. send_clock s k \<le> send_clock s (Suc k))"

lemma rows_by_mono: "rows_by t rows \<Longrightarrow> t \<le> t' \<Longrightarrow> rows_by t' rows"
  by (auto simp: rows_by_def list_all_iff)

lemma sends_said:
  assumes "zone_codec (wire s) (zone_value s)" "on_time s" "rows_by (send_clock s k) rows"
    "distinct (map fst sends)"
  shows "let rows' = fold (\<lambda>(k, n, a). send_zone s au k n subject a) (enumerate k sends) rows in
    (\<forall>(n, a)\<in>set sends. says (wire s) (zone_value s) a (last_said n subject rows')) \<and>
    (\<forall>n sub. sub \<noteq> subject \<or> n \<notin> fst ` set sends \<longrightarrow> last_said n sub rows' = last_said n sub rows) \<and>
    rows_by (send_clock s (k + length sends)) rows'"
  using assms(3,4)
proof (induction sends arbitrary: k rows)
  case (Cons x sends)
  obtain n a where x: "x = (n, a)" by (cases x)
  let ?one = "send_zone s au k n subject a rows"
  note one = send_zone_cases [OF assms(1) Cons.prems(1), where node = n and subject = subject and a = a and au = au]
  have clock: "send_clock s k \<le> send_clock s (Suc k)" using assms(2) by (simp add: on_time_def)
  note rest = Cons.IH [OF rows_by_mono [OF one(3) clock]]
  have "distinct (map fst sends)" "n \<notin> fst ` set sends" using Cons.prems(2) x by auto
  with rest one(1,2) show ?case by (auto simp: x Let_def)
qed (auto simp: Let_def)

lemma servers_of_distinct: "zones_sound db \<Longrightarrow> distinct (servers_of db i)"
proof -
  assume "zones_sound db"
  then have "distinct (server_keys (filter (\<lambda>r. sw_zone r = i) (server_rows db)))"
    by (simp add: zones_sound_def zones_keyed_def server_keys_def distinct_map_filter)
  then have "distinct (map sw_node (filter (\<lambda>r. sw_zone r = i) (server_rows db)))"
    by (auto simp: server_keys_def distinct_map inj_on_def)
  moreover have "mset (servers_of db i) = mset (map sw_node (filter (\<lambda>r. sw_zone r = i) (server_rows db)))"
    by (simp add: servers_of_def)
  ultimately show ?thesis using mset_eq_imp_distinct_iff by blast
qed

lemma tell_servers_said:
  assumes codec: "zone_codec (wire s) (zone_value s)" "on_time s" "rows_by (send_clock s 0) (nh_errands h)"
    and "zone_is_ours z" "zones_sound (nh_zones h)" "distinct removed"
  shows "\<exists>n. rows_by (send_clock s n) (nh_errands (tell_servers s z removed h))"
    "still_told (wire s) (zone_value s) node i (nh_errands (tell_servers s z removed h)) \<Longrightarrow>
      i = zn_id z \<and> node \<in> set (servers_of (nh_zones h) i) \<and> Some node \<noteq> me_of (nh_nodes h) \<or>
      still_told (wire s) (zone_value s) node i (nh_errands h) \<and>
        \<not> (i = zn_id z \<and> node \<in> set removed \<and> Some node \<noteq> me_of (nh_nodes h) \<and>
           node \<notin> set (servers_of (nh_zones h) i))"
proof -
  let ?servers = "servers_of (nh_zones h) (zn_id z)" and ?me = "me_of (nh_nodes h)"
  let ?allowed = "map nd_id (candidates_for (nh_grants h) (map node.truncate (nh_nodes h)) Dns)"
  let ?current = "zone_now h z"
  let ?withdrawal = "?current\<lparr>zone_records := [], zone_withdrawn := True\<rparr>"
  let ?to = "filter (\<lambda>n. Some n \<noteq> ?me \<and> n \<in> set ?allowed) ?servers"
  let ?from = "filter (\<lambda>n. Some n \<noteq> ?me \<and> n \<notin> set ?servers) removed"
  define sends where "sends = map (\<lambda>n. (n, ?current)) ?to @ map (\<lambda>n. (n, ?withdrawal)) ?from"
  have fst_sends: "map fst sends = ?to @ ?from" by (simp add: sends_def comp_def)
  have "distinct (map fst sends)"
    unfolding fst_sends using servers_of_distinct [OF assms(5)] assms(6) by auto
  note said = sends_said [OF codec this, of "nh_authorities h" "zone_subject z", unfolded Let_def]
  have rows: "nh_errands (tell_servers s z removed h) =
      fold (\<lambda>(k, n, a). send_zone s (nh_authorities h) k n (zone_subject z) a) (enumerate 0 sends) (nh_errands h)"
    using assms(4) by (simp add: tell_servers_def Let_def sends_def)
  show "\<exists>n. rows_by (send_clock s n) (nh_errands (tell_servers s z removed h))"
    unfolding rows using said by blast
  assume told: "still_told (wire s) (zone_value s) node i (nh_errands (tell_servers s z removed h))"
  have mem: "n \<in> fst ` set sends \<longleftrightarrow> n \<in> set ?to \<or> n \<in> set ?from" for n
    unfolding list.set_map [symmetric] fst_sends by auto
  show "i = zn_id z \<and> node \<in> set (servers_of (nh_zones h) i) \<and> Some node \<noteq> ?me \<or>
      still_told (wire s) (zone_value s) node i (nh_errands h) \<and>
        \<not> (i = zn_id z \<and> node \<in> set removed \<and> Some node \<noteq> ?me \<and> node \<notin> set (servers_of (nh_zones h) i))"
  proof (cases "i = zn_id z \<and> node \<in> fst ` set sends")
    case True
    then consider "node \<in> set ?to" | "node \<in> set ?from" using mem by blast
    then show ?thesis
    proof cases
      case 1
      with True show ?thesis by auto
    next
      case 2
      then have "(node, ?withdrawal) \<in> set sends" by (auto simp: sends_def)
      with said True have "says (wire s) (zone_value s) ?withdrawal
          (last_said node (''zone:'' @ i) (nh_errands (tell_servers s z removed h)))"
        unfolding rows zone_subject_def by blast
      moreover obtain a where "\<not> zone_withdrawn a" "says (wire s) (zone_value s) a
          (last_said node (''zone:'' @ i) (nh_errands (tell_servers s z removed h)))"
        using told by (auto simp: still_told_def)
      ultimately have eq: "zone_value s a = zone_value s ?withdrawal" and a: "\<not> zone_withdrawn a"
        by (simp_all add: says_def split: option.splits)
      from codec(1) eq have "zone_withdrawn a = zone_withdrawn ?withdrawal" unfolding zone_codec_def by blast
      then have False using a by simp
      then show ?thesis ..
    qed
  next
    case False
    then have "last_said node (''zone:'' @ i) (nh_errands (tell_servers s z removed h)) =
        last_said node (''zone:'' @ i) (nh_errands h)"
      using said unfolding rows zone_subject_def by auto
    with told False mem show ?thesis by (auto simp: still_told_def)
  qed
qed

section \<open>Nobody is left answering\<close>

text \<open>By the rows: the zone is administered here and the node is one of its servers.\<close>

definition asked_of :: "zones_db \<Rightarrow> string \<Rightarrow> string \<Rightarrow> bool" where
  "asked_of db i node \<longleftrightarrow>
    list_ex (\<lambda>r. zw_id r = i \<and> zw_authority r = None) (zone_rows db) \<and>
    list_ex (\<lambda>s. sw_zone s = i \<and> sw_node s = node) (server_rows db)"

definition agrees :: "dns_zone \<Rightarrow> zones_db \<Rightarrow> bool" where
  "agrees z db \<longleftrightarrow> list_all (\<lambda>r. zw_id r = zn_id z \<longrightarrow> (zw_authority r = None \<longleftrightarrow> zone_is_ours z)) (zone_rows db)"

definition rightly_told :: "serde \<Rightarrow> (zone_args \<Rightarrow> json) \<Rightarrow> name_host \<Rightarrow> bool" where
  "rightly_told sd zv h \<longleftrightarrow>
    (\<forall>node i. still_told sd zv node i (nh_errands h) \<longrightarrow>
      asked_of (nh_zones h) i node \<and> Some node \<noteq> me_of (nh_nodes h))"

definition told_in_time :: "serde \<Rightarrow> (zone_args \<Rightarrow> json) \<Rightarrow> int \<Rightarrow> name_host \<Rightarrow> bool" where
  "told_in_time sd zv t h \<longleftrightarrow>
    zones_sound (nh_zones h) \<and> rows_by t (nh_errands h) \<and> rightly_told sd zv h"

lemma in_servers_of: "node \<in> set (servers_of db i) \<longleftrightarrow> list_ex (\<lambda>s. sw_zone s = i \<and> sw_node s = node) (server_rows db)"
  by (auto simp: servers_of_def list_ex_iff image_iff)

lemma server_has_row:
  assumes "zones_sound db" "node \<in> set (servers_of db i)"
  shows "\<exists>r\<in>set (zone_rows db). zw_id r = i"
proof -
  have "list_all (\<lambda>s. sw_zone s \<in> zone_ids db) (server_rows db)"
    using assms(1) by (simp add: zones_sound_def zones_keyed_def)
  then have "i \<in> zone_ids db" using assms(2) by (auto simp: in_servers_of list_all_iff list_ex_iff)
  then show ?thesis by (auto simp: zone_ids_def)
qed

lemma agrees_zone:
  assumes "zones_sound db" "z \<in> set (zones_all db)"
  shows "agrees z db"
proof -
  obtain r where r: "r \<in> set (zone_rows db)" "zw_id r = zn_id z" "zw_authority r = zn_authority z"
    using assms(2) read_zone_columns by (metis in_zones_all)
  have "inj_on zw_id (set (zone_rows db))"
    using assms(1) by (simp add: zones_sound_def zones_keyed_def distinct_map)
  then have "r' = r" if "r' \<in> set (zone_rows db)" "zw_id r' = zn_id z" for r'
    using that r(1,2) by (simp add: inj_on_def)
  with r(3) show ?thesis by (auto simp: agrees_def list_all_iff zone_is_ours_def)
qed

text \<open>
  One telling: it suffices that whoever was wrongly told already is among those to be told to
  stop.
\<close>

lemma tell_rightly:
  assumes codec: "zone_codec (wire s) (zone_value s)" "on_time s" "rows_by (send_clock s 0) (nh_errands h)"
    and sound: "zones_sound (nh_zones h)" and agree: "agrees z (nh_zones h)" and "distinct removed"
    and pre: "\<And>node i. still_told (wire s) (zone_value s) node i (nh_errands h) \<Longrightarrow>
      Some node \<noteq> me_of (nh_nodes h) \<and> (asked_of (nh_zones h) i node \<or>
        zone_is_ours z \<and> i = zn_id z \<and> node \<in> set removed \<and> node \<notin> set (servers_of (nh_zones h) i))"
  shows "rightly_told (wire s) (zone_value s) (tell_servers s z removed h) \<and>
    (\<exists>n. rows_by (send_clock s n) (nh_errands (tell_servers s z removed h)))"
proof (cases "zone_is_ours z")
  case False
  then show ?thesis using pre codec(3) by (auto simp: tell_servers_def rightly_told_def)
next
  case True
  note said = tell_servers_said [OF codec True sound \<open>distinct removed\<close>]
  have "asked_of (nh_zones h) i node \<and> Some node \<noteq> me_of (nh_nodes h)"
    if "still_told (wire s) (zone_value s) node i (nh_errands (tell_servers s z removed h))" for node i
    using said(2) [OF that]
  proof
    assume here: "i = zn_id z \<and> node \<in> set (servers_of (nh_zones h) i) \<and> Some node \<noteq> me_of (nh_nodes h)"
    then obtain r where "r \<in> set (zone_rows (nh_zones h))" "zw_id r = i" using server_has_row [OF sound] by blast
    with here True agree show ?thesis
      by (auto simp: asked_of_def in_servers_of agrees_def list_all_iff list_ex_iff)
  qed (use pre in blast)
  then show ?thesis using said(1) by (auto simp: rightly_told_def)
qed

lemma rightly_told_cong:
  "nh_zones h' = nh_zones h \<Longrightarrow> nh_nodes h' = nh_nodes h \<Longrightarrow> nh_errands h' = nh_errands h \<Longrightarrow>
    rightly_told sd zv h' = rightly_told sd zv h"
  by (simp add: rightly_told_def)

text \<open>The moments of one event: they do not go back and lie between two times.\<close>

definition between :: "serde \<Rightarrow> (zone_args \<Rightarrow> json) \<Rightarrow> int \<Rightarrow> int \<Rightarrow> (nat \<Rightarrow> sending) \<Rightarrow> bool" where
  "between sd zv t t' s \<longleftrightarrow>
    (\<forall>k. wire (s k) = sd \<and> zone_value (s k) = zv \<and> on_time (s k) \<and>
      (\<forall>n. t \<le> send_clock (s k) n \<and> send_clock (s k) n \<le> send_clock (s (Suc k)) 0 \<and> send_clock (s k) n \<le> t'))"

lemma tell_in_time:
  assumes "zone_codec sd zv" "between sd zv t t' s" "zones_sound (nh_zones h)" "agrees z (nh_zones h)"
    "distinct removed" "rows_by (send_clock (s k) 0) (nh_errands h)"
    "\<And>node i. still_told sd zv node i (nh_errands h) \<Longrightarrow>
      Some node \<noteq> me_of (nh_nodes h) \<and> (asked_of (nh_zones h) i node \<or>
        zone_is_ours z \<and> i = zn_id z \<and> node \<in> set removed \<and> node \<notin> set (servers_of (nh_zones h) i))"
  shows "rightly_told sd zv (tell_servers (s k) z removed h)"
    "rows_by (send_clock (s (Suc k)) 0) (nh_errands (tell_servers (s k) z removed h))"
    "rows_by t' (nh_errands (tell_servers (s k) z removed h))"
proof -
  have s: "wire (s k) = sd" "zone_value (s k) = zv" "on_time (s k)"
    "\<And>n. send_clock (s k) n \<le> send_clock (s (Suc k)) 0 \<and> send_clock (s k) n \<le> t'"
    using assms(2) by (auto simp: between_def)
  have told: "rightly_told (wire (s k)) (zone_value (s k)) (tell_servers (s k) z removed h) \<and>
    (\<exists>n. rows_by (send_clock (s k) n) (nh_errands (tell_servers (s k) z removed h)))"
    using assms s(1-3) by (intro tell_rightly) auto
  then show "rightly_told sd zv (tell_servers (s k) z removed h)" using s by simp
  from told obtain n where "rows_by (send_clock (s k) n) (nh_errands (tell_servers (s k) z removed h))" by blast
  then show "rows_by (send_clock (s (Suc k)) 0) (nh_errands (tell_servers (s k) z removed h))"
    "rows_by t' (nh_errands (tell_servers (s k) z removed h))"
    using s(4) [of n] rows_by_mono by blast+
qed

lemma between_le: "between sd zv t t' s \<Longrightarrow> t \<le> send_clock (s k) 0 \<and> t \<le> t'"
  by (force simp: between_def)

text \<open>A change of the tables that only takes away servers it then tells.\<close>

lemma tell_after:
  assumes "zone_codec sd zv" "between sd zv t t' s" "told_in_time sd zv t h" "zones_sound db" "agrees z db"
    "distinct removed"
    "\<And>node i. asked_of (nh_zones h) i node \<Longrightarrow> asked_of db i node \<or>
      zone_is_ours z \<and> i = zn_id z \<and> node \<in> set removed \<and> node \<notin> set (servers_of db i)"
  shows "told_in_time sd zv t' (tell_servers (s k) z removed (h\<lparr>nh_zones := db\<rparr>))"
proof -
  let ?h = "h\<lparr>nh_zones := db\<rparr>"
  have rows: "rows_by (send_clock (s k) 0) (nh_errands ?h)"
    using assms(3) between_le [OF assms(2)] rows_by_mono by (auto simp: told_in_time_def)
  have pre: "Some node \<noteq> me_of (nh_nodes ?h) \<and> (asked_of (nh_zones ?h) i node \<or>
        zone_is_ours z \<and> i = zn_id z \<and> node \<in> set removed \<and> node \<notin> set (servers_of (nh_zones ?h) i))"
    if "still_told sd zv node i (nh_errands ?h)" for node i
  proof -
    have "asked_of (nh_zones h) i node \<and> Some node \<noteq> me_of (nh_nodes h)"
      using assms(3) that by (simp add: told_in_time_def rightly_told_def)
    then show ?thesis using assms(7) by simp
  qed
  have "zones_sound (nh_zones ?h)" "agrees z (nh_zones ?h)" using assms(4,5) by simp_all
  from tell_in_time [OF assms(1,2) this assms(6) rows pre] assms(4)
  show ?thesis by (simp add: told_in_time_def)
qed

lemma untold_change:
  assumes "told_in_time sd zv t h" "t \<le> t'" "nh_errands h' = nh_errands h" "me_of (nh_nodes h') = me_of (nh_nodes h)"
    "zones_sound (nh_zones h')" "\<And>node i. asked_of (nh_zones h) i node \<Longrightarrow> asked_of (nh_zones h') i node"
  shows "told_in_time sd zv t' h'"
  using assms rows_by_mono by (auto simp: told_in_time_def rightly_told_def)

subsection \<open>Who is asked, operation by operation\<close>

lemma asked_insert:
  "list_ex (\<lambda>s. sw_zone s = j \<and> sw_node s = node) (insert_servers i k ss rows) \<longleftrightarrow>
    list_ex (\<lambda>s. sw_zone s = j \<and> sw_node s = node) rows \<or> j = i \<and> node \<in> set ss"
  by (induction i k ss rows rule: insert_servers.induct) (auto simp: list_ex_iff)

lemma asked_write_servers [simp]:
  "asked_of (write_servers i ss db) j node \<longleftrightarrow>
    (if j = i then list_ex (\<lambda>r. zw_id r = i \<and> zw_authority r = None) (zone_rows db) \<and> node \<in> set ss
     else asked_of db j node)"
  by (auto simp: asked_of_def write_servers_def asked_insert) (auto simp: list_ex_iff)

lemma servers_of_write [simp]: "node \<in> set (servers_of (write_servers i ss db) i) \<longleftrightarrow> node \<in> set ss"
  by (auto simp: in_servers_of write_servers_def asked_insert) (auto simp: list_ex_iff)

lemma asked_edit [simp]: "plain_edit f \<Longrightarrow> asked_of (edit_zone i f db) j node = asked_of db j node"
  by (simp add: asked_of_def edit_zone_def plain_edit_def list_ex_edited)

lemma servers_of_edit [simp]: "servers_of (edit_zone i f db) j = servers_of db j"
  by (simp add: servers_of_def edit_zone_def)

lemma asked_bump: "bump now i db = Some db' \<Longrightarrow> asked_of db' j node = asked_of db j node"
  "bump now i db = Some db' \<Longrightarrow> servers_of db' j = servers_of db j"
  by (auto simp: bump_def plain_bump split: if_splits)

lemma asked_records [simp]: "asked_of (db\<lparr>record_rows := rows\<rparr>) j node = asked_of db j node"
  by (simp add: asked_of_def)

lemma asked_delete [simp]: "asked_of (zones_delete i db) j node \<longleftrightarrow> j \<noteq> i \<and> asked_of db j node"
  by (auto simp: asked_of_def zones_delete_def list_ex_iff)

lemma servers_of_delete [simp]: "servers_of (zones_delete i db) i = []"
  by (simp add: servers_of_def zones_delete_def)

lemma asked_deletes [simp]: "asked_of (fold zones_delete is db) j node \<longleftrightarrow> j \<notin> set is \<and> asked_of db j node"
  by (induction "is" arbitrary: db) auto

lemma asked_is_ours: "asked_of db (zn_id z) node \<Longrightarrow> agrees z db \<Longrightarrow> zone_is_ours z"
  by (auto simp: asked_of_def agrees_def list_all_iff list_ex_iff)

lemma asked_create:
  assumes "zones_create now g st tenants name project servers db = Inr (z, db')" "asked_of db i node"
  shows "asked_of db' i node"
proof -
  have fresh: "\<not> list_ex (\<lambda>r. zw_id r = ''zone-'' @ g) (zone_rows db)"
    using assms(1) by (auto simp: zones_create_def Let_def list_ex_iff split: if_splits option.splits)
  then have "i \<noteq> ''zone-'' @ g" using assms(2) by (auto simp: asked_of_def list_ex_iff)
  then show ?thesis
    using assms by (auto simp: zones_create_def Let_def split: if_splits option.splits) (simp_all add: asked_of_def)
qed

lemma asked_replace:
  assumes "replace_received now g ids rc db = Inr db'" "asked_of db i node"
  shows "asked_of db' i node"
proof -
  have "server_rows db' = server_rows db" "\<exists>more edit c. (\<forall>r. zw_id (edit r) = zw_id r \<and> zw_authority (edit r) = zw_authority r) \<and>
      zone_rows db' = map (\<lambda>r. if c r then edit r else r) (zone_rows db) @ more"
  proof -
    note w = assms(1) [unfolded replace_received_def Let_def]
    show "server_rows db' = server_rows db" using w by (auto split: option.splits if_splits)
    show "\<exists>more edit c. (\<forall>r. zw_id (edit r) = zw_id r \<and> zw_authority (edit r) = zw_authority r) \<and>
      zone_rows db' = map (\<lambda>r. if c r then edit r else r) (zone_rows db) @ more"
    proof (cases "zone_rows db' = map (\<lambda>r. if zw_id r = (case zone_by_name db (rc_name rc) of Some z \<Rightarrow> zn_id z | None \<Rightarrow> ''zone-'' @ g)
          then r\<lparr>zw_serial := rc_serial rc, zw_ttl := rc_ttl rc,
                   zw_servers := Some (join_with '','' (rc_servers rc)), zw_updated := now\<rparr> else r) (zone_rows db)")
      case True
      then show ?thesis
        by (intro exI [of _ "[]"] exI [of _ "\<lambda>r. r\<lparr>zw_serial := rc_serial rc, zw_ttl := rc_ttl rc,
                   zw_servers := Some (join_with '','' (rc_servers rc)), zw_updated := now\<rparr>"] exI) (auto intro!: map_cong)
    next
      case False
      with w obtain row where "zone_rows db' = zone_rows db @ [row]" by (auto split: option.splits if_splits)
      then show ?thesis by (intro exI [of _ "[row]"] exI [of _ id] exI [of _ "\<lambda>_. False"]) simp
    qed
  qed
  then show ?thesis using assms(2) by (auto simp: asked_of_def list_ex_edited)
qed

lemma asked_forget:
  assumes "zones_sound db" "asked_of db i node"
  shows "asked_of (snd (forget_received name authority db)) i node"
  using assms agrees_zone [OF assms(1)] asked_is_ours
  by (auto simp: forget_received_def zone_is_ours_def split: option.splits dest!: zone_by_name_Some)

lemma asked_serve_zone:
  "zones_sound db \<Longrightarrow> asked_of db i node \<Longrightarrow> asked_of (snd (serve_zone now g ids authority zone db)) i node"
  by (auto simp: serve_zone_def asked_forget split: sum.splits intro: asked_replace)

subsection \<open>Each thing that happens\<close>

lemma fold_tell_in_time:
  assumes "zone_codec sd zv" "between sd zv t t' s"
  shows "zones_sound (nh_zones h) \<Longrightarrow> list_all (\<lambda>z. agrees z (nh_zones h)) zs \<Longrightarrow> rightly_told sd zv h \<Longrightarrow>
    rows_by (send_clock (s k) 0) (nh_errands h) \<Longrightarrow> rows_by t' (nh_errands h) \<Longrightarrow>
    told_in_time sd zv t' (fold (\<lambda>(k, z). tell_servers (s k) z []) (enumerate k zs) h)"
proof (induction zs arbitrary: k h)
  case Nil
  then show ?case by (simp add: told_in_time_def)
next
  case (Cons z zs)
  have pre: "Some node \<noteq> me_of (nh_nodes h) \<and> (asked_of (nh_zones h) i node \<or>
        zone_is_ours z \<and> i = zn_id z \<and> node \<in> set [] \<and> node \<notin> set (servers_of (nh_zones h) i))"
    if "still_told sd zv node i (nh_errands h)" for node i
    using Cons.prems(3) that by (auto simp: rightly_told_def)
  from Cons.prems(2) have "agrees z (nh_zones h)" by simp
  note told = tell_in_time [where removed = "[]", OF assms Cons.prems(1) this _ Cons.prems(4) pre, simplified]
  from Cons.IH [of "tell_servers (s k) z [] h" "Suc k"] told Cons.prems
  show ?case by simp
qed

lemma tell_all_in_time:
  assumes "zone_codec sd zv" "between sd zv t t' s" "told_in_time sd zv t h"
  shows "told_in_time sd zv t' (tell_all s h)"
  unfolding tell_all_fold
  using assms(3) between_le [OF assms(2)] rows_by_mono agrees_zone
  by (intro fold_tell_in_time [OF assms(1,2)]) (auto simp: told_in_time_def list_all_iff)

lemma told_after:
  assumes "zone_codec sd zv" "between sd zv t t' (dn_sends e)" "told_in_time sd zv t h" "zones_sound db"
    "\<And>node i. asked_of (nh_zones h) i node \<Longrightarrow> asked_of db i node"
  shows "told_in_time sd zv t' (told e z (h\<lparr>nh_zones := db\<rparr>))"
proof (cases "zone_by_name db (zn_name z)")
  case None
  then show ?thesis
    using untold_change [OF assms(3)] assms(4,5) between_le [OF assms(2)] by (simp add: told_def)
next
  case (Some z')
  then have "agrees z' db" using agrees_zone [OF assms(4)] zone_by_name_Some(2) by blast
  with tell_after [OF assms(1,2,3,4)] assms(5) Some show ?thesis by (simp add: told_def)
qed

lemma delete_zone_in_time:
  assumes "zone_codec sd zv" "between sd zv t t' (dn_sends e)" "told_in_time sd zv t h" "agrees z (nh_zones h)"
  shows "told_in_time sd zv t' (delete_zone e z h)"
proof -
  let ?db = "zones_delete (zn_id z) (nh_zones h)"
  have sound: "zones_sound (nh_zones h)" using assms(3) by (simp add: told_in_time_def)
  have "agrees z ?db" using assms(4) by (simp add: agrees_def zones_delete_def list_all_iff)
  moreover have "asked_of ?db i node \<or>
      zone_is_ours z \<and> i = zn_id z \<and> node \<in> set (servers_of (nh_zones h) (zn_id z)) \<and> node \<notin> set (servers_of ?db i)"
    if "asked_of (nh_zones h) i node" for node i
  proof (cases "i = zn_id z")
    case True
    then have "zone_is_ours z" using that assms(4) asked_is_ours by blast
    moreover have "node \<in> set (servers_of (nh_zones h) i)" using that by (simp add: asked_of_def in_servers_of)
    ultimately show ?thesis using True by simp
  qed (use that in simp)
  ultimately show ?thesis
    unfolding delete_zone_def Let_def
    using tell_after [OF assms(1,2,3) sound_delete [OF sound]] servers_of_distinct [OF sound] by blast
qed

lemma create_zone_in_time:
  assumes "zone_codec sd zv" "between sd zv t t' (dn_sends e)" "told_in_time sd zv t h" "zone_parse name = Inr name"
  shows "told_in_time sd zv t' (snd (create_zone e tenants name p h))"
proof (cases "create_zone e tenants name p h")
  case (Pair r h')
  show ?thesis
  proof (cases "\<exists>servers z db. first_servers p h = Inr servers \<and>
      zones_create (dn_now e) (dn_id e) (nh_grants h) tenants name p servers (nh_zones h) = Inr (z, db)")
    case False
    then have "snd (create_zone e tenants name p h) = h"
      by (auto simp: create_zone_def split: sum.splits)
    then show ?thesis using untold_change [OF assms(3)] between_le [OF assms(2)] assms(3) by (simp add: told_in_time_def)
  next
    case True
    then obtain servers z db where made: "first_servers p h = Inr servers"
      "zones_create (dn_now e) (dn_id e) (nh_grants h) tenants name p servers (nh_zones h) = Inr (z, db)" by blast
    have sound: "zones_sound db" using sound_create [OF _ assms(4) made(2)] assms(3) by (simp add: told_in_time_def)
    have z: "zn_id z = ''zone-'' @ dn_id e" "zone_is_ours z"
      and rows: "\<exists>r. zone_rows db = zone_rows (nh_zones h) @ [r] \<and> zw_authority r = None"
      and fresh: "\<not> list_ex (\<lambda>r. zw_id r = ''zone-'' @ dn_id e) (zone_rows (nh_zones h))"
      using made(2) by (auto simp: zones_create_def Let_def zone_is_ours_def write_servers_def list_ex_iff
          split: if_splits option.splits)
    then have "agrees z db" by (auto simp: agrees_def list_all_iff list_ex_iff)
    then show ?thesis
      using tell_after [OF assms(1,2,3) sound, of z "[]" 0] asked_create [OF made(2)] made
      by (simp add: create_zone_def)
  qed
qed

lemma add_record_asked:
  assumes "add_record now g z name d ttl db = Inr (r, db')"
  shows "asked_of db' i node = asked_of db i node"
  using assms
  by (auto simp: add_record_def bind_sum_def Let_def asked_bump(1) split: sum.splits if_splits option.splits)

lemma remove_record_asked:
  assumes "remove_record now z j db = Inr db'"
  shows "asked_of db' i node = asked_of db i node"
  using assms by (auto simp: remove_record_def ok_or_def Let_def asked_bump(1) split: if_splits option.splits)

lemma set_servers_asked:
  assumes "set_servers now z ss db = Inr db'"
  shows "asked_of db' i node = asked_of (write_servers (zn_id z) ss db) i node"
    "servers_of db' i = servers_of (write_servers (zn_id z) ss db) i"
  using assms by (auto simp: set_servers_def ok_or_def asked_bump split: option.splits)

lemma unchanged_in_time:
  "told_in_time sd zv t h \<Longrightarrow> between sd zv t t' s \<Longrightarrow> told_in_time sd zv t' h"
  using between_le rows_by_mono by (auto simp: told_in_time_def)

lemma in_time_sound: "told_in_time sd zv t h \<Longrightarrow> zones_sound (nh_zones h)"
  by (simp add: told_in_time_def)

lemma add_record_in_time:
  assumes "zone_codec sd zv" "between sd zv t t' (dn_sends e)" "told_in_time sd zv t h"
  shows "told_in_time sd zv t' (snd (add_record_command e z asked h))"
proof -
  have "told_in_time sd zv t' (told e z (h\<lparr>nh_zones := db\<rparr>))"
    if "add_record (dn_now e) (dn_id e) z name d ttl (nh_zones h) = Inr (r, db)" for name d ttl r db
    by (rule told_after [OF assms])
      (use sound_add_record [OF in_time_sound [OF assms(3)] that] add_record_asked [OF that] in auto)
  then show ?thesis
    using unchanged_in_time [OF assms(3,2)]
    by (auto simp: add_record_command_def bind_sum_def split: sum.splits)
qed

lemma remove_record_in_time:
  assumes "zone_codec sd zv" "between sd zv t t' (dn_sends e)" "told_in_time sd zv t h"
  shows "told_in_time sd zv t' (snd (remove_record_command e z i h))"
proof -
  have "told_in_time sd zv t' (told e z (h\<lparr>nh_zones := db\<rparr>))"
    if "remove_record (dn_now e) z i (nh_zones h) = Inr db" for db
    by (rule told_after [OF assms])
      (use sound_remove_record [OF in_time_sound [OF assms(3)] that] remove_record_asked [OF that] in auto)
  then show ?thesis
    using unchanged_in_time [OF assms(3,2)] by (auto simp: remove_record_command_def split: sum.splits)
qed

lemma same_zone_found:
  assumes "zones_sound db" "zones_sound db'" "z \<in> set (zones_all db)"
    "map (\<lambda>r. (zw_id r, zw_name r, zw_authority r)) (zone_rows db') =
     map (\<lambda>r. (zw_id r, zw_name r, zw_authority r)) (zone_rows db)"
  shows "\<exists>z'. zone_by_name db' (zn_name z) = Some z' \<and> zn_id z' = zn_id z \<and> zn_authority z' = zn_authority z"
proof -
  obtain r where r: "r \<in> set (zone_rows db)" "read_zone r = Some z" using assms(3) by (auto simp: in_zones_all)
  have "zone_parse (zw_name r) = Inr (zw_name r)"
    using assms(1) r(1) by (simp add: zones_sound_def zones_keyed_def list_all_iff)
  then have columns: "zn_name z = zw_name r" "zn_id z = zw_id r" "zn_authority z = zw_authority r"
      "zone_parse (zn_name z) = Inr (zn_name z)"
    using read_zone_columns [OF r(2)] by auto
  have "(zw_id r, zw_name r, zw_authority r) \<in> set (map (\<lambda>r. (zw_id r, zw_name r, zw_authority r)) (zone_rows db'))"
    unfolding assms(4) using r(1) by auto
  then obtain r' where r': "r' \<in> set (zone_rows db')" "zw_id r' = zn_id z" "zw_name r' = zn_name z"
      "zw_authority r' = zn_authority z"
    using columns by auto
  then obtain z' where z': "z' \<in> set (zones_all db')" "zn_name z' = zn_name z" using sound_zones_all [OF assms(2)] by metis
  then obtain z'' where "List.find (\<lambda>x. zn_name x = zn_name z) (zones_all db') = Some z''"
    by (cases "List.find (\<lambda>x. zn_name x = zn_name z) (zones_all db')") (auto simp: find_None_iff)
  then have found: "zone_by_name db' (zn_name z) = Some z''" "z'' \<in> set (zones_all db')" "zn_name z'' = zn_name z"
    using columns(4) by (auto simp: zone_by_name_def dest: find_SomeD)
  then obtain s where s: "s \<in> set (zone_rows db')" "read_zone s = Some z''" by (auto simp: in_zones_all)
  have "zw_name s = zn_name z"
    using assms(2) s(1) read_zone_columns [OF s(2)] found(3) by (auto simp: zones_sound_def zones_keyed_def list_all_iff)
  moreover have "inj_on zw_name (set (zone_rows db'))"
    using assms(2) by (simp add: zones_sound_def zones_keyed_def distinct_map)
  ultimately have "s = r'" using s(1) r'(1,3) by (simp add: inj_on_def)
  then show ?thesis using found(1) r' read_zone_columns [OF s(2)] by auto
qed

lemma set_zone_servers_in_time:
  assumes "zone_codec sd zv" "between sd zv t t' (dn_sends e)" "told_in_time sd zv t h" "z \<in> set (zones_all (nh_zones h))"
  shows "told_in_time sd zv t' (snd (set_zone_servers e z asked h))"
proof (cases "snd (set_zone_servers e z asked h) = h")
  case True
  then show ?thesis using unchanged_in_time [OF assms(3,2)] by simp
next
  case False
  define servers where "servers = sort_key (\<lambda>s. Some s \<noteq> me_of (nh_nodes h)) asked"
  define removed where "removed = filter (\<lambda>s. s \<notin> set servers) (servers_of (nh_zones h) (zn_id z))"
  obtain db where db: "set_servers (dn_now e) z servers (nh_zones h) = Inr db"
    using False by (auto simp: set_zone_servers_def Let_def servers_def split: if_splits sum.splits)
  have ours: "zone_is_ours z" using False by (auto simp: set_zone_servers_def split: if_splits)
  have result: "snd (set_zone_servers e z asked h) = (case zone_by_name db (zn_name z) of
      Some z' \<Rightarrow> tell_servers (dn_sends e 0) z' removed (h\<lparr>nh_zones := db\<rparr>) | None \<Rightarrow> h\<lparr>nh_zones := db\<rparr>)"
    using False db ours
    by (auto simp: set_zone_servers_def Let_def servers_def [symmetric] removed_def [symmetric] split: if_splits option.splits)
  have sound: "zones_sound (nh_zones h)" "zones_sound db"
    using assms(3) sound_set_servers db by (auto simp: told_in_time_def)
  have "map (\<lambda>r. (zw_id r, zw_name r, zw_authority r)) (zone_rows db) =
      map (\<lambda>r. (zw_id r, zw_name r, zw_authority r)) (zone_rows (nh_zones h))"
    using db by (auto simp: set_servers_def ok_or_def bump_def edit_zone_def write_servers_def split: if_splits option.splits)
  then obtain z' where z': "zone_by_name db (zn_name z) = Some z'" "zn_id z' = zn_id z" "zone_is_ours z'"
    using same_zone_found [OF sound assms(4)] ours by (auto simp: zone_is_ours_def)
  have asked: "asked_of db i node \<or>
      zone_is_ours z' \<and> i = zn_id z' \<and> node \<in> set removed \<and> node \<notin> set (servers_of db i)"
    if "asked_of (nh_zones h) i node" for node i
  proof (cases "i = zn_id z")
    case True
    have "list_ex (\<lambda>r. zw_id r = i \<and> zw_authority r = None) (zone_rows (nh_zones h))"
      "node \<in> set (servers_of (nh_zones h) i)"
      using that by (simp_all add: asked_of_def in_servers_of)
    then show ?thesis
      using True z' set_servers_asked [OF db, of i] by (cases "node \<in> set servers") (simp_all add: removed_def)
  qed (use that set_servers_asked(1) [OF db, of i node] in simp)
  have "agrees z' db" using agrees_zone [OF sound(2)] zone_by_name_Some(2) [OF z'(1)] .
  moreover have "distinct removed" using servers_of_distinct [OF sound(1)] by (simp add: removed_def)
  ultimately show ?thesis
    unfolding result using tell_after [OF assms(1,2,3) sound(2) _ _ asked] z'(1) by simp
qed

lemma delete_zones_in_time:
  assumes "zone_codec sd zv" "between sd zv t t' s"
  shows "told_in_time sd zv (send_clock (s k) 0) h \<Longrightarrow> rows_by t' (nh_errands h) \<Longrightarrow>
    list_all (\<lambda>z. agrees z (nh_zones h)) zs \<Longrightarrow>
    told_in_time sd zv t' (fold (\<lambda>(k, z). delete_zone (e\<lparr>dn_sends := \<lambda>_. s k\<rparr>) z) (enumerate k zs) h)"
proof (induction zs arbitrary: k h)
  case Nil
  then show ?case by (simp add: told_in_time_def)
next
  case (Cons z zs)
  let ?e = "e\<lparr>dn_sends := \<lambda>_. s k\<rparr>" and ?h = "delete_zone (e\<lparr>dn_sends := \<lambda>_. s k\<rparr>) z h"
  have moments: "wire (s k) = sd" "zone_value (s k) = zv" "on_time (s k)"
    "\<And>n. send_clock (s k) n \<le> send_clock (s (Suc k)) 0 \<and> send_clock (s k) n \<le> t'"
    using assms(2) by (auto simp: between_def)
  let ?db = "zones_delete (zn_id z) (nh_zones h)"
  have sound: "zones_sound (nh_zones h)" "zones_sound ?db" and agree: "agrees z (nh_zones h)"
    using Cons.prems(1,3) sound_delete by (auto simp: told_in_time_def)
  have "agrees z ?db" using agree by (simp add: agrees_def zones_delete_def list_all_iff)
  have gone: "Some node \<noteq> me_of (nh_nodes h) \<and> (asked_of ?db i node \<or>
      zone_is_ours z \<and> i = zn_id z \<and> node \<in> set (servers_of (nh_zones h) (zn_id z)) \<and> node \<notin> set (servers_of ?db i))"
    if "still_told sd zv node i (nh_errands h)" for node i
  proof -
    have asked: "asked_of (nh_zones h) i node" "Some node \<noteq> me_of (nh_nodes h)"
      using that Cons.prems(1) by (simp_all add: told_in_time_def rightly_told_def)
    show ?thesis
    proof (cases "i = zn_id z")
      case True
      then have "zone_is_ours z" using asked(1) agree asked_is_ours by blast
      moreover have "node \<in> set (servers_of (nh_zones h) i)" using asked(1) by (simp add: asked_of_def in_servers_of)
      ultimately show ?thesis using True asked(2) by simp
    qed (use asked in simp)
  qed
  have h: "?h = tell_servers (s k) z (servers_of (nh_zones h) (zn_id z)) (h\<lparr>nh_zones := ?db\<rparr>)"
    by (simp add: delete_zone_def Let_def)
  have "rightly_told sd zv ?h \<and> (\<exists>n. rows_by (send_clock (s k) n) (nh_errands ?h))"
    unfolding h
    using tell_rightly [of "s k" "h\<lparr>nh_zones := ?db\<rparr>" z "servers_of (nh_zones h) (zn_id z)"] moments(1-3)
      assms(1) Cons.prems(1) sound \<open>agrees z ?db\<close> servers_of_distinct [OF sound(1)] gone
    by (simp add: told_in_time_def)
  then have "told_in_time sd zv (send_clock (s (Suc k)) 0) ?h" "rows_by t' (nh_errands ?h)"
    using moments(4) rows_by_mono sound(2) by (auto simp: told_in_time_def)
  moreover have "list_all (\<lambda>z. agrees z (nh_zones ?h)) zs"
    using Cons.prems(3) by (auto simp: agrees_def zones_delete_def list_all_iff)
  ultimately show ?case using Cons.IH by simp
qed

lemma zone_rows_deletes: "zone_rows (fold zones_delete is db) = filter (\<lambda>r. zw_id r \<notin> set is) (zone_rows db)"
  by (induction "is" arbitrary: db) (auto simp: zones_delete_def intro: filter_cong)

lemma delete_project_in_time:
  assumes "zone_codec sd zv" "between sd zv t t' (dn_sends e)" "told_in_time sd zv t h"
  shows "told_in_time sd zv t' (delete_project_zones e pid h)"
proof -
  let ?zs = "zones_of_project (nh_zones h) pid"
  let ?h = "fold (\<lambda>(k, z). delete_zone (e\<lparr>dn_sends := \<lambda>_. dn_sends e k\<rparr>) z) (enumerate 0 ?zs) h"
  have sound: "zones_sound (nh_zones h)" using assms(3) by (simp add: told_in_time_def)
  have "told_in_time sd zv (send_clock (dn_sends e 0) 0) h" "rows_by t' (nh_errands h)"
    using assms(3) between_le [OF assms(2)] rows_by_mono by (auto simp: told_in_time_def)
  moreover have "list_all (\<lambda>z. agrees z (nh_zones h)) ?zs"
    unfolding list_all_iff
  proof
    fix z
    assume "z \<in> set ?zs"
    then have "z \<in> set (zones_all (nh_zones h))" by (auto simp: zones_of_project_def set_map_filter in_zones_all)
    then show "agrees z (nh_zones h)" using agrees_zone [OF sound] by blast
  qed
  ultimately have told: "told_in_time sd zv t' ?h" by (rule delete_zones_in_time [OF assms(1,2)])
  have left: "zone_rows (nh_zones ?h) = filter (\<lambda>r. zw_id r \<notin> zn_id ` set ?zs) (zone_rows (nh_zones h))"
    using map_snd_enumerate [of 0 ?zs]
    by (simp add: fold_delete_zones zone_rows_deletes flip: map_map)
  have "zw_id r \<in> zn_id ` set ?zs" if "r \<in> set (zone_rows (nh_zones h))" "zw_project r = Some pid" for r
  proof -
    have "zone_parse (zw_name r) = Inr (zw_name r)"
      using sound that(1) by (simp add: zones_sound_def zones_keyed_def list_all_iff)
    then obtain z where z: "read_zone r = Some z" "zn_id z = zw_id r" using read_zone_row by blast
    then have "z \<in> set ?zs" using that by (auto simp: zones_of_project_def set_map_filter)
    with z(2) show ?thesis by (metis imageI)
  qed
  then have "filter (\<lambda>r. zw_project r = Some pid) (zone_rows (nh_zones ?h)) = []"
    unfolding left by (auto simp: filter_empty_conv)
  then have "zones_project_gone pid (nh_zones ?h) = nh_zones ?h" by (simp add: zones_project_gone_def)
  with told show ?thesis by (simp add: delete_project_zones_def Let_def)
qed

lemma start_in_time:
  assumes "zone_codec sd zv" "between sd zv t t' (dn_sends e)" "told_in_time sd zv t h"
  shows "told_in_time sd zv t' (boot_dns e h)"
proof -
  have sound: "zones_sound (nh_zones h)" using assms(3) by (simp add: told_in_time_def)
  have "told_in_time sd zv t (snd (forget_ungranted h))"
  proof (rule untold_change [OF assms(3) order_refl])
    fix node i
    assume asked: "asked_of (nh_zones h) i node"
    have "zn_id z \<noteq> i" if "z \<in> set (zones_all (nh_zones h))" "zn_authority z \<noteq> None" for z
      using asked asked_is_ours agrees_zone [OF sound that(1)] that(2) by (auto simp: zone_is_ours_def)
    then show "asked_of (nh_zones (snd (forget_ungranted h))) i node"
      using asked by (auto simp: forget_ungranted_def Let_def split: option.splits)
  qed (use sound in \<open>simp_all add: forget_ungranted_def Let_def sound_deletes\<close>)
  then show ?thesis unfolding boot_dns_def by (rule tell_all_in_time [OF assms(1,2)])
qed

subsection \<open>Settling says nothing new\<close>

lemma sort_key_map: "sort_key f (map g xs) = map g (sort_key (f \<circ> g) xs)"
proof (induction xs)
  case (Cons x xs)
  have "insort_key f (g x) (map g ys) = map g (insort_key (f \<circ> g) x ys)" for ys
    by (induction ys) auto
  with Cons show ?case by (simp add: comp_def)
qed simp

lemma last_said_map:
  assumes "\<And>r. er_node (g r) = er_node r \<and> er_subject (g r) = er_subject r \<and> er_created (g r) = er_created r"
  shows "last_said node subject (map g rows) = map_option g (last_said node subject rows)"
proof -
  let ?rows = "filter (\<lambda>r. er_node r = node \<and> er_subject r = Some subject) rows"
  have rows: "filter (\<lambda>r. er_node r = node \<and> er_subject r = Some subject) (map g rows) = map g ?rows"
    using assms by (simp add: filter_map comp_def)
  have sorted: "sort_key er_created (map g ?rows) = map g (sort_key er_created ?rows)"
    using assms by (simp add: sort_key_map comp_def)
  have "set (sort_key er_created ?rows) = set ?rows" by (rule set_sort)
  then have "sort_key er_created ?rows \<noteq> []" if "?rows \<noteq> []" using that by (metis set_empty)
  then show ?thesis
    unfolding last_said_def rows newest_by_def sorted by (simp only: last_map map_is_Nil_conv) (simp add: last_map)
qed

lemma settle_in_time:
  assumes "told_in_time sd zv t h" "t \<le> t'"
  shows "told_in_time sd zv t' (h\<lparr>nh_errands := snd (settle now node i error (nh_errands h))\<rparr>)"
proof -
  define g :: "errand_entry \<Rightarrow> errand_entry" where
    "g = (\<lambda>r. if er_id r = i \<and> er_node r = node \<and> er_done r = None then r\<lparr>er_done := Some now, er_error := error\<rparr> else r)"
  have rows: "snd (settle now node i error (nh_errands h)) = map g (nh_errands h)"
    by (simp add: settle_def Let_def g_def)
  have g: "er_node (g r) = er_node r \<and> er_subject (g r) = er_subject r \<and> er_created (g r) = er_created r"
    "er_payload (g r) = er_payload r" for r
    by (simp_all add: g_def)
  have "still_told sd zv n j (map g (nh_errands h)) = still_told sd zv n j (nh_errands h)" for n j
    unfolding still_told_def last_said_map [of g, OF g(1)] says_def
    by (cases "last_said n (''zone:'' @ j) (nh_errands h)") (simp_all add: g(2))
  moreover have "rows_by t' (map g (nh_errands h))"
    using assms by (auto simp: told_in_time_def rows_by_def list_all_iff g_def)
  ultimately show ?thesis using assms by (simp add: told_in_time_def rightly_told_def rows)
qed

subsection \<open>A request at a console\<close>

lemma theirs_is_there:
  "theirs belongs orgs account project zone h = Inr (p, acc, z) \<Longrightarrow> z \<in> set (zones_all (nh_zones h))"
  by (auto simp: theirs_def split: if_splits option.splits dest: zone_by_name_Some)

lemma asked_save_delegation [simp]: "asked_of (save_delegation z d db) i node = asked_of db i node"
  by (simp add: save_delegation_def plain_edit_def)

lemma check_delegation_in_time:
  assumes "between sd zv t t' s" "told_in_time sd zv t h"
  shows "told_in_time sd zv t' (check_delegation e ask resolvers sentence z h)"
proof -
  have "told_in_time sd zv t' (h\<lparr>nh_zones := save_delegation z seen (nh_zones h)\<rparr>)" for seen
    by (rule untold_change [OF assms(2)])
      (use assms(2) between_le [OF assms(1)] in \<open>simp_all add: told_in_time_def sound_save_delegation\<close>)
  then show ?thesis
    using unchanged_in_time [OF assms(2,1)] by (simp add: check_delegation_def Let_def)
qed

lemma answer_in_time:
  assumes "zone_codec sd zv" "between sd zv t t' (dn_sends e)" "told_in_time sd zv t h"
  shows "told_in_time sd zv t' (snd (dns_answer e ask resolvers sentence at_node orgs tenants account request h))"
proof -
  have same: "told_in_time sd zv t' h" by (rule unchanged_in_time [OF assms(3,2)])
  have sound: "zones_sound (nh_zones h)" using assms(3) by (simp add: told_in_time_def)
  have found: "agrees z (nh_zones h)" if "theirs belongs orgs account project zone h = Inr (p, acc, z)"
    for belongs project zone p acc z
    using agrees_zone [OF sound theirs_is_there [OF that]] .
  note steps = add_record_in_time [OF assms] remove_record_in_time [OF assms] delete_zone_in_time [OF assms]
    check_delegation_in_time [OF assms(2,3)] set_zone_servers_in_time [OF assms] create_zone_in_time [OF assms]
  show ?thesis
  proof (cases request)
    case (CreateZone project name)
    then show ?thesis
      using same steps(6) by (auto simp: dns_answer_def user_create_zone_def zone_parse_stable split: option.splits sum.splits)
  next
    case (SetZoneServers project zone servers)
    then show ?thesis
      using same steps(5) theirs_is_there
      by (auto simp: dns_answer_def Let_def node_user_theirs_def split: sum.splits)
  next
    case (EvictZone zone)
    then show ?thesis
      using same steps(3) agrees_zone [OF sound] by (auto simp: dns_answer_def Let_def split: option.splits dest!: zone_by_name_Some)
  next
    case (SetNameServers names)
    have "told_in_time sd zv t (h\<lparr>nh_grants := st\<rparr>)" for st
      using assms(3) by (simp add: told_in_time_def rightly_told_def)
    then show ?thesis
      using SetNameServers same tell_all_in_time [OF assms(1,2)]
      by (auto simp: dns_answer_def Let_def set_name_servers_def split: sum.splits)
  qed (use same steps(1-4) found in
    \<open>auto simp: dns_answer_def Let_def deploying_def node_user_theirs_def tenant_user_theirs_def split: sum.splits\<close>)
qed

subsection \<open>Any run\<close>

fun event_sends :: "dns_event \<Rightarrow> (nat \<Rightarrow> sending) option" where
  "event_sends (Asked e _ _ _ _ _ _ _ _) = Some (dn_sends e)"
| "event_sends (Started e) = Some (dn_sends e)"
| "event_sends (ProjectDeleted e _) = Some (dn_sends e)"
| "event_sends _ = None"

text \<open>Each event with the time it is over by.\<close>

fun in_time :: "serde \<Rightarrow> (zone_args \<Rightarrow> json) \<Rightarrow> int \<Rightarrow> (int \<times> dns_event) list \<Rightarrow> bool" where
  "in_time sd zv t [] = True"
| "in_time sd zv t ((t', ev) # events) =
    (t \<le> t' \<and> (case event_sends ev of Some s \<Rightarrow> between sd zv t t' s | None \<Rightarrow> True) \<and> in_time sd zv t' events)"

lemma step_in_time:
  assumes "zone_codec sd zv" "told_in_time sd zv t h" "in_time sd zv t [(t', ev)]"
  shows "told_in_time sd zv t' (dns_step ev h)"
proof -
  have le: "t \<le> t'" and sound: "zones_sound (nh_zones h)" and same: "told_in_time sd zv t' h"
    using assms(2,3) rows_by_mono by (auto simp: told_in_time_def)
  show ?thesis
  proof (cases ev)
    case (Sent e ids authority zone)
    then show ?thesis
      using untold_change [OF assms(2) le, of "dns_step ev h"] sound
      by (simp add: sound_serve_zone asked_serve_zone)
  next
    case (Settled now node i error)
    then show ?thesis using settle_in_time [OF same] by simp
  qed (use assms same answer_in_time start_in_time delete_project_in_time in
    \<open>auto simp: told_in_time_def rightly_told_def\<close>)
qed

lemma run_in_time:
  assumes "zone_codec sd zv"
  shows "told_in_time sd zv t h \<Longrightarrow> in_time sd zv t events \<Longrightarrow>
    \<exists>t'. told_in_time sd zv t' (fold dns_step (map snd events) h)"
proof (induction events arbitrary: t h)
  case (Cons x events)
  obtain t' ev where x: "x = (t', ev)" by (cases x)
  with Cons.prems have "told_in_time sd zv t' (dns_step ev h)" by (intro step_in_time [OF assms]) auto
  with Cons.IH x Cons.prems(2) show ?case by simp
qed auto

text \<open>
  Property C11.  Where the clock does not go back, whoever is last told to answer for a zone is a
  server of it at that moment: whatever is asked at the consoles, arrives, is settled, is
  deleted or is granted and withdrawn, with restarts in between, a zone that is deleted (alone
  or with its project) or moved off a node leaves no node told to answer for it, and this node
  never tells itself.
\<close>

theorem nobody_is_left_answering:
  assumes "zone_codec sd zv" "told_in_time sd zv t h" "in_time sd zv t events"
  shows "(let h' = fold dns_step (map snd events) h in
    still_told sd zv node i (nh_errands h') \<longrightarrow>
    Some node \<noteq> me_of (nh_nodes h') \<and> node \<in> set (servers_of (nh_zones h') i) \<and>
    (\<exists>z\<in>set (zones_all (nh_zones h')). zn_id z = i \<and> zone_is_ours z))"
proof -
  let ?h = "fold dns_step (map snd events) h"
  obtain t' where told: "told_in_time sd zv t' ?h" using run_in_time [OF assms] by blast
  have "Some node \<noteq> me_of (nh_nodes ?h) \<and> node \<in> set (servers_of (nh_zones ?h) i) \<and>
      (\<exists>z\<in>set (zones_all (nh_zones ?h)). zn_id z = i \<and> zone_is_ours z)"
    if "still_told sd zv node i (nh_errands ?h)"
  proof -
    have asked: "asked_of (nh_zones ?h) i node" "Some node \<noteq> me_of (nh_nodes ?h)"
      using told that by (simp_all add: told_in_time_def rightly_told_def)
    then obtain r where "r \<in> set (zone_rows (nh_zones ?h))" "zw_id r = i" "zw_authority r = None"
      by (auto simp: asked_of_def list_ex_iff)
    with sound_zones_all obtain z where "z \<in> set (zones_all (nh_zones ?h))" "zn_id z = i" "zn_authority z = None"
      using told unfolding told_in_time_def by metis
    with asked show ?thesis by (auto simp: asked_of_def in_servers_of zone_is_ours_def)
  qed
  then show ?thesis by (simp add: Let_def)
qed

text \<open>A node with another that answers for it: a domain is taken up and its project deleted.\<close>

definition demo_pair :: name_host where
  "demo_pair = demo_host\<lparr>nh_nodes := nh_nodes demo_host @
    [\<lparr>nd_id = ''b'', nd_name = ''b'', nd_kind = Public, endpoint = Some ''b.io:80'', is_self = False,
      last_seen_at = None, allows = [Dns], draining_at = None, node_capacity = None, nd_name_servers = None\<rparr>]\<rparr>"

definition demo_life :: "(int \<times> dns_event) list" where
  "demo_life =
    [(5, Asked (demo_env ''1'') (\<lambda>_ _ _ _. Inl []) [] (\<lambda>_. []) False two_projects [] (accounts two_projects ! 1)
       (CreateZone ''b'' ''acme.io'')),
     (5, ProjectDeleted (demo_env ''2'') ''prj-b'')]"

lemma demo_codec: "zone_codec demo_serde demo_value"
  by (auto simp: zone_codec_def demo_serde_def demo_value_def split: if_splits)

lemma demo_start: "told_in_time demo_serde demo_value 5 demo_pair"
  by (auto simp: told_in_time_def demo_pair_def demo_host_def zones_sound_def zones_keyed_def zones_apart_def
      rows_by_def rightly_told_def still_told_def last_said_def says_def newest_by_def server_keys_def)

lemma demo_life_in_time: "in_time demo_serde demo_value 5 demo_life"
  by (auto simp: demo_life_def between_def demo_env_def demo_sending_def on_time_def)

theorem nobody_is_left_answering_witness:
  "let taken = fold dns_step (map snd (take 1 demo_life)) demo_pair;
       over = fold dns_step (map snd demo_life) demo_pair in
    still_told demo_serde demo_value ''b'' ''zone-1'' (nh_errands taken) \<and>
    \<not> still_told demo_serde demo_value ''b'' ''zone-1'' (nh_errands over)"
proof -
  let ?taken = "fold dns_step (map snd (take 1 demo_life)) demo_pair"
  let ?over = "fold dns_step (map snd demo_life) demo_pair"
  have "map_option er_payload (last_said ''b'' ''zone:zone-1'' (nh_errands ?taken)) = Some ''+acme.io''"
    by code_simp
  then obtain r where "last_said ''b'' ''zone:zone-1'' (nh_errands ?taken) = Some r" "er_payload r = ''+acme.io''"
    by auto
  then have "says demo_serde demo_value
      \<lparr>zone_name = ''acme.io'', zone_serial = 0, zone_ttl = 0, zone_records = [], zone_servers = [], zone_withdrawn = False\<rparr>
      (last_said ''b'' (''zone:'' @ ''zone-1'') (nh_errands ?taken))"
    by (simp add: says_def demo_serde_def demo_value_def)
  then have taken: "still_told demo_serde demo_value ''b'' ''zone-1'' (nh_errands ?taken)"
    unfolding still_told_def by (intro exI conjI) (auto simp del: append_Cons)
  have "zones_all (nh_zones ?over) = []" by code_simp
  with nobody_is_left_answering [OF demo_codec demo_start demo_life_in_time, of "''b''" "''zone-1''"]
  have "\<not> still_told demo_serde demo_value ''b'' ''zone-1'' (nh_errands ?over)" by (simp add: Let_def)
  with taken show ?thesis by (simp add: Let_def)
qed

section \<open>A zone is answered alike wherever it is held\<close>

text \<open>A record whose name and value are read back as they are.\<close>

definition plainly_said :: "string \<Rightarrow> dns_record \<Rightarrow> bool" where
  "plainly_said zone r \<longleftrightarrow> record_parse zone (dr_name r) = Inr (dr_name r) \<and> stored_back (dr_says r) = Inr (dr_says r)"

definition said_of :: "dns_record \<Rightarrow> string \<times> record_data \<times> u32" where
  "said_of r = (dr_name r, dr_says r, dr_ttl r)"

lemma record_kind_parse_name [simp]: "record_kind_parse (kind_name k) = Inr k"
proof -
  have "list_all (\<lambda>k. record_kind_parse (kind_name k) = Inr k) record_kinds" by code_simp
  moreover have "k \<in> set record_kinds" by (cases k) (simp_all add: record_kinds_def)
  ultimately show ?thesis by (simp add: list_all_iff)
qed

lemma received_said:
  assumes "list_all (plainly_said zone) rs"
  shows "received_records zone (map said_record rs) = map said_of rs"
  using assms
proof (induction rs)
  case (Cons r rs)
  then have "parse_said zone (dr_name r) (kind_name (data_kind (dr_says r))) (data_value (dr_says r)) (data_priority (dr_says r)) =
      Inr (dr_name r, dr_says r)"
    by (simp add: parse_said_def plainly_said_def stored_back_def or_refused_def bind_sum_def)
  with Cons show ?case
    by (simp add: received_records_def map_filter_simps said_record_def ok_of_def said_of_def)
qed (simp add: received_records_def map_filter_simps)

lemma map_filter_all: "list_all (\<lambda>x. f x = Some (g x)) xs \<Longrightarrow> List.map_filter f xs = map g xs"
  by (induction xs) (simp_all add: map_filter_simps)

text \<open>The rows a record is written as read back, whatever their order and ids.\<close>

lemma read_written:
  assumes "plainly_said (zn_name z) r" "record_new i (zn_id z) (dr_name r) (dr_says r) (dr_ttl r) = Inr x"
  shows "map_option said_of (ok_of (read_record z (row_of_record now i (zn_id z) (dr_name r) (dr_says r) (dr_ttl r)))) =
    Some (said_of r)"
proof -
  have "read_record z (row_of_record now i (zn_id z) (dr_name r) (dr_says r) (dr_ttl r)) = Inr x"
    using assms by (simp add: read_record_def parse_said_def plainly_said_def stored_back_def or_refused_def
        bind_sum_def row_of_record_def)
  moreover have "said_of x = said_of r" using assms(2) by (auto simp: record_new_def said_of_def split: if_splits)
  ultimately show ?thesis by (simp add: ok_of_def)
qed

lemma records_are_sound:
  assumes "r \<in> set (records_of db z)"
  shows "record_new i j (dr_name r) (dr_says r) (dr_ttl r) = Inr \<lparr>dr_id = i, dr_zone = j, dr_name = dr_name r,
    dr_says = dr_says r, dr_ttl = dr_ttl r\<rparr>"
proof -
  obtain row where "ok_of (read_record z row) = Some r"
    using assms by (auto simp: records_of_def set_map_filter)
  then obtain at d where "record_new (rw_id row) (zn_id z) at d (rw_ttl row) = Inr r"
    by (auto simp: ok_of_def read_record_def bind_sum_def split: sum.splits)
  then show ?thesis by (auto simp: record_new_def split: if_splits)
qed

lemma mset_map_filter: "mset (List.map_filter f xs) = image_mset (the \<circ> f) (filter_mset (\<lambda>x. f x \<noteq> None) (mset xs))"
  by (induction xs) (auto simp: map_filter_simps split: option.splits)

lemma records_written:
  assumes "list_all (plainly_said (zn_name z)) rs"
    "\<And>r i j. r \<in> set rs \<Longrightarrow> \<exists>x. record_new i j (dr_name r) (dr_says r) (dr_ttl r) = Inr x"
    "filter (\<lambda>r. rw_zone r = zn_id z) (record_rows db) =
      map (\<lambda>(k, name, d, ttl). row_of_record now (ids k) (zn_id z) name d ttl) (enumerate n (map said_of rs))"
  shows "mset (map said_of (records_of db z)) = mset (map said_of rs)"
proof -
  let ?row = "\<lambda>(k, name, d, ttl). row_of_record now (ids k) (zn_id z) name d ttl"
  let ?read = "\<lambda>r. map_option said_of (ok_of (read_record z r))"
  have row: "?read (?row (k, said_of r)) = Some (said_of r)" if "r \<in> set rs" for k r
  proof -
    obtain x where "record_new (ids k) (zn_id z) (dr_name r) (dr_says r) (dr_ttl r) = Inr x" using assms(2) \<open>r \<in> set rs\<close> by blast
    then show ?thesis
      using read_written [of z r "ids k"] assms(1) that by (simp add: list_all_iff said_of_def)
  qed
  have read: "List.map_filter ?read (map ?row (enumerate n (map said_of rs))) = map said_of rs" for n
    using row
  proof (induction rs arbitrary: n)
    case (Cons r rs)
    have "?read (?row (n, said_of r)) = Some (said_of r)" by (rule Cons.prems) simp
    moreover have "List.map_filter ?read (map ?row (enumerate (Suc n) (map said_of rs))) = map said_of rs"
      using Cons.IH Cons.prems by simp
    ultimately show ?case by (simp only: list.map enumerate_simps map_filter_simps option.case)
  qed (simp add: map_filter_simps)
  have each: "map said_of (List.map_filter (\<lambda>r. ok_of (read_record z r)) rows) = List.map_filter ?read rows" for rows
    by (induction rows) (auto simp: map_filter_simps split: option.splits)
  have "mset (records_of db z) = mset (List.map_filter (\<lambda>r. ok_of (read_record z r))
      (map ?row (enumerate n (map said_of rs))))"
    unfolding records_of_def assms(3) by (simp add: mset_map_filter)
  then have "mset (map said_of (records_of db z)) = mset (map said_of (List.map_filter (\<lambda>r. ok_of (read_record z r))
      (map ?row (enumerate n (map said_of rs)))))" by simp
  then show ?thesis unfolding each read .
qed

lemma sent_names_back: "list_all (\<lambda>n. n \<noteq> [] \<and> CHR '','' \<notin> set n) ns \<Longrightarrow> comma_names (join_with '','' ns) = ns"
proof (induction ns)
  case (Cons n ns)
  then show ?case
  proof (cases ns)
    case (Cons m ms)
    then have "join_with '','' (n # ns) = n @ CHR '','' # join_with '','' ns" by simp
    with Cons.IH Cons.prems show ?thesis by (simp add: comma_names_def split_on_append)
  qed (simp add: comma_names_def split_on_free)
qed (simp add: comma_names_def)

lemma enumerate_ids:
  assumes "inj ids"
  shows "distinct (map (\<lambda>(k, x). ids k) (enumerate n xs)) \<and> set (map (\<lambda>(k, x). ids k) (enumerate n xs)) \<subseteq> ids ` {n..}"
proof (induction xs arbitrary: n)
  case (Cons x xs)
  have "ids n \<notin> ids ` {Suc n..}" using assms by (auto dest: injD)
  then have "ids n \<notin> set (map (\<lambda>(k, x). ids k) (enumerate (Suc n) xs))" using Cons.IH [of "Suc n"] by blast
  moreover have "ids ` {Suc n..} \<subseteq> ids ` {n..}" by auto
  ultimately show ?case using Cons.IH [of "Suc n"] by auto
qed simp

lemma no_zone_no_row:
  assumes "zones_sound db" "zone_by_name db name = None" "zone_parse name = Inr name"
  shows "\<not> list_ex (\<lambda>r. zw_name r = name) (zone_rows db)"
  using assms sound_zones_all [OF assms(1)] by (fastforce simp: zone_by_name_def find_None_iff list_ex_iff)

lemma replace_taken:
  assumes "zones_sound db" "zone_parse (rc_name rc) = Inr (rc_name rc)"
    "case zone_by_name db (rc_name rc) of None \<Rightarrow> True | Some x \<Rightarrow> zn_authority x = Some (rc_authority rc)"
    "''zone-'' @ g \<notin> zone_ids db" "inj ids" "\<forall>k. ''rec-'' @ ids k \<notin> rw_id ` set (record_rows db)"
  shows "\<exists>db'. let i = (case zone_by_name db (rc_name rc) of Some x \<Rightarrow> zn_id x | None \<Rightarrow> ''zone-'' @ g) in
    replace_received now g ids rc db = Inr db' \<and>
    filter (\<lambda>r. rw_zone r = i) (record_rows db') =
      map (\<lambda>(k, name, d, ttl). row_of_record now (''rec-'' @ ids k) i name d ttl) (enumerate 0 (rc_records rc)) \<and>
    (\<exists>r\<in>set (zone_rows db'). zw_id r = i \<and> zw_name r = rc_name rc \<and> zw_authority r = Some (rc_authority rc) \<and>
       zw_serial r = rc_serial rc \<and> zw_ttl r = rc_ttl rc \<and> zw_servers r = Some (join_with '','' (rc_servers rc)))"
proof -
  define i where "i = (case zone_by_name db (rc_name rc) of Some x \<Rightarrow> zn_id x | None \<Rightarrow> ''zone-'' @ g)"
  define written where "written = map (\<lambda>(k, name, d, ttl). row_of_record now (''rec-'' @ ids k) i name d ttl)
      (enumerate 0 (rc_records rc))"
  let ?kept = "filter (\<lambda>r. rw_zone r \<noteq> i) (record_rows db)"
  have ids: "map rw_id written = map (\<lambda>(k, x). ''rec-'' @ ids k) (enumerate 0 (rc_records rc))"
    by (simp add: written_def row_of_record_def comp_def case_prod_beta)
  have "inj (\<lambda>k. ''rec-'' @ ids k)" using assms(5) by (simp add: inj_def)
  note apart = enumerate_ids [OF this, of 0 "rc_records rc"]
  have distinct: "distinct (map rw_id (?kept @ written))"
  proof -
    have "set (map rw_id written) \<inter> rw_id ` set (record_rows db) = {}"
    proof -
      have "set (map rw_id written) \<subseteq> range (\<lambda>k. ''rec-'' @ ids k)" using apart unfolding ids by blast
      moreover have "range (\<lambda>k. ''rec-'' @ ids k) \<inter> rw_id ` set (record_rows db) = {}"
        using assms(6) by (intro equals0I) (simp only: Int_iff image_iff, blast)
      ultimately show ?thesis by blast
    qed
    moreover have "set (map rw_id ?kept) \<subseteq> rw_id ` set (record_rows db)" by auto
    ultimately have "set (map rw_id ?kept) \<inter> set (map rw_id written) = {}" by blast
    moreover have "distinct (map rw_id ?kept)"
      using assms(1) by (simp add: zones_sound_def zones_keyed_def distinct_map_filter)
    ultimately show ?thesis using apart ids by (simp only: map_append distinct_append)
  qed
  have written: "filter (\<lambda>r. rw_zone r = i) written = written"
    by (auto simp: written_def row_of_record_def filter_id_conv)
  show ?thesis
  proof (cases "zone_by_name db (rc_name rc)")
    case None
    then have "i \<notin> zw_id ` set (zone_rows db)" using assms(4) by (simp add: i_def zone_ids_def)
    then have "\<not> list_ex (\<lambda>r. zw_id r = i) (zone_rows db)" "\<not> list_ex (\<lambda>r. zw_name r = rc_name rc) (zone_rows db)"
      using no_zone_no_row [OF assms(1) None assms(2)] by (auto simp: list_ex_iff)
    with None distinct show ?thesis
      unfolding replace_received_def Let_def i_def [symmetric] written_def [symmetric] by (simp add: written)
  next
    case (Some x)
    obtain r where r: "r \<in> set (zone_rows db)" "read_zone r = Some x"
      using zone_by_name_Some(2) [OF Some] by (auto simp: in_zones_all)
    have x: "zw_id r = i" "zw_authority r = Some (rc_authority rc)" "zw_name r = rc_name rc" "zn_authority x = Some (rc_authority rc)"
      using read_zone_columns [OF r(2)] Some assms(1,2,3) r(1) zone_by_name_Some(1) [OF Some]
      by (auto simp: i_def zones_sound_def zones_keyed_def list_all_iff)
    then have "list_ex (\<lambda>r. zw_id r = i) (zone_rows db)" using r(1) by (auto simp: list_ex_iff)
    with Some x r(1) distinct show ?thesis
      unfolding replace_received_def Let_def i_def [symmetric] written_def [symmetric]
      by (simp add: written zone_is_ours_def)
        (intro bexI [of _ "r\<lparr>zw_serial := rc_serial rc, zw_ttl := rc_ttl rc,
          zw_servers := Some (join_with '','' (rc_servers rc)), zw_updated := now\<rparr>"]; simp)
  qed
qed

text \<open>
  Property C15.  A zone sent to a node that does not have it, or has it from the sender, is
  taken; and where this node is granted it is then answered there with the sender's serial, name
  servers and TTL and with exactly the sender's records, as long as what they say is read back
  as it is stored.
\<close>

theorem a_zone_is_answered_alike:
  assumes "zones_sound (nh_zones a)" "z \<in> set (zones_all (nh_zones a))"
    and "list_all (plainly_said (zn_name z)) (records_of (nh_zones a) z)"
    and "list_all (\<lambda>n. n \<noteq> [] \<and> CHR '','' \<notin> set n) (zone_servers (zone_now a z))"
    and "zones_sound (nh_zones b)" "Dns \<in> set (granted_to (nh_grants b) sender)"
    and "case zone_by_name (nh_zones b) (zn_name z) of None \<Rightarrow> True | Some x \<Rightarrow> zn_authority x = Some sender"
    and "''zone-'' @ g \<notin> zone_ids (nh_zones b)" "inj ids" "\<forall>k. ''rec-'' @ ids k \<notin> rw_id ` set (record_rows (nh_zones b))"
  shows "(let (refused, db) = serve_zone now g ids sender (zone_now a z) (nh_zones b) in
    refused = None \<and>
    (\<exists>s\<in>set (what_this_node_serves (b\<lparr>nh_zones := db\<rparr>)).
      zn_name (sv_zone s) = zn_name z \<and> zn_serial (sv_zone s) = zn_serial z \<and>
      zn_default_ttl (sv_zone s) = zn_default_ttl z \<and> sv_names s = zone_servers (zone_now a z) \<and>
      mset (map said_of (sv_records s)) = mset (map said_of (records_of (nh_zones a) z))))"
proof -
  let ?rs = "records_of (nh_zones a) z" and ?names = "zone_servers (zone_now a z)" and ?db = "nh_zones b"
  have name: "zone_parse (zn_name z) = Inr (zn_name z)"
    using assms(1,2) read_zone_columns zone_parse_stable by (metis in_zones_all)
  define rc where "rc = \<lparr>rc_name = zn_name z, rc_authority = sender, rc_serial = zn_serial z, rc_ttl = zn_default_ttl z,
      rc_records = map said_of ?rs, rc_servers = ?names\<rparr>"
  have serve: "serve_zone now g ids sender (zone_now a z) ?db =
      (case replace_received now g ids rc ?db of Inl e \<Rightarrow> (Some e, ?db) | Inr db' \<Rightarrow> (None, db'))"
    using name received_said [OF assms(3)] by (simp add: serve_zone_def rc_def zone_now_def)
  define i where "i = (case zone_by_name ?db (zn_name z) of Some x \<Rightarrow> zn_id x | None \<Rightarrow> ''zone-'' @ g)"
  have rc: "rc_name rc = zn_name z" "rc_authority rc = sender" by (simp_all add: rc_def)
  have taken: "zone_parse (rc_name rc) = Inr (rc_name rc)"
    "case zone_by_name ?db (rc_name rc) of None \<Rightarrow> True | Some x \<Rightarrow> zn_authority x = Some (rc_authority rc)"
    using assms(7) name by (simp_all only: rc)
  obtain db where db: "replace_received now g ids rc ?db = Inr db"
    "filter (\<lambda>r. rw_zone r = i) (record_rows db) =
      map (\<lambda>(k, name, d, ttl). row_of_record now (''rec-'' @ ids k) i name d ttl) (enumerate 0 (rc_records rc))"
    "\<exists>r\<in>set (zone_rows db). zw_id r = i \<and> zw_name r = rc_name rc \<and> zw_authority r = Some sender \<and>
       zw_serial r = rc_serial rc \<and> zw_ttl r = rc_ttl rc \<and> zw_servers r = Some (join_with '','' (rc_servers rc))"
    using replace_taken [OF assms(5) taken assms(8,9,10), of now, unfolded rc Let_def i_def [symmetric]] rc by auto
  have sound: "zones_sound db" using sound_replace [OF assms(5) _ db(1)] name by (simp add: rc_def)
  obtain r where r: "r \<in> set (zone_rows db)" "zw_id r = i" "zw_name r = zn_name z" "zw_authority r = Some sender"
      "zw_serial r = zn_serial z" "zw_ttl r = zn_default_ttl z" "zw_servers r = Some (join_with '','' ?names)"
    using db(3) by (auto simp: rc_def)
  obtain x where x: "read_zone r = Some x" "zn_id x = i" "zn_name x = zn_name z" "zn_authority x = Some sender"
      "zn_serial x = zn_serial z" "zn_default_ttl x = zn_default_ttl z" "zn_received x = ?names"
    using r name sent_names_back [OF assms(4)] by (simp add: read_zone_def)
  have "\<exists>y. record_new k j (dr_name r) (dr_says r) (dr_ttl r) = Inr y" if "r \<in> set ?rs" for r k j
    using records_are_sound [OF that] by blast
  then have "mset (map said_of (records_of db x)) = mset (map said_of ?rs)"
    using records_written [of x ?rs db now "\<lambda>k. ''rec-'' @ ids k" 0] assms(3) db(2) x(2,3) by (simp add: rc_def)
  moreover have "x \<in> set (zones_all db)" using r(1) x(1) by (auto simp: in_zones_all)
  then have "\<lparr>sv_zone = x, sv_records = records_of db x, sv_names = ?names\<rparr> \<in> set (what_this_node_serves (b\<lparr>nh_zones := db\<rparr>))"
    using x(4,7) assms(6)
    by (auto simp: what_this_node_serves_def set_map_filter serve_one_def Let_def zone_is_ours_def intro!: bexI [of _ x])
  ultimately show ?thesis
    using x by (auto simp: serve db(1) intro!: bexI [rotated])
qed

text \<open>The domain of the demonstration, with a record, sent to a node that was granted nothing else.\<close>

definition demo_teller :: name_host where
  "demo_teller = demo_pair\<lparr>nh_zones :=
    \<lparr>zone_rows = [\<lparr>zw_id = ''zone-1'', zw_name = ''acme.io'', zw_project = Some ''prj-b'', zw_authority = None,
       zw_serial = 7, zw_ttl = 300, zw_status = None, zw_note = None, zw_checked = None, zw_servers = None,
       zw_created = 0, zw_updated = 0\<rparr>],
     record_rows = [\<lparr>rw_id = ''rec-1'', rw_zone = ''zone-1'', rw_name = ''www'', rw_kind = ''A'',
       rw_value = ''203.0.113.7'', rw_priority = None, rw_ttl = 300, rw_created = 0\<rparr>],
     server_rows = [\<lparr>sw_zone = ''zone-1'', sw_node = ''b'', sw_position = 0\<rparr>]\<rparr>\<rparr>"

definition demo_server :: name_host where
  "demo_server = demo_host\<lparr>nh_grants :=
    \<lparr>settings = [(''node.provides.dns'', ''on'')], node_grant = [((''me'', ''dns''), 0)], node_grant_withdrawn = []\<rparr>\<rparr>"

theorem a_zone_is_answered_alike_witness:
  "let db = snd (serve_zone 9 ''x'' (\<lambda>k. replicate k CHR ''r'') ''me''
      (zone_now demo_teller (hd (zones_all (nh_zones demo_teller)))) (nh_zones demo_server)) in
    \<exists>s\<in>set (what_this_node_serves (demo_server\<lparr>nh_zones := db\<rparr>)).
      zn_name (sv_zone s) = ''acme.io'' \<and> zn_serial (sv_zone s) = 7 \<and> sv_names s = [''b.io''] \<and>
      mset (map said_of (sv_records s)) = {#(''www'', RecordA (203, 0, 113, 7), 300)#}"
proof -
  let ?z = "hd (zones_all (nh_zones demo_teller))"
  let ?sent = "serve_zone 9 ''x'' (\<lambda>k. replicate k CHR ''r'') ''me'' (zone_now demo_teller ?z) (nh_zones demo_server)"
  have teller: "zones_sound (nh_zones demo_teller)" "zones_all (nh_zones demo_teller) \<noteq> []"
    "list_all (plainly_said (zn_name ?z)) (records_of (nh_zones demo_teller) ?z)"
    "zone_servers (zone_now demo_teller ?z) = [''b.io'']" "zn_name ?z = ''acme.io''" "zn_serial ?z = 7"
    "map said_of (records_of (nh_zones demo_teller) ?z) = [(''www'', RecordA (203, 0, 113, 7), 300)]"
    by code_simp+
  have server: "zones_sound (nh_zones demo_server)" "Dns \<in> set (granted_to (nh_grants demo_server) ''me'')"
    "zone_by_name (nh_zones demo_server) (zn_name ?z) = None" "record_rows (nh_zones demo_server) = []"
    "''zone-x'' \<notin> zone_ids (nh_zones demo_server)"
    by code_simp+
  have z: "?z \<in> set (zones_all (nh_zones demo_teller))" using teller(2) by simp
  have "list_all (\<lambda>n. n \<noteq> [] \<and> CHR '','' \<notin> set n) (zone_servers (zone_now demo_teller ?z))" by (simp add: teller(4))
  moreover have "case zone_by_name (nh_zones demo_server) (zn_name ?z) of None \<Rightarrow> True | Some x \<Rightarrow> zn_authority x = Some ''me''"
    by (simp add: server(3))
  moreover have "''zone-'' @ ''x'' \<notin> zone_ids (nh_zones demo_server)" using server(5) by simp
  moreover have "inj (\<lambda>k. replicate k CHR ''r'')" by (auto simp: inj_def)
  moreover have "\<forall>k. ''rec-'' @ replicate k CHR ''r'' \<notin> rw_id ` set (record_rows (nh_zones demo_server))"
    by (simp add: server(4))
  ultimately have "\<exists>s\<in>set (what_this_node_serves (demo_server\<lparr>nh_zones := snd ?sent\<rparr>)).
      zn_name (sv_zone s) = zn_name ?z \<and> zn_serial (sv_zone s) = zn_serial ?z \<and>
      zn_default_ttl (sv_zone s) = zn_default_ttl ?z \<and> sv_names s = zone_servers (zone_now demo_teller ?z) \<and>
      mset (map said_of (sv_records s)) = mset (map said_of (records_of (nh_zones demo_teller) ?z))"
    using a_zone_is_answered_alike [OF teller(1) z teller(3) _ server(1,2), of "''x''" "\<lambda>k. replicate k CHR ''r''" 9]
    by (simp add: case_prod_beta)
  then show ?thesis unfolding Let_def teller(4-7) by auto
qed

end
