(* ===== verification/Publishing.thy ===== *)
theory Publishing
  imports Nameserver
begin

text \<open>
  The names services answer on: ports (infra/repositories/ports.rs), names that redirect
  (redirects.rs), which nodes answer for which name and what they share (edges.rs), where a name
  leads (infra/deploy/dns.rs), and the commands behind the forms (features/services,
  features/databases, features/organisations).

  What the operating system's resolver answers is a parameter, and so is whether a write that
  fails half way keeps its first statements, which the database library decides.
\<close>

section \<open>The rows\<close>

record port =
  port_id :: string
  port_service :: string
  container_port :: u16
  host_port :: "u16 option"
  port_hostname :: "string option"

record redirect_row =
  rd_hostname :: string
  rd_port :: string
  rd_created :: int

record edge_row =
  eg_service :: string
  eg_hostname :: string
  eg_node :: string
  eg_created :: int

record names_db =
  service_keys :: "string list"
  port_rows :: "port list"
  redirect_rows :: "redirect_row list"
  edge_rows :: "edge_row list"
  edge_peer_rows :: "(string \<times> string) list"
  edge_secret_rows :: "(string, string) table"

datatype names_refusal =
    NoPortNumber | REDIRECTS_ALREADY | IS_A_REGISTRY | HostnameTaken | RanOutOfPorts | AlreadyDeclares
  | AllPublished nat | NoSuchPort | NO_TARGET | NeedsAName | WILDCARD_REFUSED | TO_ITSELF | IS_A_HOSTNAME
  | ALREADY_REDIRECTS | NO_SUCH_REDIRECT | NamesStorage

text \<open>
  One call: the moment, the generated id and secret, whether a failed write keeps its first
  statements, this node, and the projects (whose registry names are not to be taken).
\<close>

record names_env =
  nv_now :: int
  nv_id :: string
  nv_secret :: string
  nv_keeps :: bool
  nv_me :: "node option"
  nv_orgs :: org_db

section \<open>Who answers for a name (edges.rs)\<close>

definition edge_nodes_for :: "names_db \<Rightarrow> string \<Rightarrow> string list" where
  "edge_nodes_for db host = map eg_node (sort_key eg_created (filter (\<lambda>r. eg_hostname r = host) (edge_rows db)))"

definition edges_of_node :: "names_db \<Rightarrow> string option \<Rightarrow> string list" where
  "edges_of_node db node =
    (case node of None \<Rightarrow> []
     | Some n \<Rightarrow> map eg_hostname (filter (\<lambda>r. eg_node r = n) (edge_rows db)))"

definition edges_all :: "names_db \<Rightarrow> (string \<times> string) list" where
  "edges_all db = map (\<lambda>r. (eg_hostname r, eg_node r)) (edge_rows db)"

definition edges_of_service :: "names_db \<Rightarrow> string \<Rightarrow> (string \<times> string) list" where
  "edges_of_service db sid =
    map (\<lambda>r. (eg_hostname r, eg_node r))
      (sort_key (\<lambda>r. (eg_hostname r, eg_created r)) (filter (\<lambda>r. eg_service r = sid) (edge_rows db)))"

text \<open>Inserting one by one until a row is there already.\<close>

fun insert_edges :: "int \<Rightarrow> string \<Rightarrow> string \<Rightarrow> string list \<Rightarrow> edge_row list \<Rightarrow> bool \<times> edge_row list" where
  "insert_edges now sid host [] rows = (True, rows)"
| "insert_edges now sid host (n # ns) rows =
    (if list_ex (\<lambda>r. eg_hostname r = host \<and> eg_node r = n) rows then (False, rows)
     else insert_edges now sid host ns
       (rows @ [\<lparr>eg_service = sid, eg_hostname = host, eg_node = n, eg_created = now\<rparr>]))"

definition remember_peers :: "names_env \<Rightarrow> string \<Rightarrow> string list \<Rightarrow> names_db \<Rightarrow> names_db" where
  "remember_peers e host nodes db =
    (let me = map_option nd_id (nv_me e);
         wanted = filter (\<lambda>n. Some n \<noteq> me) nodes in
     db\<lparr>edge_peer_rows := filter (\<lambda>p. fst p \<noteq> host) (edge_peer_rows db) @ map (Pair host) wanted,
        edge_secret_rows := (if map_of (edge_secret_rows db) host = None
          then edge_secret_rows db @ [(host, nv_secret e)] else edge_secret_rows db)\<rparr>)"

text \<open>Who was dropped; or a node named twice, and what of the write is kept.\<close>

definition edges_set :: "names_env \<Rightarrow> string \<Rightarrow> string \<Rightarrow> string list \<Rightarrow> names_db
    \<Rightarrow> (names_refusal + string list) \<times> names_db" where
  "edges_set e sid host nodes db =
    (let before = edge_nodes_for db host;
         (whole, rows) = insert_edges (nv_now e) sid host nodes (filter (\<lambda>r. eg_hostname r \<noteq> host) (edge_rows db)) in
     if nodes \<noteq> [] \<and> sid \<notin> set (service_keys db)
     then (Inl NamesStorage,
       if nv_keeps e then db\<lparr>edge_rows := filter (\<lambda>r. eg_hostname r \<noteq> host) (edge_rows db)\<rparr> else db)
     else if \<not> whole then (Inl NamesStorage, if nv_keeps e then db\<lparr>edge_rows := rows\<rparr> else db)
     else (Inr (filter (\<lambda>n. n \<notin> set nodes) before), remember_peers e host nodes (db\<lparr>edge_rows := rows\<rparr>)))"

definition accept_secret :: "string \<Rightarrow> string \<Rightarrow> names_db \<Rightarrow> names_db" where
  "accept_secret host secret db = db\<lparr>edge_secret_rows := AList.update host secret (edge_secret_rows db)\<rparr>"

definition peers_for :: "names_db \<Rightarrow> string \<Rightarrow> string list" where
  "peers_for db host = sort (map snd (filter (\<lambda>p. fst p = host) (edge_peer_rows db)))"

definition secret_for :: "names_db \<Rightarrow> string \<Rightarrow> string option" where
  "secret_for db host = map_of (edge_secret_rows db) host"

section \<open>Ports (ports.rs)\<close>

definition HOST_PORT_RANGE :: "nat list" where
  "HOST_PORT_RANGE = [20000..<29000]"

definition ports_of_service :: "names_db \<Rightarrow> string \<Rightarrow> port list" where
  "ports_of_service db sid = sort_key container_port (filter (\<lambda>p. port_service p = sid) (port_rows db))"

definition ports_all :: "names_db \<Rightarrow> port list" where
  "ports_all db = sort_key (\<lambda>p. (port_service p, container_port p)) (port_rows db)"

definition name_redirects :: "names_db \<Rightarrow> string \<Rightarrow> bool" where
  "name_redirects db name \<longleftrightarrow> list_ex (\<lambda>r. rd_hostname r = hostname_parse name) (redirect_rows db)"

definition free_host_port :: "names_db \<Rightarrow> names_refusal + u16" where
  "free_host_port db =
    (let taken = List.map_filter (\<lambda>p. map_option unat (host_port p)) (port_rows db) in
     case List.find (\<lambda>c. c \<notin> set taken) HOST_PORT_RANGE of
       Some c \<Rightarrow> Inr (of_nat c) | None \<Rightarrow> Inl (AllPublished (length taken)))"

text \<open>This node takes a name nobody answers for, where it can be dialled.\<close>

definition serve_from :: "names_env \<Rightarrow> string \<Rightarrow> string \<Rightarrow> string list \<Rightarrow> names_db
    \<Rightarrow> names_refusal option \<times> names_db" where
  "serve_from e sid host nodes db =
    (let serving = edge_nodes_for db host;
         wanted = (if nodes = []
           then (case nv_me e of Some me \<Rightarrow> if may_be_edge me then [nd_id me] else [] | None \<Rightarrow> [])
           else nodes);
         serving' = foldl (\<lambda>s n. if n \<in> set s then s else s @ [n]) serving wanted in
     if serving' = serving then (None, db)
     else case edges_set e sid host serving' db of
       (Inl r, db) \<Rightarrow> (Some r, db) | (Inr _, db) \<Rightarrow> (None, db))"

text \<open>The refusal is rebuilt from which unique index failed: the hostname's is looked for first.\<close>

definition refused_insert :: "port \<Rightarrow> port list \<Rightarrow> names_refusal option" where
  "refused_insert p rows =
    (if list_ex (\<lambda>q. port_hostname p \<noteq> None \<and> port_hostname q = port_hostname p) rows then Some HostnameTaken
     else if list_ex (\<lambda>q. host_port p \<noteq> None \<and> host_port q = host_port p) rows then Some RanOutOfPorts
     else if list_ex (\<lambda>q. port_id q = port_id p \<or>
         port_service q = port_service p \<and> container_port q = container_port p) rows then Some AlreadyDeclares
     else None)"

definition port_create :: "names_env \<Rightarrow> string \<Rightarrow> u16 \<Rightarrow> bool \<Rightarrow> string option \<Rightarrow> string list \<Rightarrow> names_db
    \<Rightarrow> (names_refusal + port) \<times> names_db" where
  "port_create e sid container publish hostname served_by db =
    (let hostname = Option.bind (map_option hostname_parse hostname) (\<lambda>n. if n = [] then None else Some n) in
     if container = 0 then (Inl NoPortNumber, db)
     else if (case hostname of Some n \<Rightarrow> name_redirects db n | None \<Rightarrow> False) then (Inl REDIRECTS_ALREADY, db)
     else if (case hostname of Some n \<Rightarrow> is_a_registry (nv_orgs e) n | None \<Rightarrow> False) then (Inl IS_A_REGISTRY, db)
     else case (if publish then map_sum id Some (free_host_port db) else Inr None) of
       Inl r \<Rightarrow> (Inl r, db)
     | Inr at \<Rightarrow>
        (let p = \<lparr>port_id = ''prt-'' @ nv_id e, port_service = sid, container_port = container,
               host_port = at, port_hostname = hostname\<rparr> in
         case refused_insert p (port_rows db) of
           Some r \<Rightarrow> (Inl r, db)
         | None \<Rightarrow>
            if sid \<notin> set (service_keys db) then (Inl NamesStorage, db)
            else
              (let db = db\<lparr>port_rows := port_rows db @ [p]\<rparr> in
               case hostname of
                 None \<Rightarrow> (Inr p, db)
               | Some n \<Rightarrow> (case serve_from e sid n served_by db of
                   (Some r, db) \<Rightarrow> (Inl r, db) | (None, db) \<Rightarrow> (Inr p, db)))))"

text \<open>The redirects to a port, and who answered for their names.\<close>

definition forget_redirects_of :: "string \<Rightarrow> names_db \<Rightarrow> names_db" where
  "forget_redirects_of pid db =
    (let gone = map rd_hostname (filter (\<lambda>r. rd_port r = pid) (redirect_rows db)) in
     db\<lparr>edge_rows := filter (\<lambda>r. eg_hostname r \<notin> set gone) (edge_rows db),
        redirect_rows := filter (\<lambda>r. rd_port r \<noteq> pid) (redirect_rows db)\<rparr>)"

definition edit_port :: "string \<Rightarrow> (port \<Rightarrow> port) \<Rightarrow> names_db \<Rightarrow> names_db" where
  "edit_port pid f db = db\<lparr>port_rows := map (\<lambda>p. if port_id p = pid then f p else p) (port_rows db)\<rparr>"

definition port_set_hostname :: "names_env \<Rightarrow> string \<Rightarrow> string option \<Rightarrow> names_db
    \<Rightarrow> names_refusal option \<times> names_db" where
  "port_set_hostname e pid hostname db =
    (if (case hostname of Some n \<Rightarrow> name_redirects db n | None \<Rightarrow> False) then (Some REDIRECTS_ALREADY, db)
     else if (case hostname of Some n \<Rightarrow> is_a_registry (nv_orgs e) n | None \<Rightarrow> False) then (Some IS_A_REGISTRY, db)
     else
      (let p = List.find (\<lambda>p. port_id p = pid) (ports_all db);
           was = Option.bind p port_hostname;
           serving = (case was of Some w \<Rightarrow> edge_nodes_for db w | None \<Rightarrow> []) in
       if hostname \<noteq> None \<and> p \<noteq> None \<and>
          list_ex (\<lambda>q. port_id q \<noteq> pid \<and> port_hostname q = hostname) (port_rows db)
       then (Some HostnameTaken, db)
       else
        (let db = edit_port pid (\<lambda>p. p\<lparr>port_hostname := hostname\<rparr>)
               (if hostname = None then forget_redirects_of pid db else db);
             (failed, db) = (case (was, p) of
                 (Some w, Some p) \<Rightarrow>
                   if Some w \<noteq> hostname then
                     (case edges_set e (port_service p) w [] db of
                        (Inl r, db) \<Rightarrow> (Some r, db) | (Inr _, db) \<Rightarrow> (None, db))
                   else (None, db)
               | _ \<Rightarrow> (None, db)) in
         case failed of Some r \<Rightarrow> (Some r, db)
         | None \<Rightarrow>
            (case (hostname, p) of
               (Some n, Some p) \<Rightarrow>
                 if serving = [] then serve_from e (port_service p) n [] db
                 else (case edges_set e (port_service p) n serving db of
                    (Inl r, db) \<Rightarrow> (Some r, db) | (Inr _, db) \<Rightarrow> (None, db))
             | _ \<Rightarrow> (None, db)))))"

definition port_set_published :: "string \<Rightarrow> bool \<Rightarrow> names_db
    \<Rightarrow> (names_refusal + u16 option) \<times> names_db" where
  "port_set_published pid publish db =
    (case List.find (\<lambda>p. port_id p = pid) (ports_all db) of
       None \<Rightarrow> (Inl NoSuchPort, db)
     | Some p \<Rightarrow>
        (case (publish, host_port p) of
           (True, Some held) \<Rightarrow> (Inr (Some held), db)
         | (True, None) \<Rightarrow>
            (case free_host_port db of
               Inl r \<Rightarrow> (Inl r, db)
             | Inr c \<Rightarrow> (Inr (Some c), edit_port pid (\<lambda>p. p\<lparr>host_port := Some c\<rparr>) db))
         | (False, None) \<Rightarrow> (Inr None, db)
         | (False, Some _) \<Rightarrow> (Inr None, edit_port pid (\<lambda>p. p\<lparr>host_port := None\<rparr>) db)))"

definition port_delete :: "string \<Rightarrow> names_db \<Rightarrow> names_db" where
  "port_delete pid db =
    (let last_of = (\<lambda>r. list_ex (\<lambda>gone. port_id gone = pid \<and> port_service gone = eg_service r \<and>
             port_hostname gone = Some (eg_hostname r) \<and>
             \<not> list_ex (\<lambda>kept. port_service kept = port_service gone \<and>
                 port_hostname kept = port_hostname gone \<and> port_id kept \<noteq> pid) (port_rows db)) (port_rows db));
         db = forget_redirects_of pid (db\<lparr>edge_rows := filter (\<lambda>r. \<not> last_of r) (edge_rows db)\<rparr>) in
     db\<lparr>port_rows := filter (\<lambda>p. port_id p \<noteq> pid) (port_rows db)\<rparr>)"

section \<open>Redirects (redirects.rs)\<close>

record redirect =
  re_hostname :: string
  re_port :: string
  re_service :: string
  re_target :: string

definition redirect_of :: "names_db \<Rightarrow> redirect_row \<Rightarrow> redirect option" where
  "redirect_of db r =
    (case List.find (\<lambda>p. port_id p = rd_port r) (port_rows db) of
       Some p \<Rightarrow> map_option (\<lambda>target. \<lparr>re_hostname = rd_hostname r, re_port = rd_port r,
           re_service = port_service p, re_target = target\<rparr>) (port_hostname p)
     | None \<Rightarrow> None)"

definition redirects_all :: "names_db \<Rightarrow> redirect list" where
  "redirects_all db = List.map_filter (redirect_of db) (sort_key rd_hostname (redirect_rows db))"

definition redirects_of_service :: "names_db \<Rightarrow> string \<Rightarrow> redirect list" where
  "redirects_of_service db sid = filter (\<lambda>r. re_service r = sid) (redirects_all db)"

definition redirect_create :: "names_env \<Rightarrow> port \<Rightarrow> string \<Rightarrow> string list \<Rightarrow> names_db
    \<Rightarrow> (names_refusal + redirect) \<times> names_db" where
  "redirect_create e p hostname served_by db =
    (case port_hostname p of
       None \<Rightarrow> (Inl NO_TARGET, db)
     | Some target \<Rightarrow>
        (let hostname = hostname_parse hostname in
         if hostname = [] then (Inl NeedsAName, db)
         else if is_wildcard hostname then (Inl WILDCARD_REFUSED, db)
         else if hostname = target then (Inl TO_ITSELF, db)
         else if list_ex (\<lambda>q. port_hostname q = Some hostname) (ports_all db) then (Inl IS_A_HOSTNAME, db)
         else if is_a_registry (nv_orgs e) hostname then (Inl IS_A_REGISTRY, db)
         else if list_ex (\<lambda>r. rd_hostname r = hostname) (redirect_rows db) then (Inl ALREADY_REDIRECTS, db)
         else if \<not> list_ex (\<lambda>q. port_id q = port_id p) (port_rows db) then (Inl NamesStorage, db)
         else
          (let db = db\<lparr>redirect_rows := redirect_rows db @
                 [\<lparr>rd_hostname = hostname, rd_port = port_id p, rd_created = nv_now e\<rparr>]\<rparr> in
           case serve_from e (port_service p) hostname served_by db of
             (Some r, db) \<Rightarrow> (Inl r, db)
           | (None, db) \<Rightarrow> (Inr \<lparr>re_hostname = hostname, re_port = port_id p, re_service = port_service p,
               re_target = target\<rparr>, db))))"

definition redirect_delete :: "string \<Rightarrow> string \<Rightarrow> names_db \<Rightarrow> names_refusal option \<times> names_db" where
  "redirect_delete sid host db =
    (let gone = (\<lambda>r. rd_hostname r = host \<and>
           list_ex (\<lambda>p. port_id p = rd_port r \<and> port_service p = sid) (port_rows db)) in
     if \<not> list_ex gone (redirect_rows db) then (Some NO_SUCH_REDIRECT, db)
     else (None, db\<lparr>redirect_rows := filter (\<lambda>r. \<not> gone r) (redirect_rows db),
       edge_rows := filter (\<lambda>r. \<not> (eg_hostname r = host \<and> eg_service r = sid)) (edge_rows db)\<rparr>))"

text \<open>The rows of services come and go; what refers to one goes with it.\<close>

definition names_service_new :: "string \<Rightarrow> names_db \<Rightarrow> names_db" where
  "names_service_new sid db =
    (if sid \<in> set (service_keys db) then db else db\<lparr>service_keys := service_keys db @ [sid]\<rparr>)"

definition names_service_gone :: "string \<Rightarrow> names_db \<Rightarrow> names_db" where
  "names_service_gone sid db =
    (let ports = map port_id (filter (\<lambda>p. port_service p = sid) (port_rows db)) in
     db\<lparr>service_keys := filter (\<lambda>s. s \<noteq> sid) (service_keys db),
        port_rows := filter (\<lambda>p. port_service p \<noteq> sid) (port_rows db),
        redirect_rows := filter (\<lambda>r. rd_port r \<notin> set ports) (redirect_rows db),
        edge_rows := filter (\<lambda>r. eg_service r \<noteq> sid) (edge_rows db)\<rparr>)"

section \<open>Where a name leads (deploy/dns.rs)\<close>

record reference =
  rf_node :: string
  rf_name :: string
  rf_at :: string
  rf_self :: bool

record reached =
  rc_node :: string
  rc_node_name :: string
  rc_self :: bool

datatype resolution =
    Reaches "reached list"
  | LeadsElsewhere "ip set" "(string \<times> ip set) list"
  | Missing
  | NoReference

fun resolution_ok :: "resolution \<Rightarrow> bool" where
  "resolution_ok (Reaches reached) \<longleftrightarrow> reached \<noteq> []"
| "resolution_ok _ \<longleftrightarrow> False"

fun reaches_here :: "resolution \<Rightarrow> bool" where
  "reaches_here (Reaches reached) \<longleftrightarrow> list_ex rc_self reached"
| "reaches_here _ \<longleftrightarrow> False"

fun resolution_nodes :: "resolution \<Rightarrow> string list" where
  "resolution_nodes (Reaches reached) = map rc_node reached"
| "resolution_nodes _ = []"

text \<open>What the resolver answers for a name, and the addresses this machine holds.\<close>

record resolver =
  system_lookup :: "string \<Rightarrow> ip set"
  held_here :: "ip set"

definition lookup :: "resolver \<Rightarrow> string \<Rightarrow> ip set" where
  "lookup w hostname =
    (let hostname = trim_end_matches (\<lambda>c. c = CHR ''.'') (trim hostname) in
     if hostname = [] then {} else system_lookup w hostname)"

definition reference_at :: "resolver \<Rightarrow> reference \<Rightarrow> (reference \<times> ip set) option" where
  "reference_at w r =
    (let at = lookup w (rf_at r) in
     if at = {} then None else Some (r, if rf_self r then at \<union> held_here w else at))"

definition resolves_to :: "resolver \<Rightarrow> string \<Rightarrow> reference list \<Rightarrow> resolution" where
  "resolves_to w hostname refs =
    (let addresses = List.map_filter (reference_at w) refs; found = lookup w hostname in
     if addresses = [] then NoReference
     else if found = {} then Missing
     else
      (let reached = map (\<lambda>(r, _). \<lparr>rc_node = rf_node r, rc_node_name = rf_name r, rc_self = rf_self r\<rparr>)
             (filter (\<lambda>(_, at). found \<inter> at \<noteq> {}) addresses) in
       if reached \<noteq> [] then Reaches reached
       else LeadsElsewhere found (map (\<lambda>(r, at). (rf_name r, at)) addresses)))"

definition resolves_here :: "resolver \<Rightarrow> string \<Rightarrow> string \<Rightarrow> resolution" where
  "resolves_here w hostname at =
    resolves_to w hostname [\<lparr>rf_node = [], rf_name = ''this node'', rf_at = at, rf_self = True\<rparr>]"

definition suggested_hostname :: "string \<Rightarrow> string \<Rightarrow> string \<Rightarrow> string" where
  "suggested_hostname service project domain = service @ ''.'' @ project @ ''.'' @ domain"

definition references :: "grant_db \<Rightarrow> node list \<Rightarrow> reference list" where
  "references st nodes = List.map_filter (\<lambda>n.
     (case (if is_self n then node_domain st else map_option host_of_endpoint (endpoint n)) of
        None \<Rightarrow> None
      | Some at \<Rightarrow> if trim at = [] then None
          else Some \<lparr>rf_node = nd_id n, rf_name = nd_name n, rf_at = at, rf_self = is_self n\<rparr>))
     (candidates_for st nodes Edge)"

section \<open>The commands behind the forms\<close>

datatype publish_refusal =
    Names names_refusal | NeedsAHostname | NoneAnswers bool | LeadsNotHere resolution | A_DATABASE | NOT_ITS_NAME
  | NoSuchPortHere | NamesNothing | NotAName | DoesNotReach "string list" | NeedsAPort | NotThisConsoles
  | OrganisationUnknown | OwnName | TakenBy string | OnlyOurs | ServedAlready

record publish_env =
  pe_names :: names_env
  pe_world :: resolver
  pe_grants :: grant_db
  pe_nodes :: "node list"

record port_request =
  pq_container :: u16
  pq_publish :: bool
  pq_hostname :: string
  pq_https :: bool

definition or_publish :: "('e + 'a) \<times> 's \<Rightarrow> ('e \<Rightarrow> publish_refusal) \<Rightarrow> publish_refusal option \<times> 's" where
  "or_publish r f = (case r of (Inl e, s) \<Rightarrow> (Some (f e), s) | (Inr _, s) \<Rightarrow> (None, s))"

definition add_service_port :: "publish_env \<Rightarrow> service \<Rightarrow> port_request \<Rightarrow> names_db
    \<Rightarrow> publish_refusal option \<times> names_db" where
  "add_service_port e s asked db =
    (let create = (\<lambda>hostname edges. or_publish
           (port_create (pe_names e) (service_id s) (pq_container asked) (pq_publish asked) hostname edges db) Names) in
     if \<not> pq_https asked then create None []
     else if pq_hostname asked = [] then (Some NeedsAHostname, db)
     else
      (let hostname = hostname_parse (pq_hostname asked); refs = references (pe_grants e) (pe_nodes e) in
       if is_wildcard hostname then (Some (Names WILDCARD_REFUSED), db)
       else if refs = [] then (Some (NoneAnswers (node_domain (pe_grants e) \<noteq> None)), db)
       else
        (let outcome = resolves_to (pe_world e) hostname refs in
         if \<not> resolution_ok outcome then (Some (LeadsNotHere outcome), db)
         else create (Some hostname) (resolution_nodes outcome))))"

definition add_service_redirect :: "publish_env \<Rightarrow> service \<Rightarrow> string \<Rightarrow> string \<Rightarrow> names_db
    \<Rightarrow> publish_refusal option \<times> names_db" where
  "add_service_redirect e s to hostname db =
    (if is_managed (service_kind s) then (Some A_DATABASE, db)
     else case List.find (\<lambda>p. port_hostname p = Some (hostname_parse to)) (ports_of_service db (service_id s)) of
       None \<Rightarrow> (Some NOT_ITS_NAME, db)
     | Some p \<Rightarrow>
        (let hostname = hostname_parse hostname; refs = references (pe_grants e) (pe_nodes e) in
         if is_wildcard hostname then (Some (Names WILDCARD_REFUSED), db)
         else if refs = [] then (Some (NoneAnswers False), db)
         else
          (let outcome = resolves_to (pe_world e) hostname refs in
           if \<not> resolution_ok outcome then (Some (LeadsNotHere outcome), db)
           else or_publish (redirect_create (pe_names e) p hostname (resolution_nodes outcome) db) Names)))"

definition delete_service_port :: "service \<Rightarrow> string \<Rightarrow> names_db \<Rightarrow> publish_refusal option \<times> names_db" where
  "delete_service_port s pid db =
    (if \<not> list_ex (\<lambda>p. port_id p = pid) (ports_of_service db (service_id s)) then (Some NoSuchPortHere, db)
     else (None, port_delete pid db))"

definition delete_service_redirect :: "service \<Rightarrow> string \<Rightarrow> names_db \<Rightarrow> publish_refusal option \<times> names_db" where
  "delete_service_redirect s host db =
    (case redirect_delete (service_id s) host db of (r, db) \<Rightarrow> (map_option Names r, db))"

definition set_service_edges :: "publish_env \<Rightarrow> service \<Rightarrow> string \<Rightarrow> string list \<Rightarrow> names_db
    \<Rightarrow> publish_refusal option \<times> names_db" where
  "set_service_edges e s host chosen db =
    (if host = [] then (Some NamesNothing, db)
     else if \<not> list_ex (\<lambda>p. port_hostname p = Some host) (ports_of_service db (service_id s)) then (Some NotAName, db)
     else
      (let refs = filter (\<lambda>r. rf_node r \<in> set chosen) (references (pe_grants e) (pe_nodes e));
           reached = resolution_nodes (resolves_to (pe_world e) host refs);
           missing = (if chosen \<noteq> [] \<and> refs \<noteq> []
             then map rf_name (filter (\<lambda>r. rf_node r \<notin> set reached) refs) else []) in
       if missing \<noteq> [] then (Some (DoesNotReach missing), db)
       else or_publish (edges_set (pe_names e) (service_id s) host chosen db) Names))"

definition name_database :: "publish_env \<Rightarrow> service \<Rightarrow> string \<Rightarrow> names_db
    \<Rightarrow> publish_refusal option \<times> names_db" where
  "name_database e s typed db =
    (let typed = hostname_parse typed in
     if typed = [] then (Some (Names NeedsAName), db)
     else case ports_of_service db (service_id s) of
       [] \<Rightarrow> (Some NeedsAPort, db)
     | p # _ \<Rightarrow> (case port_set_hostname (pe_names e) (port_id p) (Some typed) db of
         (r, db) \<Rightarrow> (map_option Names r, db)))"

definition publish_database :: "service \<Rightarrow> bool \<Rightarrow> names_db \<Rightarrow> publish_refusal option \<times> names_db" where
  "publish_database s published db =
    (case ports_of_service db (service_id s) of
       [] \<Rightarrow> (Some NeedsAPort, db)
     | p # _ \<Rightarrow> or_publish (port_set_published (port_id p) published db) Names)"

text \<open>The two names that are not a service's: an organisation's console and a project's registry.\<close>

definition set_organisation_domain :: "publish_env \<Rightarrow> account \<Rightarrow> string \<Rightarrow> string \<Rightarrow> estate
    \<Rightarrow> publish_refusal option \<times> estate" where
  "set_organisation_domain e account organisation wanted es =
    (if \<not> shares_the_machine_out account then (Some NotThisConsoles, es)
     else
      (let wanted = lowercase (trim wanted); domain = node_domain (pe_grants e) in
       case tenants_find es organisation of
         None \<Rightarrow> (Some OrganisationUnknown, es)
       | Some t \<Rightarrow>
          if wanted = [] then (None, set_tenant_domain (tenant_id t) None es)
          else if is_wildcard (hostname_parse wanted) then (Some (Names WILDCARD_REFUSED), es)
          else if domain = Some wanted then (Some OwnName, es)
          else case Option.bind (tenants_by_domain es wanted)
                 (\<lambda>held. if tenant_id held \<noteq> tenant_id t then Some (tenant_name held) else None) of
            Some name \<Rightarrow> (Some (TakenBy name), es)
          | None \<Rightarrow>
             if is_a_registry (nv_orgs (pe_names e)) wanted then (Some (Names IS_A_REGISTRY), es)
             else
              (let outcome = (case resolves_here (pe_world e) wanted (case domain of Some d \<Rightarrow> d | None \<Rightarrow> wanted) of
                    NoReference \<Rightarrow> if domain = None then Missing else NoReference
                  | outcome \<Rightarrow> outcome) in
               if \<not> resolution_ok outcome then (Some (LeadsNotHere outcome), es)
               else (None, set_tenant_domain (tenant_id t) (Some wanted) es))))"

definition set_registry_name :: "publish_env \<Rightarrow> project \<Rightarrow> string option \<Rightarrow> estate \<Rightarrow> names_db \<Rightarrow> org_db
    \<Rightarrow> publish_refusal option \<times> org_db" where
  "set_registry_name e p typed es db orgs =
    (if \<not> project_is_ours p then (Some OnlyOurs, orgs)
     else
      (let domain = node_domain (pe_grants e);
           wanted = Option.bind (map_option hostname_parse typed) (\<lambda>n. if n = [] then None else Some n);
           refusal = (case wanted of
               None \<Rightarrow> None
             | Some n \<Rightarrow>
                 if is_wildcard n then Some (Names WILDCARD_REFUSED)
                 else if domain = Some n then Some OwnName
                 else case tenants_by_domain es n of
                   Some t \<Rightarrow> Some (TakenBy (tenant_name t))
                 | None \<Rightarrow>
                    if list_ex (\<lambda>p. port_hostname p = Some n) (ports_all db) \<or>
                       list_ex (\<lambda>r. re_hostname r = n) (redirects_all db) then Some ServedAlready
                    else
                     (let outcome = (case resolves_here (pe_world e) n (case domain of Some d \<Rightarrow> d | None \<Rightarrow> n) of
                           NoReference \<Rightarrow> if domain = None then Missing else NoReference
                         | outcome \<Rightarrow> outcome) in
                      if resolution_ok outcome then None else Some (LeadsNotHere outcome))) in
       case refusal of Some r \<Rightarrow> (Some r, orgs)
       | None \<Rightarrow> (case set_registry_domain (project_id p) wanted orgs of
           (ClaimSet, orgs) \<Rightarrow> (None, orgs) | (HeldBy holder, orgs) \<Rightarrow> (Some (TakenBy holder), orgs))))"

section \<open>What the rows keep\<close>

definition own_value :: "(port \<Rightarrow> 'v option) \<Rightarrow> port list \<Rightarrow> bool" where
  "own_value f rows \<longleftrightarrow> list_all (\<lambda>p. list_all (\<lambda>q. f p \<noteq> None \<longrightarrow> f q = f p \<longrightarrow> port_id q = port_id p) rows) rows"

text \<open>The name is one of the service's: a port of it answers to it, or it redirects to one.\<close>

definition backed :: "names_db \<Rightarrow> string \<Rightarrow> string \<Rightarrow> bool" where
  "backed db sid host \<longleftrightarrow>
    list_ex (\<lambda>p. port_service p = sid \<and> port_hostname p = Some host) (port_rows db) \<or>
    list_ex (\<lambda>r. rd_hostname r = host \<and> list_ex (\<lambda>p. port_id p = rd_port r \<and> port_service p = sid) (port_rows db))
      (redirect_rows db)"

definition edge_keys :: "edge_row list \<Rightarrow> (string \<times> string) list" where
  "edge_keys rows = map (\<lambda>r. (eg_hostname r, eg_node r)) rows"

definition ports_keyed :: "names_db \<Rightarrow> bool" where
  "ports_keyed db \<longleftrightarrow>
    distinct (map port_id (port_rows db)) \<and>
    distinct (map (\<lambda>p. (port_service p, container_port p)) (port_rows db)) \<and>
    own_value host_port (port_rows db) \<and> own_value port_hostname (port_rows db) \<and>
    list_all (\<lambda>p. port_service p \<in> set (service_keys db) \<and>
      (case host_port p of None \<Rightarrow> True | Some c \<Rightarrow> unat c \<in> set HOST_PORT_RANGE)) (port_rows db)"

definition redirects_keyed :: "names_db \<Rightarrow> bool" where
  "redirects_keyed db \<longleftrightarrow>
    distinct (map rd_hostname (redirect_rows db)) \<and>
    list_all (\<lambda>r. rd_port r \<in> port_id ` set (port_rows db) \<and>
      list_all (\<lambda>p. port_hostname p \<noteq> Some (rd_hostname r)) (port_rows db)) (redirect_rows db)"

definition edges_keyed :: "names_db \<Rightarrow> bool" where
  "edges_keyed db \<longleftrightarrow>
    distinct (edge_keys (edge_rows db)) \<and> list_all (\<lambda>g. backed db (eg_service g) (eg_hostname g)) (edge_rows db)"

definition names_sound :: "names_db \<Rightarrow> bool" where
  "names_sound db \<longleftrightarrow> ports_keyed db \<and> redirects_keyed db \<and> edges_keyed db"

lemmas names_defs = names_sound_def ports_keyed_def redirects_keyed_def edges_keyed_def own_value_def list_all_iff

lemma sound_parts:
  assumes "names_sound db" "port_rows db' = port_rows db" "redirect_rows db' = redirect_rows db"
    "service_keys db' = service_keys db" "edges_keyed db'"
  shows "names_sound db'"
  using assms by (simp add: names_sound_def ports_keyed_def redirects_keyed_def)

lemma backed_cong: "port_rows db' = port_rows db \<Longrightarrow> redirect_rows db' = redirect_rows db \<Longrightarrow>
    backed db' sid host = backed db sid host"
  by (simp add: backed_def)

lemma insert_edges_rows:
  assumes "insert_edges now sid host ns rows = (ok, rows')" "distinct (edge_keys rows)"
  shows "distinct (edge_keys rows') \<and>
    (\<forall>g\<in>set rows'. g \<in> set rows \<or> eg_service g = sid \<and> eg_hostname g = host)"
  using assms
proof (induction now sid host ns rows arbitrary: rows' rule: insert_edges.induct)
  case (2 now sid host n ns rows)
  show ?case
  proof (cases "list_ex (\<lambda>r. eg_hostname r = host \<and> eg_node r = n) rows")
    case True
    with 2 show ?thesis by simp
  next
    case False
    let ?rows = "rows @ [\<lparr>eg_service = sid, eg_hostname = host, eg_node = n, eg_created = now\<rparr>]"
    have "distinct (edge_keys ?rows)"
      using 2(3) False by (auto simp: edge_keys_def list_ex_iff)
    then show ?thesis using 2(1) [OF False, of rows'] 2(2) False by (fastforce split: if_splits)
  qed
qed auto

lemma edges_set_keeps:
  assumes "names_sound db" "nodes = [] \<or> backed db sid host"
  shows "names_sound (snd (edges_set e sid host nodes db))"
    "port_rows (snd (edges_set e sid host nodes db)) = port_rows db"
    "redirect_rows (snd (edges_set e sid host nodes db)) = redirect_rows db"
    "service_keys (snd (edges_set e sid host nodes db)) = service_keys db"
proof -
  let ?kept = "filter (\<lambda>r. eg_hostname r \<noteq> host) (edge_rows db)"
  obtain ok rows where ins: "insert_edges (nv_now e) sid host nodes ?kept = (ok, rows)" by fastforce
  have "distinct (edge_keys ?kept)"
    using assms(1) by (simp add: names_sound_def edges_keyed_def edge_keys_def distinct_map_filter)
  note rows = insert_edges_rows [OF ins this]
  have new: "edges_keyed (db\<lparr>edge_rows := rows\<rparr>)"
  proof -
    have "backed db (eg_service g) (eg_hostname g)" if "g \<in> set rows" for g
    proof (cases "nodes = []")
      case True
      then have "rows = ?kept" using ins by simp
      then show ?thesis using that assms(1) by (auto simp: names_sound_def edges_keyed_def list_all_iff)
    next
      case False
      then show ?thesis
        using rows that assms by (auto simp: names_sound_def edges_keyed_def list_all_iff)
    qed
    then show ?thesis using rows by (simp add: edges_keyed_def list_all_iff backed_def)
  qed
  have old: "edges_keyed (db\<lparr>edge_rows := ?kept\<rparr>)"
    using assms(1) by (auto simp: names_sound_def edges_keyed_def list_all_iff edge_keys_def distinct_map_filter backed_def)
  have same: "edges_keyed (db\<lparr>edge_rows := rs, edge_peer_rows := x, edge_secret_rows := y\<rparr>) = edges_keyed (db\<lparr>edge_rows := rs\<rparr>)"
    "edges_keyed (db\<lparr>edge_rows := rs, edge_peer_rows := x\<rparr>) = edges_keyed (db\<lparr>edge_rows := rs\<rparr>)"
    for rs x y by (simp_all add: edges_keyed_def backed_def)
  show "names_sound (snd (edges_set e sid host nodes db))"
    using assms(1) new old same
    by (auto simp: edges_set_def Let_def ins remember_peers_def intro!: sound_parts [OF assms(1)])
qed (auto simp: edges_set_def Let_def remember_peers_def split: prod.splits)

lemma edges_set_none:
  "edges_set e sid host [] db = (Inr (edge_nodes_for db host),
    remember_peers e host [] (db\<lparr>edge_rows := filter (\<lambda>r. eg_hostname r \<noteq> host) (edge_rows db)\<rparr>))"
  by (simp add: edges_set_def Let_def)

lemma snd_answered [simp]:
  "snd (case x of (Inl r, d) \<Rightarrow> (Some r, d) | (Inr _, d) \<Rightarrow> (None, d)) = snd x"
  by (auto split: prod.splits sum.splits)

lemma serve_from_is:
  "\<exists>ns. snd (serve_from e sid host nodes db) = db \<or> snd (serve_from e sid host nodes db) = snd (edges_set e sid host ns db)"
  unfolding serve_from_def Let_def by (simp only: if_distrib [of snd] snd_conv snd_answered) (auto split: if_splits)

lemma serve_from_keeps:
  assumes "names_sound db" "backed db sid host"
  shows "names_sound (snd (serve_from e sid host nodes db))"
  using serve_from_is [of e sid host nodes db] edges_set_keeps(1) assms by metis

subsection \<open>Ports\<close>

lemma in_HOST_PORT_RANGE: "k \<in> set HOST_PORT_RANGE \<longleftrightarrow> 20000 \<le> k \<and> k < 29000"
  by (simp only: HOST_PORT_RANGE_def set_upt atLeastLessThan_iff)

lemma nth_HOST_PORT_RANGE: "i < 9000 \<Longrightarrow> HOST_PORT_RANGE ! i = 20000 + i"
  unfolding HOST_PORT_RANGE_def by (subst nth_upt) simp_all

lemma length_HOST_PORT_RANGE: "length HOST_PORT_RANGE = 9000"
  unfolding HOST_PORT_RANGE_def by (simp only: length_upt)

lemma free_host_port_free:
  assumes "free_host_port db = Inr c"
  shows "unat c \<in> set HOST_PORT_RANGE" "p \<in> set (port_rows db) \<Longrightarrow> host_port p \<noteq> Some c"
    "\<forall>k. 20000 \<le> k \<and> k < unat c \<longrightarrow> (\<exists>p\<in>set (port_rows db). map_option unat (host_port p) = Some k)"
proof -
  let ?taken = "List.map_filter (\<lambda>p. map_option unat (host_port p)) (port_rows db)"
  obtain k where k: "List.find (\<lambda>c. c \<notin> set ?taken) HOST_PORT_RANGE = Some k" "c = of_nat k"
    using assms by (auto simp: free_host_port_def Let_def split: option.splits)
  have found: "k \<in> set HOST_PORT_RANGE" "k \<notin> set ?taken" using find_SomeD [OF k(1)] by auto
  then have c: "unat c = k" using k(2) by (simp add: in_HOST_PORT_RANGE unat_of_nat_small)
  show "unat c \<in> set HOST_PORT_RANGE" using c found(1) by simp
  show "host_port p \<noteq> Some c" if "p \<in> set (port_rows db)"
    using found(2) that c by (auto simp: set_map_filter)
  have "j \<in> set ?taken" if "20000 \<le> j" "j < k" for j
  proof -
    obtain i where i: "i < length HOST_PORT_RANGE" "HOST_PORT_RANGE ! i = k" "\<forall>m<i. HOST_PORT_RANGE ! m \<in> set ?taken"
      using k(1) by (auto simp: find_Some_iff)
    have "k = 20000 + i" using i(1,2) nth_HOST_PORT_RANGE length_HOST_PORT_RANGE by metis
    then have "j - 20000 < i" "j - 20000 < 9000" "20000 + (j - 20000) = j"
      using that i(1) by (simp_all add: length_HOST_PORT_RANGE)
    with i(3) nth_HOST_PORT_RANGE show ?thesis by metis
  qed
  then show "\<forall>k. 20000 \<le> k \<and> k < unat c \<longrightarrow> (\<exists>p\<in>set (port_rows db). map_option unat (host_port p) = Some k)"
    unfolding c by (auto simp: set_map_filter)
qed

lemma in_ports_all [simp]: "set (ports_all db) = set (port_rows db)"
  by (simp add: ports_all_def)

lemma edges_keyed_more:
  assumes "edges_keyed db" "edge_rows db' = edge_rows db"
    "\<And>sid host. backed db sid host \<Longrightarrow> backed db' sid host"
  shows "edges_keyed db'"
  using assms by (auto simp: edges_keyed_def list_all_iff)

lemma own_valueD:
  assumes "own_value f rows" "p \<in> set rows" "q \<in> set rows" "f p \<noteq> None" "f q = f p"
  shows "port_id q = port_id p"
proof -
  from assms(1) have "\<forall>p\<in>set rows. \<forall>q\<in>set rows. f p \<noteq> None \<longrightarrow> f q = f p \<longrightarrow> port_id q = port_id p"
    by (simp only: own_value_def list_all_iff)
  then show ?thesis using assms(2-) by blast
qed

lemma own_value_snoc:
  "own_value f rows \<Longrightarrow> \<forall>q\<in>set rows. f p \<noteq> None \<longrightarrow> f q \<noteq> f p \<Longrightarrow> own_value f (rows @ [p])"
  unfolding own_value_def list_all_iff
proof (intro ballI impI)
  fix a b
  assume own: "\<forall>p\<in>set rows. \<forall>q\<in>set rows. f p \<noteq> None \<longrightarrow> f q = f p \<longrightarrow> port_id q = port_id p"
    and new: "\<forall>q\<in>set rows. f p \<noteq> None \<longrightarrow> f q \<noteq> f p"
    and ab: "a \<in> set (rows @ [p])" "b \<in> set (rows @ [p])" "f a \<noteq> None" "f b = f a"
  show "port_id b = port_id a"
  proof (cases "a \<in> set rows \<longleftrightarrow> b \<in> set rows")
    case True
    with ab own show ?thesis by auto
  next
    case False
    with ab new show ?thesis by auto
  qed
qed

lemma backed_mono: "backed db sid host \<Longrightarrow> set (port_rows db) \<subseteq> set (port_rows db') \<Longrightarrow>
    set (redirect_rows db) \<subseteq> set (redirect_rows db') \<Longrightarrow> backed db' sid host"
  unfolding backed_def list_ex_iff by blast

lemma sound_new_port:
  assumes "names_sound db" "refused_insert p (port_rows db) = None" "port_service p \<in> set (service_keys db)"
    "\<And>c. host_port p = Some c \<Longrightarrow> unat c \<in> set HOST_PORT_RANGE"
    "\<And>n. port_hostname p = Some n \<Longrightarrow> n \<notin> rd_hostname ` set (redirect_rows db)"
  shows "names_sound (db\<lparr>port_rows := port_rows db @ [p]\<rparr>)"
proof -
  let ?db = "db\<lparr>port_rows := port_rows db @ [p]\<rparr>"
  have new: "\<forall>q\<in>set (port_rows db). port_id q \<noteq> port_id p \<and>
      \<not> (port_service q = port_service p \<and> container_port q = container_port p) \<and>
      (host_port p \<noteq> None \<longrightarrow> host_port q \<noteq> host_port p) \<and>
      (port_hostname p \<noteq> None \<longrightarrow> port_hostname q \<noteq> port_hostname p)"
    using assms(2) by (auto simp: refused_insert_def list_ex_iff split: if_splits)
  have "ports_keyed ?db"
    unfolding ports_keyed_def
  proof (intro conjI)
    show "own_value host_port (port_rows ?db)" "own_value port_hostname (port_rows ?db)"
      using assms(1) new by (auto simp: names_sound_def ports_keyed_def intro!: own_value_snoc)
  qed (use assms(1,3,4) new in \<open>auto simp: names_sound_def ports_keyed_def list_all_iff split: option.splits\<close>)
  moreover have "redirects_keyed ?db"
    using assms(1,5) by (auto simp: names_sound_def redirects_keyed_def list_all_iff)
  moreover have "edges_keyed ?db"
    by (rule edges_keyed_more [of db]) (use assms(1) in \<open>auto simp: names_sound_def elim: backed_mono\<close>)
  ultimately show ?thesis by (simp add: names_sound_def)
qed

text \<open>A name that is read again as it is.\<close>

definition name_settles :: "string \<Rightarrow> bool" where
  "name_settles typed \<longleftrightarrow> hostname_parse (hostname_parse typed) = hostname_parse typed"

lemma port_create_cases:
  fixes hostname :: "string option"
  defines "name \<equiv> Option.bind (map_option hostname_parse hostname) (\<lambda>n. if n = [] then None else Some n)"
  obtains (same) "snd (port_create e sid container publish hostname served db) = db"
  | (new) p where "port_service p = sid" "port_hostname p = name" "refused_insert p (port_rows db) = None"
      "sid \<in> set (service_keys db)" "\<And>n. name = Some n \<Longrightarrow> \<not> name_redirects db n"
      "\<And>c. host_port p = Some c \<Longrightarrow> free_host_port db = Inr c"
      "snd (port_create e sid container publish hostname served db) =
        (let db = db\<lparr>port_rows := port_rows db @ [p]\<rparr> in
           case name of None \<Rightarrow> db | Some n \<Rightarrow> snd (serve_from e sid n served db))"
proof -
  let ?made = "snd (port_create e sid container publish hostname served db)"
  let ?at = "if publish then map_sum id Some (free_host_port db) else Inr None"
  note step = port_create_def [of e sid container publish hostname served db, unfolded Let_def name_def [symmetric]]
  show ?thesis
  proof (cases "container = 0 \<or> (case name of Some n \<Rightarrow> name_redirects db n | None \<Rightarrow> False) \<or>
      (case name of Some n \<Rightarrow> is_a_registry (nv_orgs e) n | None \<Rightarrow> False)")
    case True
    then have "?made = db" unfolding step by auto
    then show ?thesis by (rule same)
  next
    case False
    show ?thesis
    proof (cases ?at)
      case (Inl r)
      then have "?made = db" unfolding step using False by (simp only: de_Morgan_disj if_False sum.case snd_conv)
      then show ?thesis by (rule same)
    next
      case (Inr at)
      let ?p = "\<lparr>port_id = ''prt-'' @ nv_id e, port_service = sid, container_port = container,
               host_port = at, port_hostname = name\<rparr>"
      have made: "?made = snd (case refused_insert ?p (port_rows db) of
           Some r \<Rightarrow> (Inl r, db)
         | None \<Rightarrow>
            if sid \<notin> set (service_keys db) then (Inl NamesStorage, db)
            else case name of
                 None \<Rightarrow> (Inr ?p, db\<lparr>port_rows := port_rows db @ [?p]\<rparr>)
               | Some n \<Rightarrow> (case serve_from e sid n served (db\<lparr>port_rows := port_rows db @ [?p]\<rparr>) of
                   (Some r, db) \<Rightarrow> (Inl r, db) | (None, db) \<Rightarrow> (Inr ?p, db)))"
        unfolding step using False Inr by (simp only: de_Morgan_disj if_False sum.case)
      show ?thesis
      proof (cases "refused_insert ?p (port_rows db) = None \<and> sid \<in> set (service_keys db)")
        case fits: True
        have "host_port ?p = Some c \<Longrightarrow> free_host_port db = Inr c" for c
          using Inr by (cases "free_host_port db") (auto split: if_splits)
        moreover have "?made = (let db = db\<lparr>port_rows := port_rows db @ [?p]\<rparr> in
           case name of None \<Rightarrow> db | Some n \<Rightarrow> snd (serve_from e sid n served db))"
          unfolding made using fits by (auto simp: Let_def split: option.splits prod.splits)
        moreover have "\<not> name_redirects db n" if "name = Some n" for n using False that by auto
        ultimately show ?thesis using fits by (intro new [of ?p]) (simp_all del: append_Cons)
      next
        case False
        then have "?made = db" unfolding made by (auto split: option.splits)
        then show ?thesis by (rule same)
      qed
    qed
  qed
qed

lemma sound_port_create:
  assumes "names_sound db" "case hostname of Some n \<Rightarrow> name_settles n | None \<Rightarrow> True"
  shows "names_sound (snd (port_create e sid container publish hostname served db))"
proof (cases rule: port_create_cases [of e sid container publish hostname served db, case_names same new])
  case same
  with assms show ?thesis by simp
next
  case (new p)
  let ?db = "db\<lparr>port_rows := port_rows db @ [p]\<rparr>"
  have "names_sound ?db"
  proof (rule sound_new_port [OF assms(1) new(3)])
    show "port_service p \<in> set (service_keys db)" using new(1,4) by simp
    show "unat c \<in> set HOST_PORT_RANGE" if "host_port p = Some c" for c
      using free_host_port_free(1) new(6) [OF that] by blast
    show "n \<notin> rd_hostname ` set (redirect_rows db)" if "port_hostname p = Some n" for n
    proof -
      have "hostname_parse n = n"
        using assms(2) that new(2) by (auto simp: name_settles_def bind_eq_Some_conv split: if_splits)
      with new(5) [of n] new(2) that show ?thesis by (auto simp: name_redirects_def list_ex_iff)
    qed
  qed
  moreover have "backed ?db sid n" if "port_hostname p = Some n" for n
    using that new(1) by (simp add: backed_def)
  ultimately show ?thesis
    unfolding new(7) new(2) [symmetric] Let_def by (auto split: option.splits intro: serve_from_keeps)
qed

lemma backed_host_apart:
  assumes "redirects_keyed db" "backed db sid host" "\<not> list_ex (\<lambda>r. rd_hostname r = host) (redirect_rows db)"
  shows "list_ex (\<lambda>p. port_service p = sid \<and> port_hostname p = Some host) (port_rows db)"
  using assms by (auto simp: backed_def list_ex_iff)

lemma sound_forget_redirects:
  assumes "names_sound db"
  shows "names_sound (forget_redirects_of pid db)"
proof -
  let ?gone = "map rd_hostname (filter (\<lambda>r. rd_port r = pid) (redirect_rows db))"
  let ?db = "forget_redirects_of pid db"
  have rows: "port_rows ?db = port_rows db" "service_keys ?db = service_keys db"
    "redirect_rows ?db = filter (\<lambda>r. rd_port r \<noteq> pid) (redirect_rows db)"
    "edge_rows ?db = filter (\<lambda>r. eg_hostname r \<notin> set ?gone) (edge_rows db)"
    by (simp_all add: forget_redirects_of_def Let_def)
  have "backed ?db (eg_service g) (eg_hostname g)" if "g \<in> set (edge_rows ?db)" for g
  proof -
    have g: "g \<in> set (edge_rows db)" "eg_hostname g \<notin> set ?gone" using that unfolding rows by auto
    then have "backed db (eg_service g) (eg_hostname g)"
      using assms by (auto simp: names_sound_def edges_keyed_def list_all_iff)
    moreover have "rd_port r \<noteq> pid" if "r \<in> set (redirect_rows db)" "rd_hostname r = eg_hostname g" for r
      using g(2) that by force
    ultimately show ?thesis unfolding backed_def rows list_ex_iff by auto
  qed
  then show ?thesis
    using assms by (auto simp: names_sound_def ports_keyed_def redirects_keyed_def edges_keyed_def rows
        edge_keys_def distinct_map_filter list_all_iff)
qed

lemma forgotten_redirects [simp]:
  "port_rows (forget_redirects_of pid db) = port_rows db" "service_keys (forget_redirects_of pid db) = service_keys db"
  "r \<in> set (redirect_rows (forget_redirects_of pid db)) \<longleftrightarrow> r \<in> set (redirect_rows db) \<and> rd_port r \<noteq> pid"
  by (auto simp: forget_redirects_of_def Let_def)

lemma edit_port_rows [simp]:
  "redirect_rows (edit_port pid f db) = redirect_rows db" "edge_rows (edit_port pid f db) = edge_rows db"
  "service_keys (edit_port pid f db) = service_keys db"
  by (simp_all add: edit_port_def)

text \<open>A port that changes its name: whoever answered for the old one has to go with it.\<close>

lemma rename_keeps:
  assumes "names_sound db" "p \<in> set (port_rows db)"
    "\<And>n. hostname = Some n \<Longrightarrow> n \<notin> rd_hostname ` set (redirect_rows db)"
    "\<And>n q. hostname = Some n \<Longrightarrow> q \<in> set (port_rows db) \<Longrightarrow> port_id q \<noteq> port_id p \<Longrightarrow> port_hostname q \<noteq> Some n"
    "hostname = None \<Longrightarrow> port_id p \<notin> rd_port ` set (redirect_rows db)"
  shows "names_sound ((edit_port (port_id p) (\<lambda>q. q\<lparr>port_hostname := hostname\<rparr>) db)
    \<lparr>edge_rows := filter (\<lambda>g. hostname = port_hostname p \<or> Some (eg_hostname g) \<noteq> port_hostname p) (edge_rows db)\<rparr>)"
  (is "names_sound ?db")
proof -
  let ?edit = "\<lambda>q. if port_id q = port_id p then q\<lparr>port_hostname := hostname\<rparr> else q"
  have rows: "port_rows ?db = map ?edit (port_rows db)" by (simp add: edit_port_def)
  have same: "q = p" if "q \<in> set (port_rows db)" "port_id q = port_id p" for q
    using assms(1,2) that by (auto simp: names_sound_def ports_keyed_def distinct_map inj_on_def)
  have columns: "port_id (?edit q) = port_id q" "port_service (?edit q) = port_service q"
    "container_port (?edit q) = container_port q" "host_port (?edit q) = host_port q" for q by simp_all
  have maps: "map port_id (map ?edit (port_rows db)) = map port_id (port_rows db)"
    "map (\<lambda>q. (port_service q, container_port q)) (map ?edit (port_rows db)) =
      map (\<lambda>q. (port_service q, container_port q)) (port_rows db)"
    by (simp_all add: comp_def)
  have own: "own_value host_port (map ?edit (port_rows db))"
    using assms(1) unfolding names_sound_def ports_keyed_def own_value_def list.pred_map comp_def columns
    by (simp add: comp_def)
  have "own_value port_hostname (map ?edit (port_rows db))"
    unfolding own_value_def list_all_iff
  proof (intro ballI impI)
    fix a b
    assume "a \<in> set (map ?edit (port_rows db))" "b \<in> set (map ?edit (port_rows db))"
    then obtain q r where q: "q \<in> set (port_rows db)" "a = ?edit q" and r: "r \<in> set (port_rows db)" "b = ?edit r" by auto
    assume "port_hostname a \<noteq> None" "port_hostname b = port_hostname a"
    then have names: "port_hostname (?edit q) \<noteq> None" "port_hostname (?edit r) = port_hostname (?edit q)"
      using q(2) r(2) by simp_all
    have own: "own_value port_hostname (port_rows db)" using assms(1) by (simp add: names_sound_def ports_keyed_def)
    have "port_id r = port_id q"
    proof (cases "port_id q = port_id p \<longleftrightarrow> port_id r = port_id p")
      case True
      show ?thesis
      proof (cases "port_id q = port_id p")
        case other: False
        with True names have n: "port_hostname q \<noteq> None" "port_hostname r = port_hostname q" by simp_all
        show ?thesis by (rule own_valueD [OF own q(1) r(1) n])
      qed (use True in simp)
    next
      case False
      then show ?thesis
      proof (cases "port_id q = port_id p")
        case True
        with False names have "port_hostname r = hostname" "hostname \<noteq> None" by simp_all
        with True False assms(4) [of _ r] r(1) show ?thesis by auto
      next
        case other: False
        with False names have "port_hostname q = hostname" "hostname \<noteq> None" by simp_all
        with other assms(4) [of _ q] q(1) show ?thesis by auto
      qed
    qed
    then show "port_id b = port_id a" using q(2) r(2) by simp
  qed
  then have "ports_keyed ?db"
    unfolding ports_keyed_def rows maps
    using assms(1) own by (auto simp: names_sound_def ports_keyed_def list_all_iff)
  moreover have "redirects_keyed ?db"
  proof -
    have ids: "port_id ` set (map ?edit (port_rows db)) = port_id ` set (port_rows db)"
      using maps(1) unfolding list.set_map [symmetric] by simp
    have "port_hostname q \<noteq> Some (rd_hostname r)" if "r \<in> set (redirect_rows db)" "q \<in> set (map ?edit (port_rows db))" for r q
      using that assms(1,3) by (auto simp: names_sound_def redirects_keyed_def list_all_iff)
    then show ?thesis
      using assms(1) unfolding redirects_keyed_def rows list_all_iff
      by (simp add: names_sound_def redirects_keyed_def list_all_iff ids del: set_map)
  qed
  moreover have "edges_keyed ?db"
  proof -
    have "backed ?db (eg_service g) (eg_hostname g)"
      if g: "g \<in> set (edge_rows db)" "hostname = port_hostname p \<or> Some (eg_hostname g) \<noteq> port_hostname p" for g
    proof -
      have "backed db (eg_service g) (eg_hostname g)"
        using assms(1) g(1) by (auto simp: names_sound_def edges_keyed_def list_all_iff)
      then consider (port) q where "q \<in> set (port_rows db)" "port_service q = eg_service g" "port_hostname q = Some (eg_hostname g)"
        | (redirect) r q where "r \<in> set (redirect_rows db)" "rd_hostname r = eg_hostname g" "q \<in> set (port_rows db)"
            "port_id q = rd_port r" "port_service q = eg_service g"
        by (auto simp: backed_def list_ex_iff)
      then show ?thesis
      proof cases
        case port
        then have "port_id q = port_id p \<longrightarrow> hostname = port_hostname p" using same [of q] g(2) by auto
        then have "port_hostname (?edit q) = Some (eg_hostname g)" using port same [of q] by auto
        moreover have "port_service (?edit q) = eg_service g" using port(2) by simp
        moreover have "?edit q \<in> set (port_rows ?db)" unfolding rows using port(1) by simp
        ultimately show ?thesis unfolding backed_def list_ex_iff by blast
      next
        case redirect
        have "?edit q \<in> set (port_rows ?db)" unfolding rows using redirect(3) by simp
        moreover have "port_id (?edit q) = rd_port r" "port_service (?edit q) = eg_service g"
          using redirect(4,5) by simp_all
        moreover have "r \<in> set (redirect_rows ?db)" using redirect(1) by simp
        ultimately show ?thesis using redirect(2) unfolding backed_def list_ex_iff by blast
      qed
    qed
    then show ?thesis
      using assms(1) by (auto simp: edges_keyed_def names_sound_def edge_keys_def distinct_map_filter list_all_iff)
  qed
  ultimately show ?thesis by (simp add: names_sound_def)
qed

lemma sound_peers [simp]: "names_sound (remember_peers e host nodes db) = names_sound db"
  "backed (remember_peers e host nodes db) sid name = backed db sid name"
  by (simp_all add: remember_peers_def Let_def names_sound_def ports_keyed_def redirects_keyed_def edges_keyed_def backed_def)

lemma edit_no_port: "\<forall>p\<in>set (port_rows db). port_id p \<noteq> pid \<Longrightarrow> edit_port pid f db = db"
  by (simp add: edit_port_def map_idI)

lemma edges_same: "db\<lparr>edge_rows := filter (\<lambda>g. True) (edge_rows db)\<rparr> = db"
  by simp

lemma sound_set_hostname:
  assumes sound: "names_sound db" and settled: "\<And>n. hostname = Some n \<Longrightarrow> hostname_parse n = n"
  shows "names_sound (snd (port_set_hostname e pid hostname db))"
proof (cases "(case hostname of Some n \<Rightarrow> name_redirects db n | None \<Rightarrow> False) \<or>
    (case hostname of Some n \<Rightarrow> is_a_registry (nv_orgs e) n | None \<Rightarrow> False)")
  case True
  then show ?thesis using sound by (auto simp: port_set_hostname_def)
next
  case allowed: False
  define db0 where "db0 = (if hostname = None then forget_redirects_of pid db else db)"
  have sound0: "names_sound db0" using sound sound_forget_redirects by (simp add: db0_def)
  have rows0: "port_rows db0 = port_rows db" by (simp add: db0_def)
  let ?p = "List.find (\<lambda>p. port_id p = pid) (ports_all db)"
  show ?thesis
  proof (cases ?p)
    case None
    then have "edit_port pid f db0 = db0" for f
      by (intro edit_no_port) (auto simp: find_None_iff rows0)
    then have "snd (port_set_hostname e pid hostname db) = db0"
      using allowed None by (simp add: port_set_hostname_def Let_def db0_def split: option.splits)
    with sound0 show ?thesis by simp
  next
    case (Some p)
    then have p: "p \<in> set (port_rows db)" "port_id p = pid" by (auto dest!: find_SomeD)
    show ?thesis
    proof (cases "hostname \<noteq> None \<and> list_ex (\<lambda>q. port_id q \<noteq> pid \<and> port_hostname q = hostname) (port_rows db)")
      case True
      then have "snd (port_set_hostname e pid hostname db) = db"
        using allowed Some by (auto simp: port_set_hostname_def Let_def)
      with sound show ?thesis by simp
    next
      case free: False
      define edited where "edited = edit_port pid (\<lambda>p. p\<lparr>port_hostname := hostname\<rparr>) db0"
      define mid where "mid = (case port_hostname p of
          Some w \<Rightarrow> if Some w \<noteq> hostname then snd (edges_set e (port_service p) w [] edited) else edited
        | None \<Rightarrow> edited)"
      have renamed: "names_sound (edited\<lparr>edge_rows :=
          filter (\<lambda>g. hostname = port_hostname p \<or> Some (eg_hostname g) \<noteq> port_hostname p) (edge_rows db0)\<rparr>)"
        unfolding edited_def p(2) [symmetric]
      proof (rule rename_keeps [OF sound0])
        show "p \<in> set (port_rows db0)" using p(1) rows0 by simp
        show "n \<notin> rd_hostname ` set (redirect_rows db0)" if "hostname = Some n" for n
          using that allowed settled by (auto simp: name_redirects_def list_ex_iff db0_def)
        show "port_hostname q \<noteq> Some n" if "hostname = Some n" "q \<in> set (port_rows db0)" "port_id q \<noteq> port_id p" for n q
          using that free p(2) rows0 by (auto simp: list_ex_iff)
        show "port_id p \<notin> rd_port ` set (redirect_rows db0)" if "hostname = None"
          using that p(2) by (auto simp: db0_def)
      qed
      have same_edges: "edge_rows edited = edge_rows db0" by (simp add: edited_def)
      have "names_sound mid"
      proof (cases "port_hostname p = None \<or> port_hostname p = hostname")
        case True
        then have "filter (\<lambda>g. hostname = port_hostname p \<or> Some (eg_hostname g) \<noteq> port_hostname p) (edge_rows db0) = edge_rows edited"
          using same_edges by (auto simp: filter_id_conv)
        with renamed True show ?thesis by (auto simp: mid_def split: option.splits)
      next
        case False
        then obtain w where w: "port_hostname p = Some w" "Some w \<noteq> hostname" by auto
        then have "filter (\<lambda>g. hostname = port_hostname p \<or> Some (eg_hostname g) \<noteq> port_hostname p) (edge_rows db0) =
            filter (\<lambda>g. eg_hostname g \<noteq> w) (edge_rows edited)"
          using same_edges by (auto intro: filter_cong)
        with renamed w show ?thesis by (simp add: mid_def edges_set_none)
      qed
      moreover have "backed mid (port_service p) n" if "hostname = Some n" for n
      proof -
        have "p\<lparr>port_hostname := Some n\<rparr> \<in> set (port_rows edited)"
          using that p rows0 by (auto simp: edited_def edit_port_def image_iff intro!: bexI [of _ p])
        then have "backed edited (port_service p) n" by (auto simp: backed_def list_ex_iff intro!: bexI [rotated])
        then show ?thesis by (auto simp: mid_def edges_set_none split: option.splits) (simp_all add: backed_def)
      qed
      moreover have "snd (port_set_hostname e pid hostname db) \<in> {mid} \<union>
          {snd (serve_from e (port_service p) n [] mid) | n. hostname = Some n} \<union>
          {snd (edges_set e (port_service p) n ns mid) | n ns. hostname = Some n}"
      proof -
        have free': "\<not> (hostname \<noteq> None \<and> ?p \<noteq> None \<and>
            list_ex (\<lambda>q. port_id q \<noteq> pid \<and> port_hostname q = hostname) (port_rows db))" using free by blast
        note allowed' = allowed [unfolded de_Morgan_disj]
        have "\<exists>serving. snd (port_set_hostname e pid hostname db) =
            (case hostname of None \<Rightarrow> mid
             | Some n \<Rightarrow> if serving = [] then snd (serve_from e (port_service p) n [] mid)
                 else snd (edges_set e (port_service p) n serving mid))"
        proof (intro exI)
          show "snd (port_set_hostname e pid hostname db) =
            (case hostname of None \<Rightarrow> mid
             | Some n \<Rightarrow> if (case Option.bind ?p port_hostname of Some w \<Rightarrow> edge_nodes_for db w | None \<Rightarrow> []) = []
                 then snd (serve_from e (port_service p) n [] mid)
                 else snd (edges_set e (port_service p) n
                   (case Option.bind ?p port_hostname of Some w \<Rightarrow> edge_nodes_for db w | None \<Rightarrow> []) mid))"
            unfolding port_set_hostname_def Let_def db0_def [symmetric] edited_def [symmetric]
              if_not_P [OF conjunct1 [OF allowed']] if_not_P [OF conjunct2 [OF allowed']] if_not_P [OF free']
            by (cases "port_hostname p"; cases hostname)
              (simp_all add: Some mid_def edges_set_none if_distrib [of snd] if_distrib [of "\<lambda>x. case x of (failed, db) \<Rightarrow> _ failed db"])
        qed
        then show ?thesis by (auto split: option.splits if_splits)
      qed
      ultimately show ?thesis using serve_from_keeps edges_set_keeps(1) by auto
    qed
  qed
qed

lemma sound_set_published:
  assumes "names_sound db"
  shows "names_sound (snd (port_set_published pid publish db))"
proof -
  have edit: "names_sound (edit_port pid (\<lambda>p. p\<lparr>host_port := at\<rparr>) db)"
    if free: "\<And>c. at = Some c \<Longrightarrow> unat c \<in> set HOST_PORT_RANGE \<and> (\<forall>p\<in>set (port_rows db). host_port p \<noteq> Some c)" for at
  proof -
    let ?edit = "\<lambda>p. if port_id p = pid then p\<lparr>host_port := at\<rparr> else p"
    let ?rows = "map ?edit (port_rows db)"
    have maps: "map port_id ?rows = map port_id (port_rows db)"
      "map (\<lambda>q. (port_service q, container_port q)) ?rows = map (\<lambda>q. (port_service q, container_port q)) (port_rows db)"
      by (simp_all add: comp_def)
    have columns: "port_id (?edit q) = port_id q" "port_hostname (?edit q) = port_hostname q"
      "port_service (?edit q) = port_service q" for q by simp_all
    have "own_value port_hostname ?rows"
      using assms unfolding names_sound_def ports_keyed_def own_value_def list.pred_map comp_def columns by simp
    moreover have "own_value host_port ?rows"
      unfolding own_value_def list_all_iff
    proof (intro ballI impI)
      fix a b
      assume "a \<in> set ?rows" "b \<in> set ?rows"
      then obtain q r where q: "q \<in> set (port_rows db)" "a = ?edit q" and r: "r \<in> set (port_rows db)" "b = ?edit r" by auto
      assume ab: "host_port a \<noteq> None" "host_port b = host_port a"
      have own: "own_value host_port (port_rows db)" using assms by (simp add: names_sound_def ports_keyed_def)
      consider "port_id q = pid" "port_id r = pid" | "port_id q \<noteq> pid" "port_id r \<noteq> pid"
        | "port_id q = pid" "port_id r \<noteq> pid" | "port_id q \<noteq> pid" "port_id r = pid" by blast
      then show "port_id b = port_id a"
      proof cases
        case 2
        with q r ab have n: "host_port q \<noteq> None" "host_port r = host_port q" by simp_all
        have "port_id r = port_id q" by (rule own_valueD [OF own q(1) r(1) n])
        with q(2) r(2) show ?thesis by simp
      qed (use q r ab free in auto)
    qed
    moreover have "edges_keyed (db\<lparr>port_rows := ?rows\<rparr>)"
    proof (rule edges_keyed_more [of db])
      fix sid host
      assume "backed db sid host"
      then show "backed (db\<lparr>port_rows := ?rows\<rparr>) sid host"
        by (simp add: backed_def list_ex_edited)
    qed (use assms in \<open>simp_all add: names_sound_def\<close>)
    moreover have "redirects_keyed (db\<lparr>port_rows := ?rows\<rparr>)"
    proof -
      have "port_id ` set ?rows = port_id ` set (port_rows db)" using maps(1) unfolding list.set_map [symmetric] by simp
      then show ?thesis
        using assms by (simp add: names_sound_def redirects_keyed_def list_all_iff del: set_map)
          auto
    qed
    ultimately show ?thesis
      using assms free unfolding edit_port_def names_sound_def ports_keyed_def
      by (simp add: maps list_all_iff del: map_map) (auto split: option.splits)
  qed
  show ?thesis
  proof (cases "snd (port_set_published pid publish db) = db")
    case False
    then obtain at where "snd (port_set_published pid publish db) = edit_port pid (\<lambda>p. p\<lparr>host_port := at\<rparr>) db"
      "\<And>c. at = Some c \<Longrightarrow> free_host_port db = Inr c"
      by (auto simp: port_set_published_def split: option.splits bool.splits sum.splits)
    then show ?thesis using edit [of at] free_host_port_free by metis
  qed (use assms in simp)
qed

lemma sound_port_delete:
  assumes "names_sound db"
  shows "names_sound (port_delete pid db)"
proof -
  define last_of :: "edge_row \<Rightarrow> bool" where "last_of = (\<lambda>r. list_ex (\<lambda>gone. port_id gone = pid \<and> port_service gone = eg_service r \<and>
             port_hostname gone = Some (eg_hostname r) \<and>
             \<not> list_ex (\<lambda>kept. port_service kept = port_service gone \<and>
                 port_hostname kept = port_hostname gone \<and> port_id kept \<noteq> pid) (port_rows db)) (port_rows db))"
  define db1 where "db1 = forget_redirects_of pid (db\<lparr>edge_rows := filter (\<lambda>r. \<not> last_of r) (edge_rows db)\<rparr>)"
  let ?db = "db1\<lparr>port_rows := filter (\<lambda>p. port_id p \<noteq> pid) (port_rows db1)\<rparr>"
  have deleted: "port_delete pid db = ?db"
    by (simp add: port_delete_def Let_def db1_def last_of_def)
  have "names_sound (db\<lparr>edge_rows := filter (\<lambda>r. \<not> last_of r) (edge_rows db)\<rparr>)"
    using assms by (auto simp: names_sound_def ports_keyed_def redirects_keyed_def edges_keyed_def
        edge_keys_def distinct_map_filter list_all_iff backed_def)
  then have sound: "names_sound db1" using sound_forget_redirects by (simp add: db1_def)
  have rows: "port_rows db1 = port_rows db" "service_keys db1 = service_keys db" by (simp_all add: db1_def)
  have edges: "set (edge_rows db1) \<subseteq> {g \<in> set (edge_rows db). \<not> last_of g}"
    by (auto simp: db1_def forget_redirects_of_def Let_def)
  have "backed ?db (eg_service g) (eg_hostname g)" if g: "g \<in> set (edge_rows db1)" for g
  proof -
    have "backed db1 (eg_service g) (eg_hostname g)"
      using sound g by (auto simp: names_sound_def edges_keyed_def list_all_iff)
    then consider (port) q where "q \<in> set (port_rows db)" "port_service q = eg_service g" "port_hostname q = Some (eg_hostname g)"
      | (redirect) r q where "r \<in> set (redirect_rows db1)" "rd_hostname r = eg_hostname g" "q \<in> set (port_rows db)"
          "port_id q = rd_port r" "port_service q = eg_service g"
      by (auto simp: backed_def list_ex_iff rows)
    then show ?thesis
    proof cases
      case port
      have "port_id q \<noteq> pid"
      proof
        assume "port_id q = pid"
        moreover have "\<not> list_ex (\<lambda>kept. port_service kept = port_service q \<and>
                 port_hostname kept = port_hostname q \<and> port_id kept \<noteq> pid) (port_rows db)"
        proof
          assume "list_ex (\<lambda>kept. port_service kept = port_service q \<and>
                 port_hostname kept = port_hostname q \<and> port_id kept \<noteq> pid) (port_rows db)"
          then obtain k where k: "k \<in> set (port_rows db)" "port_hostname k = port_hostname q" "port_id k \<noteq> pid"
            by (auto simp: list_ex_iff)
          have own: "own_value port_hostname (port_rows db)" using assms by (simp add: names_sound_def ports_keyed_def)
          have "port_hostname q \<noteq> None" using port(3) by simp
          then have "port_id k = port_id q" using own_valueD [OF own port(1) k(1)] k(2) by blast
          with \<open>port_id q = pid\<close> k(3) show False by simp
        qed
        ultimately have "last_of g" using port unfolding last_of_def list_ex_iff by metis
        with g edges show False by blast
      qed
      with port rows show ?thesis by (auto simp: backed_def list_ex_iff)
    next
      case redirect
      then have "rd_port r \<noteq> pid" by (simp add: db1_def)
      then have "q \<in> set (port_rows ?db)" using redirect(3,4) rows by simp
      moreover have "r \<in> set (redirect_rows ?db)" using redirect(1) by simp
      ultimately show ?thesis using redirect(2,4,5) unfolding backed_def list_ex_iff by blast
    qed
  qed
  then have "edges_keyed ?db" using sound by (simp add: names_sound_def edges_keyed_def list_all_iff)
  moreover have "redirects_keyed ?db"
    unfolding redirects_keyed_def list_all_iff
  proof (intro conjI ballI)
    fix r assume "r \<in> set (redirect_rows ?db)"
    then have "rd_port r \<noteq> pid" "r \<in> set (redirect_rows db1)" by (simp_all add: db1_def)
    with sound show "rd_port r \<in> port_id ` set (port_rows ?db)"
      by (fastforce simp: names_sound_def redirects_keyed_def list_all_iff image_iff)
  qed (use sound in \<open>auto simp: names_sound_def redirects_keyed_def list_all_iff\<close>)
  moreover have "ports_keyed ?db"
    using sound by (auto simp: names_sound_def ports_keyed_def own_value_def list_all_iff distinct_map_filter)
  ultimately show ?thesis unfolding deleted by (simp add: names_sound_def)
qed


subsection \<open>Redirects\<close>

lemma sound_redirect_create:
  assumes "names_sound db" "p \<in> set (port_rows db)"
  shows "names_sound (snd (redirect_create e p hostname served_by db))"
proof (cases "snd (redirect_create e p hostname served_by db) = db")
  case False
  define n where "n = hostname_parse hostname"
  define db1 where "db1 = db\<lparr>redirect_rows := redirect_rows db @
      [\<lparr>rd_hostname = n, rd_port = port_id p, rd_created = nv_now e\<rparr>]\<rparr>"
  from False have new: "\<not> list_ex (\<lambda>q. port_hostname q = Some n) (ports_all db)"
      "\<not> list_ex (\<lambda>r. rd_hostname r = n) (redirect_rows db)"
    and made: "snd (redirect_create e p hostname served_by db) = snd (serve_from e (port_service p) n served_by db1)"
    by (auto simp: redirect_create_def Let_def n_def db1_def split: option.splits prod.splits if_splits)
  have "redirects_keyed db1"
    using assms new by (auto simp: names_sound_def redirects_keyed_def db1_def list_all_iff list_ex_iff ports_all_def)
  moreover have "ports_keyed db1" using assms by (simp add: names_sound_def ports_keyed_def db1_def)
  moreover have "edges_keyed db1"
    by (rule edges_keyed_more [of db]) (use assms in \<open>auto simp: names_sound_def db1_def backed_def\<close>)
  ultimately have "names_sound db1" by (simp add: names_sound_def)
  moreover have "backed db1 (port_service p) n"
    using assms(2) by (auto simp: backed_def db1_def list_ex_iff)
  ultimately show ?thesis unfolding made by (rule serve_from_keeps)
qed (use assms in simp)

lemma sound_redirect_delete:
  assumes "names_sound db"
  shows "names_sound (snd (redirect_delete sid host db))"
proof (cases "snd (redirect_delete sid host db) = db")
  case False
  define gone :: "redirect_row \<Rightarrow> bool" where "gone r \<longleftrightarrow> rd_hostname r = host \<and>
    list_ex (\<lambda>p. port_id p = rd_port r \<and> port_service p = sid) (port_rows db)" for r
  define db1 where "db1 = db\<lparr>redirect_rows := filter (\<lambda>r. \<not> gone r) (redirect_rows db),
    edge_rows := filter (\<lambda>g. \<not> (eg_hostname g = host \<and> eg_service g = sid)) (edge_rows db)\<rparr>"
  from False have made: "snd (redirect_delete sid host db) = db1"
    by (auto simp: redirect_delete_def Let_def gone_def db1_def split: if_splits)
  have "backed db1 (eg_service g) (eg_hostname g)" if g: "g \<in> set (edge_rows db1)" for g
  proof -
    have kept: "g \<in> set (edge_rows db)" "\<not> (eg_hostname g = host \<and> eg_service g = sid)"
      using g by (auto simp: db1_def)
    have "backed db (eg_service g) (eg_hostname g)"
      using assms kept(1) by (auto simp: names_sound_def edges_keyed_def list_all_iff)
    then consider (port) "list_ex (\<lambda>p. port_service p = eg_service g \<and> port_hostname p = Some (eg_hostname g)) (port_rows db)"
      | (redirect) r p where "r \<in> set (redirect_rows db)" "rd_hostname r = eg_hostname g" "p \<in> set (port_rows db)"
          "port_id p = rd_port r" "port_service p = eg_service g"
      by (auto simp: backed_def list_ex_iff)
    then show ?thesis
    proof cases
      case port
      then show ?thesis by (simp add: backed_def db1_def)
    next
      case redirect
      have "\<not> gone r"
      proof
        assume "gone r"
        then obtain q where q: "q \<in> set (port_rows db)" "port_id q = rd_port r" "port_service q = sid" "rd_hostname r = host"
          by (auto simp: gone_def list_ex_iff)
        have "distinct (map port_id (port_rows db))" using assms by (simp add: names_sound_def ports_keyed_def)
        then have "q = p" using q(1,2) redirect(3,4) by (metis inj_onD distinct_map)
        with q redirect kept(2) show False by simp
      qed
      with redirect show ?thesis unfolding backed_def db1_def list_ex_iff by auto
    qed
  qed
  then have "edges_keyed db1"
    using assms by (auto simp: names_sound_def edges_keyed_def list_all_iff db1_def edge_keys_def distinct_map_filter)
  moreover have "ports_keyed db1" "redirects_keyed db1"
    using assms by (auto simp: names_sound_def ports_keyed_def redirects_keyed_def db1_def list_all_iff distinct_map_filter)
  ultimately show ?thesis by (simp add: made names_sound_def)
qed (use assms in simp)

subsection \<open>Services\<close>

lemma sound_service_new: "names_sound db \<Longrightarrow> names_sound (names_service_new sid db)"
  by (auto simp: names_service_new_def names_sound_def ports_keyed_def redirects_keyed_def edges_keyed_def
      list_all_iff backed_def)

lemma sound_service_gone:
  assumes "names_sound db"
  shows "names_sound (names_service_gone sid db)"
proof -
  let ?ports = "map port_id (filter (\<lambda>p. port_service p = sid) (port_rows db))"
  define db1 where "db1 = names_service_gone sid db"
  have rows: "port_rows db1 = filter (\<lambda>p. port_service p \<noteq> sid) (port_rows db)"
    "redirect_rows db1 = filter (\<lambda>r. rd_port r \<notin> set ?ports) (redirect_rows db)"
    "edge_rows db1 = filter (\<lambda>g. eg_service g \<noteq> sid) (edge_rows db)"
    "service_keys db1 = filter (\<lambda>s. s \<noteq> sid) (service_keys db)"
    by (simp_all add: db1_def names_service_gone_def Let_def)
  have keys: "distinct (map port_id (port_rows db))" using assms by (simp add: names_sound_def ports_keyed_def)
  have "backed db1 (eg_service g) (eg_hostname g)" if g: "g \<in> set (edge_rows db1)" for g
  proof -
    have kept: "g \<in> set (edge_rows db)" "eg_service g \<noteq> sid" using g by (auto simp: rows)
    have "backed db (eg_service g) (eg_hostname g)"
      using assms kept(1) by (auto simp: names_sound_def edges_keyed_def list_all_iff)
    then consider (port) p where "p \<in> set (port_rows db)" "port_service p = eg_service g" "port_hostname p = Some (eg_hostname g)"
      | (redirect) r p where "r \<in> set (redirect_rows db)" "rd_hostname r = eg_hostname g" "p \<in> set (port_rows db)"
          "port_id p = rd_port r" "port_service p = eg_service g"
      by (auto simp: backed_def list_ex_iff)
    then show ?thesis
    proof cases
      case port
      with kept show ?thesis by (auto simp: backed_def rows list_ex_iff)
    next
      case redirect
      have "rd_port r \<notin> set ?ports"
      proof
        assume "rd_port r \<in> set ?ports"
        then obtain q where q: "q \<in> set (port_rows db)" "port_service q = sid" "port_id q = rd_port r" by auto
        then have "q = p" using redirect(3,4) keys by (metis inj_onD distinct_map)
        with q redirect kept show False by simp
      qed
      then have "r \<in> set (redirect_rows db1)" using redirect(1) by (simp add: rows)
      moreover have "p \<in> set (port_rows db1)" using redirect(3,5) kept(2) by (simp add: rows)
      ultimately show ?thesis using redirect(2,4,5) unfolding backed_def list_ex_iff by blast
    qed
  qed
  then have "edges_keyed db1"
    using assms by (simp add: names_sound_def edges_keyed_def list_all_iff rows edge_keys_def distinct_map_filter)
  moreover have "ports_keyed db1"
    using assms by (auto simp: names_sound_def ports_keyed_def own_value_def list_all_iff rows distinct_map_filter)
  moreover have "redirects_keyed db1"
    using assms by (fastforce simp: names_sound_def redirects_keyed_def list_all_iff rows image_iff distinct_map_filter)
  ultimately show ?thesis by (simp add: db1_def names_sound_def)
qed

lemma sound_accept_secret: "names_sound db \<Longrightarrow> names_sound (accept_secret host secret db)"
  by (rule sound_parts [of db]) (simp_all add: accept_secret_def names_sound_def edges_keyed_def backed_def)


section \<open>Everything that changes the names\<close>

text \<open>
  What reaches the rows: a service's row made or removed by its own commands, the commands of the
  forms each with the name somebody typed, and a secret another node gives.
\<close>

datatype names_event =
    ServiceMade string
  | ServiceRemoved string
  | PortAsked publish_env service port_request
  | RedirectAsked publish_env service string string
  | PortDropped service string
  | RedirectDropped service string
  | EdgesChosen publish_env service string "string list"
  | DatabaseNamed publish_env service string
  | DatabasePublished service bool
  | SecretGiven string string

fun names_step :: "names_event \<Rightarrow> names_db \<Rightarrow> names_db" where
  "names_step (ServiceMade sid) db = names_service_new sid db"
| "names_step (ServiceRemoved sid) db = names_service_gone sid db"
| "names_step (PortAsked e s asked) db = snd (add_service_port e s asked db)"
| "names_step (RedirectAsked e s to host) db = snd (add_service_redirect e s to host db)"
| "names_step (PortDropped s pid) db = snd (delete_service_port s pid db)"
| "names_step (RedirectDropped s host) db = snd (delete_service_redirect s host db)"
| "names_step (EdgesChosen e s host chosen) db = snd (set_service_edges e s host chosen db)"
| "names_step (DatabaseNamed e s typed) db = snd (name_database e s typed db)"
| "names_step (DatabasePublished s published) db = snd (publish_database s published db)"
| "names_step (SecretGiven host secret) db = accept_secret host secret db"

fun typed_settles :: "names_event \<Rightarrow> bool" where
  "typed_settles (PortAsked e s asked) \<longleftrightarrow> name_settles (hostname_parse (pq_hostname asked))"
| "typed_settles (DatabaseNamed e s typed) \<longleftrightarrow> name_settles typed"
| "typed_settles _ \<longleftrightarrow> True"

lemma ports_of_service_rows: "p \<in> set (ports_of_service db sid) \<longleftrightarrow> p \<in> set (port_rows db) \<and> port_service p = sid"
  by (auto simp: ports_of_service_def)

lemma snd_or_publish [simp]: "snd (or_publish r f) = snd r"
  by (auto simp: or_publish_def split: prod.splits sum.splits)

lemma names_step_keeps:
  assumes "names_sound db" "typed_settles ev"
  shows "names_sound (names_step ev db)"
proof (cases ev)
  case (PortAsked e s asked)
  then show ?thesis
    using assms sound_port_create [OF assms(1)] by (auto simp: add_service_port_def Let_def)
next
  case (RedirectAsked e s to host)
  then show ?thesis
    using assms(1) sound_redirect_create [OF assms(1)]
    by (auto simp: add_service_redirect_def Let_def find_Some_iff ports_of_service_rows
        split: option.splits dest!: nth_mem)
next
  case (EdgesChosen e s host chosen)
  have "names_sound (snd (edges_set (pe_names e) (service_id s) host chosen db))"
    if "list_ex (\<lambda>p. port_hostname p = Some host) (ports_of_service db (service_id s))"
    using that by (intro edges_set_keeps(1) assms(1)) (auto simp: backed_def list_ex_iff ports_of_service_rows)
  then show ?thesis using EdgesChosen assms(1) by (simp add: set_service_edges_def Let_def)
next
  case (DatabaseNamed e s typed)
  then show ?thesis
    using assms sound_set_hostname [OF assms(1), of "Some (hostname_parse typed)"]
    by (auto simp: name_database_def Let_def name_settles_def split: list.splits prod.splits)
       (metis snd_conv)
next
  case (DatabasePublished s published)
  then show ?thesis using assms(1) sound_set_published by (auto simp: publish_database_def split: list.splits)
next
  case (RedirectDropped s host)
  then show ?thesis using sound_redirect_delete [OF assms(1), of "service_id s" host]
    by (auto simp: delete_service_redirect_def split: prod.splits)
qed (use assms(1) sound_service_new sound_service_gone sound_port_delete sound_accept_secret in
    \<open>auto simp: delete_service_port_def\<close>)

text \<open>Nobody has published anything.\<close>

definition names_empty :: names_db where
  "names_empty = \<lparr>service_keys = [], port_rows = [], redirect_rows = [], edge_rows = [],
    edge_peer_rows = [], edge_secret_rows = []\<rparr>"

interpretation names: guarded_machine names_step typed_settles names_sound
  by unfold_locales (rule names_step_keeps)

lemma sound_empty: "names_sound names_empty"
  by (simp add: names_empty_def names_sound_def ports_keyed_def redirects_keyed_def edges_keyed_def
      own_value_def edge_keys_def)

text \<open>
  Property C12. Names stay whole: whatever services come and go and whatever is asked of the forms
  (with names whose trimmed form is settled), every name is the hostname of one port at most, every
  published port of this machine is one port's and inside the range, no name both serves and
  redirects, every redirect leads to a port there is, and every row saying that a node answers for a
  name (what its certificate is ordered from) is for a name that service serves or redirects.
\<close>

theorem names_stay_whole:
  assumes "list_all typed_settles asked"
  shows "names_sound (fold names_step asked names_empty)"
  by (rule names.run_asked_keeps [OF assms sound_empty])


text \<open>
  One node that answers for names, where \<open>acme.io\<close> and whatever is below it lead; a service
  published under two names, one of which only redirects, with its port deleted in the end.
\<close>

definition demo_dns_world :: resolver where
  "demo_dns_world = \<lparr>system_lookup = (\<lambda>_. {Inl (10, 0, 0, 1)}), held_here = {}\<rparr>"

definition demo_edge :: node where
  "demo_edge = \<lparr>nd_id = ''me'', nd_name = ''me'', nd_kind = Public, endpoint = Some ''me.io:443'', is_self = True,
    last_seen_at = None, allows = [], draining_at = None, node_capacity = None\<rparr>"

definition demo_form :: "string \<Rightarrow> publish_env" where
  "demo_form i = \<lparr>pe_names = \<lparr>nv_now = 5, nv_id = i, nv_secret = ''s'', nv_keeps = False, nv_me = Some demo_edge,
      nv_orgs = \<lparr>projects = [], memberships = [], accounts = []\<rparr>\<rparr>,
    pe_world = demo_dns_world,
    pe_grants = \<lparr>settings = [(''node.provides.edge'', ''on''), (''node.domain'', ''me.io'')], node_grant = [], node_grant_withdrawn = []\<rparr>,
    pe_nodes = [demo_edge]\<rparr>"

definition demo_site :: service where
  "demo_site = \<lparr>service_id = ''svc'', service_project = ''p'', service_name = ''web'', service_slug = ''web'',
    service_image = ''nginx'', service_env = (\<lambda>_. None), desired = desired_state.Running, service_error = None,
    service_address = None, track_tag = None, auto_deploy = False, service_origin = None, memory_limit = None,
    cpu_millicores = None, disk_limit = None, log_timestamps = False, log_budget = None, service_kind = Container\<rparr>"

definition published_once :: "names_event list" where
  "published_once =
    [ServiceMade ''svc'',
     PortAsked (demo_form ''1'') demo_site \<lparr>pq_container = 80, pq_publish = False, pq_hostname = ''Acme.io.'', pq_https = True\<rparr>,
     PortAsked (demo_form ''2'') demo_site \<lparr>pq_container = 81, pq_publish = False, pq_hostname = ''acme.io'', pq_https = True\<rparr>,
     RedirectAsked (demo_form ''3'') demo_site ''acme.io'' ''www.acme.io'',
     PortAsked (demo_form ''4'') demo_site \<lparr>pq_container = 82, pq_publish = False, pq_hostname = ''www.acme.io'', pq_https = True\<rparr>]"

theorem names_stay_whole_witness:
  "let db = fold names_step published_once names_empty in
    names_sound db \<and>
    map port_hostname (port_rows db) = [Some ''acme.io''] \<and> map rd_hostname (redirect_rows db) = [''www.acme.io''] \<and>
    map (\<lambda>g. (eg_hostname g, eg_node g)) (edge_rows db) = [(''acme.io'', ''me''), (''www.acme.io'', ''me'')] \<and>
    edge_rows (names_step (PortDropped demo_site ''prt-1'') db) = []"
proof -
  have "list_all typed_settles published_once" by code_simp
  note whole = names_stay_whole [OF this]
  have "map port_hostname (port_rows (fold names_step published_once names_empty)) = [Some ''acme.io'']" by code_simp
  moreover have "map rd_hostname (redirect_rows (fold names_step published_once names_empty)) = [''www.acme.io'']" by code_simp
  moreover have "map (\<lambda>g. (eg_hostname g, eg_node g)) (edge_rows (fold names_step published_once names_empty)) =
      [(''acme.io'', ''me''), (''www.acme.io'', ''me'')]" by code_simp
  moreover have "map eg_hostname (edge_rows (names_step (PortDropped demo_site ''prt-1'') (fold names_step published_once names_empty))) = []"
    by code_simp
  ultimately show ?thesis using whole by (simp add: Let_def)
qed

end
