(* ===== verification/Routing.thy ===== *)
theory Routing
  imports Edge Publishing
begin

text \<open>
  Which name reaches what: the addresses this machine holds (infra/network/lan.rs), where the
  copies of a service answer and the pass that recomputes every route from the rows
  (infra/deploy/routing.rs, upstreams.rs), what the other nodes that answer for a name are told
  (infra/deploy/mod.rs) and the withdrawal of names no row asks for (edge_withdrawals.rs).

  What the kernel lists as the interfaces' addresses is a parameter, and one pass has one clock.
\<close>

section \<open>The addresses of this machine (lan.rs)\<close>

type_synonym ipv4 = "u8 \<times> u8 \<times> u8 \<times> u8"

record held_address =
  hd_address :: ipv4
  hd_mask :: ipv4

definition PLATFORM :: "u8 \<times> u8" where
  "PLATFORM = (10, 42)"

fun is_platform :: "ipv4 \<Rightarrow> bool" where
  "is_platform (a, b, c, d) \<longleftrightarrow> (a, b) = PLATFORM"

text \<open>The standard library's classes of addresses.\<close>

fun is_loopback4 :: "ipv4 \<Rightarrow> bool" where
  "is_loopback4 (a, b, c, d) \<longleftrightarrow> a = 127"

fun is_link_local4 :: "ipv4 \<Rightarrow> bool" where
  "is_link_local4 (a, b, c, d) \<longleftrightarrow> a = 169 \<and> b = 254"

fun is_multicast4 :: "ipv4 \<Rightarrow> bool" where
  "is_multicast4 (a, b, c, d) \<longleftrightarrow> 224 \<le> a \<and> a \<le> 239"

definition worth_naming :: "held_address \<Rightarrow> bool" where
  "worth_naming h \<longleftrightarrow>
    \<not> is_loopback4 (hd_address h) \<and> \<not> is_link_local4 (hd_address h) \<and> \<not> is_multicast4 (hd_address h) \<and>
    hd_address h \<noteq> (0, 0, 0, 0) \<and> hd_address h \<noteq> (255, 255, 255, 255) \<and> \<not> is_platform (hd_address h)"

definition lan_held :: "held_address list \<Rightarrow> held_address list" where
  "lan_held walked = filter worth_naming walked"

definition lan_addresses :: "held_address list \<Rightarrow> string list" where
  "lan_addresses walked = map (\<lambda>h. case hd_address h of (a, b, c, d) \<Rightarrow> show_ipv4 a b c d) (lan_held walked)"

fun ipv4_bits :: "ipv4 \<Rightarrow> u32" where
  "ipv4_bits (a, b, c, d) =
    or (push_bit 24 (ucast a)) (or (push_bit 16 (ucast b)) (or (push_bit 8 (ucast c)) (ucast d)))"

definition same_network :: "ipv4 \<Rightarrow> held_address \<Rightarrow> bool" where
  "same_network a h \<longleftrightarrow>
    and (ipv4_bits a) (ipv4_bits (hd_mask h)) = and (ipv4_bits (hd_address h)) (ipv4_bits (hd_mask h))"

text \<open>Sorted as the derived order of an address, which is the order of its octets.\<close>

definition lan_candidate :: "ipv4 list \<Rightarrow> held_address list \<Rightarrow> ipv4 option" where
  "lan_candidate peer mine =
    (let reachable = filter (\<lambda>a. list_ex (\<lambda>h. hd_mask h \<noteq> (0, 0, 0, 0) \<and> same_network a h) mine)
           (filter (\<lambda>a. \<not> list_ex (\<lambda>h. hd_address h = a) mine) (filter (\<lambda>a. \<not> is_platform a) peer)) in
     case sort reachable of [] \<Rightarrow> None | a # _ \<Rightarrow> Some a)"

definition lan_parse :: "string \<Rightarrow> ipv4 list" where
  "lan_parse said = List.map_filter (\<lambda>s. parse_ipv4 (trim s)) (split_on CHR '','' said)"

section \<open>Where the copies answer\<close>

record linked_node = dns_node +
  overlay_ip :: "string option"
  public_key :: "string option"
  ca_pem :: "string option"
  nd_lan :: "string option"

definition lan_remember :: "string \<Rightarrow> string list \<Rightarrow> 'a linked_node_scheme list \<Rightarrow> 'a linked_node_scheme list" where
  "lan_remember node addresses nodes =
    map (\<lambda>n. if nd_id n = node then n\<lparr>nd_lan := Some (join_with '','' addresses)\<rparr> else n) nodes"

definition lan_of_every_node :: "'a linked_node_scheme list \<Rightarrow> (string \<times> ipv4 list) list" where
  "lan_of_every_node nodes = List.map_filter (\<lambda>n.
     case nd_lan n of Some said \<Rightarrow> if said \<noteq> [] then Some (nd_id n, lan_parse said) else None | None \<Rightarrow> None) nodes"

definition linked_all :: "'a linked_node_scheme list \<Rightarrow> 'a linked_node_scheme list" where
  "linked_all nodes = sort_key (\<lambda>n. (\<not> is_self n, nd_name n)) nodes"

definition linked_me :: "'a linked_node_scheme list \<Rightarrow> 'a linked_node_scheme option" where
  "linked_me nodes = List.find is_self nodes"

definition internal_name :: "string \<Rightarrow> string" where
  "internal_name i = lowercase i @ ''.node''"

definition upstreams_of :: "replica list \<Rightarrow> replica list \<Rightarrow> linked_node list \<Rightarrow> string \<Rightarrow> u16
    \<Rightarrow> (string \<times> socket_addr) list" where
  "upstreams_of here elsewhere nodes sid container =
    List.map_filter (\<lambda>r. case address r of
        None \<Rightarrow> None
      | Some at \<Rightarrow> map_option (Pair (replica_id r)) (parse_socket (at @ '':'' @ show_byte container)))
      (filter (\<lambda>r. replica_service r = sid) here) @
    List.map_filter (\<lambda>r. case overlay_port r of
        None \<Rightarrow> None
      | Some port \<Rightarrow>
          (case Option.bind (Option.bind (node_id r) (\<lambda>i. List.find (\<lambda>n. nd_id n = i) nodes)) overlay_ip of
             None \<Rightarrow> None
           | Some overlay \<Rightarrow> map_option (Pair (replica_id r)) (parse_socket (overlay @ '':'' @ show_byte port))))
      (filter (\<lambda>r. \<not> evicted r) (filter (\<lambda>r. replica_service r = sid) elsewhere))"

text \<open>The other derivation, for the nodes that are told (upstreams.rs).\<close>

definition upstreams_told :: "replica list \<Rightarrow> linked_node list \<Rightarrow> string list" where
  "upstreams_told placements nodes =
    List.map_filter (\<lambda>r. case overlay_port r of
        None \<Rightarrow> None
      | Some port \<Rightarrow>
          map_option (\<lambda>overlay. overlay @ '':'' @ show_byte port)
            (Option.bind (case node_id r of
                 Some i \<Rightarrow> List.find (\<lambda>n. nd_id n = i) nodes
               | None \<Rightarrow> List.find is_self nodes) overlay_ip))
      (filter (\<lambda>r. \<not> evicted r) placements)"

section \<open>Recomputing the routes (routing.rs)\<close>

text \<open>What the pass reads: the rows, the node's domain, its interfaces.\<close>

record routing_view =
  vw_now :: int
  vw_domain :: "string option"
  vw_walked :: "held_address list"
  vw_nodes :: "linked_node list"
  vw_names :: names_db
  vw_estate :: estate

type_synonym route_write = "string \<times> upstream \<times> string option"

definition vw_serving :: "routing_view \<Rightarrow> string list" where
  "vw_serving v = edges_of_node (vw_names v) (map_option nd_id (linked_me (vw_nodes v)))"

definition vw_upstreams :: "routing_view \<Rightarrow> string \<Rightarrow> u16 \<Rightarrow> socket_addr list" where
  "vw_upstreams v sid container =
    map snd (upstreams_of (rows_here (replica_rows (vw_estate v))) (rows_elsewhere (replica_rows (vw_estate v)))
      (linked_all (vw_nodes v)) sid container)"

definition proxy_writes :: "routing_view \<Rightarrow> route_write list" where
  "proxy_writes v = List.map_filter (\<lambda>p.
     case port_hostname p of
       None \<Rightarrow> None
     | Some hostname \<Rightarrow>
        if hostname \<notin> set (vw_serving v) then None
        else (case List.find (\<lambda>s. service_id s = port_service p) (services_all (vw_estate v) None) of
           None \<Rightarrow> None
         | Some s \<Rightarrow>
            if is_managed (service_kind s) then None
            else
             (let upstreams = vw_upstreams v (service_id s) (container_port p) in
              if upstreams = [] then None else Some (hostname, Proxy upstreams, Some (service_id s)))))
     (ports_all (vw_names v))"

definition redirect_writes :: "routing_view \<Rightarrow> route_write list" where
  "redirect_writes v = List.map_filter (\<lambda>r.
     if re_hostname r \<notin> set (vw_serving v) then None
     else (case List.find (\<lambda>p. port_id p = re_port r) (ports_all (vw_names v)) of
         None \<Rightarrow> None
       | Some p \<Rightarrow>
          if vw_upstreams v (re_service r) (container_port p) = [] then None
          else Some (re_hostname r, Redirect (re_target r), Some (re_service r))))
     (redirects_all (vw_names v))"

definition own_names :: "routing_view \<Rightarrow> string list" where
  "own_names v =
    (case vw_domain v of Some d \<Rightarrow> [d] | None \<Rightarrow> []) @
    (case linked_me (vw_nodes v) of Some me \<Rightarrow> [internal_name (nd_id me)] | None \<Rightarrow> []) @
    [FALLBACK_NAME] @ lan_addresses (vw_walked v)"

definition own_writes :: "routing_view \<Rightarrow> route_write list" where
  "own_writes v = map (\<lambda>name. (name, ControlPlane, None)) (own_names v)"

definition tenant_writes :: "routing_view \<Rightarrow> route_write list" where
  "tenant_writes v = List.map_filter (\<lambda>t.
     case tenant_domain t of
       None \<Rightarrow> None
     | Some domain \<Rightarrow>
        if list_ex (\<lambda>name. lowercase name = lowercase domain) (own_names v) then None
        else Some (domain, Tenant (tenant_id t), None))
     (tenants_all (vw_estate v))"

definition services_hold :: "routing_view \<Rightarrow> string list" where
  "services_hold v =
    List.map_filter port_hostname (ports_all (vw_names v)) @ map re_hostname (redirects_all (vw_names v))"

definition registry_writes :: "routing_view \<Rightarrow> route_write list" where
  "registry_writes v = List.map_filter (\<lambda>(project, domain).
     if list_ex (\<lambda>name. lowercase name = lowercase domain)
          (own_names v @ map fst (tenant_writes v) @ services_hold v) then None
     else Some (domain, Registry project, None))
     (registry_domains (org (vw_estate v)))"

definition upsert_all :: "int \<Rightarrow> route_write list \<Rightarrow> route_rows \<Rightarrow> route_rows" where
  "upsert_all now writes rows = fold (\<lambda>(host, u, s). route_upsert now host u s) writes rows"

definition routes_sync :: "routing_view \<Rightarrow> route_rows \<Rightarrow> nat \<times> route_rows" where
  "routes_sync v rows =
    (let write = upsert_all (vw_now v); hosts = map fst;
         (_, rows) = retain_proxies (hosts (proxy_writes v)) (write (proxy_writes v) rows);
         (_, rows) = retain_redirects (hosts (redirect_writes v)) (write (redirect_writes v) rows);
         (_, rows) = retain_control_plane (own_names v) (write (own_writes v) rows);
         (_, rows) = retain_tenants (hosts (tenant_writes v)) (write (tenant_writes v) rows);
         (_, rows) = retain_registries (hosts (registry_writes v)) (write (registry_writes v) rows) in
     (length (proxy_writes v), rows))"

text \<open>The live table is replaced by what the rows then say.\<close>

definition routes_reload :: "routing_view \<Rightarrow> route_rows \<Rightarrow> route_table option \<Rightarrow> route_rows \<times> route_table option" where
  "routes_reload v rows table =
    (let rows = snd (routes_sync v rows) in (rows, map_option (route_replace (load_all rows)) table))"

section \<open>Telling the other nodes (deploy/mod.rs, edge_withdrawals.rs)\<close>

definition co_edges :: "(string \<times> string) list \<Rightarrow> linked_node list \<Rightarrow> string \<Rightarrow> string \<Rightarrow> string option \<Rightarrow> peer list" where
  "co_edges chosen nodes hostname telling mine =
    List.map_filter (\<lambda>(name, i).
      if name \<noteq> hostname \<or> i = telling then None
      else (case List.find (\<lambda>n. nd_id n = i) nodes of
          None \<Rightarrow> None
        | Some n \<Rightarrow>
           (case (overlay_ip n, public_key n, if is_self n then mine else ca_pem n) of
              (Some ip, Some key, Some ca) \<Rightarrow> Some \<lparr>peer_node = nd_id n, peer_name = nd_name n,
                peer_overlay_ip = ip, peer_public_key = key, peer_ca_pem = ca\<rparr>
            | _ \<Rightarrow> None)))
      chosen"

text \<open>
  One telling: the wire, the moment, the ids new errands get, the certificate authority of this node
  where it can be read, what was granted, and the nodes with a database of this node.
\<close>

record telling =
  tl_wire :: serde
  tl_now :: int
  tl_id :: "string \<Rightarrow> string \<Rightarrow> string"
  tl_mine :: "string option"
  tl_grants :: grant_db
  tl_nodes :: "linked_node list"
  tl_authorities :: "(string \<times> int option) list"

definition edge_told :: "telling \<Rightarrow> names_db \<Rightarrow> replica list \<Rightarrow> service \<Rightarrow> string \<Rightarrow> string \<Rightarrow> edge_args" where
  "edge_told t db placements s hostname node =
    \<lparr>edge_hostname = hostname,
     edge_upstreams = upstreams_told (rows_of_service placements (service_id s)) (linked_all (tl_nodes t)),
     edge_peers = co_edges (edges_of_service db (service_id s)) (linked_all (tl_nodes t)) hostname node (tl_mine t),
     edge_secret = secret_for db hostname,
     edge_redirect = map_option re_target
       (List.find (\<lambda>r. re_hostname r = hostname) (redirects_of_service db (service_id s)))\<rparr>"

definition may_be_told :: "telling \<Rightarrow> string \<Rightarrow> bool" where
  "may_be_told t node \<longleftrightarrow>
    Some node \<noteq> map_option nd_id (List.find is_self (linked_all (tl_nodes t))) \<and>
    node \<in> set (map nd_id (candidates_for (tl_grants t) (map node.truncate (tl_nodes t)) Edge))"

definition tell_edges :: "telling \<Rightarrow> names_db \<Rightarrow> replica list \<Rightarrow> service \<Rightarrow> errand_entry list \<Rightarrow> errand_entry list" where
  "tell_edges t db placements s rows =
    (if \<not> service_is_ours s then rows
     else fold (\<lambda>(hostname, node) rows.
        if may_be_told t node
        then snd (queue_if_changed (tl_wire t) (tl_authorities t) (tl_now t) (tl_id t hostname node) node KEdge
          (''edge:'' @ service_id s @ '':'' @ hostname)
          (edge_value (tl_wire t) (edge_told t db placements s hostname node)) rows)
        else rows)
      (edges_of_service db (service_id s)) rows)"

definition withdraw_unwanted :: "serde \<Rightarrow> int \<Rightarrow> (string \<Rightarrow> string \<Rightarrow> string) \<Rightarrow> names_db \<Rightarrow> linked_node list
    \<Rightarrow> errand_entry list \<Rightarrow> nat \<times> errand_entry list" where
  "withdraw_unwanted sd now ids db nodes rows =
    (let wanted = map (\<lambda>(host, node). (node, host)) (edges_all db);
         me = map_option nd_id (linked_me nodes);
         unwanted = filter (\<lambda>(node, host). \<not> (Some node = me \<or> (node, host) \<in> set wanted)) (names_told sd rows) in
     (length unwanted, fold (\<lambda>(node, host) rows. snd (withdraw_name sd now (ids host node) node host rows)) unwanted rows))"


section \<open>The routes are a function of the rows\<close>

text \<open>What the pass promises, without passes: the last thing said of a name stands.\<close>

definition route_writes :: "routing_view \<Rightarrow> route_write list" where
  "route_writes v = proxy_writes v @ redirect_writes v @ own_writes v @ tenant_writes v @ registry_writes v"

definition last_write :: "route_write list \<Rightarrow> string \<Rightarrow> route_write option" where
  "last_write writes h = List.find (\<lambda>w. normalize (fst w) = h) (rev writes)"

definition row_of_write :: "int \<Rightarrow> route_write \<Rightarrow> route_row" where
  "row_of_write now w = encode_row (fst (snd w), snd (snd w), now)"

text \<open>The rows the pass owns; what an errand of another node wrote is not one.\<close>

definition derived_row :: "route_row \<Rightarrow> bool" where
  "derived_row r \<longleftrightarrow> upstream_kind r \<in> {''control_plane'', ''tenant'', ''registry''} \<or>
    upstream_kind r \<in> {''proxy'', ''redirect''} \<and> route_service r \<noteq> None"

lemma find_appended: "List.find P (xs @ ys) = (case List.find P xs of Some x \<Rightarrow> Some x | None \<Rightarrow> List.find P ys)"
  by (induction xs) simp_all

lemma last_write_append:
  "last_write (xs @ ys) h = (case last_write ys h of Some w \<Rightarrow> Some w | None \<Rightarrow> last_write xs h)"
  by (simp add: last_write_def find_appended split: option.splits)

lemma last_writeD: "last_write ws h = Some w \<Longrightarrow> w \<in> set ws \<and> normalize (fst w) = h"
  by (auto simp: last_write_def find_Some_iff split_beta) (metis nth_mem set_rev length_rev)

lemma last_write_None: "last_write ws h = None \<longleftrightarrow> h \<notin> normalize ` fst ` set ws"
  unfolding last_write_def find_None_iff set_rev by blast

lemma upsert_all_rows:
  assumes "well_keyed rows"
  shows "well_keyed (upsert_all now ws rows) \<and> map_of (upsert_all now ws rows) h =
    (case last_write ws h of Some w \<Rightarrow> Some (row_of_write now w) | None \<Rightarrow> map_of rows h)"
proof (induction ws rule: rev_induct)
  case (snoc w ws)
  obtain host u s where w: "w = (host, u, s)" by (cases w)
  have "last_write [w] h = (if normalize host = h then Some w else None)" by (simp add: last_write_def w)
  then show ?case
    using snoc by (auto simp: upsert_all_def last_write_append w route_upsert_put row_simps row_of_write_def)
qed (simp add: upsert_all_def last_write_def assms)

text \<open>One phase: write, then prune what the phase owns and did not write.\<close>

definition written :: "int \<Rightarrow> route_write list \<Rightarrow> (route_row \<Rightarrow> bool) \<Rightarrow> (string \<Rightarrow> route_row option) \<Rightarrow> string \<Rightarrow> route_row option" where
  "written now ws owned rows h =
    (case last_write ws h of Some w \<Rightarrow> Some (row_of_write now w)
     | None \<Rightarrow> (case rows h of Some r \<Rightarrow> if owned r then None else Some r | None \<Rightarrow> None))"

lemma phase_rows:
  assumes "well_keyed rows" "normalize ` fst ` set ws = set keep"
  shows "well_keyed (snd (prune_hosts owned keep (upsert_all now ws rows)))"
    "map_of (snd (prune_hosts owned keep (upsert_all now ws rows))) = written now ws owned (map_of rows)"
proof -
  have up: "well_keyed (upsert_all now ws rows)" using upsert_all_rows [OF assms(1)] by blast
  show "well_keyed (snd (prune_hosts owned keep (upsert_all now ws rows)))"
    by (rule well_keyed_prune_hosts [OF up])
  have kept: "h \<in> set keep" if "last_write ws h = Some w" for h w
    using last_writeD [OF that] assms(2) by force
  have lost: "h \<notin> set keep" if "last_write ws h = None" for h
    using that assms(2) by (simp add: last_write_None)
  show "map_of (snd (prune_hosts owned keep (upsert_all now ws rows))) = written now ws owned (map_of rows)"
    by (rule ext) (auto simp: prune_hosts_rows [OF up] written_def upsert_all_rows [OF assms(1)] lost
        dest: kept split: option.splits)
qed

lemma sync_rows:
  assumes "well_keyed rows"
  shows "well_keyed (snd (routes_sync v rows))"
    "map_of (snd (routes_sync v rows)) =
      written (vw_now v) (registry_writes v) (\<lambda>r. upstream_kind r = ''registry'')
       (written (vw_now v) (tenant_writes v) (\<lambda>r. upstream_kind r = ''tenant'')
        (written (vw_now v) (own_writes v) is_control_plane
         (written (vw_now v) (redirect_writes v) (\<lambda>r. upstream_kind r = ''redirect'' \<and> route_service r \<noteq> None)
          (written (vw_now v) (proxy_writes v) (\<lambda>r. upstream_kind r = ''proxy'' \<and> route_service r \<noteq> None)
           (map_of rows)))))"
proof -
  have keep: "normalize ` fst ` set ws = set (map normalize (map fst ws))" for ws :: "route_write list" by auto
  have own: "normalize ` fst ` set (own_writes v) = set (map normalize (own_names v) @ [normalize FALLBACK_NAME])"
  proof -
    have "FALLBACK_NAME \<in> set (own_names v)" by (simp add: own_names_def)
    then have "normalize FALLBACK_NAME \<in> normalize ` set (own_names v)" by (rule imageI)
    then show ?thesis by (auto simp del: normalize_FALLBACK simp add: own_writes_def image_image)
  qed
  define r1 where "r1 = snd (retain_proxies (map fst (proxy_writes v)) (upsert_all (vw_now v) (proxy_writes v) rows))"
  define r2 where "r2 = snd (retain_redirects (map fst (redirect_writes v)) (upsert_all (vw_now v) (redirect_writes v) r1))"
  define r3 where "r3 = snd (retain_control_plane (own_names v) (upsert_all (vw_now v) (own_writes v) r2))"
  define r4 where "r4 = snd (retain_tenants (map fst (tenant_writes v)) (upsert_all (vw_now v) (tenant_writes v) r3))"
  define r5 where "r5 = snd (retain_registries (map fst (registry_writes v)) (upsert_all (vw_now v) (registry_writes v) r4))"
  have sync: "snd (routes_sync v rows) = r5"
    by (simp add: routes_sync_def Let_def split_beta r1_def r2_def r3_def r4_def r5_def)
  note p1 = phase_rows [OF assms keep, where now = "vw_now v" and ws = "proxy_writes v" and owned = "\<lambda>r. upstream_kind r = ''proxy'' \<and> route_service r \<noteq> None", folded retain_proxies_def, folded r1_def]
  note p2 = phase_rows [OF p1(1) keep, where now = "vw_now v" and ws = "redirect_writes v" and owned = "\<lambda>r. upstream_kind r = ''redirect'' \<and> route_service r \<noteq> None", folded retain_redirects_def, folded r2_def]
  note p3 = phase_rows [OF p2(1) own, where now = "vw_now v" and owned = is_control_plane, folded retain_control_plane_def, folded r3_def]
  note p4 = phase_rows [OF p3(1) keep, where now = "vw_now v" and ws = "tenant_writes v" and owned = "\<lambda>r. upstream_kind r = ''tenant''",
      folded retain_kind_def, folded retain_tenants_def, folded r4_def]
  note p5 = phase_rows [OF p4(1) keep, where now = "vw_now v" and ws = "registry_writes v" and owned = "\<lambda>r. upstream_kind r = ''registry''",
      folded retain_kind_def, folded retain_registries_def, folded r5_def]
  show "well_keyed (snd (routes_sync v rows))" unfolding sync by (rule p5(1))
  show "map_of (snd (routes_sync v rows)) =
      written (vw_now v) (registry_writes v) (\<lambda>r. upstream_kind r = ''registry'')
       (written (vw_now v) (tenant_writes v) (\<lambda>r. upstream_kind r = ''tenant'')
        (written (vw_now v) (own_writes v) is_control_plane
         (written (vw_now v) (redirect_writes v) (\<lambda>r. upstream_kind r = ''redirect'' \<and> route_service r \<noteq> None)
          (written (vw_now v) (proxy_writes v) (\<lambda>r. upstream_kind r = ''proxy'' \<and> route_service r \<noteq> None)
           (map_of rows)))))"
    unfolding sync p5(2) p4(2) p3(2) p2(2) p1(2) ..
qed


lemma kinds_of_writes:
  "w \<in> set (proxy_writes v) \<Longrightarrow> upstream_kind (row_of_write now w) = ''proxy'' \<and> route_service (row_of_write now w) \<noteq> None"
  "w \<in> set (redirect_writes v) \<Longrightarrow> upstream_kind (row_of_write now w) = ''redirect'' \<and> route_service (row_of_write now w) \<noteq> None"
  "w \<in> set (own_writes v) \<Longrightarrow> upstream_kind (row_of_write now w) = ''control_plane''"
  "w \<in> set (tenant_writes v) \<Longrightarrow> upstream_kind (row_of_write now w) = ''tenant''"
  "w \<in> set (registry_writes v) \<Longrightarrow> upstream_kind (row_of_write now w) = ''registry''"
  by (auto simp: proxy_writes_def redirect_writes_def own_writes_def tenant_writes_def registry_writes_def
      map_filter_def row_of_write_def encode_row_def Let_def split: option.splits if_splits)

lemma routes_are_derived_rows:
  assumes rows: "well_keyed rows"
  shows "map_of (snd (routes_sync v rows)) h =
      (case last_write (route_writes v) h of
         Some w \<Rightarrow> Some (row_of_write (vw_now v) w)
       | None \<Rightarrow> (case map_of rows h of
            Some r \<Rightarrow> if derived_row r then None else Some r
          | None \<Rightarrow> None))"
proof -
  note kinds = kinds_of_writes [OF last_writeD [THEN conjunct1]]
  show ?thesis
    unfolding sync_rows(2) [OF rows] route_writes_def last_write_append written_def
    by (cases "last_write (registry_writes v) h"; cases "last_write (tenant_writes v) h";
        cases "last_write (own_writes v) h"; cases "last_write (redirect_writes v) h";
        cases "last_write (proxy_writes v) h"; cases "map_of rows h")
      (simp_all add: is_control_plane_def derived_row_def kinds)
qed

text \<open>
  Property C5. Routes are derived, never edited: after a pass, whatever the table held before, the
  row of a name is the last of what the ports, redirects, this node's own names, the organisations
  and the registries say of it; of the names nothing is said of, only rows another node's errand
  wrote are left, unchanged; and a second pass over the same rows changes nothing.
\<close>

theorem routes_are_derived:
  assumes "well_keyed rows"
  shows "map_of (snd (routes_sync v rows)) h =
      (case last_write (route_writes v) h of
         Some w \<Rightarrow> Some (row_of_write (vw_now v) w)
       | None \<Rightarrow> (case map_of rows h of
            Some r \<Rightarrow> if derived_row r then None else Some r
          | None \<Rightarrow> None)) \<and>
    map_of (snd (routes_sync v (snd (routes_sync v rows)))) = map_of (snd (routes_sync v rows))"
proof -
  show ?thesis
  proof
    show "map_of (snd (routes_sync v (snd (routes_sync v rows)))) = map_of (snd (routes_sync v rows))"
    proof
      fix k
      show "map_of (snd (routes_sync v (snd (routes_sync v rows)))) k = map_of (snd (routes_sync v rows)) k"
        unfolding routes_are_derived_rows [OF sync_rows(1) [OF assms, of v], of v k]
          by (simp add: routes_are_derived_rows [OF assms] split: option.splits)
    qed
  qed (rule routes_are_derived_rows [OF assms])
qed


section \<open>What a client reaches\<close>

text \<open>
  Names as the forms of services, redirects and registries keep them, and names of this node whose
  normal form is settled.
\<close>

definition claimed_names :: "routing_view \<Rightarrow> string list" where
  "claimed_names v = services_hold v @ List.map_filter tenant_domain (tenants_all (vw_estate v)) @
    map snd (registry_domains (org (vw_estate v)))"

definition plain_view :: "routing_view \<Rightarrow> bool" where
  "plain_view v \<longleftrightarrow> list_all plain_host (claimed_names v) \<and>
    list_all (\<lambda>n. normalize (normalize n) = normalize n) (own_names v)"

lemma plain_lowercase: "plain_host h \<Longrightarrow> lowercase h = h"
  by (intro lowercase_id) (auto simp: plain_host_def list_all_iff dest: zone_char_plain)

lemma services_hold_port: "p \<in> set (port_rows (vw_names v)) \<Longrightarrow> port_hostname p = Some h \<Longrightarrow> h \<in> set (services_hold v)"
  by (auto simp: services_hold_def set_map_filter ports_all_def)

lemma held_claimed: "h \<in> set (services_hold v) \<Longrightarrow> h \<in> set (claimed_names v)"
  by (simp add: claimed_names_def)

lemma proxy_writesD:
  assumes "w \<in> set (proxy_writes v)"
  obtains p s where "p \<in> set (port_rows (vw_names v))" "port_hostname p = Some (fst w)" "fst w \<in> set (vw_serving v)"
    "List.find (\<lambda>s. service_id s = port_service p) (services_all (vw_estate v) None) = Some s"
    "\<not> is_managed (service_kind s)" "vw_upstreams v (service_id s) (container_port p) \<noteq> []"
    "snd w = (Proxy (vw_upstreams v (service_id s) (container_port p)), Some (service_id s))"
proof -
  from assms obtain p where p: "p \<in> set (port_rows (vw_names v))"
    "(case port_hostname p of
       None \<Rightarrow> None
     | Some hostname \<Rightarrow>
        if hostname \<notin> set (vw_serving v) then None
        else (case List.find (\<lambda>s. service_id s = port_service p) (services_all (vw_estate v) None) of
           None \<Rightarrow> None
         | Some s \<Rightarrow>
            if is_managed (service_kind s) then None
            else
             (let upstreams = vw_upstreams v (service_id s) (container_port p) in
              if upstreams = [] then None else Some (hostname, Proxy upstreams, Some (service_id s))))) = Some w"
    unfolding proxy_writes_def set_map_filter ports_all_def set_sort by blast
  from p(2) show thesis
    by (auto simp: Let_def split: option.split_asm if_split_asm intro: that [OF p(1)])
qed

lemma redirect_writesD:
  assumes "w \<in> set (redirect_writes v)"
  obtains r where "r \<in> set (redirects_all (vw_names v))" "fst w = re_hostname r"
  using assms by (auto simp: redirect_writes_def set_map_filter split: option.splits if_splits)

lemma tenant_writesD:
  assumes "w \<in> set (tenant_writes v)"
  shows "fst w \<in> set (List.map_filter tenant_domain (tenants_all (vw_estate v))) \<and>
    (\<forall>n\<in>set (own_names v). lowercase n \<noteq> lowercase (fst w))"
  using assms by (force simp: tenant_writes_def set_map_filter list_ex_iff split: option.splits if_splits)

lemma registry_writesD:
  assumes "w \<in> set (registry_writes v)"
  shows "fst w \<in> snd ` set (registry_domains (org (vw_estate v))) \<and>
    (\<forall>n\<in>set (own_names v) \<union> set (services_hold v). lowercase n \<noteq> lowercase (fst w))"
  using assms by (force simp: registry_writes_def set_map_filter list_ex_iff split: if_splits)

lemma writes_claim:
  assumes "w \<in> set (proxy_writes v) \<union> set (redirect_writes v) \<union> set (tenant_writes v) \<union> set (registry_writes v)"
  shows "fst w \<in> set (claimed_names v)"
proof -
  consider "w \<in> set (proxy_writes v)" | "w \<in> set (redirect_writes v)" | "w \<in> set (tenant_writes v)"
    | "w \<in> set (registry_writes v)" using assms by blast
  then show ?thesis
  proof cases
    case 1
    then show ?thesis by (rule proxy_writesD) (rule held_claimed [OF services_hold_port])
  next
    case 2
    then obtain r where "r \<in> set (redirects_all (vw_names v))" "fst w = re_hostname r" by (rule redirect_writesD)
    then show ?thesis by (auto simp: services_hold_def intro: held_claimed)
  next
    case 3
    then show ?thesis using tenant_writesD by (simp add: claimed_names_def)
  next
    case 4
    then show ?thesis using registry_writesD [OF 4] by (simp add: claimed_names_def)
  qed
qed

lemma writes_settle:
  assumes "plain_view v" "w \<in> set (route_writes v)"
  shows "normalize (normalize (fst w)) = normalize (fst w)"
proof -
  have "w \<in> set (own_writes v) \<Longrightarrow> fst w \<in> set (own_names v)" by (auto simp: own_writes_def)
  then consider "fst w \<in> set (claimed_names v)" | "fst w \<in> set (own_names v)"
    using assms(2) writes_claim [of w v] by (auto simp only: route_writes_def set_append Un_iff)
  then show ?thesis
    using assms(1) by cases (auto simp: plain_view_def list_all_iff normalize_plain)
qed

lemma sync_resolves:
  assumes "well_keyed rows" "\<forall>(h, r)\<in>set rows. normalize h = h" "plain_view v"
  shows "resolve (route_replace (load_all (snd (routes_sync v rows))) t) name =
    (case last_write (route_writes v) (normalize name) of
       Some w \<Rightarrow> map_option snd (decode_route (normalize name) (fst (encode_upstream (fst (snd w)))) (snd (encode_upstream (fst (snd w)))))
     | None \<Rightarrow> (case map_of rows (normalize name) of
          Some r \<Rightarrow> if derived_row r \<or> \<not> enabled r then None
            else map_option snd (decode_route (normalize name) (upstream_kind r) (upstream_addr r))
        | None \<Rightarrow> None))"
proof -
  note wk = sync_rows(1) [OF assms(1), of v]
  note rows = routes_are_derived_rows [OF assms(1), of v]
  have "normalize h = h" if hr: "(h, r) \<in> set (snd (routes_sync v rows))" for h r
  proof -
    have "map_of (snd (routes_sync v rows)) h = Some r" using wk hr by (rule map_of_is_SomeI)
    then consider w where "last_write (route_writes v) h = Some w" | "map_of rows h = Some r"
      by (auto simp: rows split: option.splits if_splits)
    then show ?thesis
    proof cases
      case 1
      then have "w \<in> set (route_writes v)" "normalize (fst w) = h" using last_writeD [OF 1] by simp_all
      then show ?thesis using writes_settle [OF assms(3), of w] by simp
    qed (use assms(2) in \<open>auto dest: map_of_SomeD\<close>)
  qed
  then have "\<forall>(h, u)\<in>set (load_all (snd (routes_sync v rows))). normalize h = h"
    by (fastforce simp: load_all_def map_filter_def split: prod.splits dest: decode_route_host)
  note table = replace_resolve [OF well_keyed_load_all [OF wk] this, of t]
  show ?thesis
    unfolding resolve_def table load_all_rows [OF wk] rows
    by (auto simp: row_of_write_def encode_row_def split: option.splits)
qed

text \<open>
  Property C21. The console stays where its operator looks for it: whatever services, redirects,
  organisations and registries there are (their names kept plain), every name this node has of its
  own still resolves to the console after a pass.
\<close>

theorem the_console_keeps_its_names:
  assumes "well_keyed rows" "\<forall>(h, r)\<in>set rows. normalize h = h" "plain_view v"
    and own: "n \<in> set (own_names v)" "normalize n = lowercase n"
  shows "resolve (route_replace (load_all (snd (routes_sync v rows))) t) n = Some ControlPlane"
proof -
  have later: "last_write (tenant_writes v @ registry_writes v) (normalize n) = None"
    unfolding last_write_None
  proof
    assume "normalize n \<in> normalize ` fst ` set (tenant_writes v @ registry_writes v)"
    then obtain w where w: "w \<in> set (tenant_writes v) \<union> set (registry_writes v)" "normalize (fst w) = normalize n"
      unfolding set_append by (elim imageE) (metis that)
    have "fst w \<in> set (claimed_names v)" using w(1) by (intro writes_claim) blast
    then have "plain_host (fst w)" using assms(3) by (simp add: plain_view_def list_all_iff)
    then have "normalize (fst w) = fst w" "lowercase (fst w) = fst w" by (rule normalize_plain, rule plain_lowercase)
    with w own have "lowercase (fst w) = lowercase n" by simp
    then show False using w(1) own(1) tenant_writesD [of w v] registry_writesD [of w v] by auto
  qed
  have "last_write (own_writes v) (normalize n) \<noteq> None"
    unfolding last_write_None using own(1) by (auto simp: own_writes_def image_image)
  then obtain w where w: "last_write (own_writes v) (normalize n) = Some w" by blast
  then have "fst (snd w) = ControlPlane" using last_writeD [OF w] by (auto simp: own_writes_def)
  moreover have "last_write (route_writes v) (normalize n) = Some w"
    using later w by (simp add: route_writes_def last_write_append split: option.splits)
  ultimately show ?thesis by (simp add: sync_resolves [OF assms(1-3)] decode_route_def)
qed


lemma redirects_hostnames:
  "r \<in> set (redirects_all db) \<Longrightarrow> \<exists>row\<in>set (redirect_rows db). rd_hostname row = re_hostname r"
  by (force simp: redirects_all_def set_map_filter redirect_of_def split: option.splits)

text \<open>Of what names a service, only its own port's proxy can be said.\<close>

lemma only_its_port:
  assumes "plain_view v" "names_sound (vw_names v)"
    and p: "p \<in> set (port_rows (vw_names v))" "port_hostname p = Some host" "plain_host host"
  shows "w \<in> set (registry_writes v) \<Longrightarrow> normalize (fst w) \<noteq> host"
    "w \<in> set (redirect_writes v) \<Longrightarrow> normalize (fst w) \<noteq> host"
    "w \<in> set (proxy_writes v) \<Longrightarrow> normalize (fst w) = host \<Longrightarrow>
      List.find (\<lambda>s. service_id s = port_service p) (services_all (vw_estate v) None) = Some s \<Longrightarrow>
      fst w = host \<and> vw_upstreams v (service_id s) (container_port p) \<noteq> [] \<and>
      fst (snd w) = Proxy (vw_upstreams v (service_id s) (container_port p))"
proof -
  have plain: "normalize (fst w) = fst w" "lowercase (fst w) = fst w"
    if "w \<in> set (proxy_writes v) \<union> set (redirect_writes v) \<union> set (tenant_writes v) \<union> set (registry_writes v)" for w
    using assms(1) writes_claim [OF that] by (auto simp: plain_view_def list_all_iff normalize_plain plain_lowercase)
  show "normalize (fst w) \<noteq> host" if "w \<in> set (registry_writes v)"
    using plain [of w] that registry_writesD [OF that] services_hold_port [OF p(1,2)] plain_lowercase [OF p(3)] by auto
  show "normalize (fst w) \<noteq> host" if "w \<in> set (redirect_writes v)"
  proof -
    from that obtain r where r: "r \<in> set (redirects_all (vw_names v))" "fst w = re_hostname r" by (rule redirect_writesD)
    then obtain row where "row \<in> set (redirect_rows (vw_names v))" "rd_hostname row = fst w"
      using redirects_hostnames by force
    then show ?thesis
      using assms(2) p plain [of w] that by (auto simp: names_sound_def redirects_keyed_def list_all_iff)
  qed
  show "fst w = host \<and> vw_upstreams v (service_id s) (container_port p) \<noteq> [] \<and>
      fst (snd w) = Proxy (vw_upstreams v (service_id s) (container_port p))"
    if w: "w \<in> set (proxy_writes v)" "normalize (fst w) = host"
      "List.find (\<lambda>s. service_id s = port_service p) (services_all (vw_estate v) None) = Some s"
  proof -
    obtain q s' where q: "q \<in> set (port_rows (vw_names v))" "port_hostname q = Some (fst w)"
      "List.find (\<lambda>s. service_id s = port_service q) (services_all (vw_estate v) None) = Some s'"
      "vw_upstreams v (service_id s') (container_port q) \<noteq> []"
      "snd w = (Proxy (vw_upstreams v (service_id s') (container_port q)), Some (service_id s'))"
      using w(1) by (rule proxy_writesD)
    have host: "fst w = host" using plain [of w] w by simp
    have keyed: "own_value port_hostname (port_rows (vw_names v))" "distinct (map port_id (port_rows (vw_names v)))"
      using assms(2) by (simp_all add: names_sound_def ports_keyed_def)
    have named: "port_hostname p \<noteq> None" "port_hostname q = port_hostname p" using p(2) q(2) host by simp_all
    have "port_id q = port_id p" by (rule own_valueD [OF keyed(1) p(1) q(1) named])
    then have "q = p" using keyed(2) p(1) q(1) by (metis inj_onD distinct_map)
    with q w(3) host show ?thesis by simp
  qed
qed



text \<open>
  The node above with one copy of its site here and one on a peer; its domain is \<open>me.io\<close>, and an
  organisation has \<open>org.io\<close>.
\<close>

definition demo_links :: "linked_node list" where
  "demo_links =
    [\<lparr>nd_id = ''me'', nd_name = ''me'', nd_kind = Public, endpoint = Some ''me.io:443'', is_self = True,
      last_seen_at = None, allows = [], draining_at = None, node_capacity = None, nd_name_servers = None,
      overlay_ip = Some ''10.42.0.1'', public_key = None, ca_pem = None, nd_lan = None\<rparr>,
     \<lparr>nd_id = ''peer'', nd_name = ''peer'', nd_kind = Private, endpoint = None, is_self = False,
      last_seen_at = None, allows = [], draining_at = None, node_capacity = None, nd_name_servers = None,
      overlay_ip = Some ''10.42.0.2'', public_key = None, ca_pem = None, nd_lan = None\<rparr>]"

definition demo_copy :: "string \<Rightarrow> u32 \<Rightarrow> replica" where
  "demo_copy i n = \<lparr>replica_id = i, replica_service = ''svc'', node_id = None, slot = n, address = None,
    overlay_port = None, last_error = None, evicted_at = None, reserved_host = None, memory_bytes = None,
    disk_bytes = None, replica_cpu = None, following = None, wal_held = None, placed_by = None, placed_note = None\<rparr>"

definition demo_tenant :: "string \<Rightarrow> tenant" where
  "demo_tenant domain = \<lparr>tenant_id = ''t'', tenant_name = ''t'', tenant_slug = ''t'', tenant_domain = Some domain,
    quota_memory = None, quota_cpu = None, quota_disk = None, tenant_created = 1\<rparr>"

definition demo_view :: "string \<Rightarrow> routing_view" where
  "demo_view domain = \<lparr>vw_now = 9, vw_domain = Some ''me.io'',
    vw_walked = [\<lparr>hd_address = (192, 168, 1, 7), hd_mask = (255, 255, 255, 0)\<rparr>],
    vw_nodes = demo_links, vw_names = fold names_step published_once names_empty,
    vw_estate = \<lparr>org = \<lparr>projects = [], memberships = [], accounts = []\<rparr>, tenant_rows = [demo_tenant domain],
      service_rows = [demo_site],
      replica_rows = [(demo_copy ''r1'' 1)\<lparr>address := Some ''10.42.7.2''\<rparr>,
        (demo_copy ''r2'' 2)\<lparr>node_id := Some ''peer'', overlay_port := Some 30001\<rparr>],
      invitation_rows = []\<rparr>\<rparr>"

lemma demo_names_sound: "names_sound (fold names_step published_once names_empty)"
proof -
  have "list_all typed_settles published_once" by code_simp
  from names.run_asked_keeps [OF this sound_empty] show ?thesis .
qed

lemma demo_plain: "plain_view (demo_view ''org.io'')"
  by code_simp

definition old_rows :: route_rows where
  "old_rows = [(''gone.io'', \<lparr>upstream_kind = ''proxy'', upstream_addr = Some ''10.42.7.9:80'',
      route_service = Some ''old'', enabled = True, updated_at = 1\<rparr>),
    (''other.io'', \<lparr>upstream_kind = ''proxy'', upstream_addr = Some ''10.42.0.9:30000'', route_service = None,
      enabled = True, updated_at = 1\<rparr>)]"

lemma old_rows_keyed: "well_keyed old_rows"
  by (simp add: old_rows_def)

theorem routes_are_derived_witness:
  "map_of (snd (routes_sync (demo_view ''org.io'') old_rows)) ''gone.io'' = None \<and>
   map_of (snd (routes_sync (demo_view ''org.io'') old_rows)) ''other.io'' = map_of old_rows ''other.io'' \<and>
   map_of (snd (routes_sync (demo_view ''org.io'') old_rows)) ''org.io'' =
     Some \<lparr>upstream_kind = ''tenant'', upstream_addr = Some ''t'', route_service = None, enabled = True, updated_at = 9\<rparr>"
proof -
  have "last_write (route_writes (demo_view ''org.io'')) ''gone.io'' = None"
    "last_write (route_writes (demo_view ''org.io'')) ''other.io'' = None"
    "last_write (route_writes (demo_view ''org.io'')) ''org.io'' = Some (''org.io'', Tenant ''t'', None)"
    by code_simp+
  then show ?thesis
    using routes_are_derived [OF old_rows_keyed, of "demo_view ''org.io''" "''gone.io''"]
      routes_are_derived [OF old_rows_keyed, of "demo_view ''org.io''" "''other.io''"]
      routes_are_derived [OF old_rows_keyed, of "demo_view ''org.io''" "''org.io''"]
    by (simp add: old_rows_def derived_row_def row_of_write_def encode_row_def demo_view_def)
qed

theorem the_console_keeps_its_names_witness:
  "resolve (route_replace (load_all (snd (routes_sync (demo_view ''org.io'') old_rows))) route_table_new) ''192.168.1.7'' =
    Some ControlPlane"
proof (rule the_console_keeps_its_names [OF old_rows_keyed _ demo_plain])
  show "\<forall>(h, r)\<in>set old_rows. normalize h = h" by code_simp
qed code_simp+



text \<open>
  Property C27. An organisation's domain takes names that are already somebody's: where this node is
  \<open>me.io\<close> and a service answers on \<open>acme.io\<close>, an administrator can give an organisation the domain
  \<open>me.io.\<close> (the final dot passes both checks for the node's own name, and the route is kept without
  it) or \<open>acme.io\<close> (no check asks the services), and the name then answers as the organisation's
  console instead of the node's, or the site.
\<close>

definition demo_owner :: account where
  "demo_owner = \<lparr>account_id = ''root'', username = ''root'', account_role = Admin, account_theme = System,
    account_language = En, account_tenant = None\<rparr>"

definition given_domain :: "string \<Rightarrow> publish_refusal option \<times> routing_view" where
  "given_domain wanted =
    (let (refusal, es) = set_organisation_domain (demo_form ''9'') demo_owner ''t'' wanted (vw_estate (demo_view ''org.io'')) in
     (refusal, (demo_view ''org.io'')\<lparr>vw_estate := es\<rparr>))"

definition answer_for :: "routing_view \<Rightarrow> string \<Rightarrow> upstream option" where
  "answer_for v name = resolve (route_replace (load_all (snd (routes_sync v []))) route_table_new) name"


section \<open>What the other nodes were told\<close>

definition withdrawal :: "string \<Rightarrow> edge_args" where
  "withdrawal host = \<lparr>edge_hostname = host, edge_upstreams = [], edge_peers = [], edge_secret = None, edge_redirect = None\<rparr>"

definition edge_read :: "serde \<Rightarrow> string \<Rightarrow> edge_args option" where
  "edge_read sd text = Option.bind (from_text sd text) (\<lambda>v. case as_edge sd v of Inr e \<Rightarrow> Some e | Inl _ \<Rightarrow> None)"

lemma names_from_seen:
  "set seen' = set seen \<union> S \<Longrightarrow> set (names_from sd seen' rows) = set (names_from sd seen rows) - S"
proof (induction rows arbitrary: seen seen')
  case (Cons r rest)
  show ?case
  proof (cases "edge_read sd (er_payload r)")
    case None
    then show ?thesis using Cons by (simp add: edge_read_def)
  next
    case (Some e)
    let ?key = "(er_node r, edge_hostname e)"
    have "set (?key # seen') = set (?key # seen) \<union> S" using Cons.prems by auto
    from Cons.IH [OF this] show ?thesis using Some Cons.prems by (auto simp: edge_read_def Let_def)
  qed
qed simp

text \<open>Withdrawing a list of names, newest last.\<close>

definition withdrawn_rows :: "serde \<Rightarrow> int \<Rightarrow> (string \<Rightarrow> string \<Rightarrow> string) \<Rightarrow> (string \<times> string) list \<Rightarrow> errand_entry list" where
  "withdrawn_rows sd now ids names = map (\<lambda>(node, host).
    \<lparr>er_id = ids host node, er_node = node, er_from = None, er_kind = ''edge'',
     er_payload = to_text sd (edge_value sd (withdrawal host)), er_subject = None, er_created = now,
     er_taken = None, er_done = None, er_error = None\<rparr>) names"

lemma withdraw_all:
  "fold (\<lambda>(node, host) rows. snd (withdraw_name sd now (ids host node) node host rows)) names rows =
    rows @ withdrawn_rows sd now ids names"
  by (induction names arbitrary: rows)
    (auto simp: withdrawn_rows_def withdraw_name_def queue_def queue_about_def withdrawal_def)

lemma sort_key_later:
  fixes k :: "'b :: linorder"
  assumes "\<forall>x\<in>set xs. f x \<le> k" "\<forall>y\<in>set ys. f y = k"
  shows "sort_key f (xs @ ys) = sort_key f xs @ ys"
  using assms(2)
proof (induction ys rule: rev_induct)
  case (snoc y ys)
  then have "\<forall>x\<in>set (xs @ ys). f x \<le> f y" using assms(1) by auto
  from sort_key_snoc [OF this] snoc show ?case by simp
qed simp

lemma names_from_withdrawn:
  assumes "\<And>host. edge_read sd (to_text sd (edge_value sd (withdrawal host))) = Some (withdrawal host)"
  shows "set (names_from sd seen (rev (withdrawn_rows sd now ids names) @ rows)) =
    set (names_from sd seen rows) - set names"
proof (induction names arbitrary: seen rows rule: rev_induct)
  case (snoc name names)
  obtain node host where n: "name = (node, host)" by (cases name)
  have read: "Option.bind (from_text sd (to_text sd (edge_value sd (withdrawal host))))
      (\<lambda>v. case as_edge sd v of Inl _ \<Rightarrow> None | Inr e \<Rightarrow> Some e) = Some (withdrawal host)"
    using assms [of host] by (simp add: edge_read_def)
  have "set (names_from sd seen (rev (withdrawn_rows sd now ids (names @ [name])) @ rows)) =
      set (names_from sd (name # seen) (rev (withdrawn_rows sd now ids names) @ rows))"
    by (simp add: withdrawn_rows_def n read) (simp add: withdrawal_def)
  also have "\<dots> = set (names_from sd (name # seen) rows) - set names" by (rule snoc)
  also have "\<dots> = set (names_from sd seen rows) - {name} - set names"
    by (simp add: names_from_seen [of "name # seen" seen "{name}"])
  finally show ?case by auto
qed (simp add: withdrawn_rows_def)

text \<open>
  Property C26. What the nodes were told follows the rows: after the withdrawals, of the names each
  node was last told to answer for exactly those are left that a row still asks of it (or that were
  told to this node itself), and withdrawing again tells nobody anything. The wire is assumed to
  read back a withdrawal, and the clock not to run behind the errands there are.
\<close>

theorem only_wanted_names_stay_told:
  assumes wire: "\<forall>host. edge_read sd (to_text sd (edge_value sd (withdrawal host))) = Some (withdrawal host)"
    and clock: "\<forall>r\<in>set rows. er_created r \<le> now"
  shows "set (names_told sd (snd (withdraw_unwanted sd now ids db nodes rows))) =
      {(node, host) \<in> set (names_told sd rows).
        Some node = map_option nd_id (linked_me nodes) \<or> (host, node) \<in> set (edges_all db)} \<and>
    withdraw_unwanted sd now' ids' db nodes (snd (withdraw_unwanted sd now ids db nodes rows)) =
      (0, snd (withdraw_unwanted sd now ids db nodes rows))"
proof -
  define keep where "keep = (\<lambda>(node, host). Some node = map_option nd_id (linked_me nodes) \<or> (host, node) \<in> set (edges_all db))"
  define unwanted where "unwanted = filter (\<lambda>k. \<not> keep k) (names_told sd rows)"
  have withdrawn: "withdraw_unwanted sd n i db nodes rs =
      (length (filter (\<lambda>k. \<not> keep k) (names_told sd rs)), rs @ withdrawn_rows sd n i (filter (\<lambda>k. \<not> keep k) (names_told sd rs)))"
    for n i rs
  proof -
    have "(\<lambda>(node, host). \<not> (Some node = map_option nd_id (linked_me nodes) \<or>
        (node, host) \<in> set (map (\<lambda>(host, node). (node, host)) (edges_all db)))) = (\<lambda>k. \<not> keep k)"
      by (auto simp: keep_def fun_eq_iff image_iff)
    then show ?thesis by (simp add: withdraw_unwanted_def Let_def withdraw_all)
  qed
  let ?rows = "rows @ withdrawn_rows sd now ids unwanted"
  have "filter (\<lambda>r. er_kind r = ''edge'') (withdrawn_rows sd now ids unwanted) = withdrawn_rows sd now ids unwanted"
    by (auto simp: withdrawn_rows_def filter_id_conv)
  moreover have "\<forall>y\<in>set (withdrawn_rows sd now ids unwanted). er_created y = now" by (auto simp: withdrawn_rows_def)
  ultimately have "sort_key er_created (filter (\<lambda>r. er_kind r = ''edge'') ?rows) =
      sort_key er_created (filter (\<lambda>r. er_kind r = ''edge'') rows) @ withdrawn_rows sd now ids unwanted"
    using clock by (simp add: sort_key_later [where k = now])
  then have told: "set (names_told sd ?rows) = set (names_told sd rows) - set unwanted"
    by (simp add: names_told_def names_from_withdrawn wire)
  then have left: "set (names_told sd ?rows) = {k \<in> set (names_told sd rows). keep k}"
    by (auto simp: unwanted_def)
  then have none: "filter (\<lambda>k. \<not> keep k) (names_told sd ?rows) = []" by (simp add: filter_empty_conv)
  have first: "snd (withdraw_unwanted sd now ids db nodes rows) = ?rows" by (simp add: withdrawn unwanted_def)
  show ?thesis
    unfolding first using left none by (auto simp: withdrawn withdrawn_rows_def keep_def)
qed

text \<open>A wire for names alone: a sign and the name.\<close>

definition sign_wire :: serde where
  "sign_wire = demo_serde\<lparr>
    edge_value := (\<lambda>e. JString ((if edge_upstreams e = [] then CHR ''-'' else CHR ''+'') # edge_hostname e)),
    as_edge := (\<lambda>v. case v of
        JString (c # host) \<Rightarrow> Inr ((withdrawal host)\<lparr>edge_upstreams := if c = CHR ''-'' then [] else [''10.42.0.1:80'']\<rparr>)
      | _ \<Rightarrow> Inl [])\<rparr>"

theorem only_wanted_names_stay_told_witness:
  "let told = snd (queue sign_wire 3 ''e1'' ''peer'' KEdge (JString ''+acme.io'')
      (snd (queue sign_wire 2 ''e2'' ''peer'' KEdge (JString ''+old.io'') [])));
       db = names_empty\<lparr>edge_rows := [\<lparr>eg_service = ''svc'', eg_hostname = ''acme.io'', eg_node = ''peer'', eg_created = 1\<rparr>]\<rparr> in
   set (names_told sign_wire told) = {(''peer'', ''old.io''), (''peer'', ''acme.io'')} \<and>
   set (names_told sign_wire (snd (withdraw_unwanted sign_wire 4 (\<lambda>_ _. ''e3'') db demo_links told))) = {(''peer'', ''acme.io'')}"
proof -
  let ?told = "snd (queue sign_wire 3 ''e1'' ''peer'' KEdge (JString ''+acme.io'')
      (snd (queue sign_wire 2 ''e2'' ''peer'' KEdge (JString ''+old.io'') [])))"
  have wire: "\<forall>host. edge_read sign_wire (to_text sign_wire (edge_value sign_wire (withdrawal host))) = Some (withdrawal host)"
    by (simp add: sign_wire_def edge_read_def demo_serde_def withdrawal_def)
  have clock: "\<forall>r\<in>set ?told. er_created r \<le> 4" by (simp add: queue_def queue_about_def)
  have told: "names_told sign_wire ?told = [(''peer'', ''acme.io''), (''peer'', ''old.io'')]" by code_simp
  have me: "map_option nd_id (linked_me demo_links) = Some ''me''" by code_simp
  show ?thesis
    using only_wanted_names_stay_told [OF wire clock, of "\<lambda>_ _. ''e3''"
        "names_empty\<lparr>edge_rows := [\<lparr>eg_service = ''svc'', eg_hostname = ''acme.io'', eg_node = ''peer'', eg_created = 1\<rparr>]\<rparr>"
        demo_links 0 "\<lambda>_ _. []"]
    by (auto simp: Let_def told me edges_all_def)
qed

end
