(* ===== verification/Joining.thy ===== *)
theory Joining
  imports Accounts Routing
begin

text \<open>
  How a machine becomes a node of a network: the node, authority and claim rows
  (infra/network/mod.rs), the addresses of the overlay (overlay.rs), join tokens and the enrolments
  behind them (token.rs, enrolment.rs), joining (join.rs) and the endpoint a node arrives at
  (web/remote_node_rest_controller.rs), who may ask and what a node says of itself (api.rs).

  The wire, the hash, the key pairs, generated ids and secrets and the kernel's host name are
  parameters. A constraint of a table that refuses a write is modelled; a failing disk is not.
\<close>

section \<open>The rows\<close>

record usage_report =
  memory_total :: u64
  memory_used :: u64
  disk_total :: u64
  disk_free :: u64

record net_node = linked_node +
  nd_usage :: "usage_report option"
  nd_version :: "string option"
  nd_wanted :: "string option"
  nd_note :: "string option"
  nd_dial :: "string option"
  nd_joined :: int

record enrolment =
  en_id :: string
  en_name :: string
  en_overlay :: string
  en_created :: int
  en_expires :: int
  en_used_at :: "int option"
  en_used_by :: "string option"
  en_offers :: "capability list"

record enrolment_row = enrolment +
  en_hash :: string
  en_by :: string
  en_requires :: "capability list"

record authority_row =
  au_node :: string
  au_granted :: int
  au_revoked :: "int option"
  au_hash :: string
  au_secret :: "string option"

record claim_row =
  cl_name :: string
  cl_authority :: "string option"
  cl_at :: int

record net_db =
  nt_nodes :: "net_node list"
  nt_enrolments :: "enrolment_row list"
  nt_authorities :: "authority_row list"
  nt_claims :: "claim_row list"
  nt_grants :: grant_db

datatype net_refusal =
    NetStorage | OverlayFull | NotAToken | DamagedToken | NotWhoItClaimed string string string | NotAuthorised
  | NotANodeId | NoNodeName | NoPublicKey | OwnId | UsedByAnother | NoRowOfItsOwn | AdministratorsOnly | NoteTooLong
  | NoAddressToCallBack | NoOverlayKey | NoOverlayAddress | PasteTheToken | CallFailed | NotSaved

text \<open>
  What a call finds outside: the clock, generated texts, the hash, the port of the edge, the
  certificate authority if it can be read, the key pair (the public half of a stored one, and a new
  one), and the host name.
\<close>

record net_env =
  ne_now :: int
  ne_id :: string
  ne_node_id :: string
  ne_secret :: string
  ne_dial_key :: string
  ne_hash :: "string \<Rightarrow> string"
  ne_port :: string
  ne_ca :: "string option"
  ne_public :: "string \<Rightarrow> string option"
  ne_new_key :: "string \<times> string"
  ne_hostname :: "string option"
  ne_version :: string
  ne_lan :: "string list"

section \<open>Enrolments (enrolment.rs)\<close>

definition ENROLMENT_HOURS :: int where "ENROLMENT_HOURS = 24"

definition enrolment_spent :: "'a enrolment_scheme \<Rightarrow> bool" where
  "enrolment_spent e \<longleftrightarrow> en_used_at e \<noteq> None"

definition enrolment_expired :: "int \<Rightarrow> 'a enrolment_scheme \<Rightarrow> bool" where
  "enrolment_expired now e \<longleftrightarrow> en_expires e \<le> now"

definition enrolment_live :: "int \<Rightarrow> 'a enrolment_scheme \<Rightarrow> bool" where
  "enrolment_live now e \<longleftrightarrow> \<not> enrolment_spent e \<and> \<not> enrolment_expired now e"

text \<open>The row, refused where the id, the hash or the address is another row's.\<close>

definition enrolment_create :: "net_env \<Rightarrow> string \<Rightarrow> string \<Rightarrow> string \<Rightarrow> capability list \<Rightarrow> capability list
    \<Rightarrow> net_db \<Rightarrow> (enrolment \<times> string) option \<times> net_db" where
  "enrolment_create e name overlay by requires offers db =
    (let row = \<lparr>en_id = ''en-'' @ ne_id e, en_name = trim name, en_overlay = overlay, en_created = ne_now e,
           en_expires = ne_now e + ENROLMENT_HOURS * 3600000, en_used_at = None, en_used_by = None, en_offers = offers,
           en_hash = ne_hash e (ne_secret e), en_by = by, en_requires = requires\<rparr> in
     if list_ex (\<lambda>r. en_id r = en_id row \<or> en_hash r = en_hash row \<or> en_overlay r = en_overlay row) (nt_enrolments db)
     then (None, db)
     else (Some (enrolment.truncate row, ne_secret e), db\<lparr>nt_enrolments := nt_enrolments db @ [row]\<rparr>))"

definition enrolment_look_up :: "net_env \<Rightarrow> string \<Rightarrow> net_db \<Rightarrow> enrolment_row option" where
  "enrolment_look_up e secret db =
    (case List.find (\<lambda>r. en_hash r = ne_hash e secret) (nt_enrolments db) of
       Some r \<Rightarrow> if enrolment_expired (ne_now e) r then None else Some r
     | None \<Rightarrow> None)"

definition enrolment_holder :: "net_env \<Rightarrow> string \<Rightarrow> net_db \<Rightarrow> string option" where
  "enrolment_holder e secret db =
    Option.bind (List.find (\<lambda>r. en_hash r = ne_hash e secret) (nt_enrolments db)) en_used_by"

definition spend :: "net_env \<Rightarrow> string \<Rightarrow> string \<Rightarrow> net_db \<Rightarrow> bool \<times> net_db" where
  "spend e i node db =
    (let hit = (\<lambda>r. en_id r = i \<and> (en_used_at r = None \<or> en_used_by r = Some node)) in
     (list_ex hit (nt_enrolments db),
      db\<lparr>nt_enrolments := map (\<lambda>r. if hit r then r\<lparr>en_used_at := Some (ne_now e), en_used_by := Some node\<rparr> else r)
        (nt_enrolments db)\<rparr>))"

definition enrolments_all :: "net_db \<Rightarrow> enrolment_row list" where
  "enrolments_all db = sort_key (\<lambda>r. - en_created r) (nt_enrolments db)"

definition enrolment_withdraw :: "string \<Rightarrow> net_db \<Rightarrow> net_db" where
  "enrolment_withdraw i db = db\<lparr>nt_enrolments := filter (\<lambda>r. en_id r \<noteq> i) (nt_enrolments db)\<rparr>"

text \<open>An account takes the enrolments it made with it (the table's foreign key).\<close>

definition enrolments_of_gone :: "string \<Rightarrow> net_db \<Rightarrow> net_db" where
  "enrolments_of_gone account db = db\<lparr>nt_enrolments := filter (\<lambda>r. en_by r \<noteq> account) (nt_enrolments db)\<rparr>"

section \<open>Addresses on the overlay (overlay.rs)\<close>

definition OVERLAY_PREFIX :: "u8 \<times> u8" where "OVERLAY_PREFIX = (10, 42)"
definition OVERLAY_FIRST :: nat where "OVERLAY_FIRST = 1"
definition OVERLAY_LAST :: nat where "OVERLAY_LAST = 254"

definition overlay_address :: "u32 \<Rightarrow> string" where
  "overlay_address host =
    (case OVERLAY_PREFIX of (a, b) \<Rightarrow>
       show_byte a @ ''.'' @ show_byte b @ ''.'' @ show_byte (and (drop_bit 8 host) 0xFF) @ ''.'' @ show_byte (and host 0xFF))"

text \<open>\<open>u8::parse\<close>, which unlike the address parser takes leading zeros and a plus sign.\<close>

definition parse_u8 :: "string \<Rightarrow> u8 option" where
  "parse_u8 s = map_option of_nat (parse_uint 256 s)"

definition overlay_host :: "string \<Rightarrow> u32 option" where
  "overlay_host text =
    (case split_on CHR ''.'' (trim text) of
       [a, b, c, d] \<Rightarrow>
         (case (parse_u8 a, parse_u8 b, parse_u8 c, parse_u8 d) of
            (Some a, Some b, Some c, Some d) \<Rightarrow>
              if (a, b) \<noteq> OVERLAY_PREFIX then None else Some (or (push_bit 8 (ucast c)) (ucast d))
          | _ \<Rightarrow> None)
     | _ \<Rightarrow> None)"

definition overlay_taken :: "net_db \<Rightarrow> u32 list" where
  "overlay_taken db =
    List.map_filter overlay_host (List.map_filter overlay_ip (nt_nodes db) @ map en_overlay (nt_enrolments db))"

definition overlay_allocate :: "net_db \<Rightarrow> string option" where
  "overlay_allocate db =
    map_option overlay_address
      (List.find (\<lambda>host. host \<notin> set (overlay_taken db)) (map of_nat [OVERLAY_FIRST..<Suc OVERLAY_LAST]))"


section \<open>Node rows (mod.rs)\<close>

definition nodes_sorted :: "net_db \<Rightarrow> net_node list" where
  "nodes_sorted db = linked_all (nt_nodes db)"

definition node_find :: "net_db \<Rightarrow> string \<Rightarrow> net_node option" where
  "node_find db i = List.find (\<lambda>n. nd_id n = i) (nt_nodes db)"

definition node_me :: "net_db \<Rightarrow> net_node option" where
  "node_me db = linked_me (nt_nodes db)"

text \<open>
  The unique indexes: one row is this node, and an address is one row's. An insert breaks either,
  an update of a row only the second, as \<open>is_self\<close> is never updated.
\<close>

definition address_held :: "string \<Rightarrow> string option \<Rightarrow> net_node list \<Rightarrow> bool" where
  "address_held i ip nodes \<longleftrightarrow> ip \<noteq> None \<and> list_ex (\<lambda>r. nd_id r \<noteq> i \<and> overlay_ip r = ip) nodes"

definition saved_over :: "net_node \<Rightarrow> net_node \<Rightarrow> net_node" where
  "saved_over n r = r\<lparr>nd_name := nd_name n, nd_kind := nd_kind n, endpoint := endpoint n, public_key := public_key n,
    overlay_ip := overlay_ip n, last_seen_at := last_seen_at n, allows := allows n, ca_pem := ca_pem n,
    nd_usage := nd_usage n, nd_version := nd_version n, nd_note := nd_note n, node_capacity := node_capacity n\<rparr>"

definition saved_new :: "int \<Rightarrow> net_node \<Rightarrow> net_node" where
  "saved_new now n = n\<lparr>draining_at := None, nd_name_servers := None, nd_lan := None, nd_wanted := None, nd_dial := None,
    nd_joined := now\<rparr>"

definition net_save :: "int \<Rightarrow> net_node \<Rightarrow> net_db \<Rightarrow> bool \<times> net_db" where
  "net_save now n db =
    (let held = list_ex (\<lambda>r. nd_id r = nd_id n) (nt_nodes db) in
     if address_held (nd_id n) (overlay_ip n) (nt_nodes db) \<or>
        \<not> held \<and> is_self n \<and> list_ex is_self (nt_nodes db) then (False, db)
     else (True, db\<lparr>nt_nodes :=
       (if held then map (\<lambda>r. if nd_id r = nd_id n then saved_over n r else r) (nt_nodes db)
        else nt_nodes db @ [saved_new now n])\<rparr>))"

definition learn_peer :: "int \<Rightarrow> string \<Rightarrow> string \<Rightarrow> string \<Rightarrow> string \<Rightarrow> string \<Rightarrow> net_db \<Rightarrow> bool \<times> net_db" where
  "learn_peer now i name ip key ca db =
    (if address_held i (Some ip) (nt_nodes db) then (False, db)
     else (True, db\<lparr>nt_nodes :=
       (if list_ex (\<lambda>r. nd_id r = i) (nt_nodes db)
        then map (\<lambda>r. if nd_id r = i then r\<lparr>public_key := Some key, overlay_ip := Some ip, ca_pem := Some ca\<rparr> else r) (nt_nodes db)
        else nt_nodes db @ [\<lparr>nd_id = i, nd_name = name, nd_kind = Private, endpoint = None, is_self = False,
            last_seen_at = None, allows = [], draining_at = None, node_capacity = None, nd_name_servers = None,
            overlay_ip = Some ip, public_key = Some key, ca_pem = Some ca, nd_lan = None, nd_usage = None,
            nd_version = None, nd_wanted = None, nd_note = None, nd_dial = None, nd_joined = now\<rparr>])\<rparr>))"

definition edit_nodes :: "(net_node \<Rightarrow> bool) \<Rightarrow> (net_node \<Rightarrow> net_node) \<Rightarrow> net_db \<Rightarrow> net_db" where
  "edit_nodes hit f db = db\<lparr>nt_nodes := map (\<lambda>r. if hit r then f r else r) (nt_nodes db)\<rparr>"

definition net_forget :: "string \<Rightarrow> net_db \<Rightarrow> net_db" where
  "net_forget i db = db\<lparr>nt_nodes := filter (\<lambda>r. \<not> (nd_id r = i \<and> \<not> is_self r)) (nt_nodes db)\<rparr>"

definition want_version :: "string \<Rightarrow> string option \<Rightarrow> net_db \<Rightarrow> net_db" where
  "want_version i wanted = edit_nodes (\<lambda>r. nd_id r = i) (\<lambda>r. r\<lparr>nd_wanted := wanted\<rparr>)"

definition set_draining :: "int \<Rightarrow> string \<Rightarrow> bool \<Rightarrow> net_db \<Rightarrow> net_db" where
  "set_draining now i out = edit_nodes (\<lambda>r. nd_id r = i)
    (\<lambda>r. r\<lparr>draining_at := if out then Some now else None\<rparr>)"

definition remember_dial_secret :: "string \<Rightarrow> string \<Rightarrow> net_db \<Rightarrow> net_db" where
  "remember_dial_secret i secret = edit_nodes (\<lambda>r. nd_id r = i) (\<lambda>r. r\<lparr>nd_dial := Some secret\<rparr>)"

definition accept_allows :: "string \<Rightarrow> capability list \<Rightarrow> net_db \<Rightarrow> bool \<times> net_db" where
  "accept_allows i cs db =
    (let hit = (\<lambda>r. nd_id r = i \<and> \<not> is_self r \<and> allows r \<noteq> cs) in
     (list_ex hit (nt_nodes db), edit_nodes hit (\<lambda>r. r\<lparr>allows := cs\<rparr>) db))"

definition dial_secret_of :: "net_db \<Rightarrow> string \<Rightarrow> string option" where
  "dial_secret_of db i = Option.bind (node_find db i) nd_dial"

text \<open>A network is left: everything that says who this machine is to other machines, and its errands.\<close>

definition forget_self :: "net_db \<times> errand_entry list \<Rightarrow> net_db \<times> errand_entry list" where
  "forget_self s = ((fst s)\<lparr>nt_nodes := [], nt_authorities := [], nt_enrolments := [],
    nt_grants := (nt_grants (fst s))\<lparr>node_grant := []\<rparr>\<rparr>, [])"

text \<open>A release is asked of every node that wants one it does not run.\<close>

definition dispatch_versions :: "serde \<Rightarrow> (string \<Rightarrow> json) \<Rightarrow> int \<Rightarrow> (string \<Rightarrow> string) \<Rightarrow> net_db \<Rightarrow> errand_entry list
    \<Rightarrow> nat \<times> errand_entry list" where
  "dispatch_versions sd manage_value now ids db rows =
    fold (\<lambda>n (queued, rows). case nd_wanted n of
        None \<Rightarrow> (queued, rows)
      | Some wanted \<Rightarrow>
          if (case nd_version n of Some running \<Rightarrow> is_release wanted running | None \<Rightarrow> False) then (queued, rows)
          else (case queue_if_changed sd (map (\<lambda>a. (au_node a, au_revoked a)) (nt_authorities db)) now (ids (nd_id n))
                  (nd_id n) KManage ''manage:version'' (manage_value wanted) rows of
            (None, rows) \<Rightarrow> (queued, rows) | (Some _, rows) \<Rightarrow> (Suc queued, rows)))
      (nodes_sorted db) (0, rows)"

section \<open>Who may configure this node (mod.rs)\<close>

definition authorities_all :: "net_db \<Rightarrow> authority_row list" where
  "authorities_all db = sort_key (\<lambda>a. - au_granted a) (nt_authorities db)"

definition authority_grant :: "net_env \<Rightarrow> string \<Rightarrow> string \<Rightarrow> net_db \<Rightarrow> net_db" where
  "authority_grant e node token db =
    (let row = \<lparr>au_node = node, au_granted = ne_now e, au_revoked = None, au_hash = ne_hash e token, au_secret = Some token\<rparr> in
     db\<lparr>nt_authorities := (if list_ex (\<lambda>a. au_node a = node) (nt_authorities db)
       then map (\<lambda>a. if au_node a = node then row else a) (nt_authorities db)
       else nt_authorities db @ [row])\<rparr>)"

definition authority_revoke :: "int \<Rightarrow> string \<Rightarrow> net_db \<Rightarrow> net_db" where
  "authority_revoke now node db =
    db\<lparr>nt_authorities := map (\<lambda>a. if au_node a = node then a\<lparr>au_revoked := Some now\<rparr> else a) (nt_authorities db)\<rparr>"

definition credential_for :: "net_db \<Rightarrow> string \<Rightarrow> string option" where
  "credential_for db node =
    Option.bind (List.find (\<lambda>a. au_node a = node \<and> au_revoked a = None) (nt_authorities db)) au_secret"

definition credential_to :: "net_db \<Rightarrow> string \<Rightarrow> string option" where
  "credential_to db node = (case credential_for db node of Some s \<Rightarrow> Some s | None \<Rightarrow> dial_secret_of db node)"

definition DIAL_KEY :: string where "DIAL_KEY = ''node.dial.key''"

definition dial_secret_for :: "net_env \<Rightarrow> string \<Rightarrow> net_db \<Rightarrow> string \<times> net_db" where
  "dial_secret_for e authority db =
    (let (key, gs) = (case setting_read (nt_grants db) DIAL_KEY of
           Some key \<Rightarrow> (key, nt_grants db)
         | None \<Rightarrow> (ne_dial_key e, setting_write DIAL_KEY (ne_dial_key e) (nt_grants db))) in
     (ne_hash e (key @ '':'' @ authority), db\<lparr>nt_grants := gs\<rparr>))"

fun who_dialled_from :: "net_env \<Rightarrow> string \<Rightarrow> authority_row list \<Rightarrow> net_db \<Rightarrow> string option \<times> net_db" where
  "who_dialled_from e presented [] db = (None, db)"
| "who_dialled_from e presented (a # rest) db =
    (if au_revoked a \<noteq> None then who_dialled_from e presented rest db
     else case dial_secret_for e (au_node a) db of
       (expected, db) \<Rightarrow>
         if constant_time_eq presented expected then (Some (au_node a), db)
         else who_dialled_from e presented rest db)"

definition who_dialled :: "net_env \<Rightarrow> string \<Rightarrow> net_db \<Rightarrow> string option \<times> net_db" where
  "who_dialled e presented db = who_dialled_from e presented (authorities_all db) db"

section \<open>Names claimed (mod.rs)\<close>

definition claim_holder :: "net_db \<Rightarrow> string \<Rightarrow> string option option" where
  "claim_holder db name = map_option cl_authority (List.find (\<lambda>c. cl_name c = name) (nt_claims db))"

definition claim_name :: "int \<Rightarrow> string \<Rightarrow> string option \<Rightarrow> net_db \<Rightarrow> (string option + unit) \<times> net_db" where
  "claim_name now name authority db =
    (case claim_holder db name of
       Some held \<Rightarrow> if held \<noteq> authority then (Inl held, db) else (Inr (), db)
     | None \<Rightarrow> (Inr (), db\<lparr>nt_claims := nt_claims db @ [\<lparr>cl_name = name, cl_authority = authority, cl_at = now\<rparr>]\<rparr>))"

definition claimed_for_others :: "net_db \<Rightarrow> string list" where
  "claimed_for_others db = sort (map cl_name (filter (\<lambda>c. cl_authority c \<noteq> None) (nt_claims db)))"

definition claim_release :: "string \<Rightarrow> net_db \<Rightarrow> net_db" where
  "claim_release name db = db\<lparr>nt_claims := filter (\<lambda>c. cl_name c \<noteq> name) (nt_claims db)\<rparr>"

definition release_ungranted :: "net_db \<Rightarrow> route_rows \<Rightarrow> string list \<times> net_db \<times> route_rows" where
  "release_ungranted db routes =
    (let held = sort_key fst (List.map_filter (\<lambda>c. map_option (Pair (cl_name c)) (cl_authority c)) (nt_claims db));
         gone = map fst (filter (\<lambda>(_, authority). Edge \<notin> set (granted_to (nt_grants db) authority)) held) in
     (gone, fold claim_release gone db, fold forget_for_other gone routes))"

section \<open>The key pair (keys.rs)\<close>

definition PRIVATE_KEY :: string where "PRIVATE_KEY = ''network.private_key''"

definition keys_read :: "net_env \<Rightarrow> net_db \<Rightarrow> (string \<times> string) option" where
  "keys_read e db =
    (case setting_read (nt_grants db) PRIVATE_KEY of
       None \<Rightarrow> None
     | Some stored \<Rightarrow> map_option (Pair stored) (ne_public e (trim stored)))"

definition keys_ensure :: "net_env \<Rightarrow> net_db \<Rightarrow> (string \<times> string) \<times> net_db" where
  "keys_ensure e db =
    (case keys_read e db of
       Some keys \<Rightarrow> (keys, db)
     | None \<Rightarrow> (ne_new_key e, db\<lparr>nt_grants := setting_write PRIVATE_KEY (fst (ne_new_key e)) (nt_grants db)\<rparr>))"

definition keys_public :: "net_env \<Rightarrow> net_db \<Rightarrow> string option" where
  "keys_public e db = map_option snd (keys_read e db)"

section \<open>This node's own row (mod.rs)\<close>

definition parse_ip :: "string \<Rightarrow> ip option" where
  "parse_ip s = (case parse_ipv4 s of Some a \<Rightarrow> Some (Inl a) | None \<Rightarrow> map_option Inr (parse_ipv6 s))"

definition is_private_address :: "string \<Rightarrow> bool" where
  "is_private_address domain =
    (case parse_ip (trim domain) of
       Some (Inl (a, b, c, d)) \<Rightarrow>
         a = 10 \<or> a = 172 \<and> 16 \<le> b \<and> b \<le> 31 \<or> a = 192 \<and> b = 168 \<or> is_loopback4 (a, b, c, d) \<or>
         is_link_local4 (a, b, c, d) \<or> (a, b, c, d) = (0, 0, 0, 0) \<or> a = 100 \<and> 64 \<le> b \<and> b < 128
     | Some (Inr groups) \<Rightarrow>
         groups = [0, 0, 0, 0, 0, 0, 0, 1] \<or> groups = [0, 0, 0, 0, 0, 0, 0, 0] \<or>
         and (hd groups) 0xFE00 = 0xFC00 \<or> and (hd groups) 0xFFC0 = 0xFE80
     | None \<Rightarrow> False)"

definition node_name :: "net_env \<Rightarrow> string option \<Rightarrow> string" where
  "node_name e domain =
    (case domain of Some d \<Rightarrow> d
     | None \<Rightarrow> (case ne_hostname e of
         Some h \<Rightarrow> if trim h \<noteq> [] then trim h else ''this node'' | None \<Rightarrow> ''this node''))"

definition self_row :: "net_env \<Rightarrow> net_db \<Rightarrow> net_node" where
  "self_row e db =
    (let existing = node_me db;
         domain = node_domain (nt_grants db);
         asked = (case domain of
             Some d \<Rightarrow> if is_private_address d then None else Some (d @ '':'' @ ne_port e) | None \<Rightarrow> None);
         kind = (if asked \<noteq> None \<and> provides (nt_grants db) Edge then Public else Private) in
     \<lparr>nd_id = (case existing of Some n \<Rightarrow> nd_id n | None \<Rightarrow> ''nd-'' @ ne_node_id e),
      nd_name = node_name e domain, nd_kind = kind, endpoint = (if kind = Public then asked else None),
      is_self = True, last_seen_at = None, allows = [], draining_at = None, node_capacity = None,
      nd_name_servers = None, overlay_ip = Option.bind existing overlay_ip, public_key = keys_public e db,
      ca_pem = None, nd_lan = None, nd_usage = None, nd_version = Some (ne_version e),
      nd_wanted = Option.bind existing nd_wanted, nd_note = None, nd_dial = None, nd_joined = ne_now e\<rparr>)"

definition ensure_self :: "net_env \<Rightarrow> net_db \<Rightarrow> net_node option \<times> net_db" where
  "ensure_self e db =
    (let n = self_row e db in
     case net_save (ne_now e) n db of (ok, db) \<Rightarrow> (if ok then Some n else None, db))"

definition ensure_hub :: "net_env \<Rightarrow> net_db \<Rightarrow> (net_refusal + net_node) \<times> net_db" where
  "ensure_hub e db =
    (case ensure_self e (snd (keys_ensure e db)) of
       (None, db) \<Rightarrow> (Inl NetStorage, db)
     | (Some me, db) \<Rightarrow>
         if overlay_ip me \<noteq> None then (Inr me, db)
         else (case overlay_allocate db of
             None \<Rightarrow> (Inl OverlayFull, db)
           | Some ip \<Rightarrow>
               (case net_save (ne_now e) (me\<lparr>overlay_ip := Some ip\<rparr>) db of
                  (ok, db) \<Rightarrow> (if ok then Inr (me\<lparr>overlay_ip := Some ip\<rparr>) else Inl NetStorage, db))))"

section \<open>Join tokens (token.rs)\<close>

record join_token =
  jt_authority :: string
  jt_name :: string
  jt_endpoint :: string
  jt_key :: string
  jt_overlay :: string
  jt_assigned :: string
  jt_secret :: string
  jt_requires :: "string list option"
  jt_offers :: "string list option"

text \<open>JSON and base64 in both directions.\<close>

record token_wire =
  to_json :: "join_token \<Rightarrow> string"
  of_json :: "string \<Rightarrow> join_token option"
  to_base64 :: "string \<Rightarrow> string"
  of_base64 :: "string \<Rightarrow> string option"

definition TOKEN_PREFIX :: string where "TOKEN_PREFIX = ''wdj1.''"

definition token_capabilities :: "string list option \<Rightarrow> capability list" where
  "token_capabilities field =
    (case field of None \<Rightarrow> capability_all | Some names \<Rightarrow> capability_parse_list (join_with '','' names))"

definition token_requires :: "join_token \<Rightarrow> capability list" where
  "token_requires t = token_capabilities (jt_requires t)"

definition token_offers :: "join_token \<Rightarrow> capability list" where
  "token_offers t = token_capabilities (jt_offers t)"

definition token_encode :: "token_wire \<Rightarrow> join_token \<Rightarrow> string" where
  "token_encode w t = TOKEN_PREFIX @ to_base64 w (to_json w t)"

definition token_decode :: "token_wire \<Rightarrow> string \<Rightarrow> net_refusal + join_token" where
  "token_decode w text =
    (case strip_prefix TOKEN_PREFIX (trim text) of
       None \<Rightarrow> Inl NotAToken
     | Some body \<Rightarrow>
         (case of_base64 w body of
            None \<Rightarrow> Inl DamagedToken
          | Some json \<Rightarrow>
              (case of_json w json of
                 None \<Rightarrow> Inl DamagedToken
               | Some t \<Rightarrow>
                   if jt_authority t = [] \<or> jt_endpoint t = [] \<or> jt_key t = [] \<or> jt_overlay t = [] \<or>
                      jt_assigned t = [] \<or> jt_secret t = [] then Inl DamagedToken
                   else Inr t)))"

section \<open>Enrolling a node (features/network)\<close>

record mint_request =
  mt_name :: string
  mt_requires :: "capability list"
  mt_offers :: "capability list"

definition node_user_mint_join_token :: "net_env \<Rightarrow> token_wire \<Rightarrow> account \<Rightarrow> mint_request \<Rightarrow> net_db
    \<Rightarrow> (net_refusal + string) \<times> net_db" where
  "node_user_mint_join_token e w account asked db =
    (if \<not> manages_the_machine account then (Inl AdministratorsOnly, db)
     else if 60 < length (mt_name asked) then (Inl NoteTooLong, db)
     else case ensure_hub e db of
       (Inl r, db) \<Rightarrow> (Inl r, db)
     | (Inr me, db) \<Rightarrow>
         (case if may_be_edge (node.truncate me) then endpoint me else None of
            None \<Rightarrow> (Inl NoAddressToCallBack, db)
          | Some reached \<Rightarrow>
         (case keys_public e db of
            None \<Rightarrow> (Inl NoOverlayKey, db)
          | Some key \<Rightarrow>
         (case overlay_ip me of
            None \<Rightarrow> (Inl NoOverlayAddress, db)
          | Some overlay \<Rightarrow>
         (case overlay_allocate db of
            None \<Rightarrow> (Inl OverlayFull, db)
          | Some assigned \<Rightarrow>
         (case enrolment_create e (mt_name asked) assigned (account_id account) (mt_requires asked) (mt_offers asked) db of
            (None, db) \<Rightarrow> (Inl NetStorage, db)
          | (Some (_, secret), db) \<Rightarrow>
              (Inr (token_encode w \<lparr>jt_authority = nd_id me, jt_name = nd_name me, jt_endpoint = reached, jt_key = key,
                 jt_overlay = overlay, jt_assigned = assigned, jt_secret = secret,
                 jt_requires = Some (map capability_name (mt_requires asked)),
                 jt_offers = Some (map capability_name (mt_offers asked))\<rparr>), db)))))))"

definition node_user_withdraw_enrolment :: "account \<Rightarrow> string \<Rightarrow> net_db \<Rightarrow> (net_refusal + unit) \<times> net_db" where
  "node_user_withdraw_enrolment account i db =
    (if \<not> manages_the_machine account then (Inl AdministratorsOnly, db) else (Inr (), enrolment_withdraw i db))"

definition node_user_forget_node :: "account \<Rightarrow> string \<Rightarrow> net_db \<Rightarrow> (net_refusal + unit) \<times> net_db" where
  "node_user_forget_node account node db =
    (if \<not> manages_the_machine account then (Inl AdministratorsOnly, db) else (Inr (), net_forget node db))"

definition node_user_revoke_authority :: "int \<Rightarrow> account \<Rightarrow> string \<Rightarrow> net_db \<Rightarrow> (net_refusal + unit) \<times> net_db" where
  "node_user_revoke_authority now account node db =
    (if \<not> manages_the_machine account then (Inl AdministratorsOnly, db) else (Inr (), authority_revoke now node db))"

definition node_user_set_grants :: "net_env \<Rightarrow> account \<Rightarrow> string \<Rightarrow> capability list \<Rightarrow> net_db
    \<Rightarrow> (net_refusal + unit) \<times> net_db" where
  "node_user_set_grants e account node agreed db =
    (if \<not> manages_the_machine account then (Inl AdministratorsOnly, db)
     else case set_granted (nat (ne_now e)) node agreed (nt_grants db) of
       (ok, gs) \<Rightarrow> (if ok then Inr () else Inl NotSaved, db\<lparr>nt_grants := gs\<rparr>))"

section \<open>A node arrives (web/remote_node_rest_controller.rs)\<close>

record arriving =
  ar_node :: string
  ar_name :: string
  ar_key :: string
  ar_accepted :: "string list option"
  ar_ca :: "string option"

record accepted =
  ac_authority :: string
  ac_name :: string
  ac_overlay :: string
  ac_ca :: "string option"

definition describes_a_node :: "arriving \<Rightarrow> net_refusal option" where
  "describes_a_node a =
    (if ar_node a = [] \<or> 64 < byte_len (ar_node a) \<or>
        \<not> list_all (\<lambda>c. is_alphanumeric c \<or> c = CHR ''-'' \<or> c = CHR ''_'') (ar_node a) then Some NotANodeId
     else if ar_name a = [] \<or> 200 < byte_len (ar_name a) then Some NoNodeName
     else if ar_key a = [] \<or> 200 < byte_len (ar_key a) then Some NoPublicKey
     else None)"

definition kept_pem :: "string option \<Rightarrow> string option" where
  "kept_pem pem = (case pem of Some p \<Rightarrow> if trim p = [] then None else Some p | None \<Rightarrow> None)"

text \<open>The row an arriving node gets, from the row it has and what it was enrolled with.\<close>

definition arriving_row :: "int \<Rightarrow> arriving \<Rightarrow> net_node option \<Rightarrow> enrolment_row \<Rightarrow> net_node" where
  "arriving_row now a before r =
    \<lparr>nd_id = ar_node a, nd_name = ar_name a, nd_kind = Private, endpoint = None, is_self = False,
     last_seen_at = Some now,
     allows = (case ar_accepted a of Some names \<Rightarrow> capability_parse_list (join_with '','' names) | None \<Rightarrow> capability_all),
     draining_at = None, node_capacity = None, nd_name_servers = None,
     overlay_ip = (case Option.bind before overlay_ip of Some ip \<Rightarrow> Some ip | None \<Rightarrow> Some (en_overlay r)),
     public_key = Some (ar_key a),
     ca_pem = (case kept_pem (ar_ca a) of Some p \<Rightarrow> Some p | None \<Rightarrow> Option.bind before ca_pem),
     nd_lan = None, nd_usage = None, nd_version = None, nd_wanted = None, nd_note = None, nd_dial = None,
     nd_joined = now\<rparr>"

definition join_answer :: "net_env \<Rightarrow> string \<Rightarrow> arriving \<Rightarrow> net_db \<Rightarrow> (net_refusal + accepted) \<times> net_db" where
  "join_answer e secret a db =
    (case describes_a_node a of Some reason \<Rightarrow> (Inl reason, db) | None \<Rightarrow>
    (case enrolment_look_up e secret db of None \<Rightarrow> (Inl NotAuthorised, db) | Some r \<Rightarrow>
      let before = node_find db (ar_node a) in
      if (case before of Some n \<Rightarrow> is_self n | None \<Rightarrow> False) then (Inl OwnId, db)
      else (case spend e (en_id r) (ar_node a) db of (taken, db) \<Rightarrow>
        if \<not> taken then (Inl UsedByAnother, db)
        else (case net_save (ne_now e) (arriving_row (ne_now e) a before r) db of (ok, db) \<Rightarrow>
          if \<not> ok then (Inl NetStorage, db)
          else (case node_me db of None \<Rightarrow> (Inl NoRowOfItsOwn, db) | Some me \<Rightarrow>
            (Inr \<lparr>ac_authority = nd_id me, ac_name = nd_name me,
                ac_overlay = (case Option.bind before overlay_ip of Some ip \<Rightarrow> ip | None \<Rightarrow> en_overlay r), ac_ca = ne_ca e\<rparr>,
             db\<lparr>nt_grants := snd (capability_grant (nat (ne_now e)) (ar_node a) (en_offers r) (nt_grants db))\<rparr>))))))"

section \<open>Joining (join.rs)\<close>

text \<open>What the announcement comes to is an argument: no answer, or what was answered.\<close>

definition join_network :: "net_env \<Rightarrow> token_wire \<Rightarrow> (string \<Rightarrow> string \<Rightarrow> arriving \<Rightarrow> accepted option) \<Rightarrow> string
    \<Rightarrow> capability list option \<Rightarrow> net_db \<Rightarrow> (net_refusal + net_node \<times> net_node) \<times> net_db" where
  "join_network e w announce text accepting db =
    (case token_decode w text of Inl r \<Rightarrow> (Inl r, db) | Inr t \<Rightarrow>
      let agreed = (case accepting of
          Some chosen \<Rightarrow> filter (\<lambda>c. c \<in> set chosen) (token_requires t) | None \<Rightarrow> token_requires t) in
      case keys_ensure e db of (keys, db) \<Rightarrow>
      case ensure_self e db of (None, db) \<Rightarrow> (Inl NetStorage, db) | (Some me, db) \<Rightarrow>
      (case announce (jt_endpoint t) (jt_secret t)
          \<lparr>ar_node = nd_id me, ar_name = nd_name me, ar_key = snd keys,
           ar_accepted = Some (map capability_name agreed), ar_ca = ne_ca e\<rparr> of
        None \<Rightarrow> (Inl CallFailed, db)
      | Some accepted \<Rightarrow>
          if ac_authority accepted \<noteq> jt_authority t
          then (Inl (NotWhoItClaimed (jt_endpoint t) (ac_authority accepted) (jt_authority t)), db)
          else let authority = \<lparr>nd_id = jt_authority t, nd_name = jt_name t, nd_kind = Public,
                 endpoint = Some (jt_endpoint t), is_self = False, last_seen_at = Some (ne_now e),
                 allows = token_offers t, draining_at = None, node_capacity = None, nd_name_servers = None,
                 overlay_ip = Some (jt_overlay t), public_key = Some (jt_key t), ca_pem = kept_pem (ac_ca accepted),
                 nd_lan = None, nd_usage = None, nd_version = None, nd_wanted = None, nd_note = None, nd_dial = None,
                 nd_joined = ne_now e\<rparr> in
          case net_save (ne_now e) authority db of (ok, db) \<Rightarrow>
          if \<not> ok then (Inl NetStorage, db)
          else case capability_grant (nat (ne_now e)) (jt_authority t) agreed (nt_grants db) of (ok, gs) \<Rightarrow>
          if \<not> ok then (Inl NetStorage, db)
          else let db = authority_grant e (jt_authority t) (jt_secret t) (db\<lparr>nt_grants := gs\<rparr>);
                   me = me\<lparr>overlay_ip := Some (ac_overlay accepted), public_key := Some (snd keys)\<rparr> in
          case net_save (ne_now e) me db of (ok, db) \<Rightarrow>
          (if ok then Inr (authority, me) else Inl NetStorage, db)))"

text \<open>The form: looked at first, then agreed to.\<close>

datatype token_spent = Review string | Joined string

definition node_user_spend_join_token :: "net_env \<Rightarrow> token_wire \<Rightarrow> (string \<Rightarrow> string \<Rightarrow> arriving \<Rightarrow> accepted option)
    \<Rightarrow> account \<Rightarrow> string \<Rightarrow> bool \<Rightarrow> capability list \<Rightarrow> net_db \<Rightarrow> (net_refusal + token_spent) \<times> net_db" where
  "node_user_spend_join_token e w announce account token agreed accepted db =
    (if \<not> manages_the_machine account then (Inl AdministratorsOnly, db)
     else if token = [] then (Inl PasteTheToken, db)
     else if \<not> agreed then
       (case token_decode w token of Inl r \<Rightarrow> (Inl r, db) | Inr _ \<Rightarrow> (Inr (Review token), db))
     else (case join_network e w announce token (Some accepted) db of
         (Inl r, db) \<Rightarrow> (Inl r, db)
       | (Inr (authority, _), db) \<Rightarrow> (Inr (Joined (nd_name authority)), db)))"

section \<open>Who is asking (api.rs)\<close>

definition asking :: "net_env \<Rightarrow> string \<Rightarrow> net_db \<Rightarrow> net_refusal + string" where
  "asking e secret db =
    (case enrolment_holder e secret db of
       None \<Rightarrow> Inl NotAuthorised
     | Some node \<Rightarrow> if node_find db node = None then Inl NotAuthorised else Inr node)"

definition caller :: "net_env \<Rightarrow> string \<Rightarrow> net_db \<Rightarrow> (net_refusal + string) \<times> net_db" where
  "caller e secret db =
    (case asking e secret db of
       Inr node \<Rightarrow> (Inr node, db)
     | Inl _ \<Rightarrow> (case who_dialled e secret db of
         (Some node, db) \<Rightarrow> (Inr node, db) | (None, db) \<Rightarrow> (Inl NotAuthorised, db)))"

section \<open>What a node says of itself (api.rs)\<close>

record replica_state =
  rs_project :: string
  rs_service :: string
  rs_slot :: u32
  rs_address :: "string option"
  rs_overlay_port :: "u16 option"
  rs_error :: "string option"
  rs_evicted :: bool
  rs_memory :: "u64 option"
  rs_disk :: "u64 option"
  rs_cpu :: "u32 option"

record node_report =
  rp_replicas :: "replica_state list"
  rp_endpoint :: "string option"
  rp_usage :: "usage_report option"
  rp_capacity :: "capacity option"
  rp_allows :: "string option"
  rp_lan :: "string list option"
  rp_ca :: "string option"
  rp_version :: "string option"
  rp_note :: "string option"
  rp_dial :: "string option"
  rp_name_servers :: "string list option"

definition is_private_endpoint :: "string \<Rightarrow> bool" where
  "is_private_endpoint reached =
    is_private_address (case rsplit_once CHR '':'' reached of Some (host, _) \<Rightarrow> host | None \<Rightarrow> reached)"

definition or_else :: "'a option \<Rightarrow> 'a option \<Rightarrow> 'a option" where
  "or_else a b = (case a of Some x \<Rightarrow> Some x | None \<Rightarrow> b)"

definition reported_endpoint :: "string option \<Rightarrow> string option \<Rightarrow> string option" where
  "reported_endpoint said held =
    (case said of
       Some reached \<Rightarrow> if trim reached = [] \<or> is_private_endpoint reached then None else Some reached
     | None \<Rightarrow> held)"

definition note_reachability :: "int \<Rightarrow> string \<Rightarrow> node_report \<Rightarrow> net_db \<Rightarrow> bool \<times> net_db" where
  "note_reachability now i report db =
    (case node_find db i of
       None \<Rightarrow> (True, db)
     | Some n \<Rightarrow>
         let reached = reported_endpoint (rp_endpoint report) (endpoint n) in
         net_save now (n\<lparr>allows := (case rp_allows report of Some l \<Rightarrow> capability_parse_list l | None \<Rightarrow> allows n),
           ca_pem := or_else (kept_pem (rp_ca report)) (ca_pem n), nd_usage := or_else (rp_usage report) (nd_usage n),
           node_capacity := or_else (rp_capacity report) (node_capacity n),
           nd_kind := (if reached \<noteq> None then Public else Private), endpoint := reached, last_seen_at := Some now,
           nd_version := or_else (rp_version report) (nd_version n), nd_note := or_else (rp_note report) (nd_note n)\<rparr>) db)"

text \<open>
  What a report changes of the node's own row: how to dial it, where it is on its own network, what
  it can be asked, and the names it answers DNS as. The middle write is the one that can end it.
\<close>

definition report_rows :: "int \<Rightarrow> string \<Rightarrow> node_report \<Rightarrow> net_db \<Rightarrow> bool \<times> net_db" where
  "report_rows now i report db =
    (let db = (case rp_dial report of Some secret \<Rightarrow> if secret \<noteq> [] then remember_dial_secret i secret db else db | None \<Rightarrow> db);
         db = (case rp_lan report of
           Some held \<Rightarrow> db\<lparr>nt_nodes := lan_remember i held (nt_nodes db)\<rparr> | None \<Rightarrow> db) in
     case note_reachability now i report db of
       (False, db) \<Rightarrow> (False, db)
     | (True, db) \<Rightarrow>
         (True, case rp_name_servers report of
            Some names \<Rightarrow> db\<lparr>nt_nodes := snd (remember_names i names (nt_nodes db))\<rparr> | None \<Rightarrow> db))"

end
