(* ===== verification/Roster.thy ===== *)
theory Roster
  imports Joining
begin

text \<open>
  Who else is in the network (infra/network/roster.rs, learn_the_network of infra/network/collect.rs):
  what an authority answers and what a node that hears it keeps. The names a node answers DNS as and
  the addresses of its interfaces are arguments.
\<close>

record roster_member =
  mb_node :: string
  mb_name :: string
  mb_overlay :: string
  mb_key :: string
  mb_ca :: "string option"
  mb_endpoint :: "string option"
  mb_lan :: "string list"
  mb_name_servers :: "string list option"

section \<open>What an authority answers\<close>

definition roster_of_this_node :: "net_env \<Rightarrow> net_db \<Rightarrow> roster_member list" where
  "roster_of_this_node e db =
    (let enrolled = List.map_filter en_used_by (enrolments_all db);
         mine = map_option nd_id (node_me db);
         held = (\<lambda>i. if mine = Some i then Some (ne_lan e)
           else map_option (map (\<lambda>(a, b, c, d). show_ipv4 a b c d)) (map_of (lan_of_every_node (nt_nodes db)) i));
         named = (\<lambda>i. if mine = Some i then Some (of_this_node (nt_grants db)) else said_by_others (nt_nodes db) i) in
     List.map_filter (\<lambda>n.
         case (overlay_ip n, public_key n) of
           (Some ip, Some key) \<Rightarrow> Some \<lparr>mb_node = nd_id n, mb_name = nd_name n, mb_overlay = ip, mb_key = key,
             mb_ca = (if is_self n then ne_ca e else ca_pem n), mb_endpoint = endpoint n,
             mb_lan = (case held (nd_id n) of Some l \<Rightarrow> l | None \<Rightarrow> []), mb_name_servers = named (nd_id n)\<rparr>
         | _ \<Rightarrow> None)
       (filter (\<lambda>n. is_self n \<or> nd_id n \<in> set enrolled) (nodes_sorted db)))"

definition roster_answer :: "net_env \<Rightarrow> string \<Rightarrow> net_db \<Rightarrow> net_refusal + roster_member list" where
  "roster_answer e secret db =
    (case asking e secret db of Inl r \<Rightarrow> Inl r | Inr _ \<Rightarrow> Inr (roster_of_this_node e db))"

section \<open>What a node keeps of it\<close>

record applied =
  ap_changed :: nat
  ap_conflicts :: "(string \<times> string) list"
  ap_renamed :: nat

definition roster_renamed :: "roster_member \<Rightarrow> net_db \<Rightarrow> bool \<times> net_db" where
  "roster_renamed m db =
    (case mb_name_servers m of
       Some names \<Rightarrow>
         (case remember_names (mb_node m) names (nt_nodes db) of (moved, rows) \<Rightarrow> (moved, db\<lparr>nt_nodes := rows\<rparr>))
     | None \<Rightarrow> (False, db))"

definition roster_holder_of :: "net_db \<Rightarrow> string \<Rightarrow> string option" where
  "roster_holder_of db ip = map_option nd_id (List.find (\<lambda>n. overlay_ip n = Some ip) (nt_nodes db))"

definition fill_missing_anchor :: "string \<Rightarrow> string \<Rightarrow> net_db \<Rightarrow> bool \<times> net_db" where
  "fill_missing_anchor i ca db =
    (let hit = (\<lambda>r. nd_id r = i \<and> (ca_pem r = None \<or> ca_pem r = Some [])) in
     (list_ex hit (nt_nodes db), edit_nodes hit (\<lambda>r. r\<lparr>ca_pem := Some ca\<rparr>) db))"

definition roster_kind :: "roster_member \<Rightarrow> node_kind" where
  "roster_kind m = (if mb_endpoint m \<noteq> None then Public else Private)"

definition roster_differs :: "roster_member \<Rightarrow> net_node \<Rightarrow> bool" where
  "roster_differs m r \<longleftrightarrow> nd_name r \<noteq> mb_name m \<or> nd_kind r \<noteq> roster_kind m \<or> endpoint r \<noteq> mb_endpoint m \<or>
    public_key r \<noteq> Some (mb_key m) \<or> overlay_ip r \<noteq> Some (mb_overlay m) \<or> ca_pem r = None \<and> mb_ca m \<noteq> None"

definition roster_remember :: "int \<Rightarrow> roster_member \<Rightarrow> net_db \<Rightarrow> bool \<times> net_db" where
  "roster_remember now m db =
    (let hit = (\<lambda>r. nd_id r = mb_node m \<and> roster_differs m r) in
     if list_ex (\<lambda>r. nd_id r = mb_node m) (nt_nodes db)
     then (list_ex hit (nt_nodes db),
       edit_nodes hit (\<lambda>r. r\<lparr>nd_name := mb_name m, nd_kind := roster_kind m, endpoint := mb_endpoint m,
         public_key := Some (mb_key m), overlay_ip := Some (mb_overlay m), ca_pem := or_else (mb_ca m) (ca_pem r)\<rparr>) db)
     else (True, db\<lparr>nt_nodes := nt_nodes db @ [\<lparr>nd_id = mb_node m, nd_name = mb_name m, nd_kind = roster_kind m,
         endpoint = mb_endpoint m, is_self = False, last_seen_at = None, allows = [], draining_at = None,
         node_capacity = None, nd_name_servers = None, overlay_ip = Some (mb_overlay m), public_key = Some (mb_key m),
         ca_pem = mb_ca m, nd_lan = None, nd_usage = None, nd_version = None, nd_wanted = None, nd_note = None,
         nd_dial = None, nd_joined = now\<rparr>]\<rparr>))"

definition apply_member :: "int \<Rightarrow> string option \<Rightarrow> string list \<Rightarrow> roster_member \<Rightarrow> applied \<times> net_db \<Rightarrow> applied \<times> net_db" where
  "apply_member now me auths m s =
    (case s of (a, db) \<Rightarrow>
     if Some (mb_node m) = me then (a, db)
     else if mb_node m \<in> set auths then
       let (filled, db) = (case mb_ca m of Some ca \<Rightarrow> fill_missing_anchor (mb_node m) ca db | None \<Rightarrow> (False, db));
           (moved, db) = roster_renamed m db in
       (a\<lparr>ap_changed := ap_changed a + of_bool filled, ap_renamed := ap_renamed a + of_bool moved\<rparr>, db)
     else if (case roster_holder_of db (mb_overlay m) of Some held \<Rightarrow> held \<noteq> mb_node m | None \<Rightarrow> False)
     then (a\<lparr>ap_conflicts := ap_conflicts a @ [(mb_node m, mb_overlay m)]\<rparr>, db)
     else
       let (learned, db) = roster_remember now m db;
           db = db\<lparr>nt_nodes := lan_remember (mb_node m) (mb_lan m) (nt_nodes db)\<rparr>;
           (moved, db) = roster_renamed m db in
       (a\<lparr>ap_changed := ap_changed a + of_bool learned, ap_renamed := ap_renamed a + of_bool moved\<rparr>, db))"

definition roster_apply :: "int \<Rightarrow> roster_member list \<Rightarrow> net_db \<Rightarrow> applied \<times> net_db" where
  "roster_apply now ms db =
    (let me = map_option nd_id (node_me db);
         auths = map au_node (authorities_all db) in
     fold (apply_member now me auths) ms (\<lparr>ap_changed = 0, ap_conflicts = [], ap_renamed = 0\<rparr>, db))"

definition CONFLICT :: string where "CONFLICT = ''network.roster.conflict''"

definition record_conflicts :: "(string \<times> string) list \<Rightarrow> net_db \<Rightarrow> net_db" where
  "record_conflicts conflicts db =
    db\<lparr>nt_grants := setting_write CONFLICT
      (join_with ''; '' (map (\<lambda>(node, address). node @ '' was offered '' @ address @ '', which another node here already holds'')
        conflicts)) (nt_grants db)\<rparr>"

definition roster_conflicts :: "net_db \<Rightarrow> string option" where
  "roster_conflicts db =
    (case setting_read (nt_grants db) CONFLICT of
       Some said \<Rightarrow> if trim said = [] then None else Some said | None \<Rightarrow> None)"

text \<open>What the call answers is an argument. The two truths say whether the overlay and the names are set up again.\<close>

definition learn_the_network :: "int \<Rightarrow> roster_member list option \<Rightarrow> net_db \<Rightarrow> (bool \<times> bool) \<times> net_db" where
  "learn_the_network now answered db =
    (case answered of
       None \<Rightarrow> ((False, False), db)
     | Some ms \<Rightarrow>
         (case roster_apply now ms db of
            (a, db) \<Rightarrow> ((0 < ap_changed a, 0 < ap_renamed a), record_conflicts (ap_conflicts a) db)))"

end
