(* ===== verification/Enrolling.thy ===== *)
theory Enrolling
  imports Roster
begin

text \<open>
  What an authority promises the nodes it enrols, over any run of what its administrators, its nodes
  and other networks ask of it: an address is one node's, a token that was never used lets a node in,
  a secret is one node's for good, and nobody is taken for a node who did not bring its secret.
\<close>

section \<open>The events\<close>

datatype joining_event =
    Minted net_env account mint_request
  | Arrived net_env string arriving
  | TokenWithdrawn account string
  | NodeForgotten account string
  | AccountGone string
  | GrantsSet net_env account string "capability list"
  | SelfEnsured net_env
  | SettingWritten string string
  | NodeReported net_env string node_report
  | VersionWanted string "string option"
  | DrainSet int string bool
  | NetworkLeft
  | NetworkJoined net_env "string \<Rightarrow> string \<Rightarrow> arriving \<Rightarrow> accepted option" string "capability list option"
  | NetworkHeard int "roster_member list option"
  | PeerLearned int string string string string string

fun joining_step :: "token_wire \<Rightarrow> joining_event \<Rightarrow> net_db \<Rightarrow> net_db" where
  "joining_step w (Minted e account asked) db = snd (node_user_mint_join_token e w account asked db)"
| "joining_step w (Arrived e secret a) db = snd (join_answer e secret a db)"
| "joining_step w (TokenWithdrawn account i) db = snd (node_user_withdraw_enrolment account i db)"
| "joining_step w (NodeForgotten account i) db = snd (node_user_forget_node account i db)"
| "joining_step w (AccountGone i) db = enrolments_of_gone i db"
| "joining_step w (GrantsSet e account i cs) db = snd (node_user_set_grants e account i cs db)"
| "joining_step w (SelfEnsured e) db = snd (ensure_self e db)"
| "joining_step w (SettingWritten k v) db = db\<lparr>nt_grants := setting_write k v (nt_grants db)\<rparr>"
| "joining_step w (NodeReported e secret report) db =
    (case asking e secret db of Inl _ \<Rightarrow> db | Inr i \<Rightarrow> snd (report_rows (ne_now e) i report db))"
| "joining_step w (VersionWanted i v) db = want_version i v db"
| "joining_step w (DrainSet now i out) db = set_draining now i out db"
| "joining_step w NetworkLeft db = fst (forget_self (db, []))"
| "joining_step w (NetworkJoined e announce text accepting) db = snd (join_network e w announce text accepting db)"
| "joining_step w (NetworkHeard now answered) db = snd (learn_the_network now answered db)"
| "joining_step w (PeerLearned now i name ip key ca) db = snd (learn_peer now i name ip key ca db)"

text \<open>What only an authority is asked, which has joined no other network.\<close>

fun authority_event :: "joining_event \<Rightarrow> bool" where
  "authority_event (NetworkJoined _ _ _ _) = False"
| "authority_event (NetworkHeard _ _) = False"
| "authority_event (PeerLearned _ _ _ _ _ _) = False"
| "authority_event _ = True"

definition no_network :: "net_db \<Rightarrow> bool" where
  "no_network db \<longleftrightarrow> nt_nodes db = [] \<and> nt_enrolments db = []"

section \<open>Addresses\<close>

lemma parse_u8_show_byte:
  fixes b :: "'a::len word"
  assumes "unat b < 256"
  shows "parse_u8 (show_byte b) = Some (of_nat (unat b))"
  using assms by (simp add: parse_u8_def show_byte_def)

lemma overlay_host_address:
  assumes "n \<le> OVERLAY_LAST"
  shows "overlay_host (overlay_address (of_nat n)) = Some (of_nat n)"
proof -
  let ?h = "of_nat n :: u32"
  have n: "unat ?h = n" "n < 256" using assms by (simp_all add: OVERLAY_LAST_def unat_of_nat)
  have "unat (drop_bit 8 ?h) = drop_bit 8 (unat ?h)" by (rule unat_drop_bit_eq)
  also have "\<dots> = 0" unfolding n(1) using n(2) by (simp add: drop_bit_eq_div)
  finally have "unat (drop_bit 8 ?h) = 0" .
  then have "drop_bit 8 ?h = 0" by (simp only: unat_eq_zero)
  then have hi: "and (drop_bit 8 ?h) 0xFF = 0" by (simp only: zero_and_eq)
  have "unat (take_bit 8 ?h) = take_bit 8 (unat ?h)" by (rule unsigned_take_bit_eq)
  also have "\<dots> = unat ?h" unfolding n(1) using n(2) by (simp add: take_bit_eq_mod)
  finally have "unat (take_bit 8 ?h) = unat ?h" .
  then have "take_bit 8 ?h = ?h" by (rule unsigned_word_eqI)
  then have "and ?h (mask 8) = ?h" by (simp only: take_bit_eq_mask)
  then have lo: "and ?h 0xFF = ?h" by (simp add: mask_eq_exp_minus_1)
  define a b c where "a = show_byte (10::u8)" and "b = show_byte (42::u8)" and "c = show_byte (0::u32)"
  define d where "d = show_byte ?h"
  note parts = a_def b_def c_def d_def
  have no_dot: "CHR ''.'' \<notin> set (show_byte x)" for x :: "'x::len word"
    by (auto simp: show_byte_def dest: show_nat_chars)
  have digits: "list_all (\<lambda>c. \<not> is_whitespace c) (show_byte x)" for x :: "'x::len word"
    unfolding show_byte_def list_all_iff by (auto dest!: show_nat_chars simp: is_digit_def is_whitespace_def)
  have shape: "overlay_address ?h = a @ CHR ''.'' # b @ CHR ''.'' # c @ CHR ''.'' # d"
    by (simp add: overlay_address_def OVERLAY_PREFIX_def hi lo parts)
  have dot: "\<not> is_whitespace CHR ''.''" by (simp add: is_whitespace_def)
  have "trim (overlay_address ?h) = overlay_address ?h"
    unfolding shape by (rule trim_plain) (simp add: parts digits dot)
  moreover have "split_on CHR ''.'' (overlay_address ?h) = [a, b, c, d]"
    unfolding shape by (simp add: split_on_append no_dot parts split_on_free)
  moreover have "parse_u8 a = Some 10" "parse_u8 b = Some 42" "parse_u8 c = Some 0"
    by (simp_all add: parts parse_u8_show_byte)
  moreover have "parse_u8 d = Some (of_nat n)" using n by (simp add: parts parse_u8_show_byte)
  moreover have "ucast (of_nat n :: u8) = ?h"
  proof -
    have "unat (ucast (of_nat n :: u8) :: u32) = unat ?h"
      using n(2) unfolding n(1) by (simp add: unsigned_ucast_eq unat_of_nat take_bit_eq_mod)
    then show ?thesis by (simp only: word_unat_eq_iff)
  qed
  ultimately show ?thesis by (simp add: overlay_host_def OVERLAY_PREFIX_def)
qed

lemma overlay_allocate_fresh:
  assumes "overlay_allocate db = Some ip"
  shows "ip \<noteq> []" "\<forall>n\<in>set (nt_nodes db). overlay_ip n \<noteq> Some ip" "\<forall>r\<in>set (nt_enrolments db). en_overlay r \<noteq> ip"
proof -
  from assms obtain h where h: "List.find (\<lambda>host. host \<notin> set (overlay_taken db)) (map of_nat [OVERLAY_FIRST..<Suc OVERLAY_LAST]) = Some h"
    "ip = overlay_address h"
    by (auto simp: overlay_allocate_def)
  from find_SomeD [OF h(1)] obtain n where n: "h = of_nat n" "n \<le> OVERLAY_LAST" "h \<notin> set (overlay_taken db)"
    by (auto simp del: upt_Suc)
  then have host: "overlay_host ip = Some h" using h(2) overlay_host_address by simp
  have taken: "h \<in> set (overlay_taken db)"
    if "Some ip \<in> overlay_ip ` set (nt_nodes db) \<or> ip \<in> en_overlay ` set (nt_enrolments db)"
  proof -
    have "ip \<in> set (List.map_filter overlay_ip (nt_nodes db) @ map en_overlay (nt_enrolments db))"
      using that by (force simp: set_map_filter image_iff)
    with host show ?thesis unfolding overlay_taken_def set_map_filter by blast
  qed
  show "ip \<noteq> []" by (auto simp: h(2) overlay_address_def OVERLAY_PREFIX_def show_byte_def)
  show "\<forall>n\<in>set (nt_nodes db). overlay_ip n \<noteq> Some ip" "\<forall>r\<in>set (nt_enrolments db). en_overlay r \<noteq> ip"
    using taken n(3) by force+
qed

section \<open>What is kept\<close>

definition nodes_sound :: "net_node list \<Rightarrow> bool" where
  "nodes_sound nodes \<longleftrightarrow> distinct (map nd_id nodes) \<and>
    (\<forall>n\<in>set nodes. \<forall>m\<in>set nodes. overlay_ip n \<noteq> None \<longrightarrow> overlay_ip n = overlay_ip m \<longrightarrow> nd_id n = nd_id m) \<and>
    (\<forall>n\<in>set nodes. \<forall>m\<in>set nodes. is_self n \<longrightarrow> is_self m \<longrightarrow> nd_id n = nd_id m)"

definition enrolments_sound :: "enrolment_row list \<Rightarrow> bool" where
  "enrolments_sound rows \<longleftrightarrow> distinct (map en_id rows) \<and> distinct (map en_hash rows) \<and> distinct (map en_overlay rows) \<and>
    (\<forall>r\<in>set rows. en_used_at r = None \<longleftrightarrow> en_used_by r = None)"

text \<open>An enrolment's address is held by the node that spent it or by nobody.\<close>

definition held_by_spender :: "net_node list \<Rightarrow> enrolment_row list \<Rightarrow> bool" where
  "held_by_spender nodes rows \<longleftrightarrow>
    (\<forall>r\<in>set rows. \<forall>n\<in>set nodes. overlay_ip n = Some (en_overlay r) \<longrightarrow> en_used_by r = Some (nd_id n))"

definition net_sound :: "net_db \<Rightarrow> bool" where
  "net_sound db \<longleftrightarrow> nodes_sound (nt_nodes db) \<and> enrolments_sound (nt_enrolments db) \<and>
    held_by_spender (nt_nodes db) (nt_enrolments db) \<and>
    (nt_nodes db = [] \<and> nt_enrolments db = [] \<or> (\<exists>n\<in>set (nt_nodes db). is_self n))"

lemma net_save_cases:
  obtains (refused) "net_save now n db = (False, db)"
      "address_held (nd_id n) (overlay_ip n) (nt_nodes db) \<or> nd_id n \<notin> nd_id ` set (nt_nodes db) \<and> is_self n \<and> (\<exists>r\<in>set (nt_nodes db). is_self r)"
  | (over) "net_save now n db = (True, db\<lparr>nt_nodes := map (\<lambda>r. if nd_id r = nd_id n then saved_over n r else r) (nt_nodes db)\<rparr>)"
      "\<not> address_held (nd_id n) (overlay_ip n) (nt_nodes db)" "nd_id n \<in> nd_id ` set (nt_nodes db)"
  | (new) "net_save now n db = (True, db\<lparr>nt_nodes := nt_nodes db @ [saved_new now n]\<rparr>)"
      "\<not> address_held (nd_id n) (overlay_ip n) (nt_nodes db)" "nd_id n \<notin> nd_id ` set (nt_nodes db)"
      "is_self n \<longrightarrow> (\<forall>r\<in>set (nt_nodes db). \<not> is_self r)"
proof (cases "address_held (nd_id n) (overlay_ip n) (nt_nodes db)")
  case True
  then show ?thesis by (intro refused) (simp_all add: net_save_def Let_def)
next
  case False
  consider "nd_id n \<in> nd_id ` set (nt_nodes db)"
    | "nd_id n \<notin> nd_id ` set (nt_nodes db)" "is_self n" "\<exists>r\<in>set (nt_nodes db). is_self r"
    | "nd_id n \<notin> nd_id ` set (nt_nodes db)" "is_self n \<longrightarrow> (\<forall>r\<in>set (nt_nodes db). \<not> is_self r)"
    by blast
  then show ?thesis
  proof cases
    case 1
    then have "list_ex (\<lambda>r. nd_id r = nd_id n) (nt_nodes db)" by (auto simp: list_ex_iff)
    with False 1 show ?thesis by (intro over) (simp_all add: net_save_def)
  next
    case 2
    then have "\<not> list_ex (\<lambda>r. nd_id r = nd_id n) (nt_nodes db)" "list_ex is_self (nt_nodes db)"
      unfolding list_ex_iff by (metis imageI, blast)
    with False 2 show ?thesis by (intro refused) (simp_all add: net_save_def)
  next
    case 3
    then have "\<not> list_ex (\<lambda>r. nd_id r = nd_id n) (nt_nodes db)" "is_self n \<longrightarrow> \<not> list_ex is_self (nt_nodes db)"
      unfolding list_ex_iff by (metis imageI, blast)
    with False 3 show ?thesis by (intro new) (simp_all add: net_save_def)
  qed
qed

lemma saved_simps [simp]:
  "nd_id (saved_over n r) = nd_id r" "is_self (saved_over n r) = is_self r" "overlay_ip (saved_over n r) = overlay_ip n"
  "nd_id (saved_new now n) = nd_id n" "is_self (saved_new now n) = is_self n" "overlay_ip (saved_new now n) = overlay_ip n"
  "public_key (saved_over n r) = public_key n" "public_key (saved_new now n) = public_key n"
  by (simp_all add: saved_over_def saved_new_def)

lemma address_free:
  "\<not> address_held i ip nodes \<Longrightarrow> n \<in> set nodes \<Longrightarrow> overlay_ip n = ip \<Longrightarrow> ip \<noteq> None \<Longrightarrow> nd_id n = i"
  by (auto simp: address_held_def list_ex_iff)

text \<open>Whoever saves a row, the rows stay one node's each.\<close>

lemma nodes_sound_map:
  assumes "nodes_sound nodes" "\<And>r. nd_id (f r) = nd_id r" "\<And>r. is_self (f r) = is_self r" "\<And>r. overlay_ip (f r) = overlay_ip r"
  shows "nodes_sound (map f nodes)"
  using assms unfolding nodes_sound_def list.set_map ball_simps
  by (simp only: map_map comp_def) blast

lemma nodes_soundD:
  assumes "nodes_sound nodes"
  shows "distinct (map nd_id nodes)"
    and "n \<in> set nodes \<Longrightarrow> m \<in> set nodes \<Longrightarrow> overlay_ip n \<noteq> None \<Longrightarrow> overlay_ip n = overlay_ip m \<Longrightarrow> nd_id n = nd_id m"
    and "n \<in> set nodes \<Longrightarrow> m \<in> set nodes \<Longrightarrow> is_self n \<Longrightarrow> is_self m \<Longrightarrow> nd_id n = nd_id m"
    and "n \<in> set nodes \<Longrightarrow> m \<in> set nodes \<Longrightarrow> nd_id n = nd_id m \<Longrightarrow> n = m"
proof -
  show d: "distinct (map nd_id nodes)" using assms by (simp add: nodes_sound_def)
  show "nd_id n = nd_id m" if "n \<in> set nodes" "m \<in> set nodes" "overlay_ip n \<noteq> None" "overlay_ip n = overlay_ip m"
    using assms that unfolding nodes_sound_def by blast
  show "nd_id n = nd_id m" if "n \<in> set nodes" "m \<in> set nodes" "is_self n" "is_self m"
    using assms that unfolding nodes_sound_def by blast
  show "n = m" if "n \<in> set nodes" "m \<in> set nodes" "nd_id n = nd_id m"
    using d that by (metis distinct_map inj_onD)
qed

lemma nodes_soundI:
  assumes "distinct (map nd_id nodes)"
    and "\<And>n m. n \<in> set nodes \<Longrightarrow> m \<in> set nodes \<Longrightarrow> overlay_ip n \<noteq> None \<Longrightarrow> overlay_ip n = overlay_ip m \<Longrightarrow> nd_id n = nd_id m"
    and "\<And>n m. n \<in> set nodes \<Longrightarrow> m \<in> set nodes \<Longrightarrow> is_self n \<Longrightarrow> is_self m \<Longrightarrow> nd_id n = nd_id m"
  shows "nodes_sound nodes"
  unfolding nodes_sound_def using assms by blast

lemma nodes_sound_over:
  assumes "nodes_sound nodes" "\<not> address_held (nd_id n) (overlay_ip n) nodes"
    and f: "\<And>r. nd_id (f r) = nd_id r" "\<And>r. is_self (f r) = is_self r"
      "\<And>r. overlay_ip (f r) = (if nd_id r = nd_id n then overlay_ip n else overlay_ip r)"
  shows "nodes_sound (map f nodes)"
proof (rule nodes_soundI)
  show "distinct (map nd_id (map f nodes))" using nodes_soundD(1) [OF assms(1)] by (simp add: comp_def f)
  fix a b assume "a \<in> set (map f nodes)" "b \<in> set (map f nodes)"
  then obtain r q where rq: "a = f r" "b = f q" "r \<in> set nodes" "q \<in> set nodes" by auto
  show "nd_id a = nd_id b" if "overlay_ip a \<noteq> None" "overlay_ip a = overlay_ip b"
    using that rq nodes_soundD(2) [OF assms(1) rq(3,4)] address_free [OF assms(2)] by (auto simp: f split: if_splits)
  show "nd_id a = nd_id b" if "is_self a" "is_self b"
    using that rq nodes_soundD(3) [OF assms(1) rq(3,4)] by (simp add: f)
qed

lemma nodes_sound_new:
  assumes "nodes_sound nodes" "\<not> address_held (nd_id n) (overlay_ip n) nodes" "nd_id n \<notin> nd_id ` set nodes"
    and "is_self n \<longrightarrow> (\<forall>r\<in>set nodes. \<not> is_self r)"
  shows "nodes_sound (nodes @ [n])"
proof (rule nodes_soundI)
  show "distinct (map nd_id (nodes @ [n]))" using assms nodes_soundD(1) by auto
  fix a b assume ab: "a \<in> set (nodes @ [n])" "b \<in> set (nodes @ [n])"
  show "nd_id a = nd_id b" if "overlay_ip a \<noteq> None" "overlay_ip a = overlay_ip b"
  proof -
    have free: "nd_id r = nd_id n" if "r \<in> set nodes" "overlay_ip r = overlay_ip n" "overlay_ip n \<noteq> None" for r
      by (rule address_free [OF assms(2) that])
    consider "a \<in> set nodes" "b \<in> set nodes" | "a = n" "b = n" | "a \<in> set nodes" "b = n" | "a = n" "b \<in> set nodes"
      using ab by auto
    then show ?thesis
      using that nodes_soundD(2) [OF assms(1)] free by cases (metis (no_types))+
  qed
  show "nd_id a = nd_id b" if "is_self a" "is_self b"
    using that ab assms(4) nodes_soundD(3) [OF assms(1)] by auto
qed

lemma nodes_sound_save: "nodes_sound (nt_nodes db) \<Longrightarrow> nodes_sound (nt_nodes (snd (net_save now n db)))"
proof (cases rule: net_save_cases [of now n db])
  case over
  assume "nodes_sound (nt_nodes db)"
  then show ?thesis using over by (simp) (rule nodes_sound_over [OF _ over(2)], simp_all)
next
  case new
  assume "nodes_sound (nt_nodes db)"
  then show ?thesis using new nodes_sound_new [of "nt_nodes db" "saved_new now n"] by simp
qed simp

lemma net_save_keeps [simp]:
  "nt_enrolments (snd (net_save now n db)) = nt_enrolments db" "nt_grants (snd (net_save now n db)) = nt_grants db"
  "nt_authorities (snd (net_save now n db)) = nt_authorities db" "nt_claims (snd (net_save now n db)) = nt_claims db"
  by (cases rule: net_save_cases [of now n db]; simp)+

lemma net_sound_save:
  assumes "net_sound db" "\<forall>r\<in>set (nt_enrolments db). overlay_ip n = Some (en_overlay r) \<longrightarrow> en_used_by r = Some (nd_id n)"
    and self: "is_self n \<or> (\<exists>m\<in>set (nt_nodes db). is_self m)"
  shows "net_sound (snd (net_save now n db))"
proof -
  have "held_by_spender (nt_nodes (snd (net_save now n db))) (nt_enrolments db)"
    using assms
    by (cases rule: net_save_cases [of now n db]) (auto simp: net_sound_def held_by_spender_def split: if_splits)
  moreover have "\<exists>n'\<in>set (nt_nodes (snd (net_save now n db))). is_self n'" if "\<exists>n\<in>set (nt_nodes db). is_self n"
  proof (cases rule: net_save_cases [of now n db])
    case over
    from that obtain m where m: "m \<in> set (nt_nodes db)" "is_self m" by blast
    let ?f = "\<lambda>r. if nd_id r = nd_id n then saved_over n r else r"
    have "?f m \<in> set (map ?f (nt_nodes db))" "is_self (?f m)" using m by simp_all
    then show ?thesis unfolding over(1) by auto
  qed (use that in auto)
  moreover have "\<exists>m\<in>set (nt_nodes (snd (net_save now n db))). is_self m" if "\<not> (\<exists>m\<in>set (nt_nodes db). is_self m)"
    using that self assms(1)
    by (cases rule: net_save_cases [of now n db]) (auto simp: net_sound_def address_held_def)
  ultimately show ?thesis using assms(1) nodes_sound_save by (auto simp: net_sound_def)
qed

subsection \<open>What every operation keeps\<close>

lemma net_sound_grants [simp]: "net_sound (db\<lparr>nt_grants := g\<rparr>) = net_sound db"
  by (simp add: net_sound_def)

lemma net_sound_map:
  assumes "net_sound db" "\<And>r. nd_id (f r) = nd_id r" "\<And>r. is_self (f r) = is_self r" "\<And>r. overlay_ip (f r) = overlay_ip r"
  shows "net_sound (db\<lparr>nt_nodes := map f (nt_nodes db)\<rparr>)"
proof -
  have "nodes_sound (map f (nt_nodes db))"
    using assms by (intro nodes_sound_map) (simp_all add: net_sound_def)
  moreover have "held_by_spender (map f (nt_nodes db)) (nt_enrolments db)"
    using assms by (simp add: net_sound_def held_by_spender_def)
  ultimately show ?thesis using assms by (simp add: net_sound_def)
qed

lemma net_sound_edit:
  assumes "net_sound db" "\<And>r. nd_id (f r) = nd_id r" "\<And>r. is_self (f r) = is_self r" "\<And>r. overlay_ip (f r) = overlay_ip r"
  shows "net_sound (edit_nodes hit f db)"
  unfolding edit_nodes_def by (rule net_sound_map [OF assms(1)]) (simp_all add: assms)

lemma net_sound_fewer_nodes:
  assumes "net_sound db" "\<And>n. is_self n \<Longrightarrow> P n"
  shows "net_sound (db\<lparr>nt_nodes := filter P (nt_nodes db)\<rparr>)"
proof -
  have "nodes_sound (filter P (nt_nodes db))"
    using assms(1) unfolding net_sound_def nodes_sound_def by (auto simp: distinct_map_filter)
  then show ?thesis using assms by (auto simp: net_sound_def held_by_spender_def)
qed

lemma net_sound_fewer_enrolments:
  assumes "net_sound db"
  shows "net_sound (db\<lparr>nt_enrolments := filter P (nt_enrolments db)\<rparr>)"
proof -
  show ?thesis
    using assms by (auto simp: net_sound_def held_by_spender_def enrolments_sound_def distinct_map_filter)
qed

lemma node_me_SomeD: "node_me db = Some n \<Longrightarrow> n \<in> set (nt_nodes db) \<and> is_self n"
  by (auto simp: node_me_def linked_me_def dest: find_SomeD)

lemma node_me_None: "node_me db = None \<longleftrightarrow> (\<forall>n\<in>set (nt_nodes db). \<not> is_self n)"
  by (auto simp: node_me_def linked_me_def find_None_iff)

lemma node_find_SomeD: "node_find db i = Some n \<Longrightarrow> n \<in> set (nt_nodes db) \<and> nd_id n = i"
  by (auto simp: node_find_def dest: find_SomeD)

lemma node_find_None: "node_find db i = None \<longleftrightarrow> (\<forall>n\<in>set (nt_nodes db). nd_id n \<noteq> i)"
  by (auto simp: node_find_def find_None_iff)

lemma node_find_sound: "nodes_sound (nt_nodes db) \<Longrightarrow> n \<in> set (nt_nodes db) \<Longrightarrow> node_find db (nd_id n) = Some n"
  using nodes_soundD(4) node_find_SomeD node_find_None by (metis not_Some_eq)

text \<open>A row a node already has may be saved again with its address.\<close>

lemma net_sound_save_known:
  assumes "net_sound db" "m \<in> set (nt_nodes db)" "nd_id n = nd_id m" "overlay_ip n = overlay_ip m"
  shows "net_sound (snd (net_save now n db))"
proof (rule net_sound_save [OF assms(1)])
  show "is_self n \<or> (\<exists>m\<in>set (nt_nodes db). is_self m)" using assms(1,2) by (auto simp: net_sound_def)
  show "\<forall>r\<in>set (nt_enrolments db). overlay_ip n = Some (en_overlay r) \<longrightarrow> en_used_by r = Some (nd_id n)"
    using assms by (auto simp: net_sound_def held_by_spender_def)
qed

lemma keys_ensure_rows [simp]:
  "nt_nodes (snd (keys_ensure e db)) = nt_nodes db" "nt_enrolments (snd (keys_ensure e db)) = nt_enrolments db"
  "net_sound (snd (keys_ensure e db)) = net_sound db"
  by (auto simp: keys_ensure_def split: option.splits)

lemma ensure_self_save:
  "ensure_self e db = (if fst (net_save (ne_now e) (self_row e db) db) then Some (self_row e db) else None,
     snd (net_save (ne_now e) (self_row e db) db))"
  by (simp add: ensure_self_def Let_def case_prod_beta)

lemma self_row_simps [simp]:
  "is_self (self_row e db)" "overlay_ip (self_row e db) = Option.bind (node_me db) overlay_ip"
  "public_key (self_row e db) = keys_public e db" "nd_name (self_row e db) = node_name e (node_domain (nt_grants db))"
  "nd_id (self_row e db) = (case node_me db of Some m \<Rightarrow> nd_id m | None \<Rightarrow> ''nd-'' @ ne_node_id e)"
  by (simp_all add: self_row_def Let_def)

lemma net_sound_ensure_self:
  assumes "net_sound db"
  shows "net_sound (snd (ensure_self e db))"
proof (cases "node_me db")
  case None
  then show ?thesis using assms by (simp add: ensure_self_save net_sound_save)
next
  case (Some m)
  then show ?thesis unfolding ensure_self_save snd_conv
    using node_me_SomeD [OF Some] by (intro net_sound_save_known [OF assms, of m]) simp_all
qed

lemma find_map_id: "(\<And>r. nd_id (f r) = nd_id r) \<Longrightarrow> List.find (\<lambda>r. nd_id r = i) (map f rows) = map_option f (List.find (\<lambda>r. nd_id r = i) rows)"
  by (induction rows) auto

lemma node_find_save:
  assumes "fst (net_save now n db)"
  shows "node_find (snd (net_save now n db)) i =
    (if i = nd_id n then Some (case node_find db i of Some r \<Rightarrow> saved_over n r | None \<Rightarrow> saved_new now n) else node_find db i)"
proof (cases rule: net_save_cases [of now n db])
  case over
  let ?f = "\<lambda>r. if nd_id r = nd_id n then saved_over n r else r"
  have found: "node_find (snd (net_save now n db)) i = map_option ?f (node_find db i)"
    unfolding over(1) by (simp add: node_find_def find_map_id)
  obtain r where "node_find db (nd_id n) = Some r" using over(3) node_find_None [of db "nd_id n"] by fastforce
  then show ?thesis using node_find_SomeD [of db i] unfolding found by (cases "node_find db i") auto
next
  case new
  have "List.find P (xs @ [x]) = (case List.find P xs of Some y \<Rightarrow> Some y | None \<Rightarrow> if P x then Some x else None)"
    for P :: "net_node \<Rightarrow> bool" and xs x
    by (induction xs) auto
  moreover have "node_find db (nd_id n) = None" unfolding node_find_None using new(3) by (metis imageI)
  ultimately show ?thesis unfolding new(1) by (simp add: node_find_def split: option.split)
qed (use assms in simp)

text \<open>A row of this node that is saved is this node's row.\<close>

lemma self_after_save:
  assumes sound: "net_sound db" and ok: "fst (net_save now n db)" and n: "is_self n"
    and me: "\<And>m. m \<in> set (nt_nodes db) \<Longrightarrow> is_self m \<Longrightarrow> nd_id m = nd_id n"
  obtains m where "m \<in> set (nt_nodes (snd (net_save now n db)))" "is_self m" "nd_id m = nd_id n" "overlay_ip m = overlay_ip n"
    "node_find (snd (net_save now n db)) (nd_id n) = Some m"
proof -
  let ?db = "snd (net_save now n db)"
  let ?m = "case node_find db (nd_id n) of Some r \<Rightarrow> saved_over n r | None \<Rightarrow> saved_new now n"
  have found: "node_find ?db (nd_id n) = Some ?m" using node_find_save [OF ok, of "nd_id n"] by simp
  have "is_self ?m"
  proof (cases "node_find db (nd_id n)")
    case (Some r)
    then have r: "r \<in> set (nt_nodes db)" "nd_id r = nd_id n" using node_find_SomeD by auto
    then obtain m where m: "m \<in> set (nt_nodes db)" "is_self m" using sound by (auto simp: net_sound_def)
    with me r have "m = r" using sound nodes_soundD(4) by (metis net_sound_def)
    with m Some show ?thesis by simp
  qed (simp add: n)
  moreover have "overlay_ip ?m = overlay_ip n" by (simp split: option.split)
  ultimately show ?thesis using that node_find_SomeD [OF found] found by blast
qed

lemma sound_self: "net_sound db \<Longrightarrow> node_me db = Some m \<Longrightarrow> n \<in> set (nt_nodes db) \<Longrightarrow> is_self n \<Longrightarrow> n = m"
  by (metis net_sound_def node_me_SomeD nodes_soundD(3,4))

lemma net_sound_ensure_hub:
  assumes sound: "net_sound db"
  shows "net_sound (snd (ensure_hub e db))"
    and "fst (ensure_hub e db) = Inr me \<Longrightarrow> \<exists>m. node_me (snd (ensure_hub e db)) = Some m \<and> nd_id m = nd_id me \<and> overlay_ip m = overlay_ip me"
proof -
  let ?db1 = "snd (keys_ensure e db)" and ?db2 = "snd (ensure_self e (snd (keys_ensure e db)))"
  have sound2: "net_sound ?db2" using sound by (simp add: net_sound_ensure_self)
  have self2: "\<exists>m. node_me ?db2 = Some m \<and> nd_id m = nd_id n \<and> overlay_ip m = overlay_ip n"
    if some: "fst (ensure_self e ?db1) = Some n" for n
  proof -
    from some have ok: "fst (net_save (ne_now e) n ?db1)" and n: "n = self_row e ?db1" "?db2 = snd (net_save (ne_now e) n ?db1)"
      by (auto simp: ensure_self_save split: if_splits)
    have sound1: "net_sound ?db1" using sound by simp
    have me: "nd_id m = nd_id n" if "m \<in> set (nt_nodes ?db1)" "is_self m" for m
      using sound_self [OF sound1 _ that] node_me_None [of ?db1] that by (cases "node_me ?db1") (auto simp: n(1))
    have "is_self n" by (simp add: n(1))
    then obtain m where m: "m \<in> set (nt_nodes ?db2)" "is_self m" "nd_id m = nd_id n" "overlay_ip m = overlay_ip n"
      using self_after_save [OF sound1 ok _ me] unfolding n(2) by blast
    then show ?thesis using sound_self [OF sound2 _ m(1,2)] node_me_None [of ?db2] by (cases "node_me ?db2") auto
  qed
  have hub: "ensure_hub e db = (case fst (ensure_self e ?db1) of None \<Rightarrow> (Inl NetStorage, ?db2)
    | Some me \<Rightarrow> if overlay_ip me \<noteq> None then (Inr me, ?db2) else (case overlay_allocate ?db2 of None \<Rightarrow> (Inl OverlayFull, ?db2)
      | Some ip \<Rightarrow> (if fst (net_save (ne_now e) (me\<lparr>overlay_ip := Some ip\<rparr>) ?db2) then Inr (me\<lparr>overlay_ip := Some ip\<rparr>) else Inl NetStorage,
          snd (net_save (ne_now e) (me\<lparr>overlay_ip := Some ip\<rparr>) ?db2))))"
    by (auto simp: ensure_hub_def split: prod.splits option.splits)
  have fresh: "net_sound (snd (net_save (ne_now e) (n\<lparr>overlay_ip := Some ip\<rparr>) ?db2))"
    if "fst (ensure_self e ?db1) = Some n" "overlay_allocate ?db2 = Some ip" for n ip
  proof (rule net_sound_save [OF sound2])
    show "is_self (n\<lparr>overlay_ip := Some ip\<rparr>) \<or> (\<exists>m\<in>set (nt_nodes ?db2). is_self m)"
      using self2 [OF that(1)] node_me_SomeD by blast
  qed (use overlay_allocate_fresh(3) [OF that(2)] in auto)
  show "net_sound (snd (ensure_hub e db))"
    unfolding hub using sound2 fresh by (auto split: option.split)
  show "\<exists>m. node_me (snd (ensure_hub e db)) = Some m \<and> nd_id m = nd_id me \<and> overlay_ip m = overlay_ip me"
    if "fst (ensure_hub e db) = Inr me"
  proof (cases "fst (ensure_self e ?db1)")
    case (Some n)
    note n = self2 [OF Some]
    show ?thesis
    proof (cases "overlay_ip n = None")
      case True
      with that Some obtain ip where ip: "overlay_allocate ?db2 = Some ip" "me = n\<lparr>overlay_ip := Some ip\<rparr>"
        "fst (net_save (ne_now e) me ?db2)" "snd (ensure_hub e db) = snd (net_save (ne_now e) me ?db2)"
        unfolding hub by (auto split: option.splits if_splits)
      have same: "nd_id m = nd_id me" if "m \<in> set (nt_nodes ?db2)" "is_self m" for m
        using n sound_self [OF sound2 _ that] ip(2) by auto
      have "is_self me" using Some ip(2) by (auto simp: ensure_self_save split: if_splits)
      then obtain m where m: "m \<in> set (nt_nodes (snd (ensure_hub e db)))" "is_self m" "nd_id m = nd_id me" "overlay_ip m = overlay_ip me"
        using self_after_save [OF sound2 ip(3) _ same] unfolding ip(4) by blast
      moreover have "net_sound (snd (ensure_hub e db))" unfolding ip(4) ip(2) by (rule fresh [OF Some ip(1)])
      ultimately show ?thesis using sound_self node_me_None by (metis option.exhaust)
    qed (use that Some n in \<open>simp add: hub\<close>)
  qed (use that in \<open>simp add: hub\<close>)
qed

lemma enrolment_create_Some:
  assumes "enrolment_create e name overlay by requires offers db = (Some (r, secret), db')"
  obtains row where "db' = db\<lparr>nt_enrolments := nt_enrolments db @ [row]\<rparr>" "r = enrolment.truncate row" "secret = ne_secret e"
    "en_hash row = ne_hash e secret" "en_overlay row = overlay" "en_used_at row = None" "en_used_by row = None"
    "en_created row = ne_now e" "en_expires row = ne_now e + ENROLMENT_HOURS * 3600000" "en_offers row = offers"
    "\<forall>q\<in>set (nt_enrolments db). en_id q \<noteq> en_id row \<and> en_hash q \<noteq> en_hash row \<and> en_overlay q \<noteq> en_overlay row"
  using assms unfolding enrolment_create_def Let_def
  by (auto split: if_splits simp: list_ex_iff)

lemma enrolment_create_None: "fst (enrolment_create e name overlay by requires offers db) = None
    \<Longrightarrow> snd (enrolment_create e name overlay by requires offers db) = db"
  by (auto simp: enrolment_create_def Let_def split: if_splits)

lemma net_sound_create:
  assumes "net_sound db" "\<forall>n\<in>set (nt_nodes db). overlay_ip n \<noteq> Some overlay" "\<exists>n\<in>set (nt_nodes db). is_self n"
  shows "net_sound (snd (enrolment_create e name overlay by requires offers db))"
proof (cases "fst (enrolment_create e name overlay by requires offers db)")
  case None
  then show ?thesis using enrolment_create_None assms(1) by metis
next
  case (Some p)
  obtain row where row: "snd (enrolment_create e name overlay by requires offers db) = db\<lparr>nt_enrolments := nt_enrolments db @ [row]\<rparr>"
    "en_overlay row = overlay" "en_used_at row = None" "en_used_by row = None"
    "\<forall>q\<in>set (nt_enrolments db). en_id q \<noteq> en_id row \<and> en_hash q \<noteq> en_hash row \<and> en_overlay q \<noteq> en_overlay row"
    using Some by (cases p; cases "enrolment_create e name overlay by requires offers db") (auto elim: enrolment_create_Some)
  have "enrolments_sound (nt_enrolments db @ [row])"
    using assms(1) row unfolding net_sound_def enrolments_sound_def by auto
  moreover have "held_by_spender (nt_nodes db) (nt_enrolments db @ [row])"
    using assms(1,2) row(2) by (auto simp: net_sound_def held_by_spender_def)
  ultimately show ?thesis unfolding row(1) using assms by (simp add: net_sound_def)
qed

lemma mint_cases:
  "snd (node_user_mint_join_token e w account asked db) \<in> {db, snd (ensure_hub e db)} \<or>
    (\<exists>me ip. fst (ensure_hub e db) = Inr me \<and> overlay_allocate (snd (ensure_hub e db)) = Some ip \<and>
      snd (node_user_mint_join_token e w account asked db) = snd (enrolment_create e (mt_name asked) ip (account_id account)
        (mt_requires asked) (mt_offers asked) (snd (ensure_hub e db))))"
proof -
  obtain c db1 where h: "ensure_hub e db = (c, db1)" by fastforce
  have created: "snd (case p of (None, d) \<Rightarrow> (Inl NetStorage, d) | (Some (_, secret), d) \<Rightarrow> (Inr (f secret), d)) = snd p"
    for p :: "(enrolment \<times> string) option \<times> net_db" and f :: "string \<Rightarrow> string"
    by (auto split: prod.split option.split)
  show ?thesis
  proof (cases c)
    case (Inr me)
    show ?thesis
      unfolding node_user_mint_join_token_def h Inr prod.case sum.case
      by (auto simp: created split: option.split)
  qed (auto simp: node_user_mint_join_token_def h)
qed

lemma net_sound_mint:
  assumes "net_sound db"
  shows "net_sound (snd (node_user_mint_join_token e w account asked db))"
proof -
  let ?db = "snd (ensure_hub e db)"
  note hub = net_sound_ensure_hub [OF assms, of e]
  have "net_sound (snd (enrolment_create e (mt_name asked) ip (account_id account) (mt_requires asked) (mt_offers asked) ?db))"
    if "fst (ensure_hub e db) = Inr me" "overlay_allocate ?db = Some ip" for me ip
    using hub(2) [OF that(1)] node_me_SomeD overlay_allocate_fresh(2) [OF that(2)] by (intro net_sound_create [OF hub(1)]) blast+
  then show ?thesis using mint_cases [of e w account asked db] assms hub(1) by auto
qed

lemma spend_rows [simp]:
  "nt_nodes (snd (spend e i node db)) = nt_nodes db" "nt_grants (snd (spend e i node db)) = nt_grants db"
  by (simp_all add: spend_def Let_def)

definition spend_row :: "net_env \<Rightarrow> string \<Rightarrow> string \<Rightarrow> enrolment_row \<Rightarrow> enrolment_row" where
  "spend_row e i node r = (if en_id r = i \<and> (en_used_at r = None \<or> en_used_by r = Some node)
    then r\<lparr>en_used_at := Some (ne_now e), en_used_by := Some node\<rparr> else r)"

lemma spend_enrolments: "nt_enrolments (snd (spend e i node db)) = map (spend_row e i node) (nt_enrolments db)"
  by (simp add: spend_def Let_def spend_row_def)

lemma spend_row_simps [simp]:
  "en_id (spend_row e i node r) = en_id r" "en_hash (spend_row e i node r) = en_hash r"
  "en_overlay (spend_row e i node r) = en_overlay r" "en_expires (spend_row e i node r) = en_expires r"
  "en_offers (spend_row e i node r) = en_offers r" "en_by (spend_row e i node r) = en_by r"
  by (simp_all add: spend_row_def)

lemma net_sound_spend:
  assumes "net_sound db"
  shows "net_sound (snd (spend e i node db))"
proof -
  have rows: "enrolments_sound (nt_enrolments db)" and held: "held_by_spender (nt_nodes db) (nt_enrolments db)"
    using assms by (simp_all add: net_sound_def)
  have "enrolments_sound (map (spend_row e i node) (nt_enrolments db))"
    using rows unfolding enrolments_sound_def by (simp add: comp_def) (simp add: spend_row_def)
  moreover have "held_by_spender (nt_nodes db) (map (spend_row e i node) (nt_enrolments db))"
    unfolding held_by_spender_def
  proof (intro ballI impI)
    fix q n assume "q \<in> set (map (spend_row e i node) (nt_enrolments db))" and n: "n \<in> set (nt_nodes db)" "overlay_ip n = Some (en_overlay q)"
    then obtain r where r: "r \<in> set (nt_enrolments db)" "q = spend_row e i node r" by auto
    then have "en_used_by r = Some (nd_id n)" using held n by (simp add: held_by_spender_def)
    moreover from this have "en_used_at r \<noteq> None" using rows r(1) by (auto simp: enrolments_sound_def)
    ultimately show "en_used_by q = Some (nd_id n)" by (auto simp: r(2) spend_row_def)
  qed
  ultimately show ?thesis using assms by (simp add: net_sound_def spend_enrolments)
qed

lemma enrolment_look_up_SomeD:
  "enrolment_look_up e secret db = Some r
    \<Longrightarrow> r \<in> set (nt_enrolments db) \<and> en_hash r = ne_hash e secret \<and> \<not> enrolment_expired (ne_now e) r"
  by (auto simp: enrolment_look_up_def split: option.splits if_splits dest: find_SomeD)

lemma arriving_row_simps [simp]:
  "nd_id (arriving_row now a k r) = ar_node a" "\<not> is_self (arriving_row now a k r)"
  "public_key (arriving_row now a k r) = Some (ar_key a)"
  "overlay_ip (arriving_row now a k r) = Some (case Option.bind k overlay_ip of Some ip \<Rightarrow> ip | None \<Rightarrow> en_overlay r)"
  by (simp_all add: arriving_row_def split: option.split)

lemma net_sound_arriving:
  assumes sound: "net_sound db" and r: "r \<in> set (nt_enrolments db)" and taken: "fst (spend e (en_id r) (ar_node a) db)"
  shows "net_sound (snd (net_save now (arriving_row now a (node_find db (ar_node a)) r) (snd (spend e (en_id r) (ar_node a) db))))"
    (is "net_sound (snd (net_save now ?row ?db))")
proof (rule net_sound_save)
  show sound': "net_sound ?db" by (rule net_sound_spend [OF sound])
  have "nt_enrolments ?db \<noteq> []" using r by (auto simp: spend_enrolments)
  then show "is_self ?row \<or> (\<exists>m\<in>set (nt_nodes ?db). is_self m)" using sound' by (auto simp: net_sound_def)
  show "\<forall>q\<in>set (nt_enrolments ?db). overlay_ip ?row = Some (en_overlay q) \<longrightarrow> en_used_by q = Some (nd_id ?row)"
  proof (intro ballI impI)
    fix q assume q: "q \<in> set (nt_enrolments ?db)" "overlay_ip ?row = Some (en_overlay q)"
    show "en_used_by q = Some (nd_id ?row)"
    proof (cases "Option.bind (node_find db (ar_node a)) overlay_ip")
      case (Some ip)
      then obtain n where n: "node_find db (ar_node a) = Some n" "overlay_ip n = Some ip" by (auto simp: bind_eq_Some_conv)
      with Some q(2) have "overlay_ip n = Some (en_overlay q)" by simp
      with node_find_SomeD [OF n(1)] q(1) sound' show ?thesis by (auto simp: net_sound_def held_by_spender_def)
    next
      case None
      then have same: "en_overlay q = en_overlay r" using q(2) by simp
      let ?s = "spend_row e (en_id r) (ar_node a)"
      from taken obtain r' where "r' \<in> set (nt_enrolments db)" "en_id r' = en_id r" "en_used_at r' = None \<or> en_used_by r' = Some (ar_node a)"
        by (auto simp: spend_def Let_def list_ex_iff)
      moreover have "r' = r" if "r' \<in> set (nt_enrolments db)" "en_id r' = en_id r" for r'
        using sound r that unfolding net_sound_def enrolments_sound_def by (metis distinct_map inj_onD)
      ultimately have "en_used_by (?s r) = Some (ar_node a)" by (auto simp: spend_row_def)
      moreover have "?s r \<in> set (nt_enrolments ?db)" "en_overlay (?s r) = en_overlay q" using r same by (simp_all add: spend_enrolments)
      then have "?s r = q" using sound' q(1) unfolding net_sound_def enrolments_sound_def by (metis distinct_map inj_onD)
      ultimately show ?thesis by simp
    qed
  qed
qed

lemma net_sound_join_answer:
  assumes "net_sound db"
  shows "net_sound (snd (join_answer e secret a db))"
proof -
  have "net_sound (snd (net_save (ne_now e) (arriving_row (ne_now e) a (node_find db (ar_node a)) r) (snd (spend e (en_id r) (ar_node a) db))))"
    if "enrolment_look_up e secret db = Some r" "fst (spend e (en_id r) (ar_node a) db)" for r
    using enrolment_look_up_SomeD [OF that(1)] that(2) by (intro net_sound_arriving [OF assms]) blast+
  then show ?thesis
    using assms net_sound_spend [OF assms] unfolding join_answer_def Let_def case_prod_beta
    by (auto split: option.split)
qed

lemma net_sound_note_reachability: "net_sound db \<Longrightarrow> net_sound (snd (note_reachability now i report db))"
  unfolding note_reachability_def Let_def
  by (auto split: option.split dest: node_find_SomeD intro!: net_sound_save_known)

lemma net_sound_lan: "net_sound db \<Longrightarrow> net_sound (db\<lparr>nt_nodes := lan_remember i held (nt_nodes db)\<rparr>)"
  unfolding lan_remember_def by (rule net_sound_map) simp_all

lemma net_sound_names: "net_sound db \<Longrightarrow> net_sound (db\<lparr>nt_nodes := snd (remember_names i said (nt_nodes db))\<rparr>)"
  unfolding remember_names_def Let_def snd_conv by (rule net_sound_map) simp_all

lemma net_sound_report_rows:
  assumes "net_sound db"
  shows "net_sound (snd (report_rows now i report db))"
proof -
  let ?a = "case rp_dial report of Some secret \<Rightarrow> if secret \<noteq> [] then remember_dial_secret i secret db else db | None \<Rightarrow> db"
  let ?b = "case rp_lan report of Some held \<Rightarrow> ?a\<lparr>nt_nodes := lan_remember i held (nt_nodes ?a)\<rparr> | None \<Rightarrow> ?a"
  have "net_sound (remember_dial_secret i secret db)" for secret
    unfolding remember_dial_secret_def by (rule net_sound_edit [OF assms]) simp_all
  then have "net_sound ?a" using assms by (simp split: option.split)
  then have "net_sound ?b" by (auto split: option.split intro: net_sound_lan)
  then have "net_sound (snd (note_reachability now i report ?b))" by (rule net_sound_note_reachability)
  then show ?thesis
    unfolding report_rows_def Let_def case_prod_beta
    by (cases "note_reachability now i report ?b") (auto split: option.split bool.split intro: net_sound_names)
qed

interpretation authority: guarded_machine "joining_step w" authority_event net_sound
proof
  fix op db
  assume op: "authority_event op" and db: "net_sound db"
  show "net_sound (joining_step w op db)"
  proof (cases op)
    case (NodeForgotten account i)
    then show ?thesis using db by (simp add: node_user_forget_node_def net_forget_def net_sound_fewer_nodes)
  next
    case (TokenWithdrawn account i)
    then show ?thesis using db by (simp add: node_user_withdraw_enrolment_def enrolment_withdraw_def net_sound_fewer_enrolments)
  next
    case (AccountGone i)
    then show ?thesis using db by (simp add: enrolments_of_gone_def net_sound_fewer_enrolments)
  next
    case (GrantsSet e account i cs)
    then show ?thesis using db by (simp add: node_user_set_grants_def case_prod_beta)
  next
    case (VersionWanted i v)
    then show ?thesis using db by (simp add: want_version_def net_sound_edit)
  next
    case (DrainSet now i out)
    then show ?thesis using db by (simp add: set_draining_def net_sound_edit)
  next
    case NetworkLeft
    then show ?thesis by (simp add: forget_self_def net_sound_def nodes_sound_def enrolments_sound_def held_by_spender_def)
  qed (use op db in \<open>simp_all add: net_sound_mint net_sound_join_answer net_sound_ensure_self net_sound_report_rows split: sum.split\<close>)
qed

lemma net_sound_empty: "no_network db \<Longrightarrow> net_sound db"
  by (simp add: no_network_def net_sound_def nodes_sound_def enrolments_sound_def held_by_spender_def)

section \<open>A small network\<close>

text \<open>A wire that carries every token: texts behind marks, and each character as two letters.\<close>

fun put_text :: "string \<Rightarrow> string" where
  "put_text [] = ''e''"
| "put_text (c # s) = CHR ''x'' # c # put_text s"

fun take_text :: "string \<Rightarrow> (string \<times> string) option" where
  "take_text (m # s) = (if m = CHR ''e'' then Some ([], s) else case s of [] \<Rightarrow> None
     | c # s \<Rightarrow> map_option (apfst (Cons c)) (take_text s))"
| "take_text [] = None"

fun put_texts :: "string list \<Rightarrow> string" where
  "put_texts [] = ''e''"
| "put_texts (t # ts) = CHR ''x'' # put_text t @ put_texts ts"

fun take_texts :: "string \<Rightarrow> string \<Rightarrow> (string list \<times> string) option" where
  "take_texts (_ # f) (m # s) = (if m = CHR ''e'' then Some ([], s)
     else Option.bind (take_text s) (\<lambda>(t, s). map_option (apfst (Cons t)) (take_texts f s)))"
| "take_texts _ _ = None"

definition put_list :: "string list option \<Rightarrow> string" where
  "put_list l = (case l of None \<Rightarrow> ''n'' | Some ts \<Rightarrow> CHR ''s'' # put_texts ts)"

definition take_list :: "string \<Rightarrow> (string list option \<times> string) option" where
  "take_list s = (case s of [] \<Rightarrow> None
     | m # s \<Rightarrow> if m = CHR ''n'' then Some (None, s) else map_option (apfst Some) (take_texts (m # s) s))"

lemma take_put_text [simp]: "take_text (put_text s @ r) = Some (s, r)"
  by (induction s) simp_all

lemma take_put_texts: "length ts < length f \<Longrightarrow> take_texts f (put_texts ts @ r) = Some (ts, r)"
proof (induction ts arbitrary: f)
  case (Cons t ts)
  then show ?case by (cases f) simp_all
next
  case Nil
  then show ?case by (cases f) simp_all
qed

lemma length_put_texts: "length ts \<le> length (put_texts ts @ r)"
  by (induction ts) auto

lemma take_put_list [simp]: "take_list (put_list l @ r) = Some (l, r)"
  using take_put_texts length_put_texts by (auto simp: take_list_def put_list_def less_Suc_eq_le split: option.split)

definition demo_put :: "join_token \<Rightarrow> string" where
  "demo_put t = put_text (jt_authority t) @ put_text (jt_name t) @ put_text (jt_endpoint t) @ put_text (jt_key t) @
    put_text (jt_overlay t) @ put_text (jt_assigned t) @ put_text (jt_secret t) @ put_list (jt_requires t) @ put_list (jt_offers t)"

definition demo_take :: "string \<Rightarrow> join_token option" where
  "demo_take s =
    Option.bind (take_text s) (\<lambda>(a, s). Option.bind (take_text s) (\<lambda>(n, s). Option.bind (take_text s) (\<lambda>(e, s).
    Option.bind (take_text s) (\<lambda>(k, s). Option.bind (take_text s) (\<lambda>(v, s). Option.bind (take_text s) (\<lambda>(i, s).
    Option.bind (take_text s) (\<lambda>(c, s). Option.bind (take_list s) (\<lambda>(q, s). Option.bind (take_list s) (\<lambda>(f, s).
      Some \<lparr>jt_authority = a, jt_name = n, jt_endpoint = e, jt_key = k, jt_overlay = v, jt_assigned = i, jt_secret = c,
        jt_requires = q, jt_offers = f\<rparr>)))))))))"

fun letters :: "string \<Rightarrow> string" where
  "letters [] = []"
| "letters (c # s) = char_of (97 + (of_char c :: nat) div 16) # char_of (97 + (of_char c :: nat) mod 16) # letters s"

fun of_letters :: "string \<Rightarrow> string option" where
  "of_letters [] = Some []"
| "of_letters [_] = None"
| "of_letters (a # b # s) =
    map_option (Cons (char_of (((of_char a :: nat) - 97) * 16 + ((of_char b :: nat) - 97)))) (of_letters s)"

definition demo_wire :: token_wire where
  "demo_wire = \<lparr>to_json = demo_put, of_json = demo_take, to_base64 = letters, of_base64 = of_letters\<rparr>"

lemma of_letters_letters: "of_letters (letters s) = Some s"
proof (induction s)
  case (Cons c s)
  let ?n = "of_char c :: nat"
  have n: "?n div 16 < 16" using nat_of_char_less_256 [of c] by (simp only: less_mult_imp_div_less) 
  have "(of_char (char_of (97 + ?n div 16)) :: nat) = 97 + ?n div 16" "(of_char (char_of (97 + ?n mod 16)) :: nat) = 97 + ?n mod 16"
    using n by (simp_all add: of_char_of)
  then show ?case using Cons by (simp add: div_mult_mod_eq)
qed simp

lemma letters_plain: "list_all (\<lambda>c. \<not> is_whitespace c) (letters s)"
proof (induction s)
  case (Cons c s)
  let ?n = "of_char c :: nat"
  have "\<not> is_whitespace (char_of (97 + k))" if "k < 16" for k :: nat
    using that by (simp add: is_whitespace_def of_char_of)
  moreover have "?n div 16 < 16" using nat_of_char_less_256 [of c] by (simp only: less_mult_imp_div_less)
  ultimately have "\<not> is_whitespace (char_of (97 + ?n div 16))" "\<not> is_whitespace (char_of (97 + ?n mod 16))" by simp_all
  then show ?case using Cons by simp
qed simp

lemma demo_take_put: "demo_take (demo_put t) = Some t"
  using take_put_list [of "jt_offers t" "[]"] by (simp add: demo_take_def demo_put_def)

text \<open>An authority with a domain, whose administrator mints one token, and the node that spends it.\<close>

definition net_demo_env :: "int \<Rightarrow> string \<Rightarrow> string \<Rightarrow> net_env" where
  "net_demo_env now i secret = \<lparr>ne_now = now, ne_id = i, ne_node_id = i, ne_secret = secret, ne_dial_key = ''k'',
    ne_hash = (\<lambda>s. CHR ''#'' # s), ne_port = ''443'', ne_ca = Some ''ca'', ne_public = (\<lambda>k. Some (CHR ''p'' # k)),
    ne_new_key = (''k'', ''pk''), ne_hostname = Some ''box'', ne_version = ''1'', ne_lan = []\<rparr>"

definition demo_admin :: account where
  "demo_admin = \<lparr>account_id = ''ac-1'', username = ''leo'', account_role = Admin, account_theme = System,
    account_language = En, account_tenant = None\<rparr>"

definition demo_bare :: net_db where
  "demo_bare = \<lparr>nt_nodes = [], nt_enrolments = [], nt_authorities = [], nt_claims = [],
    nt_grants = \<lparr>settings = [(DOMAIN, ''a.io''), (capability_key Edge, ''on'')], node_grant = [], node_grant_withdrawn = []\<rparr>\<rparr>"

definition demo_request :: mint_request where
  "demo_request = \<lparr>mt_name = ''b'', mt_requires = [Host], mt_offers = [Edge]\<rparr>"

definition demo_minted :: joining_event where
  "demo_minted = Minted (net_demo_env 5 ''a'' ''s'') demo_admin demo_request"

definition demo_network :: net_db where
  "demo_network = fold (joining_step demo_wire) [demo_minted] demo_bare"

definition demo_arriving :: arriving where
  "demo_arriving = \<lparr>ar_node = ''nd-b'', ar_name = ''b'', ar_key = ''kb'', ar_accepted = Some [''host''], ar_ca = None\<rparr>"

lemma demo_no_network: "no_network demo_bare"
  by (simp add: no_network_def demo_bare_def)

section \<open>A token that was never used lets a node in\<close>

lemma look_up_sound:
  assumes "enrolments_sound (nt_enrolments db)" "r \<in> set (nt_enrolments db)" "en_hash r = ne_hash e secret"
  shows "List.find (\<lambda>q. en_hash q = ne_hash e secret) (nt_enrolments db) = Some r"
proof -
  have "List.find (\<lambda>q. en_hash q = ne_hash e secret) (nt_enrolments db) \<noteq> None" using assms(2,3) by (auto simp: find_None_iff)
  then obtain q where q: "List.find (\<lambda>q. en_hash q = ne_hash e secret) (nt_enrolments db) = Some q" by blast
  have "q = r" using find_SomeD [OF q] assms unfolding enrolments_sound_def by (metis distinct_map inj_onD)
  with q show ?thesis by simp
qed

text \<open>
  What a join that is answered leaves. The row keeps what the node was told to do and where it is on
  its own network.
\<close>

definition let_in :: "net_env \<Rightarrow> arriving \<Rightarrow> net_db \<Rightarrow> enrolment_row \<Rightarrow> net_db" where
  "let_in e a db r =
    (let db' = snd (net_save (ne_now e) (arriving_row (ne_now e) a (node_find db (ar_node a)) r) (snd (spend e (en_id r) (ar_node a) db))) in
     db'\<lparr>nt_grants := snd (capability_grant (nat (ne_now e)) (ar_node a) (en_offers r) (nt_grants db'))\<rparr>)"

lemma find_map_kept: "(\<And>r. P (f r) = P r) \<Longrightarrow> List.find P (map f rows) = map_option f (List.find P rows)"
  by (induction rows) auto

lemma node_me_save_other:
  assumes "\<not> is_self n" "node_me db = Some me" "nd_id n \<noteq> nd_id me" "nt_nodes db' = nt_nodes db"
  shows "node_me (snd (net_save now n db')) = Some me"
proof -
  have me: "List.find is_self (nt_nodes db') = Some me" using assms(2,4) by (simp add: node_me_def linked_me_def)
  show ?thesis
  proof (cases rule: net_save_cases [of now n db'])
    case over
    have "List.find is_self (map (\<lambda>r. if nd_id r = nd_id n then saved_over n r else r) (nt_nodes db')) = Some me"
      using me assms(3) by (subst find_map_kept) auto
    then show ?thesis unfolding over(1) by (simp add: node_me_def linked_me_def)
  next
    case new
    have "List.find is_self (xs @ ys) = Some me" if "List.find is_self xs = Some me" for xs ys
      using that by (induction xs) (auto split: if_splits)
    with me show ?thesis unfolding new(1) by (simp add: node_me_def linked_me_def)
  qed (use me in \<open>simp add: node_me_def linked_me_def\<close>)
qed

lemma unspent_taken: "r \<in> set (nt_enrolments db) \<Longrightarrow> en_used_at r = None \<Longrightarrow> fst (spend e (en_id r) node db)"
  by (auto simp: spend_def Let_def list_ex_iff)

lemma live_saved:
  assumes sound: "net_sound db" and r: "r \<in> set (nt_enrolments db)" "en_used_by r = None"
  shows "fst (net_save (ne_now e) (arriving_row (ne_now e) a (node_find db (ar_node a)) r) (snd (spend e (en_id r) (ar_node a) db)))"
proof -
  let ?known = "node_find db (ar_node a)"
  let ?row = "arriving_row (ne_now e) a ?known r" and ?db = "snd (spend e (en_id r) (ar_node a) db)"
  have nodes: "nodes_sound (nt_nodes db)" and held: "held_by_spender (nt_nodes db) (nt_enrolments db)"
    using sound by (simp_all add: net_sound_def)
  have free: "\<not> address_held (nd_id ?row) (overlay_ip ?row) (nt_nodes ?db)"
  proof
    assume "address_held (nd_id ?row) (overlay_ip ?row) (nt_nodes ?db)"
    then obtain n where n: "n \<in> set (nt_nodes db)" "nd_id n \<noteq> ar_node a" "overlay_ip n = overlay_ip ?row"
      by (auto simp: address_held_def list_ex_iff)
    show False
    proof (cases "Option.bind ?known overlay_ip")
      case None
      then have "overlay_ip n = Some (en_overlay r)" using n(3) by simp
      then show False using held n(1) r by (auto simp: held_by_spender_def)
    next
      case (Some ip)
      then obtain k where k: "?known = Some k" "overlay_ip k = Some ip" by (auto simp: bind_eq_Some_conv)
      then have in_k: "k \<in> set (nt_nodes db)" "nd_id k = ar_node a" using node_find_SomeD by auto
      have "overlay_ip n = overlay_ip k" "overlay_ip n \<noteq> None" using n(3) Some k(2) by simp_all
      then have "nd_id n = nd_id k" using nodes_soundD(2) [OF nodes n(1) in_k(1)] by simp
      then show False using n(2) in_k(2) by simp
    qed
  qed
  then show ?thesis by (cases rule: net_save_cases [of "ne_now e" ?row ?db]) auto
qed

lemma join_answer_live:
  assumes sound: "net_sound db" and r: "r \<in> set (nt_enrolments db)" "en_hash r = ne_hash e secret" "enrolment_live (ne_now e) r"
    and a: "describes_a_node a = None" and me: "node_me db = Some me" and other: "ar_node a \<noteq> nd_id me"
  shows "join_answer e secret a db =
    (Inr \<lparr>ac_authority = nd_id me, ac_name = nd_name me,
       ac_overlay = (case Option.bind (node_find db (ar_node a)) overlay_ip of Some ip \<Rightarrow> ip | None \<Rightarrow> en_overlay r), ac_ca = ne_ca e\<rparr>,
     let_in e a db r)"
proof -
  let ?known = "node_find db (ar_node a)"
  let ?row = "arriving_row (ne_now e) a ?known r" and ?db = "snd (spend e (en_id r) (ar_node a) db)"
  have en: "enrolments_sound (nt_enrolments db)" using sound by (simp add: net_sound_def)
  have unspent: "en_used_at r = None" "en_used_by r = None" using r en by (auto simp: enrolment_live_def enrolment_spent_def enrolments_sound_def)
  have look: "enrolment_look_up e secret db = Some r"
    using look_up_sound [OF en r(1,2)] r(3) by (simp add: enrolment_look_up_def enrolment_live_def)
  have not_self: "\<not> is_self n" if "?known = Some n" for n
    using node_find_SomeD [OF that] sound_self [OF sound me, of n] other by auto
  have taken: "fst (spend e (en_id r) (ar_node a) db)" by (rule unspent_taken [OF r(1) unspent(1)])
  note ok = live_saved [OF sound r(1) unspent(2), of e a]
  let ?after = "snd (net_save (ne_now e) ?row ?db)"
  have me': "node_me ?after = Some me"
    using node_me_save_other [OF _ me] other by simp
  have "\<not> (case ?known of Some n \<Rightarrow> is_self n | None \<Rightarrow> False)" using not_self by (simp split: option.split)
  then have eq: "join_answer e secret a db = (case spend e (en_id r) (ar_node a) db of (taken, db) \<Rightarrow>
      if \<not> taken then (Inl UsedByAnother, db)
      else (case net_save (ne_now e) ?row db of (ok, db) \<Rightarrow>
        if \<not> ok then (Inl NetStorage, db)
        else (case node_me db of None \<Rightarrow> (Inl NoRowOfItsOwn, db) | Some me \<Rightarrow>
          (Inr \<lparr>ac_authority = nd_id me, ac_name = nd_name me,
              ac_overlay = (case Option.bind ?known overlay_ip of Some ip \<Rightarrow> ip | None \<Rightarrow> en_overlay r), ac_ca = ne_ca e\<rparr>,
           db\<lparr>nt_grants := snd (capability_grant (nat (ne_now e)) (ar_node a) (en_offers r) (nt_grants db))\<rparr>))))"
    unfolding join_answer_def a look option.case Let_def by (simp only: if_False)
  obtain db1 where spent: "spend e (en_id r) (ar_node a) db = (True, db1)" using taken by (cases "spend e (en_id r) (ar_node a) db") simp
  then obtain db2 where saved: "net_save (ne_now e) ?row db1 = (True, db2)" using ok by (cases "net_save (ne_now e) ?row db1") simp
  have "node_me db2 = Some me" using me' by (simp add: spent saved)
  then show ?thesis unfolding eq let_in_def Let_def by (simp add: spent saved)
qed

lemma let_in_rows:
  assumes sound: "net_sound db" and r: "r \<in> set (nt_enrolments db)" "en_used_at r = None"
    and ok: "fst (net_save (ne_now e) (arriving_row (ne_now e) a (node_find db (ar_node a)) r) (snd (spend e (en_id r) (ar_node a) db)))"
  shows "net_sound (let_in e a db r)"
    and "nt_enrolments (let_in e a db r) = map (spend_row e (en_id r) (ar_node a)) (nt_enrolments db)"
    and "node_find (let_in e a db r) i = (if i = ar_node a
      then Some (let n = arriving_row (ne_now e) a (node_find db i) r in
        case node_find db i of Some k \<Rightarrow> saved_over n k | None \<Rightarrow> saved_new (ne_now e) n) else node_find db i)"
proof -
  have "net_sound (snd (net_save (ne_now e) (arriving_row (ne_now e) a (node_find db (ar_node a)) r) (snd (spend e (en_id r) (ar_node a) db))))"
    by (rule net_sound_arriving [OF sound r(1) unspent_taken [OF r]])
  then show "net_sound (let_in e a db r)" by (simp add: let_in_def Let_def)
  show "nt_enrolments (let_in e a db r) = map (spend_row e (en_id r) (ar_node a)) (nt_enrolments db)"
    by (simp add: let_in_def Let_def spend_enrolments)
  have same: "node_find (snd (spend e (en_id r) (ar_node a) db)) j = node_find db j" for j by (simp add: node_find_def)
  have grants: "node_find (db'\<lparr>nt_grants := g\<rparr>) j = node_find db' j" for db' g j by (simp add: node_find_def)
  show "node_find (let_in e a db r) i = (if i = ar_node a
      then Some (let n = arriving_row (ne_now e) a (node_find db i) r in
        case node_find db i of Some k \<Rightarrow> saved_over n k | None \<Rightarrow> saved_new (ne_now e) n) else node_find db i)"
    unfolding let_in_def Let_def grants node_find_save [OF ok] same by auto
qed

lemma net_sound_me:
  assumes "net_sound db" "r \<in> set (nt_enrolments db)"
  shows "\<exists>me. node_me db = Some me"
proof -
  have "\<exists>n\<in>set (nt_nodes db). is_self n" using assms by (cases "nt_enrolments db = []") (simp_all add: net_sound_def)
  then have "node_me db \<noteq> None" unfolding node_me_None by blast
  then show ?thesis by blast
qed

lemma live_unspent: "enrolments_sound rows \<Longrightarrow> r \<in> set rows \<Longrightarrow> enrolment_live now r \<Longrightarrow> en_used_at r = None \<and> en_used_by r = None"
  by (auto simp: enrolment_live_def enrolment_spent_def enrolments_sound_def)

lemma asking_let_in:
  assumes sound: "net_sound db" and r: "r \<in> set (nt_enrolments db)" "en_hash r = ne_hash e secret" "enrolment_live (ne_now e) r"
  shows "asking e secret (let_in e a db r) = Inr (ar_node a)"
proof -
  have unspent: "en_used_at r = None" "en_used_by r = None" using live_unspent [OF _ r(1,3)] sound by (auto simp: net_sound_def)
  note rows = let_in_rows [OF sound r(1) unspent(1) live_saved [OF sound r(1) unspent(2)]]
  let ?q = "spend_row e (en_id r) (ar_node a) r"
  have "?q \<in> set (nt_enrolments (let_in e a db r))" using r(1) by (simp add: rows(2))
  moreover have "enrolments_sound (nt_enrolments (let_in e a db r))" using rows(1) by (simp add: net_sound_def)
  ultimately have "List.find (\<lambda>q. en_hash q = ne_hash e secret) (nt_enrolments (let_in e a db r)) = Some ?q"
    using r(2) by (intro look_up_sound) simp_all
  moreover have "en_used_by ?q = Some (ar_node a)" using unspent by (simp add: spend_row_def)
  ultimately show ?thesis by (simp add: asking_def enrolment_holder_def rows(3))
qed

text \<open>
  Property C8. A token that was never used lets a node in: after any run of what an authority is
  asked, a node that describes itself and is not the authority, arriving with the secret of an
  enrolment that is not spent and not expired, is answered; it then has a row with its key and the
  address it was answered, which is no other row's and no other node's enrolment's, its secret is
  its own, and the other rows are as they were.
\<close>

theorem a_live_token_lets_a_node_in:
  assumes start: "no_network start" and events: "list_all authority_event evs"
    and db: "db = fold (joining_step w) evs start"
    and r: "r \<in> set (nt_enrolments db)" "en_hash r = ne_hash e secret" "enrolment_live (ne_now e) r"
    and a: "describes_a_node a = None" "\<forall>n\<in>set (nt_nodes db). is_self n \<longrightarrow> nd_id n \<noteq> ar_node a"
  shows "\<exists>me acc db' n. node_me db = Some me \<and> join_answer e secret a db = (Inr acc, db') \<and> ac_authority acc = nd_id me \<and>
    node_find db' (ar_node a) = Some n \<and> public_key n = Some (ar_key a) \<and> overlay_ip n = Some (ac_overlay acc) \<and>
    asking e secret db' = Inr (ar_node a) \<and>
    (\<forall>m\<in>set (nt_nodes db'). overlay_ip m = Some (ac_overlay acc) \<longrightarrow> m = n) \<and>
    (\<forall>q\<in>set (nt_enrolments db'). en_overlay q = ac_overlay acc \<longrightarrow> en_used_by q = Some (ar_node a)) \<and>
    (\<forall>i. i \<noteq> ar_node a \<longrightarrow> node_find db' i = node_find db i)"
proof -
  have sound: "net_sound db"
    unfolding db by (rule authority.run_asked_keeps [OF events net_sound_empty [OF start]])
  have unspent: "en_used_at r = None" "en_used_by r = None" using live_unspent [OF _ r(1,3)] sound by (auto simp: net_sound_def)
  obtain me where me: "node_me db = Some me" using net_sound_me [OF sound r(1)] by blast
  have other: "ar_node a \<noteq> nd_id me" using a(2) node_me_SomeD [OF me] by auto
  note rows = let_in_rows [OF sound r(1) unspent(1) live_saved [OF sound r(1) unspent(2)]]
  let ?db = "let_in e a db r"
  let ?ip = "case Option.bind (node_find db (ar_node a)) overlay_ip of Some ip \<Rightarrow> ip | None \<Rightarrow> en_overlay r"
  obtain n where n: "node_find ?db (ar_node a) = Some n" by (simp add: rows(3))
  have key: "public_key n = Some (ar_key a)" "overlay_ip n = Some ?ip"
    using n by (auto simp: rows(3) Let_def split: option.splits)
  have in_n: "n \<in> set (nt_nodes ?db)" "nd_id n = ar_node a" using node_find_SomeD [OF n] by auto
  have sound': "nodes_sound (nt_nodes ?db)" "held_by_spender (nt_nodes ?db) (nt_enrolments ?db)"
    using rows(1) by (simp_all add: net_sound_def)
  have own: "m = n" if m: "m \<in> set (nt_nodes ?db)" "overlay_ip m = Some ?ip" for m
  proof -
    have "nd_id m = nd_id n" using nodes_soundD(2) [OF sound'(1) m(1) in_n(1)] m(2) key(2) by simp
    then show ?thesis by (rule nodes_soundD(4) [OF sound'(1) m(1) in_n(1)])
  qed
  have spender: "en_used_by q = Some (ar_node a)" if q: "q \<in> set (nt_enrolments ?db)" "en_overlay q = ?ip" for q
    using sound'(2) q in_n key(2) unfolding held_by_spender_def by simp
  show ?thesis
    using me join_answer_live [OF sound r a(1) me other] n key asking_let_in [OF sound r, of a] own spender
    by (intro exI [of _ me] exI [of _ "\<lparr>ac_authority = nd_id me, ac_name = nd_name me, ac_overlay = ?ip, ac_ca = ne_ca e\<rparr>"]
        exI [of _ ?db] exI [of _ n]) (simp add: rows(3))
qed

theorem a_live_token_lets_a_node_in_witness:
  "fst (join_answer (net_demo_env 6 ''b'' []) ''s'' demo_arriving demo_network) \<noteq> Inl NotAuthorised \<and>
   asking (net_demo_env 6 ''b'' []) ''s'' (snd (join_answer (net_demo_env 6 ''b'' []) ''s'' demo_arriving demo_network)) = Inr ''nd-b''"
proof -
  let ?r = "hd (nt_enrolments demo_network)"
  have "nt_enrolments demo_network \<noteq> []" "en_hash ?r = ne_hash (net_demo_env 6 ''b'' []) ''s''" "enrolment_live 6 ?r"
    "describes_a_node demo_arriving = None" "list_all (\<lambda>n. is_self n \<longrightarrow> nd_id n \<noteq> ''nd-b'') (nt_nodes demo_network)"
    by code_simp+
  then have "?r \<in> set (nt_enrolments demo_network)" "enrolment_live (ne_now (net_demo_env 6 ''b'' [])) ?r"
    "\<forall>n\<in>set (nt_nodes demo_network). is_self n \<longrightarrow> nd_id n \<noteq> ar_node demo_arriving"
    by (simp_all add: net_demo_env_def demo_arriving_def list_all_iff)
  moreover have "list_all authority_event [demo_minted]" by (simp add: demo_minted_def)
  ultimately have "\<exists>acc db'. join_answer (net_demo_env 6 ''b'' []) ''s'' demo_arriving demo_network = (Inr acc, db') \<and>
      asking (net_demo_env 6 ''b'' []) ''s'' db' = Inr (ar_node demo_arriving)"
    using a_live_token_lets_a_node_in [OF demo_no_network _ demo_network_def, of ?r "net_demo_env 6 ''b'' []" "''s''" demo_arriving]
      \<open>en_hash ?r = ne_hash (net_demo_env 6 ''b'' []) ''s''\<close> \<open>describes_a_node demo_arriving = None\<close> by blast
  then show ?thesis by (auto simp: demo_arriving_def)
qed

section \<open>A secret is one node's\<close>

lemma edit_nodes_rest [simp]:
  "nt_enrolments (edit_nodes hit f db) = nt_enrolments db" "nt_grants (edit_nodes hit f db) = nt_grants db"
  "nt_authorities (edit_nodes hit f db) = nt_authorities db"
  by (simp_all add: edit_nodes_def)

lemma ensure_self_rest [simp]: "nt_enrolments (snd (ensure_self e db)) = nt_enrolments db"
  by (simp add: ensure_self_save)

lemma ensure_hub_rest [simp]: "nt_enrolments (snd (ensure_hub e db)) = nt_enrolments db"
proof -
  obtain me db1 where s: "ensure_self e (snd (keys_ensure e db)) = (me, db1)" by fastforce
  then have "nt_enrolments db1 = nt_enrolments db" using ensure_self_rest [of e "snd (keys_ensure e db)"] by simp
  then show ?thesis unfolding ensure_hub_def s by (simp add: case_prod_beta split: option.split)
qed

lemma join_network_enrolments: "nt_enrolments (snd (join_network e w announce text accepting db)) = nt_enrolments db"
proof -
  obtain keys db1 where k: "keys_ensure e db = (keys, db1)" by fastforce
  obtain me db2 where s: "ensure_self e db1 = (me, db2)" by fastforce
  have "nt_enrolments db2 = nt_enrolments db"
    using keys_ensure_rows(2) [of e db] ensure_self_rest [of e db1] k s by simp
  then show ?thesis
    unfolding join_network_def k s prod.case Let_def
    by (auto simp: case_prod_beta authority_grant_def Let_def split: sum.split option.split)
qed

lemma apply_member_rest: "nt_enrolments (snd (apply_member now me auths m s)) = nt_enrolments (snd s)"
  by (auto simp: apply_member_def fill_missing_anchor_def roster_renamed_def roster_remember_def case_prod_beta Let_def
      split: option.split)

lemma roster_apply_enrolments: "nt_enrolments (snd (roster_apply now ms db)) = nt_enrolments db"
proof -
  have "nt_enrolments (snd (fold (apply_member now me auths) ms s)) = nt_enrolments (snd s)" for me auths s
    by (induction ms arbitrary: s) (simp_all add: apply_member_rest)
  then show ?thesis by (simp add: roster_apply_def Let_def)
qed

lemma learn_the_network_enrolments: "nt_enrolments (snd (learn_the_network now answered db)) = nt_enrolments db"
  using roster_apply_enrolments
  by (auto simp: learn_the_network_def record_conflicts_def case_prod_beta split: option.split)

lemma report_rows_enrolments: "nt_enrolments (snd (report_rows now i report db)) = nt_enrolments db"
proof -
  have "nt_enrolments (snd (note_reachability now i report d)) = nt_enrolments d" for d
    by (simp add: note_reachability_def Let_def split: option.split)
  then show ?thesis
    unfolding report_rows_def Let_def case_prod_beta
    by (simp add: remember_dial_secret_def split: option.split bool.split)
qed

fun mints :: "string \<Rightarrow> joining_event \<Rightarrow> bool" where
  "mints h (Minted e account asked) = (ne_hash e (ne_secret e) = h)"
| "mints h _ = False"

fun presents :: "string \<Rightarrow> string \<Rightarrow> joining_event \<Rightarrow> bool" where
  "presents h node (Arrived e secret a) \<longleftrightarrow> ne_hash e secret = h \<and> ar_node a = node \<and> describes_a_node a = None"
| "presents h node _ = False"

lemma mint_enrolments:
  obtains "nt_enrolments (snd (node_user_mint_join_token e w account asked db)) = nt_enrolments db"
  | row where "nt_enrolments (snd (node_user_mint_join_token e w account asked db)) = nt_enrolments db @ [row]"
    "en_hash row = ne_hash e (ne_secret e)" "en_used_at row = None" "en_used_by row = None"
    "\<forall>q\<in>set (nt_enrolments db). en_id q \<noteq> en_id row \<and> en_hash q \<noteq> en_hash row \<and> en_overlay q \<noteq> en_overlay row"
proof -
  let ?t = "snd (node_user_mint_join_token e w account asked db)" and ?db = "snd (ensure_hub e db)"
  have "nt_enrolments ?t = nt_enrolments db \<or>
    (\<exists>ip. nt_enrolments ?t = nt_enrolments (snd (enrolment_create e (mt_name asked) ip (account_id account) (mt_requires asked) (mt_offers asked) ?db)))"
    using mint_cases [of e w account asked db] ensure_hub_rest [of e db] by auto
  then show thesis
  proof
    assume "\<exists>ip. nt_enrolments ?t = nt_enrolments (snd (enrolment_create e (mt_name asked) ip (account_id account) (mt_requires asked) (mt_offers asked) ?db))"
    then obtain ip where ip: "nt_enrolments ?t = nt_enrolments (snd (enrolment_create e (mt_name asked) ip (account_id account) (mt_requires asked) (mt_offers asked) ?db))" ..
    obtain c db2 where c: "enrolment_create e (mt_name asked) ip (account_id account) (mt_requires asked) (mt_offers asked) ?db = (c, db2)"
      by fastforce
    show thesis
    proof (cases c)
      case None
      then have "db2 = ?db" using enrolment_create_None [of e _ ip] c by (metis fst_conv snd_conv)
      then show thesis using that(1) ip c by simp
    next
      case (Some p)
      then obtain r secret where "c = Some (r, secret)" by (cases p) simp
      with c show thesis using that(2) ip by (auto elim!: enrolment_create_Some)
    qed
  qed (rule that(1))
qed

lemma join_answer_enrolments:
  obtains "nt_enrolments (snd (join_answer e secret a db)) = nt_enrolments db"
  | r where "describes_a_node a = None" "r \<in> set (nt_enrolments db)" "en_hash r = ne_hash e secret"
    "nt_enrolments (snd (join_answer e secret a db)) = map (spend_row e (en_id r) (ar_node a)) (nt_enrolments db)"
proof (cases "describes_a_node a = None \<and> enrolment_look_up e secret db \<noteq> None")
  case True
  then obtain r where r: "enrolment_look_up e secret db = Some r" by blast
  have "nt_enrolments (snd (join_answer e secret a db)) \<in>
      {nt_enrolments db, map (spend_row e (en_id r) (ar_node a)) (nt_enrolments db)}"
    unfolding join_answer_def r Let_def case_prod_beta option.case
    by (simp add: spend_enrolments split: option.split)
  then show thesis using that True enrolment_look_up_SomeD [OF r] by blast
qed (use that(1) in \<open>auto simp: join_answer_def split: option.splits\<close>)

text \<open>Every row after a step was there, or was spent by who presented its secret, or is a new one.\<close>

lemma joining_step_enrolments:
  assumes "q \<in> set (nt_enrolments (joining_step w ev db))"
  obtains (kept) "q \<in> set (nt_enrolments db)"
  | (spent) e secret a i r where "ev = Arrived e secret a" "describes_a_node a = None" "r \<in> set (nt_enrolments db)"
      "q = spend_row e i (ar_node a) r" "\<exists>p\<in>set (nt_enrolments db). en_id p = i \<and> en_hash p = ne_hash e secret"
  | (minted) e account asked where "ev = Minted e account asked" "en_hash q = ne_hash e (ne_secret e)"
      "en_used_at q = None" "en_used_by q = None"
proof (cases ev)
  case (Minted e account asked)
  then show thesis using assms kept minted
    by (cases rule: mint_enrolments [of e w account asked db]) auto
next
  case (Arrived e secret a)
  then show thesis using assms kept spent
    by (cases rule: join_answer_enrolments [of e secret a db]) auto
qed (use assms kept in \<open>auto simp: node_user_withdraw_enrolment_def enrolment_withdraw_def node_user_forget_node_def
    net_forget_def enrolments_of_gone_def node_user_set_grants_def case_prod_beta want_version_def set_draining_def
    forget_self_def join_network_enrolments learn_the_network_enrolments learn_peer_def report_rows_enrolments
    split: if_splits sum.splits\<close>)

lemma enrolments_sound_step:
  assumes rows: "enrolments_sound (nt_enrolments db)"
  shows "enrolments_sound (nt_enrolments (joining_step w ev db))"
proof (cases ev)
  case (Minted e account asked)
  then show ?thesis using rows
    by (cases rule: mint_enrolments [of e w account asked db]) (auto simp: enrolments_sound_def)
next
  case (Arrived e secret a)
  have "enrolments_sound (map (spend_row e i node) (nt_enrolments db))" for i node
    using rows unfolding enrolments_sound_def by (simp add: comp_def) (simp add: spend_row_def)
  with Arrived rows show ?thesis by (cases rule: join_answer_enrolments [of e secret a db]) auto
qed (use rows in \<open>auto simp: node_user_withdraw_enrolment_def enrolment_withdraw_def node_user_forget_node_def
    net_forget_def enrolments_of_gone_def node_user_set_grants_def case_prod_beta want_version_def set_draining_def
    forget_self_def join_network_enrolments learn_the_network_enrolments learn_peer_def report_rows_enrolments
    enrolments_sound_def distinct_map_filter split: if_splits sum.splits\<close>)

interpretation enrolments: kept_machine "joining_step w" "\<lambda>db. enrolments_sound (nt_enrolments db)"
  by unfold_locales (rule enrolments_sound_step)

text \<open>Whoever holds an enrolment presented its secret.\<close>

lemma holder_presented:
  assumes "no_network start" "q \<in> set (nt_enrolments (fold (joining_step w) evs start))" "en_used_by q = Some n"
  shows "\<exists>ev\<in>set evs. presents (en_hash q) n ev"
  using assms(2,3)
proof (induction evs arbitrary: q rule: rev_induct)
  case Nil
  then show ?case using assms(1) by (simp add: no_network_def)
next
  case (snoc ev evs)
  let ?db = "fold (joining_step w) evs start"
  have rows: "enrolments_sound (nt_enrolments ?db)"
    by (rule enrolments.run_keeps) (use assms(1) in \<open>simp add: no_network_def enrolments_sound_def\<close>)
  from snoc.prems(1) have "q \<in> set (nt_enrolments (joining_step w ev ?db))" by simp
  then show ?case
  proof (cases rule: joining_step_enrolments)
    case kept
    then show ?thesis using snoc.IH [OF kept snoc.prems(2)] by auto
  next
    case (spent e secret a i r)
    show ?thesis
    proof (cases "q = r")
      case True
      then show ?thesis using snoc.IH [of r] spent(3) snoc.prems(2) by auto
    next
      case False
      then have i: "en_id r = i" "en_used_by q = Some (ar_node a)" using spent(4) by (auto simp: spend_row_def split: if_splits)
      obtain p where p: "p \<in> set (nt_enrolments ?db)" "en_id p = i" "en_hash p = ne_hash e secret" using spent(5) by blast
      then have "p = r" using rows spent(3) i(1) unfolding enrolments_sound_def by (metis distinct_map inj_onD)
      then show ?thesis using p spent(1,2,4) i snoc.prems(2) by auto
    qed
  qed (use snoc.prems(2) in simp)
qed

definition spent_by :: "string \<Rightarrow> string \<Rightarrow> net_db \<Rightarrow> bool" where
  "spent_by h n db \<longleftrightarrow> (\<forall>q\<in>set (nt_enrolments db). en_hash q = h \<longrightarrow> en_used_by q = Some n \<and> en_used_at q \<noteq> None)"

interpretation kept_secret: guarded_machine "joining_step w" "\<lambda>ev. \<not> mints h ev" "spent_by h n"
proof
  fix ev db
  assume ev: "\<not> mints h ev" and db: "spent_by h n db"
  show "spent_by h n (joining_step w ev db)"
    unfolding spent_by_def
  proof (intro ballI impI)
    fix q assume q: "q \<in> set (nt_enrolments (joining_step w ev db))" "en_hash q = h"
    from q(1) show "en_used_by q = Some n \<and> en_used_at q \<noteq> None"
    proof (cases rule: joining_step_enrolments)
      case (spent e secret a i r)
      then have "en_used_by r = Some n" "en_used_at r \<noteq> None" using db q(2) by (auto simp: spent_by_def)
      then show ?thesis using spent(4) by (auto simp: spend_row_def)
    qed (use db ev q(2) in \<open>auto simp: spent_by_def\<close>)
  qed
qed

lemma asking_InlD: "asking e secret db = Inl r \<Longrightarrow> r = NotAuthorised"
  by (auto simp: asking_def split: option.splits if_splits)

lemma asking_InrD:
  assumes "asking e secret db = Inr n"
  shows "\<exists>q\<in>set (nt_enrolments db). en_hash q = ne_hash e secret \<and> en_used_by q = Some n"
proof -
  from assms have "Option.bind (List.find (\<lambda>r. en_hash r = ne_hash e secret) (nt_enrolments db)) en_used_by = Some n"
    by (auto simp: asking_def enrolment_holder_def split: option.splits if_splits)
  then show ?thesis by (auto simp: bind_eq_Some_conv dest: find_SomeD)
qed

text \<open>
  Property C9. A secret is one node's: where no enrolment was there at the start, a secret answered as
  a node's was presented by that node when it joined, and whatever is asked of this machine
  afterwards, joining other networks and hearing rosters included, the secret is that node's or
  nobody's, as long as no enrolment is given the same secret again.
\<close>

theorem one_secret_is_one_node:
  assumes start: "no_network start" and db: "db = fold (joining_step w) evs start"
    and asked: "asking e secret db = Inr n"
    and later: "list_all (\<lambda>ev. \<not> mints (ne_hash e secret) ev) evs'" and same: "ne_hash e' = ne_hash e"
  shows "(\<exists>ev\<in>set evs. presents (ne_hash e secret) n ev) \<and>
    asking e' secret (fold (joining_step w) evs' db) \<in> {Inr n, Inl NotAuthorised}"
proof -
  let ?h = "ne_hash e secret"
  obtain p where p: "p \<in> set (nt_enrolments db)" "en_hash p = ?h" "en_used_by p = Some n" using asking_InrD [OF asked] by blast
  have rows: "enrolments_sound (nt_enrolments db)"
    unfolding db by (rule enrolments.run_keeps) (use start in \<open>simp add: no_network_def enrolments_sound_def\<close>)
  have own: "q = p" if "q \<in> set (nt_enrolments db)" "en_hash q = ?h" for q
    using rows p(1,2) that unfolding enrolments_sound_def by (metis distinct_map inj_onD)
  have "en_used_at p \<noteq> None" using rows p(1,3) unfolding enrolments_sound_def by fastforce
  then have "spent_by ?h n db" unfolding spent_by_def using own p(3) by (intro ballI impI) simp
  then have after: "spent_by ?h n (fold (joining_step w) evs' db)" by (rule kept_secret.run_asked_keeps [OF later])
  have "m = n" if "asking e' secret (fold (joining_step w) evs' db) = Inr m" for m
    using asking_InrD [OF that] after same by (auto simp: spent_by_def)
  then have "asking e' secret (fold (joining_step w) evs' db) \<in> {Inr n, Inl NotAuthorised}"
    using asking_InlD by (cases "asking e' secret (fold (joining_step w) evs' db)") simp_all
  then show ?thesis using holder_presented [OF start _ p(3), of w evs] p(1,2) db by simp
qed

theorem one_secret_is_one_node_witness:
  "asking (net_demo_env 9 [] []) ''s'' (fold (joining_step demo_wire) [NodeForgotten demo_admin ''nd-b'',
     Arrived (net_demo_env 8 [] []) ''s'' (demo_arriving\<lparr>ar_node := ''nd-c''\<rparr>)]
     (fold (joining_step demo_wire) [demo_minted, Arrived (net_demo_env 6 [] []) ''s'' demo_arriving] demo_bare)) \<in> {Inr ''nd-b'', Inl NotAuthorised}"
proof -
  let ?db = "fold (joining_step demo_wire) [demo_minted, Arrived (net_demo_env 6 [] []) ''s'' demo_arriving] demo_bare"
  have asks: "asking (net_demo_env 7 [] []) ''s'' ?db = Inr ''nd-b''" by code_simp
  show ?thesis
    using one_secret_is_one_node [OF demo_no_network refl asks,
        of "[NodeForgotten demo_admin ''nd-b'', Arrived (net_demo_env 8 [] []) ''s'' (demo_arriving\<lparr>ar_node := ''nd-c''\<rparr>)]" "net_demo_env 9 [] []"]
    by (simp add: net_demo_env_def)
qed

text \<open>
  A fresh token that names a node the authority knows takes the node over: it keeps its address, has
  the key that was brought, and the bearer of the token is taken for it from then on.
\<close>

lemma a_token_takes_over_a_node:
  assumes sound: "net_sound db" and r: "r \<in> set (nt_enrolments db)" "en_hash r = ne_hash e secret" "enrolment_live (ne_now e) r"
    and a: "describes_a_node a = None" and n: "node_find db (ar_node a) = Some n" "\<not> is_self n" "overlay_ip n = Some ip"
  shows "\<exists>acc db' n'. join_answer e secret a db = (Inr acc, db') \<and> ac_overlay acc = ip \<and>
    node_find db' (ar_node a) = Some n' \<and> public_key n' = Some (ar_key a) \<and> overlay_ip n' = Some ip \<and>
    asking e secret db' = Inr (ar_node a)"
proof -
  obtain me where me: "node_me db = Some me" using net_sound_me [OF sound r(1)] by blast
  have unspent: "en_used_at r = None" "en_used_by r = None" using live_unspent [OF _ r(1,3)] sound by (auto simp: net_sound_def)
  have "ar_node a \<noteq> nd_id me"
  proof
    assume "ar_node a = nd_id me"
    then have "n = me" using node_find_SomeD [OF n(1)] node_me_SomeD [OF me] nodes_soundD(4) [of "nt_nodes db" n me] sound
      by (simp add: net_sound_def)
    then show False using n(2) node_me_SomeD [OF me] by simp
  qed
  note answer = join_answer_live [OF sound r a me this] and asks = asking_let_in [OF sound r, of a]
  note rows = let_in_rows [OF sound r(1) unspent(1) live_saved [OF sound r(1) unspent(2)]]
  show ?thesis
    using answer asks rows(3) [of e a "ar_node a"] n by (auto simp: Let_def)
qed

text \<open>The nodes an account enrolled are not answered any more once the account is deleted.\<close>

lemma a_gone_account_cuts_its_nodes_off:
  assumes "enrolments_sound (nt_enrolments db)" "r \<in> set (nt_enrolments db)" "en_hash r = ne_hash e secret" "en_by r = account"
  shows "asking e secret (enrolments_of_gone account db) = Inl NotAuthorised"
proof (cases "asking e secret (enrolments_of_gone account db)")
  case (Inr n)
  then obtain q where q: "q \<in> set (nt_enrolments db)" "en_by q \<noteq> account" "en_hash q = ne_hash e secret"
    using asking_InrD by (fastforce simp: enrolments_of_gone_def)
  then have "q = r" using assms(1-3) unfolding enrolments_sound_def by (metis distinct_map inj_onD)
  then show ?thesis using q assms(4) by simp
qed (use asking_InlD in blast)

section \<open>Tokens\<close>

definition wire_sound :: "token_wire \<Rightarrow> bool" where
  "wire_sound w \<longleftrightarrow> (\<forall>t. of_json w (to_json w t) = Some t) \<and> (\<forall>s. of_base64 w (to_base64 w s) = Some s) \<and>
    (\<forall>s. list_all (\<lambda>c. \<not> is_whitespace c) (to_base64 w s))"

definition token_whole :: "join_token \<Rightarrow> bool" where
  "token_whole t \<longleftrightarrow> jt_authority t \<noteq> [] \<and> jt_endpoint t \<noteq> [] \<and> jt_key t \<noteq> [] \<and> jt_overlay t \<noteq> [] \<and>
    jt_assigned t \<noteq> [] \<and> jt_secret t \<noteq> []"

text \<open>However it was pasted, a token reads back as itself, unless a part of it is missing.\<close>

lemma drop_blank: "list_all P a \<Longrightarrow> dropWhile P (a @ s) = dropWhile P s"
  by (induction a) auto

lemma drop_plain: "list_all (\<lambda>c. \<not> P c) s \<Longrightarrow> dropWhile P (s @ b) = (if s = [] then dropWhile P b else s @ b)"
  by (cases s) auto

lemma trim_around:
  assumes "list_all is_whitespace a" "list_all is_whitespace b" "list_all (\<lambda>c. \<not> is_whitespace c) s"
  shows "trim (a @ s @ b) = s"
proof -
  have none: "dropWhile is_whitespace b = []" using drop_blank [OF assms(2), of "[]"] by simp
  have "dropWhile is_whitespace (a @ s @ b) = (if s = [] then [] else s @ b)"
    unfolding drop_blank [OF assms(1)] drop_plain [OF assms(3)] none ..
  moreover have "dropWhile is_whitespace (rev (s @ b)) = rev s"
    using drop_blank [of is_whitespace "rev b" "rev s"] drop_plain [of is_whitespace "rev s" "[]"] assms(2,3) by simp
  ultimately show ?thesis by (simp add: trim_def trim_matches_def trim_end_matches_def)
qed

lemma a_token_reads_back:
  assumes "wire_sound w" "list_all is_whitespace before" "list_all is_whitespace after"
  shows "token_decode w (before @ token_encode w t @ after) = (if token_whole t then Inr t else Inl DamagedToken)"
proof -
  have "list_all (\<lambda>c. \<not> is_whitespace c) (token_encode w t)"
    using assms(1) by (simp add: token_encode_def TOKEN_PREFIX_def wire_sound_def is_whitespace_def)
  then have "trim (before @ token_encode w t @ after) = token_encode w t" by (rule trim_around [OF assms(2,3)])
  moreover have "strip_prefix TOKEN_PREFIX (token_encode w t) = Some (to_base64 w (to_json w t))"
    by (simp only: token_encode_def strip_prefix_append)
  ultimately show ?thesis using assms(1) by (simp add: token_decode_def wire_sound_def token_whole_def)
qed

lemma parse_list_names [simp]: "capability_parse_list (join_with '','' (map capability_name cs)) = cs"
proof (cases "cs = []")
  case True
  have "capability_parse_list (join_with '','' (map capability_name [])) = []" by code_simp
  then show ?thesis unfolding True .
next
  case False
  then show ?thesis unfolding capability_to_list_def [symmetric] by (rule parse_list_to_list)
qed

section \<open>Joining, on both sides\<close>

text \<open>What a token that was minted says, and the enrolment behind it.\<close>

lemma minted_token:
  assumes "node_user_mint_join_token e w account asked db = (Inr text, db')"
  obtains me row where "fst (ensure_hub e db) = Inr me" "db' = (snd (ensure_hub e db))\<lparr>nt_enrolments := nt_enrolments db @ [row]\<rparr>"
    "text = token_encode w \<lparr>jt_authority = nd_id me, jt_name = nd_name me, jt_endpoint = the (endpoint me),
       jt_key = the (keys_public e (snd (ensure_hub e db))), jt_overlay = the (overlay_ip me), jt_assigned = en_overlay row,
       jt_secret = ne_secret e, jt_requires = Some (map capability_name (mt_requires asked)),
       jt_offers = Some (map capability_name (mt_offers asked))\<rparr>"
    "overlay_ip me \<noteq> None" "en_hash row = ne_hash e (ne_secret e)" "en_used_at row = None"
    "en_expires row = ne_now e + ENROLMENT_HOURS * 3600000" "en_offers row = mt_offers asked"
proof -
  obtain c db1 where h: "ensure_hub e db = (c, db1)" by fastforce
  have rows: "nt_enrolments db1 = nt_enrolments db" using ensure_hub_rest [of e db] h by simp
  from assms obtain me at key overlay ip r secret db2 where
    m: "c = Inr me" "endpoint me = Some at" "keys_public e db1 = Some key" "overlay_ip me = Some overlay"
      "overlay_allocate db1 = Some ip"
    and made: "enrolment_create e (mt_name asked) ip (account_id account) (mt_requires asked) (mt_offers asked) db1 = (Some (r, secret), db')"
    and shape: "text = token_encode w \<lparr>jt_authority = nd_id me, jt_name = nd_name me, jt_endpoint = at, jt_key = key,
        jt_overlay = overlay, jt_assigned = ip, jt_secret = secret, jt_requires = Some (map capability_name (mt_requires asked)),
        jt_offers = Some (map capability_name (mt_offers asked))\<rparr>"
    unfolding node_user_mint_join_token_def h prod.case
    by (auto split: if_splits sum.splits option.splits prod.splits)
  from made obtain row where "db' = db1\<lparr>nt_enrolments := nt_enrolments db1 @ [row]\<rparr>" "secret = ne_secret e"
    "en_hash row = ne_hash e secret" "en_overlay row = ip" "en_used_at row = None"
    "en_expires row = ne_now e + ENROLMENT_HOURS * 3600000" "en_offers row = mt_offers asked"
    by (rule enrolment_create_Some)
  then show thesis using that [of me row] h m shape rows by simp
qed

text \<open>What an authority answers a node that calls it at its address, and what the call leaves there.\<close>

definition called :: "net_env \<Rightarrow> net_db \<Rightarrow> string \<Rightarrow> string \<Rightarrow> string \<Rightarrow> arriving \<Rightarrow> accepted option" where
  "called e db here reached secret a =
    (if reached \<noteq> here then None else case fst (join_answer e secret a db) of Inr acc \<Rightarrow> Some acc | Inl _ \<Rightarrow> None)"

definition introduces :: "net_env \<Rightarrow> net_db \<Rightarrow> capability list \<Rightarrow> arriving" where
  "introduces m db agreed =
    \<lparr>ar_node = ''nd-'' @ ne_node_id m, ar_name = node_name m (node_domain (nt_grants db)), ar_key = snd (fst (keys_ensure m db)),
     ar_accepted = Some (map capability_name agreed), ar_ca = ne_ca m\<rparr>"

lemma keys_ensure_domain: "node_domain (nt_grants (snd (keys_ensure m db))) = node_domain (nt_grants db)"
proof -
  have "DOMAIN \<noteq> PRIVATE_KEY" by (simp add: DOMAIN_def PRIVATE_KEY_def)
  then have "setting_read (nt_grants (snd (keys_ensure m db))) DOMAIN = setting_read (nt_grants db) DOMAIN"
    by (auto simp: keys_ensure_def setting_read_def setting_write_def update_conv' split: option.split)
  then show ?thesis by (simp only: node_domain_def)
qed

lemma insert_pairs_distinct:
  "distinct names \<Longrightarrow> (\<forall>x\<in>set names. (node, x) \<notin> fst ` set rows) \<Longrightarrow> insert_pairs node now names rows \<noteq> None"
proof (induction names arbitrary: rows)
  case (Cons a names)
  then have "\<forall>x\<in>set names. (node, x) \<notin> fst ` set (rows @ [((node, a), now)])" by auto
  then show ?case using Cons.IH [of "rows @ [((node, a), now)]"] Cons.prems by simp
qed simp

lemma capability_grant_distinct: "distinct cs \<Longrightarrow> fst (capability_grant now node cs db)"
proof -
  assume cs: "distinct cs"
  let ?names = "map capability_name (filter (provides db) cs)"
  have "distinct ?names" using cs by (simp add: distinct_map inj_on_def)
  then have "replace_pairs node now ?names (node_grant db) \<noteq> None"
    unfolding replace_pairs_def by (intro insert_pairs_distinct) auto
  then show ?thesis by (auto simp: capability_grant_def)
qed

text \<open>The row an accepted node keeps of the authority, and how a machine with no rows comes to it.\<close>

definition authority_node :: "int \<Rightarrow> join_token \<Rightarrow> accepted \<Rightarrow> net_node" where
  "authority_node now t acc =
    \<lparr>nd_id = jt_authority t, nd_name = jt_name t, nd_kind = Public, endpoint = Some (jt_endpoint t), is_self = False,
     last_seen_at = Some now, allows = token_offers t, draining_at = None, node_capacity = None, nd_name_servers = None,
     overlay_ip = Some (jt_overlay t), public_key = Some (jt_key t), ca_pem = kept_pem (ac_ca acc), nd_lan = None,
     nd_usage = None, nd_version = None, nd_wanted = None, nd_note = None, nd_dial = None, nd_joined = now\<rparr>"

definition agreed_to :: "join_token \<Rightarrow> capability list option \<Rightarrow> capability list" where
  "agreed_to t accepting = (case accepting of
     Some chosen \<Rightarrow> filter (\<lambda>c. c \<in> set chosen) (token_requires t) | None \<Rightarrow> token_requires t)"

lemma net_save_first:
  "nt_nodes db = [] \<Longrightarrow> net_save now n db = (True, db\<lparr>nt_nodes := [saved_new now n]\<rparr>)"
  by (simp add: net_save_def address_held_def)

lemma net_save_second:
  "nt_nodes db = [s] \<Longrightarrow> nd_id s \<noteq> nd_id n \<Longrightarrow> overlay_ip s = None \<Longrightarrow> \<not> is_self n
    \<Longrightarrow> net_save now n db = (True, db\<lparr>nt_nodes := [s, saved_new now n]\<rparr>)"
  by (auto simp: net_save_def address_held_def)

lemma net_save_back:
  "nt_nodes db = [s, a] \<Longrightarrow> nd_id s = nd_id n \<Longrightarrow> nd_id a \<noteq> nd_id n \<Longrightarrow> overlay_ip a \<noteq> overlay_ip n
    \<Longrightarrow> net_save now n db = (True, db\<lparr>nt_nodes := [saved_over n s, a]\<rparr>)"
  by (auto simp: net_save_def address_held_def)

lemma a_fresh_machine_keeps:
  assumes fresh: "nt_nodes M = []" "nt_authorities M = []" and t: "token_decode w text = Inr t"
    and agreed: "distinct (agreed_to t accepting)" and other: "''nd-'' @ ne_node_id m \<noteq> jt_authority t"
    and answered: "announce (jt_endpoint t) (jt_secret t) (introduces m M (agreed_to t accepting)) = Some acc"
    and acc: "ac_authority acc = jt_authority t" "ac_overlay acc \<noteq> jt_overlay t"
  shows "\<exists>me M'. join_network m w announce text accepting M = (Inr (authority_node (ne_now m) t acc, me), M') \<and>
    nd_id me = ''nd-'' @ ne_node_id m \<and> overlay_ip me = Some (ac_overlay acc) \<and>
    public_key me = Some (snd (fst (keys_ensure m M))) \<and>
    node_find M' (jt_authority t) = Some (saved_new (ne_now m) (authority_node (ne_now m) t acc)) \<and>
    node_me M' = Some (saved_over me (saved_new (ne_now m) (self_row m (snd (keys_ensure m M))))) \<and>
    credential_for M' (jt_authority t) = Some (jt_secret t)"
proof -
  obtain k M1 where k: "keys_ensure m M = (k, M1)" by fastforce
  have M1: "nt_nodes M1 = []" "nt_authorities M1 = []" using keys_ensure_rows(1) [of m M] fresh k
    by (auto simp: keys_ensure_def split: option.splits)
  let ?s = "self_row m M1" and ?auth = "authority_node (ne_now m) t acc"
  have none: "node_me M1 = None" using M1 by (simp add: node_me_None)
  have self: "ensure_self m M1 = (Some ?s, M1\<lparr>nt_nodes := [saved_new (ne_now m) ?s]\<rparr>)"
    by (simp add: ensure_self_save net_save_first [OF M1(1)])
  have intro: "introduces m M (agreed_to t accepting) = \<lparr>ar_node = nd_id ?s, ar_name = nd_name ?s, ar_key = snd k,
      ar_accepted = Some (map capability_name (agreed_to t accepting)), ar_ca = ne_ca m\<rparr>"
    using keys_ensure_domain [of m M] by (simp add: introduces_def k none)
  have auth: "nd_id ?auth = jt_authority t" "overlay_ip ?auth = Some (jt_overlay t)" "\<not> is_self ?auth"
    by (simp_all add: authority_node_def)
  let ?M2 = "M1\<lparr>nt_nodes := [saved_new (ne_now m) ?s]\<rparr>"
  have second: "net_save (ne_now m) ?auth ?M2 = (True, ?M2\<lparr>nt_nodes := [saved_new (ne_now m) ?s, saved_new (ne_now m) ?auth]\<rparr>)"
    using other by (intro net_save_second) (simp_all add: auth none)
  let ?M3 = "?M2\<lparr>nt_nodes := [saved_new (ne_now m) ?s, saved_new (ne_now m) ?auth]\<rparr>"
  obtain gs where gs: "capability_grant (nat (ne_now m)) (jt_authority t) (agreed_to t accepting) (nt_grants ?M3) = (True, gs)"
    using capability_grant_distinct [OF agreed] by (metis prod.collapse)
  let ?M4 = "authority_grant m (jt_authority t) (jt_secret t) (?M3\<lparr>nt_grants := gs\<rparr>)"
  let ?me = "?s\<lparr>overlay_ip := Some (ac_overlay acc), public_key := Some (snd k)\<rparr>"
  have third: "net_save (ne_now m) ?me ?M4 = (True, ?M4\<lparr>nt_nodes := [saved_over ?me (saved_new (ne_now m) ?s), saved_new (ne_now m) ?auth]\<rparr>)"
    using other acc(2) by (intro net_save_back) (simp_all add: authority_grant_def Let_def auth none)
  let ?M5 = "?M4\<lparr>nt_nodes := [saved_over ?me (saved_new (ne_now m) ?s), saved_new (ne_now m) ?auth]\<rparr>"
  have join: "join_network m w announce text accepting M = (Inr (?auth, ?me), ?M5)"
  proof -
    have given: "announce (jt_endpoint t) (jt_secret t) \<lparr>ar_node = nd_id ?s, ar_name = nd_name ?s, ar_key = snd k,
      ar_accepted = Some (map capability_name (agreed_to t accepting)), ar_ca = ne_ca m\<rparr> = Some acc"
      using answered unfolding intro .
    have same: "(ac_authority acc \<noteq> jt_authority t) = False" using acc(1) by simp
    show ?thesis
      unfolding join_network_def t sum.case agreed_to_def [symmetric] Let_def k prod.case self option.case given same if_False
        authority_node_def [symmetric] second
      by (simp only: prod.case not_True_eq_False if_False if_True gs third)
  qed
  show ?thesis
  proof (intro exI [of _ ?me] exI [of _ ?M5] conjI)
    show "node_find ?M5 (jt_authority t) = Some (saved_new (ne_now m) ?auth)"
      using other by (simp add: node_find_def auth none)
    show "node_me ?M5 = Some (saved_over ?me (saved_new (ne_now m) (self_row m (snd (keys_ensure m M)))))"
      by (simp add: node_me_def linked_me_def k)
    show "credential_for ?M5 (jt_authority t) = Some (jt_secret t)"
      using M1(2) by (simp add: credential_for_def authority_grant_def Let_def)
  qed (simp_all add: join k none)
qed

lemma let_in_me:
  assumes "node_me db = Some me" "ar_node a \<noteq> nd_id me"
  shows "node_me (let_in e a db r) = Some me"
proof -
  have "node_me (snd (net_save (ne_now e) (arriving_row (ne_now e) a (node_find db (ar_node a)) r) (snd (spend e (en_id r) (ar_node a) db)))) = Some me"
    by (rule node_me_save_other [OF _ assms(1)]) (simp_all add: assms(2))
  then show ?thesis by (simp add: let_in_def Let_def node_me_def)
qed


lemma demo_wire_sound: "wire_sound demo_wire"
  by (simp add: wire_sound_def demo_wire_def demo_take_put of_letters_letters letters_plain)

definition demo_text :: string where
  "demo_text = (case fst (node_user_mint_join_token (net_demo_env 7 ''d'' ''z'') demo_wire demo_admin demo_request demo_network) of
     Inr s \<Rightarrow> s | Inl _ \<Rightarrow> [])"

definition demo_other :: net_db where
  "demo_other = snd (node_user_mint_join_token (net_demo_env 7 ''d'' ''z'') demo_wire demo_admin demo_request demo_network)"

definition demo_token :: join_token where
  "demo_token = (case token_decode demo_wire demo_text of Inr t \<Rightarrow> t
     | Inl _ \<Rightarrow> \<lparr>jt_authority = [], jt_name = [], jt_endpoint = [], jt_key = [], jt_overlay = [], jt_assigned = [],
         jt_secret = [], jt_requires = None, jt_offers = None\<rparr>)"


end
