(* ===== verification/Learning.thy ===== *)
theory Learning
  imports Enrolling
begin

text \<open>
  What hearing a roster achieves (infra/network/roster.rs): every member is known as the authority
  knows it unless its address is another's here, nothing else is touched, and an address stays one
  node's.
\<close>

definition knows_as :: "roster_member \<Rightarrow> net_node \<Rightarrow> bool" where
  "knows_as m n \<longleftrightarrow> nd_id n = mb_node m \<and> nd_name n = mb_name m \<and> nd_kind n = roster_kind m \<and> endpoint n = mb_endpoint m \<and>
    public_key n = Some (mb_key m) \<and> overlay_ip n = Some (mb_overlay m) \<and> (mb_ca m \<noteq> None \<longrightarrow> ca_pem n \<noteq> None)"

text \<open>What no roster decides: what the node is for this one, and what was agreed with it.\<close>

definition own_side :: "net_node \<Rightarrow> bool \<times> capability list \<times> int option \<times> string option \<times> string option \<times> int option" where
  "own_side n = (is_self n, allows n, draining_at n, nd_wanted n, nd_dial n, last_seen_at n)"

text \<open>An authority is spoken for by itself: a roster gives it no more than a missing anchor and its names.\<close>

definition authority_side :: "net_node \<Rightarrow> string \<times> node_kind \<times> string option \<times> string option \<times> string option" where
  "authority_side n = (nd_name n, nd_kind n, endpoint n, public_key n, overlay_ip n)"

lemma node_find_map:
  "(\<And>r. nd_id (f r) = nd_id r) \<Longrightarrow> node_find (db\<lparr>nt_nodes := map f (nt_nodes db)\<rparr>) i = map_option f (node_find db i)"
  by (simp add: node_find_def find_map_id)

lemma node_find_edit:
  "(\<And>r. nd_id (f r) = nd_id r) \<Longrightarrow> node_find (edit_nodes hit f db) i = map_option (\<lambda>r. if hit r then f r else r) (node_find db i)"
  unfolding edit_nodes_def by (rule node_find_map) simp

lemma node_find_lan:
  "node_find (db\<lparr>nt_nodes := lan_remember j held (nt_nodes db)\<rparr>) i =
    map_option (\<lambda>n. if nd_id n = j then n\<lparr>nd_lan := Some (join_with '','' held)\<rparr> else n) (node_find db i)"
  unfolding lan_remember_def by (rule node_find_map) simp

definition harmless :: "roster_member \<Rightarrow> (net_node \<Rightarrow> net_node) \<Rightarrow> bool" where
  "harmless m f \<longleftrightarrow> (\<forall>r. own_side (f r) = own_side r \<and> authority_side (f r) = authority_side r \<and> ca_pem (f r) = ca_pem r \<and>
    nd_id (f r) = nd_id r \<and> nd_lan (f r) = nd_lan r \<and> (nd_id r \<noteq> mb_node m \<longrightarrow> f r = r))"

lemma harmlessD:
  assumes "harmless m f"
  shows "own_side (f r) = own_side r" "authority_side (f r) = authority_side r" "ca_pem (f r) = ca_pem r" "nd_id (f r) = nd_id r"
    "nd_lan (f r) = nd_lan r" "nd_id r \<noteq> mb_node m \<Longrightarrow> f r = r" "knows_as m' (f r) = knows_as m' r"
  using assms by (auto simp: harmless_def knows_as_def authority_side_def)

lemma roster_renamed_find: "\<exists>f. harmless m f \<and> (\<forall>i. node_find (snd (roster_renamed m db)) i = map_option f (node_find db i))"
proof (cases "mb_name_servers m")
  case None
  then show ?thesis by (intro exI [of _ id]) (simp add: roster_renamed_def option.map_id0 harmless_def)
next
  case (Some names)
  let ?said = "Some (join_with '','' (name_servers_kept names))"
  let ?f = "\<lambda>n :: net_node. if nd_id n = mb_node m \<and> nd_name_servers n \<noteq> ?said then n\<lparr>nd_name_servers := ?said\<rparr> else n"
  have "node_find (snd (roster_renamed m db)) i = map_option ?f (node_find db i)" for i
    using Some by (simp add: roster_renamed_def remember_names_def Let_def node_find_map)
  moreover have "harmless m ?f" by (simp add: harmless_def own_side_def authority_side_def)
  ultimately show ?thesis by blast
qed

lemma roster_remember_other: "i \<noteq> mb_node m \<Longrightarrow> node_find (snd (roster_remember now m db)) i = node_find db i"
proof -
  assume i: "i \<noteq> mb_node m"
  have grown: "node_find (db\<lparr>nt_nodes := nt_nodes db @ [n]\<rparr>) i = node_find db i" if "nd_id n = mb_node m" for n
  proof -
    have "List.find P (xs @ [x]) = List.find P xs" if "\<not> P x" for P :: "net_node \<Rightarrow> bool" and xs x
      using that by (induction xs) auto
    then show ?thesis using i that by (simp add: node_find_def)
  qed
  show ?thesis
    using i by (cases "node_find db i")
      (auto simp: roster_remember_def Let_def node_find_edit grown dest: node_find_SomeD)
qed

lemma roster_remember_find:
  "\<exists>n. node_find (snd (roster_remember now m db)) (mb_node m) = Some n \<and> knows_as m n \<and>
    (\<forall>k. node_find db (mb_node m) = Some k \<longrightarrow> own_side n = own_side k)"
proof (cases "node_find db (mb_node m)")
  case None
  then have none: "\<not> list_ex (\<lambda>r. nd_id r = mb_node m) (nt_nodes db)" by (simp add: node_find_None list_ex_iff)
  have "List.find P (xs @ [x]) = Some x" if "\<not> list_ex P xs" "P x" for P :: "net_node \<Rightarrow> bool" and xs x
    using that by (induction xs) auto
  from this [OF none] show ?thesis
    using none None by (simp add: roster_remember_def Let_def node_find_def knows_as_def)
next
  case (Some k)
  then have known: "list_ex (\<lambda>r. nd_id r = mb_node m) (nt_nodes db)" using node_find_SomeD by (fastforce simp: list_ex_iff)
  have "nd_id k = mb_node m" using node_find_SomeD [OF Some] by simp
  then show ?thesis using known Some
    by (auto simp: roster_remember_def Let_def node_find_edit knows_as_def roster_differs_def own_side_def or_else_def split: option.splits)
qed

text \<open>The four ways a member is taken.\<close>

definition taken_by_another :: "net_db \<Rightarrow> roster_member \<Rightarrow> bool" where
  "taken_by_another db m \<longleftrightarrow> (case roster_holder_of db (mb_overlay m) of Some held \<Rightarrow> held \<noteq> mb_node m | None \<Rightarrow> False)"

definition learned_rows :: "int \<Rightarrow> roster_member \<Rightarrow> net_db \<Rightarrow> net_db" where
  "learned_rows now m db =
    (let db = snd (roster_remember now m db);
         db = db\<lparr>nt_nodes := lan_remember (mb_node m) (mb_lan m) (nt_nodes db)\<rparr> in
     snd (roster_renamed m db))"

definition anchored_rows :: "roster_member \<Rightarrow> net_db \<Rightarrow> net_db" where
  "anchored_rows m db =
    snd (roster_renamed m (case mb_ca m of Some ca \<Rightarrow> snd (fill_missing_anchor (mb_node m) ca db) | None \<Rightarrow> db))"

lemma apply_member_cases:
  obtains (me) "Some (mb_node m) = me" "snd (apply_member now me auths m (a, db)) = db"
      "ap_conflicts (fst (apply_member now me auths m (a, db))) = ap_conflicts a"
  | (authority) "Some (mb_node m) \<noteq> me" "mb_node m \<in> set auths" "snd (apply_member now me auths m (a, db)) = anchored_rows m db"
      "ap_conflicts (fst (apply_member now me auths m (a, db))) = ap_conflicts a"
  | (conflict) "Some (mb_node m) \<noteq> me" "mb_node m \<notin> set auths" "taken_by_another db m" "snd (apply_member now me auths m (a, db)) = db"
      "ap_conflicts (fst (apply_member now me auths m (a, db))) = ap_conflicts a @ [(mb_node m, mb_overlay m)]"
  | (learned) "Some (mb_node m) \<noteq> me" "mb_node m \<notin> set auths" "\<not> taken_by_another db m"
      "snd (apply_member now me auths m (a, db)) = learned_rows now m db"
      "ap_conflicts (fst (apply_member now me auths m (a, db))) = ap_conflicts a"
proof -
  consider "Some (mb_node m) = me" | "Some (mb_node m) \<noteq> me" "mb_node m \<in> set auths"
    | "Some (mb_node m) \<noteq> me" "mb_node m \<notin> set auths" "taken_by_another db m"
    | "Some (mb_node m) \<noteq> me" "mb_node m \<notin> set auths" "\<not> taken_by_another db m"
    by blast
  then show thesis
  proof cases
    case 1
    then show thesis by (intro me) (simp_all add: apply_member_def)
  next
    case 2
    then show thesis
      by (intro authority) (auto simp: apply_member_def anchored_rows_def Let_def case_prod_beta split: option.split)
  next
    case 3
    then show thesis by (intro conflict) (simp_all add: apply_member_def taken_by_another_def)
  next
    case 4
    then show thesis
      by (intro learned) (simp_all add: apply_member_def taken_by_another_def learned_rows_def Let_def case_prod_beta)
  qed
qed

lemma learned_rows_find:
  "i \<noteq> mb_node m \<Longrightarrow> node_find (learned_rows now m db) i = node_find db i"
  "\<exists>n. node_find (learned_rows now m db) (mb_node m) = Some n \<and> knows_as m n \<and> nd_lan n = Some (join_with '','' (mb_lan m)) \<and>
    (\<forall>k. node_find db (mb_node m) = Some k \<longrightarrow> own_side n = own_side k)"
proof -
  let ?db = "snd (roster_remember now m db)"
  let ?lan = "?db\<lparr>nt_nodes := lan_remember (mb_node m) (mb_lan m) (nt_nodes ?db)\<rparr>"
  obtain f where h: "harmless m f" and "\<forall>i. node_find (snd (roster_renamed m ?lan)) i = map_option f (node_find ?lan i)"
    using roster_renamed_find by blast
  then have f: "node_find (snd (roster_renamed m ?lan)) i = map_option f (node_find ?lan i)" for i by blast
  have rows: "node_find (learned_rows now m db) j = map_option f (map_option
      (\<lambda>n. if nd_id n = mb_node m then n\<lparr>nd_lan := Some (join_with '','' (mb_lan m))\<rparr> else n) (node_find ?db j))" for j
    unfolding learned_rows_def Let_def f node_find_lan ..
  show "node_find (learned_rows now m db) i = node_find db i" if "i \<noteq> mb_node m"
    using that by (cases "node_find db i") (auto simp: rows roster_remember_other harmlessD(6) [OF h] dest: node_find_SomeD)
  obtain n where n: "node_find ?db (mb_node m) = Some n" "knows_as m n" "\<forall>k. node_find db (mb_node m) = Some k \<longrightarrow> own_side n = own_side k"
    using roster_remember_find by blast
  let ?n = "n\<lparr>nd_lan := Some (join_with '','' (mb_lan m))\<rparr>"
  have "knows_as m ?n" "own_side ?n = own_side n" "nd_id n = mb_node m" using n(2) by (simp_all add: knows_as_def own_side_def)
  then show "\<exists>n. node_find (learned_rows now m db) (mb_node m) = Some n \<and> knows_as m n \<and> nd_lan n = Some (join_with '','' (mb_lan m)) \<and>
    (\<forall>k. node_find db (mb_node m) = Some k \<longrightarrow> own_side n = own_side k)"
    using n by (intro exI [of _ "f ?n"]) (simp add: rows harmlessD(1,5,7) [OF h])
qed

lemma anchored_rows_find:
  "i \<noteq> mb_node m \<Longrightarrow> node_find (anchored_rows m db) i = node_find db i"
  "node_find db i = Some k \<Longrightarrow> \<exists>n. node_find (anchored_rows m db) i = Some n \<and> own_side n = own_side k \<and>
    authority_side n = authority_side k \<and> (ca_pem k \<notin> {None, Some []} \<longrightarrow> ca_pem n = ca_pem k)"
  "node_find db i = None \<Longrightarrow> node_find (anchored_rows m db) i = None"
proof -
  let ?db = "case mb_ca m of Some ca \<Rightarrow> snd (fill_missing_anchor (mb_node m) ca db) | None \<Rightarrow> db"
  obtain f where h: "harmless m f" and "\<forall>i. node_find (snd (roster_renamed m ?db)) i = map_option f (node_find ?db i)"
    using roster_renamed_find by blast
  then have f: "node_find (snd (roster_renamed m ?db)) i = map_option f (node_find ?db i)" for i by blast
  let ?g = "\<lambda>r :: net_node. case mb_ca m of Some ca \<Rightarrow>
      if nd_id r = mb_node m \<and> (ca_pem r = None \<or> ca_pem r = Some []) then r\<lparr>ca_pem := Some ca\<rparr> else r | None \<Rightarrow> r"
  have "node_find ?db j = map_option ?g (node_find db j)" for j
    by (simp add: fill_missing_anchor_def Let_def node_find_edit option.map_ident split: option.split)
  then have rows: "node_find (anchored_rows m db) j = map_option f (map_option ?g (node_find db j))" for j
    unfolding anchored_rows_def f by simp
  have g: "own_side (?g r) = own_side r" "authority_side (?g r) = authority_side r"
    "ca_pem r \<notin> {None, Some []} \<longrightarrow> ca_pem (?g r) = ca_pem r" "nd_id (?g r) = nd_id r" for r
    by (auto simp: own_side_def authority_side_def split: option.split)
  have same: "?g r = r" if "nd_id r \<noteq> mb_node m" for r using that by (simp split: option.split)
  show "node_find (anchored_rows m db) i = node_find db i" if "i \<noteq> mb_node m"
  proof (cases "node_find db i")
    case (Some k)
    then have "nd_id k \<noteq> mb_node m" using that node_find_SomeD by blast
    then have "?g k = k" "f k = k" using same harmlessD(6) [OF h] by blast+
    then show ?thesis unfolding rows Some option.map by simp
  qed (simp add: rows)
  show "\<exists>n. node_find (anchored_rows m db) i = Some n \<and> own_side n = own_side k \<and>
    authority_side n = authority_side k \<and> (ca_pem k \<notin> {None, Some []} \<longrightarrow> ca_pem n = ca_pem k)"
    if "node_find db i = Some k"
    using g [of k] by (intro exI [of _ "f (?g k)"]) (simp only: rows that option.map harmlessD(1-3) [OF h] simp_thms)
  show "node_find (anchored_rows m db) i = None" if "node_find db i = None" using that by (simp add: rows)
qed

lemma nodes_sound_learned:
  assumes sound: "nodes_sound (nt_nodes db)" and free: "\<not> taken_by_another db m"
  shows "nodes_sound (nt_nodes (learned_rows now m db))"
proof -
  have held: "\<not> address_held (mb_node m) (Some (mb_overlay m)) (nt_nodes db)"
  proof
    assume "address_held (mb_node m) (Some (mb_overlay m)) (nt_nodes db)"
    then obtain n where n: "n \<in> set (nt_nodes db)" "nd_id n \<noteq> mb_node m" "overlay_ip n = Some (mb_overlay m)"
      by (auto simp: address_held_def list_ex_iff)
    then obtain k where k: "List.find (\<lambda>n. overlay_ip n = Some (mb_overlay m)) (nt_nodes db) = Some k"
      by (fastforce simp: find_None_iff)
    then have "nd_id k = mb_node m" using free by (simp add: taken_by_another_def roster_holder_of_def)
    moreover have "nd_id n = nd_id k" using find_SomeD [OF k] n by (intro nodes_soundD(2) [OF sound]) auto
    ultimately show False using n(2) by simp
  qed
  have remembered: "nodes_sound (nt_nodes (snd (roster_remember now m db)))"
  proof (cases "list_ex (\<lambda>r. nd_id r = mb_node m) (nt_nodes db)")
    case True
    obtain n :: net_node where n: "nd_id n = mb_node m" "overlay_ip n = Some (mb_overlay m)"
      using roster_remember_find unfolding knows_as_def by blast
    show ?thesis using True unfolding roster_remember_def Let_def edit_nodes_def
      by simp (rule nodes_sound_over [OF sound, of n], use held n in \<open>auto simp: roster_differs_def\<close>)
  next
    case False
    then have "mb_node m \<notin> nd_id ` set (nt_nodes db)" by (auto simp: list_ex_iff)
    with False show ?thesis unfolding roster_remember_def Let_def
      by simp (rule nodes_sound_new [OF sound], use held in simp_all)
  qed
  let ?db = "snd (roster_remember now m db)"
  have lan: "nodes_sound (lan_remember (mb_node m) (mb_lan m) (nt_nodes ?db))"
    unfolding lan_remember_def by (rule nodes_sound_map [OF remembered]) simp_all
  have "nodes_sound (nt_nodes (snd (roster_renamed m d)))" if "nodes_sound (nt_nodes d)" for d
    using that unfolding roster_renamed_def remember_names_def Let_def
    by (cases "mb_name_servers m") (simp_all add: nodes_sound_map)
  with lan show ?thesis by (simp add: learned_rows_def Let_def)
qed

lemma nodes_sound_anchored: "nodes_sound (nt_nodes db) \<Longrightarrow> nodes_sound (nt_nodes (anchored_rows m db))"
  unfolding anchored_rows_def roster_renamed_def remember_names_def fill_missing_anchor_def edit_nodes_def Let_def
  by (cases "mb_name_servers m"; cases "mb_ca m") (simp_all add: nodes_sound_map)

section \<open>A roster is learned\<close>

text \<open>What one member's turn keeps of what was known, for this node's own row and for its authorities.\<close>

definition kept_node :: "string option \<Rightarrow> string list \<Rightarrow> net_node \<Rightarrow> net_node \<Rightarrow> bool" where
  "kept_node me auths k n \<longleftrightarrow> own_side n = own_side k \<and> (Some (nd_id k) = me \<longrightarrow> n = k) \<and>
    (nd_id k \<in> set auths \<longrightarrow> authority_side n = authority_side k \<and> (ca_pem k \<notin> {None, Some []} \<longrightarrow> ca_pem n = ca_pem k))"

lemma kept_node_refl: "kept_node me auths k k"
  by (simp add: kept_node_def)

lemma kept_node_trans: "nd_id n = nd_id k \<Longrightarrow> kept_node me auths k n \<Longrightarrow> kept_node me auths n p \<Longrightarrow> kept_node me auths k p"
  by (auto simp: kept_node_def)

lemma apply_member_keeps:
  assumes "node_find db i = Some k"
  shows "\<exists>n. node_find (snd (apply_member now me auths m (a, db))) i = Some n \<and> kept_node me auths k n"
proof (cases rule: apply_member_cases [of m me now auths a db])
  case authority
  then show ?thesis
    using anchored_rows_find(1) [of i m db] anchored_rows_find(2) [OF assms, of m] assms node_find_SomeD [OF assms] kept_node_refl
    by (cases "i = mb_node m") (auto simp: kept_node_def)
next
  case learned
  show ?thesis
  proof (cases "i = mb_node m")
    case True
    obtain n where "node_find (learned_rows now m db) (mb_node m) = Some n" "own_side n = own_side k"
      using learned_rows_find(2) [of now m db] assms True by blast
    then show ?thesis using learned True node_find_SomeD [OF assms] by (auto simp: kept_node_def)
  qed (use learned learned_rows_find(1) assms kept_node_refl in auto)
qed (use assms kept_node_refl in auto)

lemma apply_member_other:
  "i \<noteq> mb_node m \<Longrightarrow> node_find (snd (apply_member now me auths m (a, db))) i = node_find db i"
  by (cases rule: apply_member_cases [of m me now auths a db]) (simp_all add: anchored_rows_find(1) learned_rows_find(1))

lemma apply_member_learns:
  assumes "Some (mb_node m) \<noteq> me" "mb_node m \<notin> set auths"
    "(mb_node m, mb_overlay m) \<notin> set (ap_conflicts (fst (apply_member now me auths m (a, db))))"
  shows "\<exists>n. node_find (snd (apply_member now me auths m (a, db))) (mb_node m) = Some n \<and> knows_as m n"
  using assms learned_rows_find(2) [of now m db] by (cases rule: apply_member_cases [of m me now auths a db]) auto

lemma apply_member_sound:
  "nodes_sound (nt_nodes db) \<Longrightarrow> nodes_sound (nt_nodes (snd (apply_member now me auths m (a, db))))"
  by (cases rule: apply_member_cases [of m me now auths a db]) (simp_all add: nodes_sound_anchored nodes_sound_learned)

lemma apply_member_conflicts: "set (ap_conflicts a) \<subseteq> set (ap_conflicts (fst (apply_member now me auths m (a, db))))"
  by (cases rule: apply_member_cases [of m me now auths a db]) auto

lemma fold_other:
  "i \<notin> mb_node ` set ms \<Longrightarrow> node_find (snd (fold (apply_member now me auths) ms s)) i = node_find (snd s) i"
proof (induction ms arbitrary: s)
  case (Cons p ms)
  then show ?case using apply_member_other [of i p now me auths "fst s" "snd s"] by simp
qed simp

lemma fold_conflicts: "set (ap_conflicts (fst s)) \<subseteq> set (ap_conflicts (fst (fold (apply_member now me auths) ms s)))"
proof (induction ms arbitrary: s)
  case (Cons p ms)
  show ?case using Cons [of "apply_member now me auths p s"] apply_member_conflicts [of "fst s" now me auths p "snd s"] by auto
qed simp

lemma fold_sound: "nodes_sound (nt_nodes (snd s)) \<Longrightarrow> nodes_sound (nt_nodes (snd (fold (apply_member now me auths) ms s)))"
proof (induction ms arbitrary: s)
  case (Cons p ms)
  then show ?case using apply_member_sound [of "snd s" now me auths p "fst s"] by simp
qed simp

lemma fold_keeps:
  "node_find (snd s) i = Some k \<Longrightarrow> \<exists>n. node_find (snd (fold (apply_member now me auths) ms s)) i = Some n \<and> kept_node me auths k n"
proof (induction ms arbitrary: s k)
  case (Cons p ms)
  obtain n where n: "node_find (snd (apply_member now me auths p s)) i = Some n" "kept_node me auths k n"
    using apply_member_keeps [OF Cons.prems, of now me auths p "fst s"] by auto
  obtain q where "node_find (snd (fold (apply_member now me auths) ms (apply_member now me auths p s))) i = Some q" "kept_node me auths n q"
    using Cons.IH [OF n(1)] by blast
  then show ?case using kept_node_trans [OF _ n(2)] node_find_SomeD [OF Cons.prems] node_find_SomeD [OF n(1)] by auto
qed (simp add: kept_node_refl)

lemma fold_learns:
  assumes "distinct (map mb_node ms)" "m \<in> set ms" "Some (mb_node m) \<noteq> me" "mb_node m \<notin> set auths"
    "(mb_node m, mb_overlay m) \<notin> set (ap_conflicts (fst (fold (apply_member now me auths) ms s)))"
  shows "\<exists>n. node_find (snd (fold (apply_member now me auths) ms s)) (mb_node m) = Some n \<and> knows_as m n"
  using assms
proof (induction ms arbitrary: s)
  case (Cons p ms)
  let ?s = "apply_member now me auths p s"
  show ?case
  proof (cases "m \<in> set ms")
    case False
    then have m: "m = p" "mb_node m \<notin> mb_node ` set ms" using Cons.prems(1,2) by auto
    have "(mb_node p, mb_overlay p) \<notin> set (ap_conflicts (fst ?s))"
      using Cons.prems(5) fold_conflicts [of ?s now me auths ms] m(1) by auto
    then show ?thesis
      using apply_member_learns [of p me auths now "fst s" "snd s"] Cons.prems(3,4) m fold_other [OF m(2), of now me auths ?s] by simp
  qed (use Cons in simp)
qed simp


section \<open>The nodes of an authority know each other\<close>

definition known_addresses :: "net_db \<Rightarrow> net_db \<Rightarrow> bool" where
  "known_addresses A db \<longleftrightarrow>
    (\<forall>k\<in>set (nt_nodes db). overlay_ip k \<noteq> None \<longrightarrow> (\<exists>n. node_find A (nd_id k) = Some n \<and> overlay_ip n = overlay_ip k))"

definition member_of :: "net_db \<Rightarrow> roster_member \<Rightarrow> bool" where
  "member_of A m \<longleftrightarrow> (\<exists>n. node_find A (mb_node m) = Some n \<and> nd_name n = mb_name m \<and> endpoint n = mb_endpoint m \<and>
    public_key n = Some (mb_key m) \<and> overlay_ip n = Some (mb_overlay m))"

lemma nodes_sorted_set [simp]: "set (nodes_sorted db) = set (nt_nodes db)"
  by (simp add: nodes_sorted_def linked_all_def)

definition roster_entry :: "net_env \<Rightarrow> net_db \<Rightarrow> net_node \<Rightarrow> roster_member option" where
  "roster_entry e A n = (case (overlay_ip n, public_key n) of
     (Some ip, Some key) \<Rightarrow> Some \<lparr>mb_node = nd_id n, mb_name = nd_name n, mb_overlay = ip, mb_key = key,
       mb_ca = (if is_self n then ne_ca e else ca_pem n), mb_endpoint = endpoint n,
       mb_lan = (case if map_option nd_id (node_me A) = Some (nd_id n) then Some (ne_lan e)
           else map_option (map (\<lambda>(a, b, c, d). show_ipv4 a b c d)) (map_of (lan_of_every_node (nt_nodes A)) (nd_id n)) of
         Some l \<Rightarrow> l | None \<Rightarrow> []),
       mb_name_servers = (if map_option nd_id (node_me A) = Some (nd_id n) then Some (of_this_node (nt_grants A))
         else said_by_others (nt_nodes A) (nd_id n))\<rparr>
   | _ \<Rightarrow> None)"

lemma roster_entries:
  "roster_of_this_node e A = List.map_filter (roster_entry e A)
    (filter (\<lambda>n. is_self n \<or> nd_id n \<in> set (List.map_filter en_used_by (enrolments_all A))) (nodes_sorted A))"
proof -
  have "roster_entry e A = (\<lambda>n. roster_entry e A n)" ..
  then show ?thesis unfolding roster_of_this_node_def Let_def roster_entry_def by simp
qed

lemma roster_entry_Some:
  assumes "roster_entry e A n = Some m"
  shows "mb_node m = nd_id n" "nd_name n = mb_name m" "endpoint n = mb_endpoint m" "public_key n = Some (mb_key m)"
    "overlay_ip n = Some (mb_overlay m)"
proof -
  from assms obtain ip key where "overlay_ip n = Some ip" "public_key n = Some key"
    by (cases "overlay_ip n"; cases "public_key n") (auto simp: roster_entry_def)
  then show "mb_node m = nd_id n" "nd_name n = mb_name m" "endpoint n = mb_endpoint m" "public_key n = Some (mb_key m)"
    "overlay_ip n = Some (mb_overlay m)"
    using assms by (auto simp: roster_entry_def)
qed

lemma roster_entry_None: "roster_entry e A n = None \<longleftrightarrow> overlay_ip n = None \<or> public_key n = None"
  by (simp add: roster_entry_def split: option.splits)

lemma roster_members:
  assumes sound: "net_sound A"
  shows "\<forall>m\<in>set (roster_of_this_node e A). member_of A m" "distinct (map mb_node (roster_of_this_node e A))"
    and "n \<in> set (nt_nodes A) \<Longrightarrow> is_self n \<or> Some (nd_id n) \<in> en_used_by ` set (nt_enrolments A) \<Longrightarrow> public_key n \<noteq> None
      \<Longrightarrow> overlay_ip n \<noteq> None \<Longrightarrow> \<exists>m\<in>set (roster_of_this_node e A). mb_node m = nd_id n"
proof -
  have nodes: "nodes_sound (nt_nodes A)" using sound by (simp add: net_sound_def)
  note def = roster_entries
  show "\<forall>m\<in>set (roster_of_this_node e A). member_of A m"
  proof
    fix m assume "m \<in> set (roster_of_this_node e A)"
    then obtain n where n: "n \<in> set (nt_nodes A)" and m: "roster_entry e A n = Some m"
      unfolding def set_map_filter by auto
    show "member_of A m" using node_find_sound [OF nodes n] roster_entry_Some [OF m] unfolding member_of_def by auto
  qed
  have ids: "map mb_node (List.map_filter f rows) = map nd_id (filter (\<lambda>n. f n \<noteq> None) rows)"
    if "\<And>n m. f n = Some m \<Longrightarrow> mb_node m = nd_id n" for f and rows :: "net_node list"
    using that by (induction rows) (auto simp: map_filter_simps split: option.splits)
  have "distinct (map nd_id (nodes_sorted A))"
    using nodes_soundD(1) [OF nodes] unfolding nodes_sorted_def linked_all_def
    by (simp add: distinct_map)
  then show "distinct (map mb_node (roster_of_this_node e A))"
    unfolding def by (subst ids) (auto simp: distinct_map_filter dest: roster_entry_Some(1))
  show "\<exists>m\<in>set (roster_of_this_node e A). mb_node m = nd_id n"
    if n: "n \<in> set (nt_nodes A)" "is_self n \<or> Some (nd_id n) \<in> en_used_by ` set (nt_enrolments A)" "public_key n \<noteq> None" "overlay_ip n \<noteq> None"
  proof -
    have used: "is_self n \<or> nd_id n \<in> set (List.map_filter en_used_by (enrolments_all A))"
      using n(2) by (auto simp: set_map_filter enrolments_all_def image_iff)
    obtain m where m: "roster_entry e A n = Some m" using n(3,4) roster_entry_None by (cases "roster_entry e A n") auto
    moreover have "n \<in> set (filter (\<lambda>n. is_self n \<or> nd_id n \<in> set (List.map_filter en_used_by (enrolments_all A))) (nodes_sorted A))"
      using n(1) used by simp
    ultimately have "m \<in> set (roster_of_this_node e A)" unfolding def by (subst set_map_filter) blast
    then show ?thesis using roster_entry_Some(1) [OF m] by blast
  qed
qed

lemma addresses_of_find:
  "nodes_sound (nt_nodes db) \<Longrightarrow> known_addresses A db \<longleftrightarrow> (\<forall>i k. node_find db i = Some k \<longrightarrow> overlay_ip k \<noteq> None
    \<longrightarrow> (\<exists>n. node_find A i = Some n \<and> overlay_ip n = overlay_ip k))"
  (is "?sound \<Longrightarrow> _ \<longleftrightarrow> ?find")
proof
  assume sound: ?sound and all: "known_addresses A db"
  show ?find
  proof (intro allI impI)
    fix i k assume "node_find db i = Some k" and ip: "overlay_ip k \<noteq> None"
    then have "k \<in> set (nt_nodes db)" "nd_id k = i" using node_find_SomeD by auto
    then show "\<exists>n. node_find A i = Some n \<and> overlay_ip n = overlay_ip k" using all ip by (auto simp: known_addresses_def)
  qed
next
  assume sound: ?sound and find: ?find
  show "known_addresses A db" unfolding known_addresses_def
  proof (intro ballI impI)
    fix k assume "k \<in> set (nt_nodes db)" and ip: "overlay_ip k \<noteq> None"
    then have "node_find db (nd_id k) = Some k" by (intro node_find_sound [OF sound])
    with find ip show "\<exists>n. node_find A (nd_id k) = Some n \<and> overlay_ip n = overlay_ip k" by blast
  qed
qed

lemma no_conflict:
  assumes A: "nodes_sound (nt_nodes A)" and db: "nodes_sound (nt_nodes db)" "known_addresses A db" and m: "member_of A m"
  shows "\<not> taken_by_another db m"
proof (cases "List.find (\<lambda>n. overlay_ip n = Some (mb_overlay m)) (nt_nodes db)")
  case (Some k)
  then have k: "k \<in> set (nt_nodes db)" "overlay_ip k = Some (mb_overlay m)" using find_SomeD [OF Some] by auto
  then obtain n where n: "node_find A (nd_id k) = Some n" "overlay_ip n = Some (mb_overlay m)" using db(2) by (auto simp: known_addresses_def)
  obtain q where q: "node_find A (mb_node m) = Some q" "overlay_ip q = Some (mb_overlay m)" using m by (auto simp: member_of_def)
  have "nd_id n = nd_id q" using node_find_SomeD [OF n(1)] node_find_SomeD [OF q(1)] n(2) q(2) by (intro nodes_soundD(2) [OF A]) auto
  then have "nd_id k = mb_node m" using node_find_SomeD [OF n(1)] node_find_SomeD [OF q(1)] by simp
  then show ?thesis using Some by (simp add: taken_by_another_def roster_holder_of_def)
qed (simp add: taken_by_another_def roster_holder_of_def)

lemma apply_member_addresses:
  assumes A: "nodes_sound (nt_nodes A)" and db: "nodes_sound (nt_nodes db)" "known_addresses A db" and m: "member_of A m"
  shows "known_addresses A (snd (apply_member now me auths m (a, db))) \<and>
    ap_conflicts (fst (apply_member now me auths m (a, db))) = ap_conflicts a"
proof -
  let ?db = "snd (apply_member now me auths m (a, db))"
  note free = no_conflict [OF assms]
  have sound: "nodes_sound (nt_nodes ?db)" by (rule apply_member_sound [OF db(1)])
  have find: "\<forall>i k. node_find db i = Some k \<longrightarrow> overlay_ip k \<noteq> None \<longrightarrow> (\<exists>n. node_find A i = Some n \<and> overlay_ip n = overlay_ip k)"
    using db addresses_of_find by blast
  have "\<exists>n. node_find A i = Some n \<and> overlay_ip n = overlay_ip k" if k: "node_find ?db i = Some k" "overlay_ip k \<noteq> None" for i k
  proof (cases rule: apply_member_cases [of m me now auths a db])
    case authority
    show ?thesis
    proof (cases "node_find db i")
      case (Some p)
      then have "overlay_ip k = overlay_ip p" using anchored_rows_find(2) [OF Some, of m] authority(3) k(1) by (auto simp: authority_side_def)
      then show ?thesis using find Some k(2) by auto
    next
      case None
      then show ?thesis using k(1) authority(3) anchored_rows_find(3) by simp
    qed
  next
    case learned
    show ?thesis
    proof (cases "i = mb_node m")
      case True
      then have "overlay_ip k = Some (mb_overlay m)" using learned_rows_find(2) [of now m db] learned(4) k(1) by (auto simp: knows_as_def)
      then show ?thesis using m True by (auto simp: member_of_def)
    next
      case False
      then show ?thesis using find learned(4) learned_rows_find(1) k by simp
    qed
  qed (use find k in simp_all)
  then have "known_addresses A ?db" using addresses_of_find [OF sound] by blast
  then show ?thesis using free by (cases rule: apply_member_cases [of m me now auths a db]) simp_all
qed

lemma fold_addresses:
  assumes "nodes_sound (nt_nodes A)" "nodes_sound (nt_nodes (snd s))" "known_addresses A (snd s)" "\<forall>m\<in>set ms. member_of A m"
  shows "ap_conflicts (fst (fold (apply_member now me auths) ms s)) = ap_conflicts (fst s)"
  using assms
proof (induction ms arbitrary: s)
  case (Cons m ms)
  have "known_addresses A (snd (apply_member now me auths m s)) \<and> ap_conflicts (fst (apply_member now me auths m s)) = ap_conflicts (fst s)"
    using apply_member_addresses [of A "snd s" m now me auths "fst s"] Cons.prems by simp
  moreover have "nodes_sound (nt_nodes (snd (apply_member now me auths m s)))"
    using apply_member_sound [of "snd s" now me auths m "fst s"] Cons.prems by simp
  ultimately show ?case using Cons.IH [of "apply_member now me auths m s"] Cons.prems by simp
qed simp

text \<open>
  Property C17. The nodes of an authority come to know each other: a node that knows nobody by another
  address than the authority does, and hears what the authority answers, has no conflict, and knows
  every node the authority enrolled and has a key and an address for, itself and its own authorities
  apart, by the name, the endpoint, the key and the address the authority has.
\<close>

theorem members_know_each_other:
  assumes A: "net_sound A" and M: "nodes_sound (nt_nodes M)" "known_addresses A M"
    and ran: "roster_apply now (roster_of_this_node e A) M = (a, M')"
  shows "ap_conflicts a = [] \<and>
    (\<forall>n\<in>set (nt_nodes A). Some (nd_id n) \<in> en_used_by ` set (nt_enrolments A) \<longrightarrow> public_key n \<noteq> None \<longrightarrow> overlay_ip n \<noteq> None \<longrightarrow>
      Some (nd_id n) \<noteq> map_option nd_id (node_me M) \<longrightarrow> nd_id n \<notin> au_node ` set (nt_authorities M) \<longrightarrow>
      (\<exists>k. node_find M' (nd_id n) = Some k \<and> nd_name k = nd_name n \<and> endpoint k = endpoint n \<and> public_key k = public_key n \<and>
        overlay_ip k = overlay_ip n))"
proof -
  let ?ms = "roster_of_this_node e A" and ?s = "(\<lparr>ap_changed = 0, ap_conflicts = [], ap_renamed = 0\<rparr>, M)"
  have nodes: "nodes_sound (nt_nodes A)" using A by (simp add: net_sound_def)
  note ms = roster_members [OF A]
  let ?run = "fold (apply_member now (map_option nd_id (node_me M)) (map au_node (authorities_all M))) ?ms ?s"
  have run: "?run = (a, M')" using ran by (simp add: roster_apply_def Let_def)
  have set: "set (map au_node (authorities_all M)) = au_node ` set (nt_authorities M)" by (simp add: authorities_all_def)
  have none: "ap_conflicts a = []"
    using fold_addresses [of A ?s ?ms now "map_option nd_id (node_me M)" "map au_node (authorities_all M)"] nodes M ms(1)
    unfolding run by simp
  moreover have "\<exists>k. node_find M' (nd_id n) = Some k \<and> nd_name k = nd_name n \<and> endpoint k = endpoint n \<and> public_key k = public_key n \<and>
      overlay_ip k = overlay_ip n"
    if n: "n \<in> set (nt_nodes A)" "Some (nd_id n) \<in> en_used_by ` set (nt_enrolments A)" "public_key n \<noteq> None" "overlay_ip n \<noteq> None"
      "Some (nd_id n) \<noteq> map_option nd_id (node_me M)" "nd_id n \<notin> au_node ` set (nt_authorities M)" for n
  proof -
    obtain m where m: "m \<in> set ?ms" "mb_node m = nd_id n" using ms(3) n(1-4) by blast
    have "\<exists>k. node_find M' (mb_node m) = Some k \<and> knows_as m k"
      using fold_learns [OF ms(2) m(1), of "map_option nd_id (node_me M)" "map au_node (authorities_all M)" now ?s] m(2) n(5,6) none
      unfolding run set by simp
    moreover have "member_of A m" using ms(1) m(1) by blast
    then have "nd_name n = mb_name m" "endpoint n = mb_endpoint m" "public_key n = Some (mb_key m)" "overlay_ip n = Some (mb_overlay m)"
      using node_find_sound [OF nodes n(1)] m(2) by (auto simp: member_of_def)
    ultimately show ?thesis using m(2) by (auto simp: knows_as_def)
  qed
  ultimately show ?thesis by blast
qed

section \<open>Two nodes of one authority\<close>

text \<open>An authority \<open>nd-a\<close> that enrolled two nodes, and the second of them, which has not heard of the first.\<close>

definition demo_peer :: "string \<Rightarrow> string \<Rightarrow> string \<Rightarrow> bool \<Rightarrow> net_node" where
  "demo_peer i name ip self = \<lparr>nd_id = i, nd_name = name, nd_kind = Private, endpoint = None, is_self = self,
    last_seen_at = None, allows = [Host], draining_at = None, node_capacity = None, nd_name_servers = None,
    overlay_ip = Some ip, public_key = Some (CHR ''k'' # name), ca_pem = None, nd_lan = None, nd_usage = None,
    nd_version = None, nd_wanted = None, nd_note = None, nd_dial = None, nd_joined = 1\<rparr>"

definition demo_enrolment :: "string \<Rightarrow> string \<Rightarrow> string \<Rightarrow> enrolment_row" where
  "demo_enrolment i ip node = \<lparr>en_id = i, en_name = i, en_overlay = ip, en_created = 1, en_expires = 2, en_used_at = Some 1,
    en_used_by = Some node, en_offers = [], en_hash = i, en_by = ''ac-1'', en_requires = []\<rparr>"

definition demo_authority :: net_db where
  "demo_authority = demo_bare\<lparr>
    nt_nodes := [demo_peer ''nd-a'' ''a'' ''10.42.0.1'' True, demo_peer ''nd-b'' ''b'' ''10.42.0.2'' False,
      demo_peer ''nd-c'' ''c'' ''10.42.0.3'' False],
    nt_enrolments := [demo_enrolment ''e1'' ''10.42.0.2'' ''nd-b'', demo_enrolment ''e2'' ''10.42.0.3'' ''nd-c'']\<rparr>"

definition demo_joined :: net_db where
  "demo_joined = demo_bare\<lparr>
    nt_nodes := [demo_peer ''nd-c'' ''c'' ''10.42.0.3'' True, demo_peer ''nd-a'' ''a'' ''10.42.0.1'' False],
    nt_authorities := [\<lparr>au_node = ''nd-a'', au_granted = 1, au_revoked = None, au_hash = ''h'', au_secret = Some ''z''\<rparr>]\<rparr>"

definition demo_heard :: "applied \<times> net_db" where
  "demo_heard = roster_apply 10 (roster_of_this_node (net_demo_env 10 [] []) demo_authority) demo_joined"

lemma demo_joined_sound: "nodes_sound (nt_nodes demo_joined)"
  by code_simp

lemma demo_joined_rows: "map_option nd_id (node_me demo_joined) = Some ''nd-c''" "au_node ` set (nt_authorities demo_joined) = {''nd-a''}"
  by code_simp+


theorem members_know_each_other_witness:
  "\<exists>k. node_find (snd demo_heard) ''nd-b'' = Some k \<and> public_key k = Some ''kb''"
proof -
  have sound: "net_sound demo_authority" by code_simp
  have "list_all (\<lambda>k. overlay_ip k = None \<or> (case node_find demo_authority (nd_id k) of Some n \<Rightarrow> overlay_ip n = overlay_ip k | None \<Rightarrow> False))
      (nt_nodes demo_joined)" by code_simp
  then have known: "known_addresses demo_authority demo_joined"
    by (auto simp: known_addresses_def list_all_iff split: option.splits)
  let ?b = "demo_peer ''nd-b'' ''b'' ''10.42.0.2'' False"
  have b: "?b \<in> set (nt_nodes demo_authority)" "Some (nd_id ?b) \<in> en_used_by ` set (nt_enrolments demo_authority)" "public_key ?b = Some ''kb''"
    "overlay_ip ?b \<noteq> None" "nd_id ?b = ''nd-b''"
    by (simp_all add: demo_authority_def demo_peer_def demo_enrolment_def)
  have heard: "roster_apply 10 (roster_of_this_node (net_demo_env 10 [] []) demo_authority) demo_joined = (fst demo_heard, snd demo_heard)"
    by (simp add: demo_heard_def)
  have "Some (nd_id ?b) \<noteq> map_option nd_id (node_me demo_joined)" "nd_id ?b \<notin> au_node ` set (nt_authorities demo_joined)"
    unfolding demo_joined_rows b(5) by simp_all
  then show ?thesis
    using members_know_each_other [OF sound demo_joined_sound known heard, THEN conjunct2, rule_format, OF b(1,2)] b(3-5) by auto
qed

end
