(* ===== verification/Reporting.thy ===== *)
theory Reporting
  imports Learning
begin

text \<open>
  What a node reports to the nodes that may configure it, and what they make of it: report_for, hear
  and report_now of infra/network/collect.rs, record and unclaimed of infra/network/api.rs, and the
  endpoint of web/remote_node_rest_controller.rs. The meters of the machine are arguments, and so is
  whether the call and its answer arrive.
\<close>

section \<open>What a node says it holds (collect.rs)\<close>

record readings =
  rd_memory :: "string \<Rightarrow> u64 option"
  rd_disk :: "string \<Rightarrow> u64 option"
  rd_cpu :: "string \<Rightarrow> u32 option"
  rd_usage :: usage_report
  rd_capacity :: "capacity option"
  rd_note :: string

definition copies_of :: "readings \<Rightarrow> project \<Rightarrow> estate \<Rightarrow> replica_state list" where
  "copies_of m p e = concat (map (\<lambda>s. map (\<lambda>r.
       let c = replica_container_id r (project_slug p) (service_slug s) in
       \<lparr>rs_project = project_name p, rs_service = service_name s, rs_slot = slot r, rs_address = address r,
        rs_overlay_port = overlay_port r, rs_error = last_error r, rs_evicted = evicted r, rs_memory = rd_memory m c,
        rs_disk = rd_disk m c, rs_cpu = rd_cpu m c\<rparr>)
     (filter is_here (rows_of_service (replica_rows e) (service_id s))))
   (services_all e (Some (project_id p))))"

definition report_for :: "net_env \<Rightarrow> readings \<Rightarrow> string \<Rightarrow> estate \<Rightarrow> net_db \<Rightarrow> node_report \<times> net_db" where
  "report_for n m authority e db =
    (case dial_secret_for n authority db of (dial, db') \<Rightarrow>
      (\<lparr>rp_replicas = concat (map (\<lambda>p. copies_of m p e)
          (filter (\<lambda>p. origin_node_id p = Some authority) (projects_all (org e)))),
        rp_endpoint = Some (case Option.bind (node_me db) endpoint of Some at \<Rightarrow> at | None \<Rightarrow> []),
        rp_usage = Some (rd_usage m), rp_capacity = rd_capacity m,
        rp_allows = Some (capability_to_list (granted_to (nt_grants db) authority)), rp_lan = Some (ne_lan n),
        rp_ca = ne_ca n, rp_version = Some (ne_version n), rp_note = Some (rd_note m), rp_dial = Some dial,
        rp_name_servers = Some (of_this_node (nt_grants db))\<rparr>, db'))"

definition hear :: "string \<Rightarrow> string option \<Rightarrow> net_db \<Rightarrow> net_db" where
  "hear authority said db =
    (case said of None \<Rightarrow> db | Some l \<Rightarrow> snd (accept_allows authority (capability_parse_list l) db))"

text \<open>One report: the call may come to nothing, or be answered with what the other lets this node ask.\<close>

definition report_to :: "net_env \<Rightarrow> readings \<Rightarrow> string \<Rightarrow> (node_report \<Rightarrow> string option option) \<Rightarrow> estate \<Rightarrow> net_db \<Rightarrow> net_db" where
  "report_to n m authority send e db =
    (case report_for n m authority e db of (report, db) \<Rightarrow>
      (case send report of None \<Rightarrow> db | Some said \<Rightarrow> hear authority said db))"

section \<open>What the other makes of it (api.rs)\<close>

definition reported_copy :: "string \<Rightarrow> replica_state \<Rightarrow> estate \<Rightarrow> replica option" where
  "reported_copy node st e =
    (case List.find (\<lambda>p. project_name p = rs_project st) (projects_all (org e)) of None \<Rightarrow> None
     | Some p \<Rightarrow> (case in_project e (project_id p) (slug_of (rs_service st)) of None \<Rightarrow> None
     | Some s \<Rightarrow> (case in_slot (replica_rows e) (service_id s) (rs_slot st) of None \<Rightarrow> None
     | Some r \<Rightarrow> if node_id r = Some node then Some r else None)))"

definition record_state :: "int \<Rightarrow> string \<Rightarrow> replica_state \<Rightarrow> estate \<Rightarrow> bool \<times> estate" where
  "record_state now node st e =
    (case reported_copy node st e of None \<Rightarrow> (False, e) | Some r \<Rightarrow>
      let changed = (if rs_evicted st then evicted_at r = None
            else address r \<noteq> rs_address st \<or> overlay_port r \<noteq> rs_overlay_port st \<or> last_error r \<noteq> rs_error st);
          rows = replica_rows e;
          rows = (if \<not> rs_evicted st \<and> memory_bytes r \<noteq> rs_memory st then set_memory (replica_id r) (rs_memory st) rows else rows);
          rows = (if \<not> rs_evicted st \<and> disk_bytes r \<noteq> rs_disk st then set_disk (replica_id r) (rs_disk st) rows else rows);
          rows = (if \<not> rs_evicted st \<and> rs_cpu st \<noteq> None \<and> replica_cpu r \<noteq> rs_cpu st
            then set_cpu (replica_id r) (rs_cpu st) rows else rows);
          rows = (if \<not> changed then rows
            else if rs_evicted st then evict (replica_id r) now rows
            else set_last_error (replica_id r) (rs_error st)
              (set_overlay_port (replica_id r) (rs_overlay_port st) (set_address (replica_id r) (rs_address st) rows))) in
      (changed, e\<lparr>replica_rows := rows\<rparr>))"

definition record_all :: "int \<Rightarrow> string \<Rightarrow> replica_state list \<Rightarrow> estate \<Rightarrow> nat \<times> estate" where
  "record_all now node states e =
    fold (\<lambda>st (n, e). case record_state now node st e of (changed, e) \<Rightarrow> (n + of_bool changed, e)) states (0, e)"

text \<open>The services of this node that the other holds a copy of, which no row here says it does.\<close>

definition unclaimed :: "estate \<Rightarrow> string \<Rightarrow> replica_state list \<Rightarrow> service list" where
  "unclaimed e node reported =
    fold (\<lambda>st found.
      if rs_evicted st then found
      else case List.find (\<lambda>p. project_name p = rs_project st) (projects_all (org e)) of None \<Rightarrow> found
      | Some p \<Rightarrow> (case in_project e (project_id p) (slug_of (rs_service st)) of None \<Rightarrow> found
      | Some s \<Rightarrow>
          if \<not> service_is_ours s \<or> list_ex (\<lambda>h. service_id h = service_id s) found then found
          else if (case in_slot (replica_rows e) (service_id s) (rs_slot st) of
              Some r \<Rightarrow> node_id r = Some node \<and> \<not> evicted r | None \<Rightarrow> False) then found
          else found @ [s])) reported []"

text \<open>
  The endpoint: what is left, whether the routes are derived again, whose placement is sent again, and
  what the reporting node is told it may ask here.
\<close>

definition report_answer :: "net_env \<Rightarrow> string \<Rightarrow> node_report \<Rightarrow> estate \<times> net_db
    \<Rightarrow> (net_refusal + bool \<times> service list \<times> string) \<times> estate \<times> net_db" where
  "report_answer n secret report s =
    (case s of (e, db) \<Rightarrow>
     case asking n secret db of Inl r \<Rightarrow> (Inl r, e, db) | Inr node \<Rightarrow>
     (case report_rows (ne_now n) node report db of
        (False, db) \<Rightarrow> (Inl NetStorage, e, db)
      | (True, db) \<Rightarrow>
          (case record_all (ne_now n) node (rp_replicas report) e of (recorded, e) \<Rightarrow>
            (Inr (0 < recorded, unclaimed e node (rp_replicas report),
               capability_to_list (granted_to (nt_grants db) node)), e, db))))"

section \<open>What a report changes\<close>

definition recorded_row :: "int \<Rightarrow> replica_state \<Rightarrow> replica \<Rightarrow> replica" where
  "recorded_row now st r =
    (if rs_evicted st then if evicted_at r = None then r\<lparr>evicted_at := Some now, address := None\<rparr> else r
     else r\<lparr>memory_bytes := rs_memory st, disk_bytes := rs_disk st,
       replica_cpu := (if rs_cpu st \<noteq> None then rs_cpu st else replica_cpu r),
       address := rs_address st, overlay_port := rs_overlay_port st, last_error := rs_error st\<rparr>)"

lemma in_slot_iff:
  assumes "replica_table rows"
  shows "in_slot rows svc n = Some r \<longleftrightarrow> r \<in> set rows \<and> replica_service r = svc \<and> slot r = n"
proof
  assume "in_slot rows svc n = Some r"
  then show "r \<in> set rows \<and> replica_service r = svc \<and> slot r = n"
    by (auto simp: in_slot_def rows_of_service_def dest: find_SomeD)
next
  assume r: "r \<in> set rows \<and> replica_service r = svc \<and> slot r = n"
  then have "in_slot rows svc n \<noteq> None" by (auto simp: in_slot_def rows_of_service_def find_None_iff)
  then obtain q where q: "in_slot rows svc n = Some q" by blast
  then have "q \<in> set rows" "replica_service q = svc" "slot q = n"
    by (auto simp: in_slot_def rows_of_service_def dest: find_SomeD)
  then have "q = r" using assms r inj_onD [of "\<lambda>r. (replica_service r, slot r)" "set rows" q r]
    by (simp add: replica_table_def distinct_map)
  with q show "in_slot rows svc n = Some r" by simp
qed

lemma table_ids: "replica_table rows \<Longrightarrow> q \<in> set rows \<Longrightarrow> r \<in> set rows \<Longrightarrow> replica_id q = replica_id r \<Longrightarrow> q = r"
  unfolding replica_table_def distinct_map by (blast dest: inj_onD)

lemma reported_copy_SomeD:
  assumes "replica_table (replica_rows e)" "reported_copy node st e = Some r"
  obtains p s where "List.find (\<lambda>p. project_name p = rs_project st) (projects_all (org e)) = Some p"
    "in_project e (project_id p) (slug_of (rs_service st)) = Some s" "r \<in> set (replica_rows e)"
    "replica_service r = service_id s" "slot r = rs_slot st" "node_id r = Some node"
  using assms by (auto simp: reported_copy_def in_slot_iff split: option.splits if_splits)

lemma update_row_id [simp]: "update_row i id rows = rows"
  unfolding update_row_def by (rule map_idI) simp

lemma update_row_if: "(if c then update_row i f rows else rows) = update_row i (if c then f else id) rows"
  by (cases c) simp_all

lemma update_row_twice:
  "(\<And>q. replica_id (g q) = replica_id q) \<Longrightarrow> update_row i f (update_row i g rows) = update_row i (f \<circ> g) rows"
  by (simp add: update_row_def)

lemma update_row_own:
  assumes "replica_table rows" "r \<in> set rows"
  shows "update_row (replica_id r) f rows = map (\<lambda>q. if q = r then f r else q) rows"
  unfolding update_row_def using table_ids [OF assms(1) _ assms(2)] by (intro map_cong) auto

lemma record_state_rows:
  assumes table: "replica_table (replica_rows e)" and r: "reported_copy node st e = Some r"
  shows "snd (record_state now node st e) =
    e\<lparr>replica_rows := map (\<lambda>q. if q = r then recorded_row now st r else q) (replica_rows e)\<rparr>"
proof -
  have in_r: "r \<in> set (replica_rows e)" by (rule reported_copy_SomeD [OF assms])
  let ?changed = "if rs_evicted st then evicted_at r = None
    else address r \<noteq> rs_address st \<or> overlay_port r \<noteq> rs_overlay_port st \<or> last_error r \<noteq> rs_error st"
  let ?m = "if \<not> rs_evicted st \<and> memory_bytes r \<noteq> rs_memory st then (\<lambda>q. q\<lparr>memory_bytes := rs_memory st\<rparr>) else id"
  let ?d = "if \<not> rs_evicted st \<and> disk_bytes r \<noteq> rs_disk st then (\<lambda>q. q\<lparr>disk_bytes := rs_disk st\<rparr>) else id"
  let ?c = "if \<not> rs_evicted st \<and> rs_cpu st \<noteq> None \<and> replica_cpu r \<noteq> rs_cpu st then (\<lambda>q. q\<lparr>replica_cpu := rs_cpu st\<rparr>) else id"
  let ?w = "if \<not> ?changed then id
    else if rs_evicted st then (\<lambda>q. if evicted_at q = None then q\<lparr>evicted_at := Some now, address := None\<rparr> else q)
    else (\<lambda>q. q\<lparr>address := rs_address st, overlay_port := rs_overlay_port st, last_error := rs_error st\<rparr>)"
  have ids: "replica_id (?m q) = replica_id q" "replica_id (?d q) = replica_id q" "replica_id (?c q) = replica_id q" for q
    by simp_all
  have last: "(if \<not> ?changed then rows else if rs_evicted st then evict (replica_id r) now rows
      else set_last_error (replica_id r) (rs_error st) (set_overlay_port (replica_id r) (rs_overlay_port st)
        (set_address (replica_id r) (rs_address st) rows))) = update_row (replica_id r) ?w rows" for rows
    by (simp add: evict_def set_last_error_def set_overlay_port_def set_address_def update_row_twice comp_def)
  have "snd (record_state now node st e) = e\<lparr>replica_rows := update_row (replica_id r) (?w \<circ> (?c \<circ> (?d \<circ> ?m))) (replica_rows e)\<rparr>"
    unfolding record_state_def r option.case Let_def snd_conv last set_memory_def set_disk_def set_cpu_def update_row_if
    using ids by (subst update_row_twice, simp)+ (rule refl)
  also have "\<dots> = e\<lparr>replica_rows := map (\<lambda>q. if q = r then (?w \<circ> (?c \<circ> (?d \<circ> ?m))) r else q) (replica_rows e)\<rparr>"
    by (simp only: update_row_own [OF table in_r])
  also have "(?w \<circ> (?c \<circ> (?d \<circ> ?m))) r = recorded_row now st r"
    by (cases "rs_evicted st") (auto simp: recorded_row_def)
  finally show ?thesis .
qed

lemma record_state_none: "reported_copy node st e = None \<Longrightarrow> snd (record_state now node st e) = e"
  by (simp add: record_state_def)

definition state_key :: "replica_state \<Rightarrow> string \<times> string \<times> u32" where
  "state_key st = (rs_project st, slug_of (rs_service st), rs_slot st)"

lemma recorded_row_simps [simp]:
  "replica_id (recorded_row now st r) = replica_id r" "replica_service (recorded_row now st r) = replica_service r"
  "slot (recorded_row now st r) = slot r" "node_id (recorded_row now st r) = node_id r"
  by (simp_all add: recorded_row_def)

text \<open>The copy a state is about does not move while states are recorded, and is another for another state.\<close>

lemma recorded_table:
  assumes "replica_table rows"
  shows "replica_table (map (\<lambda>q. if q = r then recorded_row now st r else q) rows)"
proof -
  let ?f = "\<lambda>q. if q = r then recorded_row now st r else q"
  have "map replica_id (map ?f rows) = map replica_id rows"
    "map (\<lambda>r. (replica_service r, slot r)) (map ?f rows) = map (\<lambda>r. (replica_service r, slot r)) rows"
    by auto
  then show ?thesis using assms unfolding replica_table_def by (simp only:)
qed

lemma reported_copy_after:
  assumes "replica_table (replica_rows e)" "reported_copy node st2 e = Some q"
  shows "reported_copy node st2 (e\<lparr>replica_rows := map (\<lambda>q. if q = r then recorded_row now st r else q) (replica_rows e)\<rparr>) =
    Some (if q = r then recorded_row now st r else q)"
proof -
  let ?rows = "map (\<lambda>q. if q = r then recorded_row now st r else q) (replica_rows e)"
  obtain p s where s: "List.find (\<lambda>p. project_name p = rs_project st2) (projects_all (org e)) = Some p"
    "in_project e (project_id p) (slug_of (rs_service st2)) = Some s" "q \<in> set (replica_rows e)"
    "replica_service q = service_id s" "slot q = rs_slot st2" "node_id q = Some node"
    by (rule reported_copy_SomeD [OF assms])
  have "in_slot ?rows (service_id s) (rs_slot st2) = Some (if q = r then recorded_row now st r else q)"
    unfolding in_slot_iff [OF recorded_table [OF assms(1)]] using s(3-5) by auto
  then show ?thesis using s(1,2,6) by (auto simp: reported_copy_def in_project_def)
qed

lemma reported_copy_key:
  assumes whole: "estate_whole e" and st: "reported_copy node st e = Some r" "reported_copy node st2 e = Some r"
  shows "state_key st = state_key st2"
proof -
  have table: "replica_table (replica_rows e)" using whole by (simp add: estate_whole_def)
  obtain p s where s: "List.find (\<lambda>p. project_name p = rs_project st) (projects_all (org e)) = Some p"
    "in_project e (project_id p) (slug_of (rs_service st)) = Some s" "replica_service r = service_id s" "slot r = rs_slot st"
    by (rule reported_copy_SomeD [OF table st(1)])
  obtain p2 s2 where s2: "List.find (\<lambda>p. project_name p = rs_project st2) (projects_all (org e)) = Some p2"
    "in_project e (project_id p2) (slug_of (rs_service st2)) = Some s2" "replica_service r = service_id s2" "slot r = rs_slot st2"
    by (rule reported_copy_SomeD [OF table st(2)])
  have found: "s \<in> set (service_rows e)" "service_project s = project_id p" "service_slug s = slug_of (rs_service st)"
    "s2 \<in> set (service_rows e)" "service_project s2 = project_id p2" "service_slug s2 = slug_of (rs_service st2)"
    using s(2) s2(2) by (auto simp: in_project_def dest: find_SomeD)
  have "inj_on service_id (set (service_rows e))" using whole by (simp add: estate_whole_def distinct_map)
  then have same: "s = s2" using found(1,4) s(3) s2(3) by (simp add: inj_onD)
  have in_p: "p \<in> set (projects_all (org e))" "project_name p = rs_project st" "p2 \<in> set (projects_all (org e))" "project_name p2 = rs_project st2"
    using find_SomeD [OF s(1)] find_SomeD [OF s2(1)] by auto
  have "distinct (map project_id (projects (org e)))" using whole by (simp add: estate_whole_def org_whole_def)
  then have "inj_on project_id (set (projects_all (org e)))"
    unfolding projects_all_def set_sort set_map distinct_map inj_on_def by (auto simp: decode_project_def project.defs)
  then have "p = p2" using in_p(1,3) found(2,5) same by (simp add: inj_onD)
  then show ?thesis using in_p(2,4) found(3,6) same s(4) s2(4) by (simp add: state_key_def)
qed

definition row_untouched :: "string \<Rightarrow> replica \<Rightarrow> replica \<Rightarrow> bool" where
  "row_untouched node q q' \<longleftrightarrow> replica_id q' = replica_id q \<and> replica_service q' = replica_service q \<and> slot q' = slot q \<and>
    node_id q' = node_id q \<and> (node_id q \<noteq> Some node \<longrightarrow> q' = q)"

definition as_reported :: "replica_state \<Rightarrow> replica \<Rightarrow> bool" where
  "as_reported st q \<longleftrightarrow> (if rs_evicted st then evicted q
    else address q = rs_address st \<and> overlay_port q = rs_overlay_port st \<and> last_error q = rs_error st \<and>
      memory_bytes q = rs_memory st \<and> disk_bytes q = rs_disk st \<and> (rs_cpu st \<noteq> None \<longrightarrow> replica_cpu q = rs_cpu st))"

lemma as_reported_record: "as_reported st (recorded_row now st r)"
  by (auto simp: as_reported_def recorded_row_def evicted_def)

lemma row_untouched_refl: "list_all2 (row_untouched node) rows rows"
  by (rule list_all2_refl) (simp add: row_untouched_def)

lemma row_untouched_trans: "list_all2 (row_untouched node) a b \<Longrightarrow> list_all2 (row_untouched node) b c \<Longrightarrow> list_all2 (row_untouched node) a c"
  by (rule list_all2_trans) (auto simp: row_untouched_def)

text \<open>One state: the estate stays whole, only the copy it is about moves, and that copy says what was reported.\<close>

lemma record_state_step:
  assumes whole: "estate_whole e" and e': "e' = snd (record_state now node st e)"
  shows "estate_whole e'" "list_all2 (row_untouched node) (replica_rows e) (replica_rows e')"
    "e' = e\<lparr>replica_rows := replica_rows e'\<rparr>"
    "reported_copy node st2 e = Some q \<Longrightarrow> state_key st2 \<noteq> state_key st \<Longrightarrow> reported_copy node st2 e' = Some q"
    "reported_copy node st e = Some q \<Longrightarrow> \<exists>q'. reported_copy node st e' = Some q' \<and> replica_id q' = replica_id q \<and> as_reported st q'"
proof -
  have table: "replica_table (replica_rows e)" using whole by (simp add: estate_whole_def)
  have all: "estate_whole e' \<and> list_all2 (row_untouched node) (replica_rows e) (replica_rows e') \<and> e' = e\<lparr>replica_rows := replica_rows e'\<rparr> \<and>
    (reported_copy node st2 e = Some q \<longrightarrow> state_key st2 \<noteq> state_key st \<longrightarrow> reported_copy node st2 e' = Some q) \<and>
    (reported_copy node st e = Some q \<longrightarrow> (\<exists>q'. reported_copy node st e' = Some q' \<and> replica_id q' = replica_id q \<and> as_reported st q'))"
  proof (cases "reported_copy node st e")
    case None
    then show ?thesis using whole row_untouched_refl by (simp add: e' record_state_none)
  next
    case (Some r)
    let ?rows = "map (\<lambda>q. if q = r then recorded_row now st r else q) (replica_rows e)"
    have eq: "e' = e\<lparr>replica_rows := ?rows\<rparr>" unfolding e' by (rule record_state_rows [OF table Some])
    have "node_id r = Some node" by (rule reported_copy_SomeD [OF table Some])
    then have moved: "list_all2 (row_untouched node) (replica_rows e) ?rows"
      by (auto simp: list_all2_map2 row_untouched_def intro!: list_all2_refl)
    have "replica_service ` set ?rows = replica_service ` set (replica_rows e)"
      by (simp only: set_map image_image if_distrib [of replica_service] recorded_row_simps) (rule image_cong, auto)
    then have "estate_whole e'" using whole recorded_table [OF table, of r now st] by (simp add: eq estate_whole_def)
    moreover have "reported_copy node st2 e' = Some q" if "reported_copy node st2 e = Some q" "state_key st2 \<noteq> state_key st"
    proof -
      have "q \<noteq> r" using reported_copy_key [OF whole that(1), of st] Some that(2) by auto
      then show ?thesis using reported_copy_after [OF table that(1), of r now st] by (simp add: eq)
    qed
    moreover have "\<exists>q'. reported_copy node st e' = Some q' \<and> replica_id q' = replica_id q \<and> as_reported st q'" if "reported_copy node st e = Some q"
      using reported_copy_after [OF table Some, of r now st] that Some by (simp add: eq as_reported_record)
    ultimately show ?thesis using moved by (simp add: eq)
  qed
  then show "estate_whole e'" "list_all2 (row_untouched node) (replica_rows e) (replica_rows e')" "e' = e\<lparr>replica_rows := replica_rows e'\<rparr>"
    "reported_copy node st2 e = Some q \<Longrightarrow> state_key st2 \<noteq> state_key st \<Longrightarrow> reported_copy node st2 e' = Some q"
    "reported_copy node st e = Some q \<Longrightarrow> \<exists>q'. reported_copy node st e' = Some q' \<and> replica_id q' = replica_id q \<and> as_reported st q'"
    by blast+
qed

lemma record_all_cons:
  "snd (fold (\<lambda>st (n, e). case record_state now node st e of (changed, e) \<Rightarrow> (n + of_bool changed, e)) states (n, e)) =
    fold (\<lambda>st e. snd (record_state now node st e)) states e"
  by (induction states arbitrary: n e) (simp_all add: case_prod_beta)

lemma record_all_estate: "snd (record_all now node states e) = fold (\<lambda>st e. snd (record_state now node st e)) states e"
  unfolding record_all_def by (rule record_all_cons)

lemma record_fold_rows:
  "estate_whole e \<Longrightarrow> list_all2 (row_untouched node) (replica_rows e) (replica_rows (fold (\<lambda>st e. snd (record_state now node st e)) states e))"
proof (induction states arbitrary: e)
  case (Cons st states)
  note step = record_state_step(1,2) [OF Cons.prems refl, where now = now and node = node and st = st]
  show ?case using row_untouched_trans [OF step(2) Cons.IH [OF step(1)]] by simp
qed (simp add: row_untouched_refl)

definition same_tables :: "estate \<Rightarrow> estate \<Rightarrow> bool" where
  "same_tables e e' \<longleftrightarrow> org e' = org e \<and> tenant_rows e' = tenant_rows e \<and> service_rows e' = service_rows e \<and>
    invitation_rows e' = invitation_rows e"

lemma record_fold_tables:
  "estate_whole e \<Longrightarrow> same_tables e (fold (\<lambda>st e. snd (record_state now node st e)) states e)"
proof (induction states arbitrary: e)
  case (Cons st states)
  let ?e = "snd (record_state now node st e)"
  have "same_tables e ?e" by (simp add: record_state_def Let_def same_tables_def split: option.split)
  then show ?case using Cons.IH [OF record_state_step(1) [OF Cons.prems refl, where now = now and node = node and st = st]] by (simp add: same_tables_def)
qed (simp add: same_tables_def)

lemma record_fold_kept:
  assumes "estate_whole e" "state_key st2 \<notin> state_key ` set states" "reported_copy node st2 e = Some q"
  shows "reported_copy node st2 (fold (\<lambda>st e. snd (record_state now node st e)) states e) = Some q"
  using assms
proof (induction states arbitrary: e)
  case (Cons st states)
  note step = record_state_step(1,4) [OF Cons.prems(1) refl, where now = now and node = node and st = st]
  show ?case using Cons.IH [OF step(1) _ step(2) [OF Cons.prems(3)]] Cons.prems(2) by auto
qed simp

lemma record_fold_says:
  assumes "estate_whole e" "distinct (map state_key states)" "st \<in> set states" "reported_copy node st e = Some q"
  shows "\<exists>q'. reported_copy node st (fold (\<lambda>st e. snd (record_state now node st e)) states e) = Some q' \<and>
    replica_id q' = replica_id q \<and> as_reported st q'"
  using assms
proof (induction states arbitrary: e)
  case (Cons p states)
  note whole = record_state_step(1) [OF Cons.prems(1) refl, where now = now and node = node and st = p]
  show ?case
  proof (cases "st = p")
    case True
    obtain q' where q': "reported_copy node st (snd (record_state now node p e)) = Some q'" "replica_id q' = replica_id q" "as_reported st q'"
      using record_state_step(5) [OF Cons.prems(1) refl, where now = now and node = node and st = p] Cons.prems(4) True by blast
    have "state_key st \<notin> state_key ` set states" using Cons.prems(2) True by simp
    then show ?thesis using record_fold_kept [OF whole _ q'(1), of states now] q'(2,3) by simp
  next
    case False
    then have st: "st \<in> set states" using Cons.prems(3) by auto
    then have "state_key st \<in> state_key ` set states" by (rule imageI)
    then have "state_key st \<noteq> state_key p" using Cons.prems(2) by auto
    with st show ?thesis
      using Cons.IH [OF whole] record_state_step(4) [OF Cons.prems(1) refl Cons.prems(4), where now = now and st = p] Cons.prems(2) by simp
  qed
qed simp

text \<open>
  Property C18. A report is recorded, and no more than it may say: over a whole estate, recording what a
  node reports changes no table but that of the copies, and there no row but those placed on that
  node, of which service, slot and place stay; and each copy of that node that a state of the report
  is about, each being about another one, is afterwards as it was reported.
\<close>

theorem a_report_is_recorded:
  assumes whole: "estate_whole e" and keys: "distinct (map state_key states)"
    and ran: "record_all now node states e = (n, e')"
  shows "same_tables e e' \<and> list_all2 (row_untouched node) (replica_rows e) (replica_rows e') \<and>
    (\<forall>st\<in>set states. \<forall>q. reported_copy node st e = Some q \<longrightarrow>
      (\<exists>q'\<in>set (replica_rows e'). replica_id q' = replica_id q \<and> as_reported st q'))"
proof -
  have e': "e' = fold (\<lambda>st e. snd (record_state now node st e)) states e" using record_all_estate [of now node states e] ran by simp
  have rows: "list_all2 (row_untouched node) (replica_rows e) (replica_rows e')" unfolding e' by (rule record_fold_rows [OF whole])
  have tables: "same_tables e e'" unfolding e' by (rule record_fold_tables [OF whole])
  have "\<exists>q'\<in>set (replica_rows e'). replica_id q' = replica_id q \<and> as_reported st q'"
    if st: "st \<in> set states" "reported_copy node st e = Some q" for st q
  proof -
    obtain q' where q': "reported_copy node st e' = Some q'" "replica_id q' = replica_id q" "as_reported st q'"
      using record_fold_says [OF whole keys st] unfolding e' by blast
    have "q' \<in> set (replica_rows e')"
      using q'(1) by (auto simp: reported_copy_def in_slot_def rows_of_service_def dest!: find_SomeD split: option.splits if_splits)
    with q' show ?thesis by blast
  qed
  with rows tables show ?thesis by blast
qed

text \<open>A project of node \<open>nd-a\<close> or of this one, with a copy of its service here and one on \<open>nd-c\<close>.\<close>

definition demo_held :: "string option \<Rightarrow> estate" where
  "demo_held origin = \<lparr>org = \<lparr>projects = [\<lparr>project_id = ''p'', project_name = ''shop'', project_slug = ''shop'', created_at = 0,
      origin_node_id = origin, project_tenant = None, network_index = None, registry_domain = None\<rparr>],
      memberships = [], accounts = []\<rparr>, tenant_rows = [], service_rows = [demo_site],
    replica_rows = [(demo_copy ''r1'' 1)\<lparr>address := Some ''10.42.7.2''\<rparr>, (demo_copy ''r2'' 2)\<lparr>node_id := Some ''nd-c''\<rparr>],
    invitation_rows = []\<rparr>"

definition demo_state :: replica_state where
  "demo_state = \<lparr>rs_project = ''shop'', rs_service = ''web'', rs_slot = 2, rs_address = Some ''10.42.9.2'', rs_overlay_port = Some 30001,
    rs_error = None, rs_evicted = False, rs_memory = Some 7, rs_disk = None, rs_cpu = Some 3\<rparr>"

theorem a_report_is_recorded_witness:
  "\<exists>q\<in>set (replica_rows (snd (record_all 9 ''nd-c'' [demo_state] (demo_held None)))).
    replica_id q = ''r2'' \<and> address q = Some ''10.42.9.2'' \<and> replica_cpu q = Some 3"
proof -
  have whole: "estate_whole (demo_held None)"
    by (simp add: estate_whole_def org_whole_def replica_table_def demo_held_def demo_site_def demo_copy_def)
  have "map_option replica_id (reported_copy ''nd-c'' demo_state (demo_held None)) = Some ''r2''" by code_simp
  then obtain q where q: "reported_copy ''nd-c'' demo_state (demo_held None) = Some q" "replica_id q = ''r2''" by auto
  have keys: "distinct (map state_key [demo_state])" by simp
  obtain n e' where ran: "record_all 9 ''nd-c'' [demo_state] (demo_held None) = (n, e')" by fastforce
  have "\<exists>q'\<in>set (replica_rows e'). replica_id q' = replica_id q \<and> as_reported demo_state q'"
    using a_report_is_recorded [OF whole keys ran] q(1) by simp
  then show ?thesis unfolding ran snd_conv q(2) by (auto simp: as_reported_def demo_state_def)
qed

section \<open>What each side learns\<close>

lemma dial_secret_again:
  assumes "dial_secret_for n k db = (d, db')"
  shows "dial_secret_for n j db' = (ne_hash n (the (setting_read (nt_grants db') DIAL_KEY) @ '':'' @ j), db')"
    "d = ne_hash n (the (setting_read (nt_grants db') DIAL_KEY) @ '':'' @ k)"
    "nt_nodes db' = nt_nodes db" "nt_authorities db' = nt_authorities db" "node_grant (nt_grants db') = node_grant (nt_grants db)"
    "node_grant_withdrawn (nt_grants db') = node_grant_withdrawn (nt_grants db)" "setting_read (nt_grants db') DIAL_KEY \<noteq> None"
  using assms by (auto simp: dial_secret_for_def Let_def setting_read_def setting_write_def update_conv' split: option.splits)

lemma who_dialled_from_known:
  assumes known: "\<And>j. dial_secret_for n j db = (ne_hash n (key @ '':'' @ j), db)"
    and k: "k \<in> set rows" "au_revoked k = None"
    and apart: "\<forall>j\<in>set rows. au_revoked j = None \<longrightarrow> ne_hash n (key @ '':'' @ au_node j) = ne_hash n (key @ '':'' @ au_node k) \<longrightarrow> au_node j = au_node k"
  shows "who_dialled_from n (ne_hash n (key @ '':'' @ au_node k)) rows db = (Some (au_node k), db)"
  using k apart
proof (induction rows)
  case (Cons a rows)
  show ?case
  proof (cases "au_revoked a = None \<and> ne_hash n (key @ '':'' @ au_node a) = ne_hash n (key @ '':'' @ au_node k)")
    case True
    then show ?thesis using Cons.prems(3) by (simp add: known)
  next
    case False
    then have "k \<in> set rows" using Cons.prems(1,2) by auto
    then show ?thesis using Cons False by (auto simp: known)
  qed
qed simp

lemma capability_list_back [simp]: "capability_parse_list (capability_to_list cs) = cs"
  unfolding capability_to_list_def by (rule parse_list_names)

lemma report_rows_found:
  assumes ran: "report_rows now i report db = (True, db')" and i: "node_find db i = Some k"
    and dial: "rp_dial report = Some d" "d \<noteq> []" and l: "rp_allows report = Some (capability_to_list cs)"
  shows "\<exists>row. node_find db' i = Some row \<and> allows row = cs \<and> nd_dial row = Some d \<and> nt_grants db' = nt_grants db \<and>
    endpoint row = reported_endpoint (rp_endpoint report) (endpoint k)"
proof -
  let ?a = "remember_dial_secret i d db"
  let ?b = "case rp_lan report of Some held \<Rightarrow> ?a\<lparr>nt_nodes := lan_remember i held (nt_nodes ?a)\<rparr> | None \<Rightarrow> ?a"
  have id: "nd_id k = i" using node_find_SomeD [OF i] by simp
  have "node_find ?a i = Some (k\<lparr>nd_dial := Some d\<rparr>)" by (simp add: remember_dial_secret_def node_find_edit i id)
  then obtain b where b: "node_find ?b i = Some b" "nd_dial b = Some d" "nd_id b = i" "endpoint b = endpoint k"
    by (cases "rp_lan report") (auto simp: node_find_lan id)
  obtain ok c where c: "note_reachability now i report ?b = (ok, c)" by fastforce
  have ran': "ok = True" "db' = (case rp_name_servers report of
      Some names \<Rightarrow> c\<lparr>nt_nodes := snd (remember_names i names (nt_nodes c))\<rparr> | None \<Rightarrow> c)"
    using ran c by (auto simp: report_rows_def Let_def dial split: bool.splits)
  let ?n = "let reached = reported_endpoint (rp_endpoint report) (endpoint b) in
    b\<lparr>allows := cs, ca_pem := or_else (kept_pem (rp_ca report)) (ca_pem b), nd_usage := or_else (rp_usage report) (nd_usage b),
      node_capacity := or_else (rp_capacity report) (node_capacity b), nd_kind := (if reached \<noteq> None then Public else Private),
      endpoint := reached, last_seen_at := Some now, nd_version := or_else (rp_version report) (nd_version b),
      nd_note := or_else (rp_note report) (nd_note b)\<rparr>"
  have save: "net_save now ?n ?b = (True, c)" using c ran'(1) b(1) by (simp add: note_reachability_def Let_def l)
  have "node_find c i = Some (saved_over ?n b)"
    using node_find_save [of now ?n ?b i] b(1,3) save by (simp add: Let_def)
  moreover have "nd_dial (saved_over ?n b) = Some d" "allows (saved_over ?n b) = cs"
    "endpoint (saved_over ?n b) = reported_endpoint (rp_endpoint report) (endpoint k)"
    using b by (simp_all add: saved_over_def Let_def)
  moreover have "node_find db' i = (case rp_name_servers report of Some names \<Rightarrow>
      node_find (c\<lparr>nt_nodes := snd (remember_names i names (nt_nodes c))\<rparr>) i | None \<Rightarrow> node_find c i)"
    by (simp add: ran'(2) split: option.split)
  moreover have "nt_grants c = nt_grants db"
  proof -
    have "nt_grants c = nt_grants ?b" using net_save_keeps(2) [of now ?n ?b] unfolding save snd_conv .
    also have "\<dots> = nt_grants db" by (simp add: remember_dial_secret_def split: option.split)
    finally show ?thesis .
  qed
  ultimately show ?thesis
    by (auto simp: remember_names_def Let_def node_find_map ran'(2) split: option.splits)
qed

lemma accept_allows_find:
  "node_find (snd (accept_allows h cs db)) i =
    map_option (\<lambda>r. if nd_id r = h \<and> \<not> is_self r \<and> allows r \<noteq> cs then r\<lparr>allows := cs\<rparr> else r) (node_find db i)"
  by (simp add: accept_allows_def Let_def node_find_edit)

lemma accept_allows_rest [simp]:
  "nt_grants (snd (accept_allows h cs db)) = nt_grants db" "nt_authorities (snd (accept_allows h cs db)) = nt_authorities db"
  by (simp_all add: accept_allows_def Let_def)

text \<open>
  Property C19. Each side learns what it may ask of the other: when a node reports to one that may
  configure it, and the report is answered, the other knows of the node exactly what the node grants
  it, and keeps a secret that the node, whatever else it holds, takes for the other's, as long as
  different authorities get different secrets; and where the node has a row of the other, it knows
  exactly what the other grants.
\<close>

theorem each_side_learns_what_it_may_ask:
  assumes reports: "report_for n m h eM M = (report, M1)"
    and node: "asking n' secret A = Inr i"
    and answer: "report_answer n' secret report (eA, A) = (Inr (moved, sent, said), eA', A')"
    and live: "a \<in> set (nt_authorities M)" "au_node a = h" "au_revoked a = None"
    and hash: "inj (ne_hash n)" "\<forall>s. ne_hash n s \<noteq> []"
  shows "\<exists>row d. node_find A' i = Some row \<and> allows row = granted_to (nt_grants M) h \<and> nd_dial row = Some d \<and>
    who_dialled n d (hear h (Some said) M1) = (Some h, hear h (Some said) M1) \<and>
    (\<forall>k. node_find (hear h (Some said) M1) h = Some k \<longrightarrow> \<not> is_self k \<longrightarrow> allows k = granted_to (nt_grants A) i)"
proof -
  obtain d where d: "dial_secret_for n h M = (d, M1)"
    and r: "rp_dial report = Some d" "rp_allows report = Some (capability_to_list (granted_to (nt_grants M) h))"
    using reports by (auto simp: report_for_def split: prod.splits)
  let ?key = "the (setting_read (nt_grants M1) DIAL_KEY)"
  have again: "dial_secret_for n j M1 = (ne_hash n (?key @ '':'' @ j), M1)" for j by (rule dial_secret_again(1) [OF d])
  have is_d: "d = ne_hash n (?key @ '':'' @ h)" by (rule dial_secret_again(2) [OF d])
  obtain k where k: "node_find A i = Some k" using node by (auto simp: asking_def split: option.splits if_splits)
  obtain A1 where rows: "report_rows (ne_now n') i report A = (True, A1)" "A' = A1"
    and said: "said = capability_to_list (granted_to (nt_grants A1) i)"
    using answer node by (auto simp: report_answer_def split: prod.splits bool.splits)
  obtain row where row: "node_find A' i = Some row" "allows row = granted_to (nt_grants M) h" "nd_dial row = Some d" "nt_grants A1 = nt_grants A"
    using report_rows_found [OF rows(1) k r(1) _ r(2)] hash(2) is_d rows(2) by auto
  let ?M = "hear h (Some said) M1"
  have heard: "?M = snd (accept_allows h (granted_to (nt_grants A) i) M1)" by (simp add: hear_def said row(4))
  have known: "dial_secret_for n j ?M = (ne_hash n (?key @ '':'' @ j), ?M)" for j
    using dial_secret_again(7) [OF d] by (auto simp: dial_secret_for_def Let_def heard)
  have "who_dialled_from n (ne_hash n (?key @ '':'' @ au_node a)) (authorities_all ?M) ?M = (Some (au_node a), ?M)"
  proof (rule who_dialled_from_known [OF known])
    show "a \<in> set (authorities_all ?M)" using live(1) dial_secret_again(4) [OF d] by (simp add: heard authorities_all_def)
    show "\<forall>j\<in>set (authorities_all ?M). au_revoked j = None \<longrightarrow>
        ne_hash n (?key @ '':'' @ au_node j) = ne_hash n (?key @ '':'' @ au_node a) \<longrightarrow> au_node j = au_node a"
      using hash(1) by (auto dest: injD)
  qed (rule live(3))
  then have "who_dialled n d ?M = (Some h, ?M)" by (simp add: who_dialled_def is_d live(2))
  moreover have "allows q = granted_to (nt_grants A) i" if "node_find ?M h = Some q" "\<not> is_self q" for q
    using that by (auto simp: heard accept_allows_find dest: node_find_SomeD)
  ultimately show ?thesis using row(1-3) by blast
qed

definition demo_readings :: readings where
  "demo_readings = \<lparr>rd_memory = (\<lambda>_. Some 7), rd_disk = (\<lambda>_. None), rd_cpu = (\<lambda>_. None),
    rd_usage = \<lparr>memory_total = 9, memory_used = 7, disk_total = 9, disk_free = 2\<rparr>, rd_capacity = None, rd_note = []\<rparr>"

definition demo_authority_known :: net_db where
  "demo_authority_known = demo_authority\<lparr>
    nt_enrolments := [(demo_enrolment ''e2'' ''10.42.0.3'' ''nd-c'')\<lparr>en_hash := ''#s''\<rparr>]\<rparr>"

theorem each_side_learns_what_it_may_ask_witness:
  "\<exists>row. node_find (snd (snd (report_answer (net_demo_env 9 [] []) ''s''
      (fst (report_for (net_demo_env 8 [] []) demo_readings ''nd-a'' (demo_held (Some ''nd-a'')) demo_joined))
      (demo_held None, demo_authority_known)))) ''nd-c'' = Some row \<and>
    allows row = granted_to (nt_grants demo_joined) ''nd-a''"
proof -
  let ?n = "net_demo_env 8 [] []" and ?n' = "net_demo_env 9 [] []"
  obtain report M1 where reports: "report_for ?n demo_readings ''nd-a'' (demo_held (Some ''nd-a'')) demo_joined = (report, M1)" by fastforce
  obtain got eA' A' where answered: "report_answer ?n' ''s'' report (demo_held None, demo_authority_known) = (got, eA', A')"
    by (metis prod.exhaust)
  have "case fst (report_answer ?n' ''s'' (fst (report_for ?n demo_readings ''nd-a'' (demo_held (Some ''nd-a'')) demo_joined))
      (demo_held None, demo_authority_known)) of Inl _ \<Rightarrow> False | Inr _ \<Rightarrow> True" by code_simp
  then obtain moved sent said where got: "got = Inr (moved, sent, said)" unfolding reports fst_conv answered by (auto split: sum.splits)
  have node: "asking ?n' ''s'' demo_authority_known = Inr ''nd-c''" by code_simp
  have "inj (ne_hash ?n)" "\<forall>s. ne_hash ?n s \<noteq> []" by (simp_all add: net_demo_env_def inj_def)
  then show ?thesis
    using each_side_learns_what_it_may_ask [OF reports node answered [unfolded got],
      of "\<lparr>au_node = ''nd-a'', au_granted = 1, au_revoked = None, au_hash = ''h'', au_secret = Some ''z''\<rparr>"]
    unfolding reports fst_conv answered snd_conv by (auto simp: demo_joined_def)
qed

end
